(* ===== verification/Prelude.thy ===== *)
theory Prelude
  imports Complex_Main "HOL-Library.AList"
begin

text \<open>
  Shared vocabulary of the development: the collections of rewrite rules that the component
  theories fill, the error values of Python's own exceptions, and the generic facts on lists and
  association lists that several components use.

  Conventions used everywhere. Python's \<open>int\<close> is \<open>int\<close> (unbounded). Python's \<open>float\<close> is
  \<open>real\<close>: the arithmetic of the model is exact, rounding of binary floating point is not modelled.
  Python's \<open>str\<close> is \<open>string\<close>, so text is restricted to the code points below 256. A \<open>dict\<close> that
  is iterated is an association list with distinct keys, because Python keeps insertion order;
  \<open>AList.update\<close> replaces a value in place or appends, as \<open>d[k] = v\<close> does.
\<close>

named_theorems redis_simps
named_theorems breaker_simps

datatype value_error = ValueError string

type_synonym seconds = real

section \<open>Numbers\<close>

text \<open>Python's \<open>round(x, n)\<close>: to the nearest multiple of \<open>10 ^ -n\<close>, ties to the even one.\<close>

definition py_round :: "nat \<Rightarrow> real \<Rightarrow> real" where
  "py_round n x =
     (let y = x * 10 ^ n; f = \<lfloor>y\<rfloor>; r = y - of_int f
      in of_int (if r < 1/2 then f else if r > 1/2 then f + 1 else if even f then f else f + 1) / 10 ^ n)"

lemma py_round_bounds:
  assumes "0 \<le> x" and "x \<le> 1"
  shows "0 \<le> py_round n x \<and> py_round n x \<le> 1"
proof -
  define y where "y = x * 10 ^ n"
  define f where "f = \<lfloor>y\<rfloor>"
  define m where "m = (if y - of_int f < 1 / 2 then f else if y - of_int f > 1 / 2 then f + 1 else if even f then f else f + 1)"
  have y: "0 \<le> y" "y \<le> 10 ^ n" using assms by (simp_all add: y_def mult_left_le_one_le)
  have f: "0 \<le> f" "of_int f \<le> y" using y(1) by (simp_all add: f_def)
  have "m \<le> 10 ^ n"
  proof (cases "m = f")
    case True
    have "of_int f \<le> (10 ^ n :: real)" using f(2) y(2) by linarith
    then show ?thesis using True by simp
  next
    case False
    then have "of_int f < y" using f(2) by (auto simp: m_def split: if_splits)
    then have "of_int f < (10 ^ n :: real)" using y(2) by linarith
    then have "f < 10 ^ n" by simp
    then show ?thesis by (simp add: m_def)
  qed
  then have "of_int m \<le> (10 ^ n :: real)" by simp
  moreover have "0 \<le> m" using f(1) by (simp add: m_def)
  moreover have "py_round n x = of_int m / 10 ^ n" by (simp add: py_round_def m_def f_def y_def Let_def)
  ultimately show ?thesis by simp
qed

section \<open>Dictionaries in insertion order\<close>

abbreviation dict_get :: "('k \<times> 'v) list \<Rightarrow> 'k \<Rightarrow> 'v option" where
  "dict_get d k \<equiv> map_of d k"

abbreviation dict_set :: "'k \<Rightarrow> 'v \<Rightarrow> ('k \<times> 'v) list \<Rightarrow> ('k \<times> 'v) list" where
  "dict_set k v d \<equiv> AList.update k v d"

lemma dict_get_set: "dict_get (dict_set k v d) k' = (if k' = k then Some v else dict_get d k')"
  by (simp add: AList.update_conv')

lemma keys_dict_set_present: "k \<in> fst ` set d \<Longrightarrow> map fst (dict_set k v d) = map fst d"
  by (induction d) auto

section \<open>Lists\<close>

definition all_some :: "'a option list \<Rightarrow> 'a list option" where
  "all_some xs = (if None \<in> set xs then None else Some (map the xs))"


lemma find_snoc: "find P (xs @ [x]) = (case find P xs of Some y \<Rightarrow> Some y | None \<Rightarrow> if P x then Some x else None)"
  by (induction xs) auto

lemma find_hit: "find P xs = Some x \<Longrightarrow> P x \<and> x \<in> set xs"
  by (induction xs) (auto split: if_splits)

lemma in_set_tl: "x \<in> set (tl xs) \<Longrightarrow> x \<in> set xs"
  by (cases xs) auto

lemma length_filter_le_one:
  "(\<And>xs ys x y zs. l = xs @ x # ys @ y # zs \<Longrightarrow> P x \<Longrightarrow> \<not> P y) \<Longrightarrow> length (filter P l) \<le> 1"
proof (induction l)
  case Nil
  then show ?case by simp
next
  case (Cons a l)
  have IH: "length (filter P l) \<le> 1"
    by (rule Cons.IH) (metis Cons.prems append_Cons)
  show ?case
  proof (cases "P a")
    case True
    have "\<not> P y" if "y \<in> set l" for y
    proof -
      from that obtain ys zs where "l = ys @ y # zs" by (auto simp: in_set_conv_decomp)
      then show ?thesis using Cons.prems[of "[]" a ys y zs] True by simp
    qed
    then have "filter P l = []" by (auto simp: filter_empty_conv)
    with True show ?thesis by simp
  next
    case False
    with IH show ?thesis by simp
  qed
qed

end
