(* ===== verification/Text.thy ===== *)
theory Text
  imports Prelude
begin

text \<open>
  The parts of Python's \<open>str\<close> the source uses: white space, \<open>split\<close>, \<open>strip\<close>, \<open>splitlines\<close>,
  \<open>join\<close>, \<open>count\<close> and slicing into pieces of a fixed size, with the facts about words that the
  token estimates and the chunkers rest on. The tables are those of the code points below 256.
\<close>

section \<open>White space, splitting and stripping\<close>

definition is_space :: "char \<Rightarrow> bool" where
  "is_space c \<longleftrightarrow> (let n = (of_char c :: nat) in (9 \<le> n \<and> n \<le> 13) \<or> (28 \<le> n \<and> n \<le> 32) \<or> n = 133 \<or> n = 160)"

lemma is_space_blank [simp]: "is_space CHR '' ''" "is_space CHR 0x0A"
  by (simp_all add: is_space_def)

fun words_from :: "string \<Rightarrow> string \<Rightarrow> string list" where
  "words_from cur [] = (if cur = [] then [] else [rev cur])"
| "words_from cur (c # cs) =
     (if is_space c then (if cur = [] then words_from [] cs else rev cur # words_from [] cs)
      else words_from (c # cur) cs)"

definition split_words :: "string \<Rightarrow> string list" where
  "split_words s = words_from [] s"

definition lstrip :: "string \<Rightarrow> string" where "lstrip = dropWhile is_space"
definition rstrip :: "string \<Rightarrow> string" where "rstrip s = rev (dropWhile is_space (rev s))"
definition strip :: "string \<Rightarrow> string" where "strip s = rstrip (lstrip s)"

text \<open>\<open>s.strip(chars)\<close>\<close>

definition strip_chars :: "string \<Rightarrow> string \<Rightarrow> string" where
  "strip_chars cs s = rev (dropWhile (\<lambda>c. c \<in> set cs) (rev (dropWhile (\<lambda>c. c \<in> set cs) s)))"

primrec join :: "string \<Rightarrow> string list \<Rightarrow> string" where
  "join sep [] = []"
| "join sep (x # xs) = (if xs = [] then x else x @ sep @ join sep xs)"

definition count_char :: "char \<Rightarrow> string \<Rightarrow> nat" where
  "count_char c s = length (filter (\<lambda>x. x = c) s)"

text \<open>\<open>[text[i : i + size] for i in range(0, len(text), size)]\<close>; \<open>range\<close> raises on a step of 0, which no
  caller passes.\<close>

function pieces :: "nat \<Rightarrow> 'a list \<Rightarrow> 'a list list" where
  "pieces k xs = (if k = 0 \<or> xs = [] then [] else take k xs # pieces k (drop k xs))"
  by pat_completeness auto
termination by (relation "measure (\<lambda>(n, xs). length xs)") auto

declare pieces.simps [simp del]

text \<open>\<open>splitlines\<close>: a line ends at LF, CR, CR LF, VT, FF, FS, GS, RS or NEL.\<close>

definition is_line_end :: "char \<Rightarrow> bool" where
  "is_line_end c \<longleftrightarrow> (let n = (of_char c :: nat) in (10 \<le> n \<and> n \<le> 13) \<or> (28 \<le> n \<and> n \<le> 30) \<or> n = 133)"

fun lines_from :: "string \<Rightarrow> string \<Rightarrow> string list" where
  "lines_from cur [] = (if cur = [] then [] else [rev cur])"
| "lines_from cur (c # cs) =
     (if c = CHR 0x0D \<and> cs \<noteq> [] \<and> hd cs = CHR 0x0A then rev cur # lines_from [] (tl cs)
      else if is_line_end c then rev cur # lines_from [] cs
      else lines_from (c # cur) cs)"

definition splitlines :: "string \<Rightarrow> string list" where
  "splitlines s = lines_from [] s"

text \<open>\<open>s.split(sep)\<close> for a separator of one character: never the empty list.\<close>

fun split_on :: "char \<Rightarrow> string \<Rightarrow> string list" where
  "split_on d [] = [[]]"
| "split_on d (c # cs) =
     (if c = d then [] # split_on d cs
      else (case split_on d cs of [] \<Rightarrow> [[c]] | x # xs \<Rightarrow> (c # x) # xs))"

text \<open>\<open>str.lower\<close>\<close>

definition lower_char :: "char \<Rightarrow> char" where
  "lower_char c =
     (let n = (of_char c :: nat) in
      if (65 \<le> n \<and> n \<le> 90) \<or> (192 \<le> n \<and> n \<le> 222 \<and> n \<noteq> 215) then char_of (n + 32) else c)"

definition lower :: "string \<Rightarrow> string" where "lower = map lower_char"

text \<open>The classes \<open>[0-9]\<close>, \<open>[A-Z]\<close> and \<open>[a-z0-9]\<close> of the regular expressions\<close>

definition is_digit :: "char \<Rightarrow> bool" where
  "is_digit c \<longleftrightarrow> (let n = (of_char c :: nat) in 48 \<le> n \<and> n \<le> 57)"

definition is_upper :: "char \<Rightarrow> bool" where
  "is_upper c \<longleftrightarrow> (let n = (of_char c :: nat) in 65 \<le> n \<and> n \<le> 90)"

definition is_alnum :: "char \<Rightarrow> bool" where
  "is_alnum c \<longleftrightarrow> is_digit c \<or> (let n = (of_char c :: nat) in 97 \<le> n \<and> n \<le> 122)"

text \<open>\<open>str\<close> of a number that is not negative, and \<open>int\<close> of a run of ASCII digits\<close>

definition digit :: "nat \<Rightarrow> char" where "digit n = char_of (48 + n)"

fun decimal :: "nat \<Rightarrow> string" where
  "decimal n = (if n < 10 then [digit n] else decimal (n div 10) @ [digit (n mod 10)])"

declare decimal.simps [simp del]

definition show_int :: "int \<Rightarrow> string" where
  "show_int n = (if n < 0 then CHR ''-'' # decimal (nat (- n)) else decimal (nat n))"

definition int_of_digits :: "string \<Rightarrow> nat" where
  "int_of_digits ds = foldl (\<lambda>a c. 10 * a + (of_char c - 48)) 0 ds"

section \<open>Decimal numbers\<close>

lemma digit_digit: "n < 10 \<Longrightarrow> is_digit (digit n) \<and> of_char (digit n) - 48 = n"
  by (simp add: digit_def is_digit_def Let_def)

lemma decimal_digits: "c \<in> set (decimal n) \<Longrightarrow> is_digit c"
proof (induction n rule: decimal.induct)
  case (1 n)
  then show ?case by (auto simp: decimal.simps[of n] digit_digit split: if_splits)
qed

lemma decimal_not_Nil [simp]: "decimal n \<noteq> []"
  by (simp add: decimal.simps[of n])

lemma int_of_decimal [simp]: "int_of_digits (decimal n) = n"
proof (induction n rule: decimal.induct)
  case (1 n)
  show ?case
  proof (cases "n < 10")
    case True
    then show ?thesis using digit_digit[OF True] by (simp add: decimal.simps[of n] int_of_digits_def)
  next
    case False
    then show ?thesis
      using 1 digit_digit[of "n mod 10"] by (simp add: decimal.simps[of n] int_of_digits_def)
  qed
qed

lemma decimal_inj [simp]: "decimal m = decimal n \<longleftrightarrow> m = n"
  by (metis int_of_decimal)

section \<open>Pieces of a fixed size\<close>

lemma concat_pieces: "0 < k \<Longrightarrow> concat (pieces k xs) = xs"
proof (induction k xs rule: pieces.induct)
  case (1 k xs)
  then show ?case by (subst pieces.simps) simp
qed

lemma pieces_bounds: "p \<in> set (pieces k xs) \<Longrightarrow> p \<noteq> [] \<and> length p \<le> k"
proof (induction k xs rule: pieces.induct)
  case (1 k xs)
  then show ?case by (auto simp: pieces.simps[of k xs] split: if_splits)
qed

lemma pieces_empty [simp]: "pieces k xs = [] \<longleftrightarrow> k = 0 \<or> xs = []"
  by (simp add: pieces.simps[of k xs])

section \<open>Words\<close>

definition is_word :: "string \<Rightarrow> bool" where
  "is_word w \<longleftrightarrow> w \<noteq> [] \<and> (\<forall>c \<in> set w. \<not> is_space c)"

lemma words_from_word:
  "\<forall>c \<in> set w. \<not> is_space c \<Longrightarrow> words_from cur (w @ s) = words_from (rev w @ cur) s"
  by (induction w arbitrary: cur) auto

lemma words_from_is_word:
  "(\<forall>c \<in> set cur. \<not> is_space c) \<Longrightarrow> w \<in> set (words_from cur s) \<Longrightarrow> is_word w"
proof (induction cur s rule: words_from.induct)
  case (1 cur)
  then show ?case by (simp add: is_word_def split: if_splits)
next
  case (2 cur c cs)
  show ?case
  proof (cases "is_space c")
    case True
    then show ?thesis
      using 2 by (cases "cur = []") (auto simp: is_word_def)
  next
    case False
    then have "w \<in> set (words_from (c # cur) cs)" using "2.prems"(2) by simp
    then show ?thesis using "2.IH"(3)[OF False] "2.prems"(1) False by simp
  qed
qed

lemma split_words_is_word: "w \<in> set (split_words s) \<Longrightarrow> is_word w"
  unfolding split_words_def by (rule words_from_is_word) auto

lemma words_from_append_space:
  "is_space c \<Longrightarrow> words_from cur (s @ c # t) = words_from cur s @ words_from [] t"
  by (induction cur s rule: words_from.induct) auto

lemma split_words_append_space:
  "is_space c \<Longrightarrow> split_words (s @ c # t) = split_words s @ split_words t"
  unfolding split_words_def by (rule words_from_append_space)

lemma split_words_Nil [simp]: "split_words [] = []"
  by (simp add: split_words_def)

lemma split_words_word: "is_word w \<Longrightarrow> split_words w = [w]"
  using words_from_word[of w "[]" "[]"] by (auto simp: split_words_def is_word_def)

lemma split_words_join:
  assumes "is_space c" and "xs \<noteq> []"
  shows "split_words (join [c] xs) = concat (map split_words xs)"
  using assms(2)
proof (induction xs)
  case (Cons x xs)
  then show ?case using split_words_append_space[OF assms(1), of x "join [c] xs"] by auto
qed simp

lemma split_words_join_words: "is_space c \<Longrightarrow> \<forall>w \<in> set ws. is_word w \<Longrightarrow> split_words (join [c] ws) = ws"
proof (induction ws)
  case (Cons w ws)
  then show ?case
    using split_words_append_space[of c w "join [c] ws"] by (auto simp: split_words_word)
qed simp


lemma split_words_space [simp]: "is_space c \<Longrightarrow> split_words (c # s) = split_words s"
  using split_words_append_space[of c "[]" s] by simp

lemma split_words_lstrip: "split_words (dropWhile is_space s) = split_words s"
  by (induction s) auto

lemma split_words_spaces: "\<forall>c \<in> set s. is_space c \<Longrightarrow> split_words (t @ s) = split_words t"
proof (induction s arbitrary: t)
  case (Cons c s)
  then show ?case using split_words_append_space[of c t s] Cons.IH[of "[]"] by simp
qed simp

lemma split_words_strip [simp]: "split_words (strip s) = split_words s"
proof -
  have "split_words (rstrip t) = split_words t" for t
  proof -
    have "t = rstrip t @ rev (takeWhile is_space (rev t))"
      by (metis rev_append rev_rev_ident rstrip_def takeWhile_dropWhile_id)
    moreover have "\<forall>c \<in> set (rev (takeWhile is_space (rev t))). is_space c" by (auto dest: set_takeWhileD)
    ultimately show ?thesis by (metis split_words_spaces)
  qed
  then show ?thesis by (simp add: strip_def lstrip_def split_words_lstrip)
qed

lemma split_on_not_Nil [simp]: "split_on d s \<noteq> []"
  by (induction s) (auto split: list.splits)

lemma split_words_split_on: "is_space d \<Longrightarrow> concat (map split_words (split_on d s)) = split_words s"
proof -
  assume d: "is_space d"
  have "join [d] (split_on d s) = s" by (induction s) (auto split: list.splits)
  then show ?thesis using split_words_join[OF d, of "split_on d s"] by simp
qed

end
