(* ===== verification/Parsing.thy ===== *)
theory Parsing
  imports Text
begin

text \<open>
  From an uploaded file to sections of text (\<open>app/rag/parsing.py\<close>). The bytes of a file are a
  \<open>string\<close>, one character a byte. pypdf is outside the program: \<open>pdf\<close> says what reading the bytes
  gives. Text holds code points below 256; \<open>wide\<close> is the character that stands for a code point
  above, which only a UTF-8 file can have. A file name is split as \<open>PurePath\<close> does on a POSIX system.
\<close>

section \<open>Names and content types\<close>

definition path_name :: "string \<Rightarrow> string" where
  "path_name s =
     (let parts = filter (\<lambda>x. x \<noteq> [] \<and> x \<noteq> ''.'') (split_on CHR ''/'' s) in if parts = [] then [] else last parts)"

text \<open>The stem and the suffix of a name, at its last dot unless that is its first or last character.\<close>

definition split_suffix :: "string \<Rightarrow> string \<times> string" where
  "split_suffix n =
     (let ext = rev (takeWhile (\<lambda>c. c \<noteq> CHR ''.'') (rev n)); base = take (length n - length ext) n in
      if length base \<le> 1 \<or> ext = [] then (n, []) else (butlast base, CHR ''.'' # ext))"

definition path_suffix :: "string \<Rightarrow> string" where "path_suffix f = snd (split_suffix (path_name f))"
definition path_stem :: "string \<Rightarrow> string" where "path_stem f = fst (split_suffix (path_name f))"

text \<open>\<open>repr\<close> of a string.\<close>

definition hex_digit :: "nat \<Rightarrow> char" where
  "hex_digit n = ''0123456789abcdef'' ! n"

definition printable :: "char \<Rightarrow> bool" where
  "printable c \<longleftrightarrow> (let n = (of_char c :: nat) in (32 \<le> n \<and> n < 127) \<or> (160 < n \<and> n \<noteq> 173))"

definition repr_char :: "char \<Rightarrow> char \<Rightarrow> string" where
  "repr_char q c =
     (let n = (of_char c :: nat) in
      if c = q \<or> n = 92 then [char_of (92 :: nat), c]
      else if n = 10 then [char_of (92 :: nat), CHR ''n'']
      else if n = 13 then [char_of (92 :: nat), CHR ''r'']
      else if n = 9 then [char_of (92 :: nat), CHR ''t'']
      else if printable c then [c]
      else [char_of (92 :: nat), CHR ''x'', hex_digit (n div 16), hex_digit (n mod 16)])"

definition py_repr :: "string \<Rightarrow> string" where
  "py_repr s =
     (let q = (if CHR 0x27 \<in> set s \<and> CHR 0x22 \<notin> set s then CHR 0x22 else CHR 0x27)
      in q # concat (map (repr_char q) s) @ [q])"

definition repr_option :: "string option \<Rightarrow> string" where
  "repr_option x = (case x of None \<Rightarrow> ''None'' | Some s \<Rightarrow> py_repr s)"

section \<open>Kinds of file\<close>

datatype doc_kind = Pdf | PlainText

text \<open>The last one is any other exception.\<close>

datatype parse_error = UnsupportedDocument string | EmptyDocument string | ParserCrash string

definition text_types :: "string list" where
  "text_types = [''text/plain'', ''text/markdown'', ''text/x-markdown'']"
definition pdf_type :: string where "pdf_type = ''application/pdf''"
definition text_suffixes :: "string list" where
  "text_suffixes = [''.txt'', ''.md'', ''.markdown'', ''.rst'']"

definition main_type :: "string option \<Rightarrow> string" where
  "main_type ct = lower (strip (hd (split_on CHR '';'' (case ct of None \<Rightarrow> [] | Some s \<Rightarrow> s))))"

definition detect_kind :: "string \<Rightarrow> string option \<Rightarrow> parse_error + doc_kind" where
  "detect_kind f ct =
     (let suffix = lower (path_suffix f); ctype = main_type ct in
      if suffix = ''.pdf'' \<or> ctype = pdf_type then Inr Pdf
      else if suffix \<in> set text_suffixes \<or> ctype \<in> set text_types then Inr PlainText
      else Inl (UnsupportedDocument (''unsupported document type (filename='' @ py_repr f @ '', content_type=''
             @ repr_option ct @ ''); upload PDF, plain text or Markdown'')))"

definition looks_binary :: "string \<Rightarrow> bool" where
  "looks_binary data \<longleftrightarrow> CHR 0x00 \<in> set (take 8192 data)"

definition binary_error :: parse_error where
  "binary_error = UnsupportedDocument ''file looks binary, not text; upload PDF, text or Markdown''"

definition precheck :: "string \<Rightarrow> string \<Rightarrow> string option \<Rightarrow> parse_error + doc_kind" where
  "precheck data f ct =
     (case detect_kind f ct of
        Inl e \<Rightarrow> Inl e
      | Inr k \<Rightarrow> if k = PlainText \<and> looks_binary data then Inl binary_error else Inr k)"

section \<open>Decoding text\<close>

text \<open>A strict UTF-8 decoder: no overlong forms, no surrogates, nothing above U+10FFFF.\<close>

definition continuation :: "nat \<Rightarrow> bool" where "continuation b \<longleftrightarrow> 128 \<le> b \<and> b < 192"

fun utf8 :: "nat list \<Rightarrow> nat list option" where
  "utf8 [] = Some []"
| "utf8 (a # xs) =
     (if a < 128 then map_option ((#) a) (utf8 xs)
      else if 194 \<le> a \<and> a < 224 then
        (case xs of
           b # ys \<Rightarrow> if continuation b then map_option ((#) ((a - 192) * 64 + (b - 128))) (utf8 ys) else None
         | _ \<Rightarrow> None)
      else if 224 \<le> a \<and> a < 240 then
        (case xs of
           b # c # ys \<Rightarrow>
             if continuation b \<and> continuation c \<and> (a = 224 \<longrightarrow> 160 \<le> b) \<and> (a = 237 \<longrightarrow> b < 160)
             then map_option ((#) ((a - 224) * 4096 + (b - 128) * 64 + (c - 128))) (utf8 ys) else None
         | _ \<Rightarrow> None)
      else if 240 \<le> a \<and> a < 245 then
        (case xs of
           b # c # d # ys \<Rightarrow>
             if continuation b \<and> continuation c \<and> continuation d \<and> (a = 240 \<longrightarrow> 144 \<le> b) \<and> (a = 244 \<longrightarrow> b < 144)
             then map_option ((#) ((a - 240) * 262144 + (b - 128) * 4096 + (c - 128) * 64 + (d - 128))) (utf8 ys)
             else None
         | _ \<Rightarrow> None)
      else None)"

definition drop_bom :: "nat list \<Rightarrow> nat list" where
  "drop_bom bs = (if take 3 bs = [239, 187, 191] then drop 3 bs else bs)"

definition utf8_sig :: "(nat \<Rightarrow> char) \<Rightarrow> string \<Rightarrow> string option" where
  "utf8_sig wide data =
     map_option (map (\<lambda>n. if n < 256 then char_of n else wide n)) (utf8 (drop_bom (map of_char data)))"

text \<open>\<open>replace("\r\n", "\n").replace("\r", "\n")\<close>; a byte of a latin-1 file is its character.\<close>

fun lf_only :: "string \<Rightarrow> string" where
  "lf_only [] = []"
| "lf_only (c # cs) = (if c = CHR 0x0D then (if cs \<noteq> [] \<and> hd cs = CHR 0x0A then lf_only cs else CHR 0x0A # lf_only cs)
                       else c # lf_only cs)"

definition decode_text :: "(nat \<Rightarrow> char) \<Rightarrow> string \<Rightarrow> parse_error + string" where
  "decode_text wide data =
     (if looks_binary data then Inl binary_error
      else Inr (lf_only (case utf8_sig wide data of Some t \<Rightarrow> t | None \<Rightarrow> data)))"

section \<open>Sections\<close>

record doc_section =
  sec_text :: string
  sec_page :: "int option"

text \<open>What pypdf makes of the bytes: the text of each page, if it has any, \<open>PdfReadError\<close>, or another
  exception.\<close>

datatype pdf_read = Pages "string option list" | PdfReadError string | PdfCrash string

fun number_pages :: "int \<Rightarrow> string option list \<Rightarrow> doc_section list" where
  "number_pages i [] = []"
| "number_pages i (p # ps) = \<lparr>sec_text = (case p of None \<Rightarrow> [] | Some t \<Rightarrow> t), sec_page = Some i\<rparr> # number_pages (i + 1) ps"

definition parse_pdf :: "(string \<Rightarrow> pdf_read) \<Rightarrow> string \<Rightarrow> parse_error + doc_section list" where
  "parse_pdf pdf data =
     (case pdf data of
        Pages ps \<Rightarrow> Inr (number_pages 1 ps)
      | PdfReadError e \<Rightarrow> Inl (UnsupportedDocument (''could not read PDF: '' @ e))
      | PdfCrash e \<Rightarrow> Inl (ParserCrash e))"

definition sections_of ::
  "(string \<Rightarrow> pdf_read) \<Rightarrow> (nat \<Rightarrow> char) \<Rightarrow> doc_kind \<Rightarrow> string \<Rightarrow> parse_error + doc_section list" where
  "sections_of pdf wide k data =
     (case k of
        Pdf \<Rightarrow> parse_pdf pdf data
      | PlainText \<Rightarrow> map_sum id (\<lambda>t. [\<lparr>sec_text = t, sec_page = None\<rparr>]) (decode_text wide data))"

definition parse_document ::
  "(string \<Rightarrow> pdf_read) \<Rightarrow> (nat \<Rightarrow> char) \<Rightarrow> string \<Rightarrow> string \<Rightarrow> string option \<Rightarrow> parse_error + doc_section list" where
  "parse_document pdf wide data f ct =
     (case detect_kind f ct of
        Inl e \<Rightarrow> Inl e
      | Inr k \<Rightarrow>
          (case sections_of pdf wide k data of
             Inl e \<Rightarrow> Inl e
           | Inr ss \<Rightarrow>
               (let kept = filter (\<lambda>s. strip (sec_text s) \<noteq> []) ss in
                if kept = [] then Inl (EmptyDocument ''document contains no extractable text'') else Inr kept)))"

section \<open>Facts\<close>

lemma lf_only_no_cr: "CHR 0x0D \<notin> set (lf_only s)"
  by (induction s rule: lf_only.induct) auto

lemma lf_only_id: "CHR 0x0D \<notin> set s \<Longrightarrow> lf_only s = s"
  by (induction s rule: lf_only.induct) auto

lemma lf_only_words: "split_words (lf_only s) = split_words s"
proof -
  have cr: "is_space CHR 0x0D" by (simp add: is_space_def)
  have "words_from cur (lf_only s) = words_from cur s" for cur
  proof (induction s arbitrary: cur rule: lf_only.induct)
    case (2 c cs)
    show ?case
    proof (cases "c = CHR 0x0D \<and> cs \<noteq> [] \<and> hd cs = CHR 0x0A")
      case True
      then obtain ds where "cs = CHR 0x0A # ds" by (cases cs) auto
      then show ?thesis using 2 True cr by auto
    qed (use 2 cr in auto)
  qed simp
  then show ?thesis by (simp add: split_words_def)
qed

text \<open>The UTF-8 bytes of a text whose code points are below 256.\<close>

definition utf8_char :: "char \<Rightarrow> nat list" where
  "utf8_char c = (let n = (of_char c :: nat) in if n < 128 then [n] else [192 + n div 64, 128 + n mod 64])"

definition utf8_bytes :: "string \<Rightarrow> string" where
  "utf8_bytes s = map char_of (concat (map utf8_char s))"

lemma utf8_bytes_Cons: "utf8_bytes (c # s) = map char_of (utf8_char c) @ utf8_bytes s"
  by (simp add: utf8_bytes_def)

lemma utf8_char_byte:
  assumes "b \<in> set (utf8_char c)"
  shows "b < 256" and "b = 0 \<Longrightarrow> c = CHR 0x00" and "b \<noteq> 239"
proof -
  define n where "n = (of_char c :: nat)"
  have "n < 256" by (simp add: n_def)
  then have n: "n < 256" "n div 64 < 4" by linarith+
  have c: "c = char_of n" by (simp add: n_def)
  have b: "b \<in> set (if n < 128 then [n] else [192 + n div 64, 128 + n mod 64])" using assms unfolding utf8_char_def Let_def n_def .
  then have "b = n \<and> n < 128 \<or> 128 \<le> b \<and> b < 239" using n by (auto split: if_splits)
  moreover have "char_of (0 :: nat) = CHR 0x00" by code_simp
  ultimately show "b < 256" "b = 0 \<Longrightarrow> c = CHR 0x00" "b \<noteq> 239" by (auto simp: c)
qed

lemma utf8_utf8_char: "utf8 (utf8_char c @ xs) = map_option ((#) (of_char c)) (utf8 xs)"
proof -
  define n where "n = (of_char c :: nat)"
  have n: "n < 256" by (simp add: n_def)
  show ?thesis
  proof (cases "n < 128")
    case True
    then show ?thesis by (simp add: utf8_char_def n_def[symmetric])
  next
    case False
    then have "194 \<le> 192 + n div 64" "192 + n div 64 < 224" using n by linarith+
    moreover have "n div 64 * 64 + n mod 64 = n" by simp
    ultimately show ?thesis using False by (simp add: utf8_char_def n_def[symmetric] continuation_def)
  qed
qed

lemma of_char_utf8_bytes: "map of_char (utf8_bytes s) = concat (map utf8_char s)"
proof -
  have "map of_char (map char_of bs) = bs" if "\<forall>b \<in> set bs. b < (256 :: nat)" for bs
    using that by (induction bs) auto
  moreover have "\<forall>b \<in> set (concat (map utf8_char s)). b < 256" using utf8_char_byte(1) by auto
  ultimately show ?thesis unfolding utf8_bytes_def by blast
qed

lemma utf8_bytes_decoded: "utf8 (map of_char (utf8_bytes s)) = Some (map of_char s)"
proof -
  have "utf8 (concat (map utf8_char s)) = Some (map of_char s)"
    by (induction s) (simp_all add: utf8_utf8_char)
  then show ?thesis by (simp add: of_char_utf8_bytes)
qed

lemma nul_utf8_bytes:
  assumes "CHR 0x00 \<notin> set s"
  shows "CHR 0x00 \<notin> set (utf8_bytes s)"
proof
  assume "CHR 0x00 \<in> set (utf8_bytes s)"
  then have "of_char CHR 0x00 \<in> set (map (of_char :: char \<Rightarrow> nat) (utf8_bytes s))" unfolding set_map by (rule imageI)
  then obtain c where "c \<in> set s" "0 \<in> set (utf8_char c)" by (auto simp: of_char_utf8_bytes)
  then show False using assms utf8_char_byte(2) by blast
qed

definition bom :: string where "bom = [CHR 0xEF, CHR 0xBB, CHR 0xBF]"

lemma drop_bom_utf8: "drop_bom (map of_char (utf8_bytes s)) = map of_char (utf8_bytes s)"
proof -
  have "239 \<notin> set (concat (map utf8_char s))" using utf8_char_byte by fastforce
  then have "take 3 (concat (map utf8_char s)) \<noteq> [239, 187, 191]"
    by (metis in_set_takeD list.set_intros(1))
  then show ?thesis by (simp add: drop_bom_def of_char_utf8_bytes)
qed

lemma utf8_sig_bytes: "utf8_sig wide (utf8_bytes s) = Some s" "utf8_sig wide (bom @ utf8_bytes s) = Some s"
proof -
  have s: "map ((\<lambda>n. if n < 256 then char_of n else wide n) \<circ> of_char) s = s" by (induction s) auto
  show "utf8_sig wide (utf8_bytes s) = Some s" using s by (simp add: utf8_sig_def drop_bom_utf8 utf8_bytes_decoded)
  have "drop_bom (map of_char (bom @ utf8_bytes s)) = map of_char (utf8_bytes s)" by (simp add: drop_bom_def bom_def)
  then show "utf8_sig wide (bom @ utf8_bytes s) = Some s" using s by (simp add: utf8_sig_def utf8_bytes_decoded)
qed

lemma parse_document_cases:
  "parse_document pdf wide data f ct = Inr ss \<longleftrightarrow>
     (\<exists>k all. detect_kind f ct = Inr k \<and> sections_of pdf wide k data = Inr all
        \<and> ss = filter (\<lambda>s. strip (sec_text s) \<noteq> []) all \<and> ss \<noteq> [])"
  by (auto simp: parse_document_def Let_def split: sum.splits if_splits)

lemma number_pages_nth:
  "length (number_pages i ps) = length ps"
  "n < length ps \<Longrightarrow> number_pages i ps ! n = \<lparr>sec_text = (case ps ! n of None \<Rightarrow> [] | Some t \<Rightarrow> t), sec_page = Some (i + int n)\<rparr>"
  by (induction ps arbitrary: i n) (auto simp: nth_Cons split: nat.splits)

lemma number_pages_sorted: "sorted_wrt (\<lambda>s t. the (sec_page s) < the (sec_page t)) (number_pages i ps)"
  by (auto simp: sorted_wrt_iff_nth_less number_pages_nth)

lemma strip_Nil [simp]: "strip [] = []"
  by (simp add: strip_def lstrip_def rstrip_def)

lemma in_number_pages:
  "\<lparr>sec_text = t, sec_page = Some i\<rparr> \<in> set (number_pages k ps) \<longleftrightarrow>
     k \<le> i \<and> i < k + int (length ps) \<and> t = (case ps ! nat (i - k) of None \<Rightarrow> [] | Some t \<Rightarrow> t)"
proof -
  have "\<lparr>sec_text = t, sec_page = Some i\<rparr> \<in> set (number_pages k ps) \<longleftrightarrow>
      (\<exists>n < length ps. t = (case ps ! n of None \<Rightarrow> [] | Some t \<Rightarrow> t) \<and> i = k + int n)"
    by (auto simp: in_set_conv_nth number_pages_nth)
  also have "\<dots> \<longleftrightarrow> k \<le> i \<and> i < k + int (length ps) \<and> t = (case ps ! nat (i - k) of None \<Rightarrow> [] | Some t \<Rightarrow> t)"
    by (auto intro!: exI[of _ "nat (i - k)"])
  finally show ?thesis .
qed

section \<open>Properties\<close>

text \<open>A UTF-8 text file reads back as the text it was written from, with or without a byte order mark,
  whatever its line ends were: they come back as line feeds.\<close>

theorem utf8_file_reads_back:
  assumes "CHR 0x00 \<notin> set t"
  shows "decode_text wide (utf8_bytes t) = Inr (lf_only t) \<and> decode_text wide (bom @ utf8_bytes t) = Inr (lf_only t)"
proof -
  have no: "CHR 0x00 \<notin> set (bom @ utf8_bytes t)" using nul_utf8_bytes[OF assms] by (simp add: bom_def)
  then have "\<not> looks_binary (utf8_bytes t)" "\<not> looks_binary (bom @ utf8_bytes t)"
    using in_set_takeD[of "CHR 0x00" 8192 "utf8_bytes t"] in_set_takeD[of "CHR 0x00" 8192 "bom @ utf8_bytes t"]
    by (auto simp only: looks_binary_def set_append Un_iff)
  then show ?thesis by (simp add: decode_text_def utf8_sig_bytes)
qed

lemma utf8_file_reads_back_witness:
  "decode_text (\<lambda>_. CHR ''?'') (bom @ utf8_bytes [CHR ''a'', CHR 0x0D, CHR 0x0A, CHR 0xE9]) = Inr [CHR ''a'', CHR 0x0A, CHR 0xE9]"
  using utf8_file_reads_back[of "[CHR ''a'', CHR 0x0D, CHR 0x0A, CHR 0xE9]" "\<lambda>_. CHR ''?''"] by simp

text \<open>What a file parses to is never empty: every section has text; a text file is one section without a
  page and without carriage returns, and the sections of a PDF are those of its pages that have text, in
  order, under their numbers.\<close>

theorem parsed_sections_have_text:
  assumes "parse_document pdf wide data f ct = Inr ss"
  shows "ss \<noteq> [] \<and> (\<forall>s \<in> set ss. strip (sec_text s) \<noteq> [])
     \<and> ((detect_kind f ct = Inr PlainText \<and> (\<exists>t. ss = [\<lparr>sec_text = t, sec_page = None\<rparr>] \<and> CHR 0x0D \<notin> set t))
        \<or> (detect_kind f ct = Inr Pdf \<and> sorted_wrt (\<lambda>s t. the (sec_page s) < the (sec_page t)) ss
           \<and> (\<exists>ps. pdf data = Pages ps
                \<and> (\<forall>i t. \<lparr>sec_text = t, sec_page = Some i\<rparr> \<in> set ss \<longleftrightarrow>
                     1 \<le> i \<and> i \<le> int (length ps) \<and> ps ! nat (i - 1) = Some t \<and> strip t \<noteq> []))))"
proof -
  obtain k all where k: "detect_kind f ct = Inr k" "sections_of pdf wide k data = Inr all"
      "ss = filter (\<lambda>s. strip (sec_text s) \<noteq> []) all" "ss \<noteq> []"
    using assms by (auto simp: parse_document_cases)
  have some: "ss \<noteq> [] \<and> (\<forall>s \<in> set ss. strip (sec_text s) \<noteq> [])" using k by auto
  show ?thesis
  proof (cases k)
    case PlainText
    then obtain t where "all = [\<lparr>sec_text = lf_only t, sec_page = None\<rparr>]"
      using k(2) by (auto simp: sections_of_def decode_text_def map_sum_def split: if_splits sum.splits)
    then have "ss = [\<lparr>sec_text = lf_only t, sec_page = None\<rparr>]" using k(3,4) by (simp split: if_splits)
    then show ?thesis using some PlainText k(1) lf_only_no_cr by blast
  next
    case Pdf
    then obtain ps where ps: "pdf data = Pages ps" "all = number_pages 1 ps"
      using k(2) by (auto simp: sections_of_def parse_pdf_def split: pdf_read.splits)
    have "\<lparr>sec_text = t, sec_page = Some i\<rparr> \<in> set ss \<longleftrightarrow>
            1 \<le> i \<and> i \<le> int (length ps) \<and> ps ! nat (i - 1) = Some t \<and> strip t \<noteq> []" for i t
      by (auto simp: k(3) ps(2) in_number_pages strip_Nil split: option.splits)
    moreover have "sorted_wrt (\<lambda>s t. the (sec_page s) < the (sec_page t)) ss"
      unfolding k(3) ps(2) by (intro sorted_wrt_filter number_pages_sorted)
    ultimately show ?thesis using some Pdf k(1) ps(1) by blast
  qed
qed

lemma parsed_sections_have_text_witness:
  "detect_kind ''notes.md'' None = Inr PlainText
   \<and> (\<exists>t. parse_document (\<lambda>_. PdfCrash []) (\<lambda>_. CHR ''?'') ''Hi'' ''notes.md'' None = Inr [\<lparr>sec_text = t, sec_page = None\<rparr>])"
proof -
  have k: "detect_kind ''notes.md'' None = Inr PlainText" by code_simp
  have "parse_document (\<lambda>_. PdfCrash []) (\<lambda>_. CHR ''?'') ''Hi'' ''notes.md'' None = Inr [\<lparr>sec_text = ''Hi'', sec_page = None\<rparr>]"
    by code_simp
  from parsed_sections_have_text[OF this] this k show ?thesis by auto
qed

text \<open>The check at the door agrees with the worker: a file that parses was let in, with the kind it is
  parsed as, and a text file that was let in fails only for having no text.\<close>

theorem precheck_agrees_with_parsing:
  "(case precheck data f ct of
      Inl e \<Rightarrow> parse_document pdf wide data f ct = Inl e
    | Inr k \<Rightarrow> detect_kind f ct = Inr k
             \<and> (k = PlainText \<longrightarrow> (\<forall>e. parse_document pdf wide data f ct = Inl e \<longrightarrow> (\<exists>m. e = EmptyDocument m))))"
proof (cases "detect_kind f ct")
  case (Inl e)
  then show ?thesis by (simp add: precheck_def parse_document_def)
next
  case (Inr k)
  show ?thesis
  proof (cases "k = PlainText \<and> looks_binary data")
    case True
    then show ?thesis using Inr by (simp add: precheck_def parse_document_def sections_of_def decode_text_def)
  next
    case False
    then have "precheck data f ct = Inr k" using Inr by (auto simp: precheck_def)
    moreover have "\<exists>m. e = EmptyDocument m" if "k = PlainText" "parse_document pdf wide data f ct = Inl e" for e
      using that False Inr by (auto simp: parse_document_def sections_of_def decode_text_def Let_def split: if_splits)
    ultimately show ?thesis using Inr by simp
  qed
qed

lemma precheck_agrees_with_parsing_witness:
  "precheck [CHR 0x00] ''a.txt'' None = Inl binary_error
   \<and> parse_document (\<lambda>_. PdfCrash []) (\<lambda>_. CHR ''?'') [CHR 0x00] ''a.txt'' None = Inl binary_error"
proof -
  have "precheck [CHR 0x00] ''a.txt'' None = Inl binary_error" by code_simp
  with precheck_agrees_with_parsing[where data = "[CHR 0x00]" and f = "''a.txt''" and ct = None and pdf = "\<lambda>_. PdfCrash []" and wide = "\<lambda>_. CHR ''?''"] show ?thesis by simp
qed

end
