(* ===== verification/Agent_Graph.thy ===== *)
theory Agent_Graph
  imports Parsing "HOL-Library.List_Lexorder" "HOL-Library.Char_ord"
begin

text \<open>
  The engine of the agents (\<open>app/agents/graph.py\<close>): named nodes, declared edges, one step at a time
  under a step budget, and the diagram. A node works on a state \<open>'s\<close> and either decides on the next
  node or raises an \<open>'e\<close>. \<open>run_from\<close> is the loop of \<open>Graph.run\<close>: it is total, because every round
  uses one step of the budget. The steps of a run that was stopped are what \<open>on_step\<close> was told.
\<close>

section \<open>Graphs\<close>

definition END :: string where "END = ''end''"

record node_move =
  next_node :: string
  next_note :: "string option"

record step =
  step_node :: string
  step_next :: string
  step_ms :: real
  step_note :: "string option"

type_synonym ('s, 'e) node = "'s \<Rightarrow> ('e + node_move) \<times> 's"

record ('s, 'e) graph =
  g_name :: string
  g_entry :: string
  g_nodes :: "(string \<times> ('s, 'e) node) list"
  g_edges :: "(string \<times> string list) list"
  g_max_steps :: int

datatype graph_error = GraphError string

definition repr_list :: "string list \<Rightarrow> string" where
  "repr_list xs = ''['' @ join '', '' (map py_repr xs) @ '']''"

text \<open>\<open>__post_init__\<close>: the first complaint about a graph, if there is one.\<close>

definition unpaired :: "('s, 'e) graph \<Rightarrow> string list" where
  "unpaired G = [n \<leftarrow> map fst (g_nodes G). n \<notin> fst ` set (g_edges G)] @ [n \<leftarrow> map fst (g_edges G). n \<notin> fst ` set (g_nodes G)]"

definition unknown_targets :: "('s, 'e) graph \<Rightarrow> string list \<Rightarrow> string list" where
  "unknown_targets G ts = [t \<leftarrow> ts. t \<noteq> END \<and> t \<notin> fst ` set (g_nodes G)]"

definition edge_error :: "('s, 'e) graph \<Rightarrow> string \<times> string list \<Rightarrow> graph_error option" where
  "edge_error G e =
     (let (node, ts) = e; unknown = unknown_targets G ts in
      if unknown \<noteq> [] then Some (GraphError (node @ '' points at undefined node(s) '' @ repr_list unknown))
      else if ts = [] then Some (GraphError (node @ '' has no outgoing edges, not even '' @ END))
      else None)"

definition graph_complaint :: "('s, 'e) graph \<Rightarrow> graph_error option" where
  "graph_complaint G =
     (if g_entry G \<notin> fst ` set (g_nodes G) then Some (GraphError (''entry node '' @ py_repr (g_entry G) @ '' is not defined''))
      else if set (map fst (g_edges G)) \<noteq> set (map fst (g_nodes G)) then
        Some (GraphError (''every node needs declared edges; check '' @ repr_list (sort (unpaired G))))
      else (case find (\<lambda>e. edge_error G e \<noteq> None) (g_edges G) of None \<Rightarrow> None | Some e \<Rightarrow> edge_error G e))"

definition make_graph :: "('s, 'e) graph \<Rightarrow> graph_error + ('s, 'e) graph" where
  "make_graph G = (case graph_complaint G of Some e \<Rightarrow> Inl e | None \<Rightarrow> Inr G)"

section \<open>Runs\<close>

datatype 'e halt = Finished_Run | Forbidden graph_error | OutOfBudget string | NodeRaised 'e | NoSuchNode string

definition targets :: "('s, 'e) graph \<Rightarrow> string \<Rightarrow> string list" where
  "targets G n = (case dict_get (g_edges G) n of None \<Rightarrow> [] | Some ts \<Rightarrow> ts)"

definition move_error :: "('s, 'e) graph \<Rightarrow> string \<Rightarrow> string \<Rightarrow> graph_error" where
  "move_error G cur nx =
     GraphError (cur @ '' tried to move to '' @ py_repr nx @ '', which is not one of '' @ repr_list (targets G cur))"

definition budget_error :: "('s, 'e) graph \<Rightarrow> string" where
  "budget_error G = g_name G @ '' did not finish within '' @ show_int (g_max_steps G) @ '' steps''"

text \<open>One round: the node at \<open>cur\<close> runs, and its node_move is held against the edges. \<open>clock\<close> is
  \<open>time.perf_counter\<close> in the state.\<close>

definition round_at ::
  "('s \<Rightarrow> seconds) \<Rightarrow> ('s, 'e) graph \<Rightarrow> string \<Rightarrow> 's \<Rightarrow> ('e halt + step) \<times> 's" where
  "round_at clock G cur s =
     (case dict_get (g_nodes G) cur of
        None \<Rightarrow> (Inl (NoSuchNode cur), s)
      | Some node \<Rightarrow>
          (let (d, s1) = node s in
           case d of
             Inl e \<Rightarrow> (Inl (NodeRaised e), s1)
           | Inr nx \<Rightarrow>
               (if next_node nx \<notin> set (targets G cur) then (Inl (Forbidden (move_error G cur (next_node nx))), s1)
                else (Inr \<lparr>step_node = cur, step_next = next_node nx,
                           step_ms = py_round 2 ((clock s1 - clock s) * 1000), step_note = next_note nx\<rparr>, s1))))"

function run_from ::
  "('s \<Rightarrow> seconds) \<Rightarrow> ('s, 'e) graph \<Rightarrow> string \<Rightarrow> step list \<Rightarrow> 's \<Rightarrow> ('e halt \<times> step list) \<times> 's" where
  "run_from clock G cur steps s =
     (if cur = END then ((Finished_Run, steps), s)
      else if g_max_steps G \<le> int (length steps) then ((OutOfBudget (budget_error G), steps), s)
      else
        (case round_at clock G cur s of
           (Inl h, s1) \<Rightarrow> ((h, steps), s1)
         | (Inr st, s1) \<Rightarrow> run_from clock G (step_next st) (steps @ [st]) s1))"
  by pat_completeness auto
termination by (relation "measure (\<lambda>(clock, G, cur, steps, s). nat (g_max_steps G - int (length steps)))") auto

declare run_from.simps [simp del]

definition run_graph :: "('s \<Rightarrow> seconds) \<Rightarrow> ('s, 'e) graph \<Rightarrow> 's \<Rightarrow> ('e halt \<times> step list) \<times> 's" where
  "run_graph clock G s = run_from clock G (g_entry G) [] s"

section \<open>The diagram\<close>

definition edge_line :: "string \<Rightarrow> string \<Rightarrow> string" where
  "edge_line n t = (if t = END then ''    '' @ n @ '' --> done([done])'' else ''    '' @ n @ '' --> '' @ t)"

definition to_mermaid :: "('s, 'e) graph \<Rightarrow> string" where
  "to_mermaid G = join [CHR 0x0A]
     ([''flowchart TD'', ''    start([start]) --> '' @ g_entry G]
      @ concat (map (\<lambda>(n, ts). map (edge_line n) ts) (g_edges G)))"


section \<open>Paths\<close>

text \<open>The steps of a run, as a walk over the declared edges.\<close>

fun walk :: "('s, 'e) graph \<Rightarrow> string \<Rightarrow> step list \<Rightarrow> string \<Rightarrow> bool" where
  "walk G n [] m \<longleftrightarrow> n = m"
| "walk G n (x # xs) m \<longleftrightarrow> n \<noteq> END \<and> step_node x = n \<and> step_next x \<in> set (targets G n) \<and> walk G (step_next x) xs m"

lemma walk_append: "walk G n (xs @ ys) m \<longleftrightarrow> (\<exists>k. walk G n xs k \<and> walk G k ys m)"
  by (induction xs arbitrary: n) auto

lemma round_step:
  assumes "round_at clock G n s = (Inr x, s1)"
  shows "step_node x = n" "step_next x \<in> set (targets G n)"
  using assms unfolding round_at_def by (auto simp: Let_def split: option.splits sum.splits prod.splits if_splits)

lemma run_walks:
  "walk G n steps cur \<Longrightarrow> run_from clock G cur steps s = ((h, sts), s') \<Longrightarrow>
     \<exists>m. walk G n sts m \<and> (h = Finished_Run \<longrightarrow> m = END) \<and> (\<forall>k. h = NoSuchNode k \<longrightarrow> k = m \<and> m \<noteq> END \<and> dict_get (g_nodes G) m = None) \<and> int (length sts) \<le> max (g_max_steps G) (int (length steps))"
proof (induction clock G cur steps s rule: run_from.induct)
  case (1 clock G cur steps s)
  show ?case
  proof (cases "cur = END \<or> g_max_steps G \<le> int (length steps)")
    case True
    then show ?thesis using 1(2,3) by (auto simp: run_from.simps[of clock G cur] split: if_splits)
  next
    case False
    then have run: "(case round_at clock G cur s of (Inl h, s1) \<Rightarrow> ((h, steps), s1)
          | (Inr st, s1) \<Rightarrow> run_from clock G (step_next st) (steps @ [st]) s1) = ((h, sts), s')"
      using 1(3) by (simp add: run_from.simps[of clock G cur])
    obtain r s1 where r: "round_at clock G cur s = (r, s1)" by (cases "round_at clock G cur s")
    show ?thesis
    proof (cases r)
      case (Inl e)
      then have "h \<noteq> Finished_Run \<and> (\<forall>k. h = NoSuchNode k \<longrightarrow> k = cur \<and> dict_get (g_nodes G) cur = None)"
        using r run by (auto simp: round_at_def Let_def split: option.splits sum.splits prod.splits if_splits)
      then show ?thesis using 1(2) run r Inl False by auto
    next
      case (Inr x)
      have "walk G n (steps @ [x]) (step_next x)"
        using 1(2) round_step[OF r[unfolded Inr]] False by (auto simp: walk_append)
      from 1(1)[OF _ _ r[symmetric] Inr this] False run r Inr show ?thesis by auto
    qed
  qed
qed

section \<open>Runs that settle\<close>

text \<open>What a set of nodes promises to the engine: an invariant of the state at each node under which
  every node is there and moves along its edges. Then the engine never refuses a move.\<close>

locale guarded_graph =
  fixes clock :: "'s \<Rightarrow> seconds" and G :: "('s, 'e) graph" and inv :: "string \<Rightarrow> 's \<Rightarrow> bool"
  assumes node_there: "inv n s \<Longrightarrow> n \<noteq> END \<Longrightarrow> \<exists>f. dict_get (g_nodes G) n = Some f"
    and node_moves: "inv n s \<Longrightarrow> dict_get (g_nodes G) n = Some f \<Longrightarrow> f s = (Inr d, s') \<Longrightarrow>
      next_node d \<in> set (targets G n) \<and> inv (next_node d) s'"
begin

lemma round_guarded:
  assumes "inv n s" and "n \<noteq> END" and "round_at clock G n s = (r, s')"
  shows "(\<exists>e. r = Inl (NodeRaised e)) \<or> (\<exists>x. r = Inr x \<and> inv (step_next x) s')"
proof -
  obtain f where f: "dict_get (g_nodes G) n = Some f" using node_there assms(1,2) by blast
  obtain d s1 where d: "f s = (d, s1)" by (cases "f s")
  show ?thesis
  proof (cases d)
    case (Inr nx)
    then show ?thesis using assms(3) f d node_moves[OF assms(1) f] by (auto simp: round_at_def)
  qed (use assms(3) f d in \<open>auto simp: round_at_def\<close>)
qed

lemma run_guarded:
  "inv cur s \<Longrightarrow> run_from clock G cur steps s = ((h, sts), s') \<Longrightarrow>
     h = Finished_Run \<and> inv END s' \<or> h = OutOfBudget (budget_error G) \<and> (\<exists>n. inv n s') \<or> (\<exists>e. h = NodeRaised e)"
proof (induction "nat (g_max_steps G - int (length steps))" arbitrary: cur steps s rule: less_induct)
  case less
  show ?case
  proof (cases "cur = END \<or> g_max_steps G \<le> int (length steps)")
    case True
    then show ?thesis using less(2,3) by (auto simp: run_from.simps[of clock G cur] split: if_splits)
  next
    case False
    obtain r s1 where r: "round_at clock G cur s = (r, s1)" by (cases "round_at clock G cur s")
    from round_guarded[OF less(2) _ r] False consider e where "r = Inl (NodeRaised e)" | x where "r = Inr x" "inv (step_next x) s1" by blast
    then show ?thesis
    proof cases
      case 1
      then show ?thesis using less(3) r False by (auto simp: run_from.simps[of clock G cur])
    next
      case 2
      have "run_from clock G (step_next x) (steps @ [x]) s1 = ((h, sts), s')"
        using less(3) r False 2 by (simp add: run_from.simps[of clock G cur])
      with 2(2) show ?thesis using False by (intro less(1)[of "steps @ [x]" "step_next x" s1]) auto
    qed
  qed
qed

end

text \<open>If moreover every step brings the run nearer to its end, a budget that covers the way is never
  exceeded.\<close>

locale settling_graph = guarded_graph clock G inv
  for clock :: "'s \<Rightarrow> seconds" and G :: "('s, 'e) graph" and inv :: "string \<Rightarrow> 's \<Rightarrow> bool" +
  fixes rank :: "string \<Rightarrow> 's \<Rightarrow> nat"
  assumes rank_pos: "inv n s \<Longrightarrow> n \<noteq> END \<Longrightarrow> 0 < rank n s"
    and rank_falls: "inv n s \<Longrightarrow> dict_get (g_nodes G) n = Some f \<Longrightarrow> f s = (Inr d, s') \<Longrightarrow>
      rank (next_node d) s' < rank n s"
begin

lemma round_nearer:
  assumes "inv n s" and "round_at clock G n s = (Inr x, s')"
  shows "rank (step_next x) s' < rank n s"
  using assms rank_falls[OF assms(1)] unfolding round_at_def
  by (auto simp: Let_def split: option.splits sum.splits prod.splits if_splits)

lemma run_settles:
  "inv cur s \<Longrightarrow> int (length steps) + int (rank cur s) \<le> g_max_steps G \<Longrightarrow>
   run_from clock G cur steps s = ((h, sts), s') \<Longrightarrow>
     (h = Finished_Run \<and> inv END s' \<or> (\<exists>e. h = NodeRaised e)) \<and> length sts \<le> length steps + rank cur s"
proof (induction "rank cur s" arbitrary: cur steps s rule: less_induct)
  case less
  show ?case
  proof (cases "cur = END")
    case True
    then show ?thesis using less(2,4) by (auto simp: run_from.simps[of clock G END])
  next
    case False
    then have budget: "\<not> g_max_steps G \<le> int (length steps)" using rank_pos[OF less(2)] less(3) by auto
    obtain r s1 where r: "round_at clock G cur s = (r, s1)" by (cases "round_at clock G cur s")
    from round_guarded[OF less(2) False r] consider e where "r = Inl (NodeRaised e)" | x where "r = Inr x" "inv (step_next x) s1" by blast
    then show ?thesis
    proof cases
      case 1
      then show ?thesis using less(4) r False budget by (auto simp: run_from.simps[of clock G cur])
    next
      case 2
      have "run_from clock G (step_next x) (steps @ [x]) s1 = ((h, sts), s')"
        using less(4) r False budget 2 by (simp add: run_from.simps[of clock G cur])
      with less(1)[of "step_next x" s1 "steps @ [x]"] round_nearer[OF less(2) r[unfolded 2(1)]] 2(2) less(3) show ?thesis
        by fastforce
    qed
  qed
qed

end

section \<open>Properties\<close>

lemma accepted_graph:
  assumes "make_graph G = Inr G'"
  shows "G' = G" "g_entry G \<in> fst ` set (g_nodes G)" "fst ` set (g_edges G) = fst ` set (g_nodes G)"
    "\<And>n t. t \<in> set (targets G n) \<Longrightarrow> t = END \<or> t \<in> fst ` set (g_nodes G)"
proof -
  have e: "graph_complaint G = None" "G' = G" using assms by (auto simp: make_graph_def split: option.splits)
  then show "G' = G" "g_entry G \<in> fst ` set (g_nodes G)" "fst ` set (g_edges G) = fst ` set (g_nodes G)"
    by (auto simp: graph_complaint_def split: if_splits)
  have "find (\<lambda>e. edge_error G e \<noteq> None) (g_edges G) = None"
    using e(1) find_hit[of "\<lambda>e. edge_error G e \<noteq> None" "g_edges G"] by (force simp: graph_complaint_def split: if_splits option.splits)
  then have edges: "edge_error G x = None" if "x \<in> set (g_edges G)" for x using that unfolding find_None_iff by blast
  fix n t assume t: "t \<in> set (targets G n)"
  then obtain ts where ts: "dict_get (g_edges G) n = Some ts" "t \<in> set ts" unfolding targets_def by (cases "dict_get (g_edges G) n") auto
  from edges[OF map_of_SomeD[OF ts(1)]] have "unknown_targets G ts = []" by (auto simp: edge_error_def Let_def split: if_splits)
  with ts(2) show "t = END \<or> t \<in> fst ` set (g_nodes G)" by (auto simp: unknown_targets_def filter_empty_conv)
qed

lemma walk_stays:
  assumes "\<And>n t. t \<in> set (targets G n) \<Longrightarrow> t = END \<or> t \<in> N"
  shows "walk G n sts m \<Longrightarrow> n = END \<or> n \<in> N \<Longrightarrow>
     (m = END \<or> m \<in> N) \<and> (\<forall>x \<in> set sts. step_node x \<in> N \<and> (step_next x = END \<or> step_next x \<in> N))"
proof (induction sts arbitrary: n)
  case (Cons x xs)
  from Cons.prems have "step_next x \<in> set (targets G n)" by simp
  from assms[OF this] have "step_next x = END \<or> step_next x \<in> N" .
  with Cons show ?case by auto
qed simp

text \<open>C25: A graph that was accepted is closed: whatever its nodes decide, a run never looks for a node that is
  not there, and no move that is allowed leads anywhere but to a node or to the end.\<close>

theorem an_accepted_graph_has_every_node_it_visits:
  assumes "make_graph G = Inr G'" and "run_graph clock G' s = ((h, sts), s')"
  shows "h \<noteq> NoSuchNode n \<and> (\<forall>x \<in> set sts. step_node x \<in> fst ` set (g_nodes G) \<and>
     (step_next x = END \<or> step_next x \<in> fst ` set (g_nodes G)))"
proof -
  note G = accepted_graph[OF assms(1)]
  obtain m where m: "walk G (g_entry G) sts m" "\<forall>k. h = NoSuchNode k \<longrightarrow> k = m \<and> m \<noteq> END \<and> dict_get (g_nodes G) m = None"
    using run_walks[of G "g_entry G" "[]" "g_entry G" clock s h sts s'] assms(2) G(1) by (auto simp: run_graph_def)
  with walk_stays[OF G(4) m(1)] G(2) show ?thesis by (auto simp: map_of_eq_None_iff)
qed

text \<open>A run is a walk over the declared edges from the entry, no longer than the budget, whatever the
  nodes do: it ends at \<open>END\<close> exactly when the run finishes.\<close>

theorem a_run_stays_on_the_declared_edges:
  assumes "0 \<le> g_max_steps G" and "run_graph clock G s = ((h, sts), s')"
  shows "\<exists>m. walk G (g_entry G) sts m \<and> (h = Finished_Run \<longrightarrow> m = END) \<and> int (length sts) \<le> g_max_steps G"
  using run_walks[of G "g_entry G" "[]" "g_entry G", OF _ assms(2)[unfolded run_graph_def]] assms(1) by auto

text \<open>A node that always decides to run again is stopped by the budget.\<close>

definition ex_loop :: "(nat, unit) graph" where
  "ex_loop = \<lparr>g_name = ''loop'', g_entry = ''a'', g_nodes = [(''a'', \<lambda>s. (Inr \<lparr>next_node = ''a'', next_note = None\<rparr>, s + 1))],
     g_edges = [(''a'', [''a'', END])], g_max_steps = 2\<rparr>"

lemma ex_loop_runs:
  "run_graph (\<lambda>s. 0) ex_loop 5 = ((OutOfBudget (budget_error ex_loop),
     replicate 2 \<lparr>step_node = ''a'', step_next = ''a'', step_ms = 0, step_note = None\<rparr>), 7)"
  by (simp add: run_graph_def ex_loop_def run_from.simps round_at_def targets_def py_round_def END_def Let_def eval_nat_numeral)

lemma a_run_stays_on_the_declared_edges_witness:
  "\<exists>m. walk ex_loop ''a'' (replicate 2 \<lparr>step_node = ''a'', step_next = ''a'', step_ms = 0, step_note = None\<rparr>) m"
  using a_run_stays_on_the_declared_edges[OF _ ex_loop_runs] by (auto simp: ex_loop_def)

lemma an_accepted_graph_has_every_node_it_visits_witness:
  "\<forall>n. snd (run_graph (\<lambda>s. 0 :: seconds) ex_loop 5) = 7 \<and> OutOfBudget (budget_error ex_loop) \<noteq> (NoSuchNode n :: unit halt)"
proof -
  have "make_graph ex_loop = Inr ex_loop"
    by (simp add: make_graph_def graph_complaint_def ex_loop_def edge_error_def unknown_targets_def END_def)
  from an_accepted_graph_has_every_node_it_visits[OF this ex_loop_runs] show ?thesis by (simp add: ex_loop_runs)
qed

end
