(* ===== verification/Chunking.thy ===== *)
theory Chunking
  imports Parsing "HOL-Library.Sublist"
begin

text \<open>
  The chunking strategies of \<open>app/rag/chunking.py\<close>: fixed windows of words, and packing of whole
  sentences, list items and table rows with or without the heading structure. The three regular
  expressions are written out as the matching they amount to on the strings the code gives them: a
  sentence end is a whole run of white space, a heading and a stand-alone line are matched on a
  stripped line without line feeds.
\<close>

record chunk =
  c_index :: nat
  c_text :: string
  c_page :: "int option"
  c_heading :: "string option"

definition count_words :: "string \<Rightarrow> nat" where
  "count_words s = length (split_words s)"

section \<open>Fixed windows\<close>

record window_chunker =
  w_max :: nat
  w_overlap :: nat

definition new_window_chunker :: "int \<Rightarrow> int \<Rightarrow> value_error + window_chunker" where
  "new_window_chunker m v =
     (if m \<le> 0 \<or> \<not> (0 \<le> v \<and> v < m) then Inl (ValueError ''need max_words > 0 and 0 <= overlap_words < max_words'')
      else Inr \<lparr>w_max = nat m, w_overlap = nat v\<rparr>)"

text \<open>The windows of one section: the loop over \<open>range(0, len(words), step)\<close> with its \<open>break\<close>.\<close>

function windows :: "nat \<Rightarrow> nat \<Rightarrow> 'a list \<Rightarrow> 'a list list" where
  "windows m step ws =
     (if step = 0 \<or> ws = [] then []
      else take m ws # (if m \<ge> length ws then [] else windows m step (drop step ws)))"
  by pat_completeness auto
termination by (relation "measure (\<lambda>(m, step, ws). length ws)") auto

declare windows.simps [simp del]

fun number_from :: "nat \<Rightarrow> (string \<times> int option \<times> string option) list \<Rightarrow> chunk list" where
  "number_from n [] = []"
| "number_from n ((t, p, h) # xs) = \<lparr>c_index = n, c_text = t, c_page = p, c_heading = h\<rparr> # number_from (Suc n) xs"

definition window_chunks :: "window_chunker \<Rightarrow> doc_section list \<Rightarrow> string option \<Rightarrow> chunk list" where
  "window_chunks W secs title =
     number_from 0 (concat (map (\<lambda>s. map (\<lambda>ws. (join '' '' ws, sec_page s, None))
        (windows (w_max W) (w_max W - w_overlap W) (split_words (sec_text s)))) secs))"

section \<open>Sentences, list items and headings\<close>

text \<open>What may follow a sentence end: an optional quote or bracket, then a capital or a digit.\<close>

fun sentence_start :: "string \<Rightarrow> bool" where
  "sentence_start [] = False"
| "sentence_start (c # cs) \<longleftrightarrow>
     is_upper c \<or> is_digit c
     \<or> (c \<in> {CHR 0x22, CHR 0x27, CHR ''('', CHR ''[''} \<and> cs \<noteq> [] \<and> (is_upper (hd cs) \<or> is_digit (hd cs)))"

function sentence_split :: "string \<Rightarrow> string \<Rightarrow> string list" where
  "sentence_split cur [] = [rev cur]"
| "sentence_split cur (c # cs) =
     (if is_space c \<and> cur \<noteq> [] \<and> hd cur \<in> {CHR ''.'', CHR ''!'', CHR ''?''} \<and> sentence_start (dropWhile is_space cs)
      then rev cur # sentence_split [] (dropWhile is_space cs)
      else sentence_split (c # cur) cs)"
  by pat_completeness auto
termination
  by (relation "measure (\<lambda>(cur, s). length s)") (auto simp: le_imp_less_Suc length_dropWhile_le)

definition sentences :: "string list \<Rightarrow> string list" where
  "sentences ls = filter (\<lambda>s. s \<noteq> []) (map strip (sentence_split [] (join '' '' ls)))"

text \<open>\<open>_HEADING\<close>: the level and the text, without trailing hashes.\<close>

definition hash_tail :: "string \<Rightarrow> bool" where
  "hash_tail s \<longleftrightarrow> dropWhile (\<lambda>c. c = CHR ''#'') (dropWhile is_space s) = []"

definition lazy_text :: "string \<Rightarrow> string" where
  "lazy_text s = (case find (\<lambda>k. hash_tail (drop k s)) [1..<Suc (length s)] of Some k \<Rightarrow> take k s | None \<Rightarrow> s)"

definition heading_of :: "string \<Rightarrow> (nat \<times> string) option" where
  "heading_of line =
     (let level = length (takeWhile (\<lambda>c. c = CHR ''#'') line);
          rest = dropWhile (\<lambda>c. c = CHR ''#'') line; body = dropWhile is_space rest
      in if 1 \<le> level \<and> level \<le> 6 \<and> rest \<noteq> [] \<and> is_space (hd rest) \<and> body \<noteq> []
         then Some (level, lazy_text body) else None)"

text \<open>\<open>_STANDALONE_LINE\<close> on a stripped line\<close>

definition standalone :: "string \<Rightarrow> bool" where
  "standalone line \<longleftrightarrow>
     (case line of
        [] \<Rightarrow> False
      | c # cs \<Rightarrow>
          c = CHR ''|'' \<or> (c \<in> {CHR ''-'', CHR ''*'', CHR ''+''} \<and> cs \<noteq> [] \<and> is_space (hd cs))
          \<or> (is_digit c \<and>
             (let r = dropWhile is_digit cs in
              length r \<ge> 2 \<and> hd r \<in> {CHR ''.'', CHR '')''} \<and> is_space (hd (tl r)))))"

record unit_text =
  u_text :: string
  u_heading :: "string option"
  u_starts :: bool
  u_is_heading :: bool

record splitting =
  sp_units :: "unit_text list"
  sp_stack :: "(nat \<times> string) list"
  sp_pending :: bool
  sp_para :: "string list"

definition heading_path :: "(nat \<times> string) list \<Rightarrow> string option" where
  "heading_path st = (let p = join '' > '' (map snd st) in if p = [] then None else Some p)"

definition add_units :: "string list \<Rightarrow> bool \<Rightarrow> splitting \<Rightarrow> splitting" where
  "add_units ps isheading S =
     fold (\<lambda>p S. S\<lparr>sp_units := sp_units S @ [\<lparr>u_text = p, u_heading = heading_path (sp_stack S),
                                            u_starts = sp_pending S, u_is_heading = isheading\<rparr>],
                  sp_pending := False\<rparr>) ps S"

definition end_paragraph :: "splitting \<Rightarrow> splitting" where
  "end_paragraph S = (add_units (sentences (sp_para S)) False S)\<lparr>sp_para := []\<rparr>"

definition push_heading :: "nat \<Rightarrow> string \<Rightarrow> (nat \<times> string) list \<Rightarrow> (nat \<times> string) list" where
  "push_heading level t stack = rev (dropWhile (\<lambda>(l, x). l \<ge> level) (rev stack)) @ [(level, t)]"

definition split_line :: "string \<Rightarrow> splitting \<Rightarrow> splitting" where
  "split_line raw S =
     (let line = strip raw; h = heading_of line; alone = standalone line;
          S1 = (if line = [] \<or> h \<noteq> None \<or> alone then end_paragraph S else S)
      in case h of
           Some (level, t) \<Rightarrow>
             add_units [t] True (S1\<lparr>sp_stack := push_heading level t (sp_stack S1), sp_pending := True\<rparr>)
         | None \<Rightarrow>
             if alone then add_units [line] False S1
             else if line \<noteq> [] then S1\<lparr>sp_para := sp_para S1 @ [line]\<rparr> else S1)"

definition split_units :: "string \<Rightarrow> unit_text list" where
  "split_units s =
     sp_units (end_paragraph (fold split_line (split_on CHR 0x0A s)
       \<lparr>sp_units = [], sp_stack = [], sp_pending = False, sp_para = []\<rparr>))"

section \<open>Packing\<close>

record sentence_chunker =
  s_max :: nat
  s_overlap :: nat
  structured :: bool

definition new_sentence_chunker :: "int \<Rightarrow> int \<Rightarrow> bool \<Rightarrow> value_error + sentence_chunker" where
  "new_sentence_chunker m v b =
     (if m \<le> 0 \<or> \<not> (0 \<le> v \<and> v < m) then Inl (ValueError ''need max_words > 0 and 0 <= overlap_words < max_words'')
      else Inr \<lparr>s_max = nat m, s_overlap = nat v, structured = b\<rparr>)"

record packing =
  pk_out :: "(string option \<times> string) list"
  pk_current :: "unit_text list"
  pk_fresh :: nat

definition size_of :: "unit_text \<Rightarrow> nat" where "size_of u = count_words (u_text u)"

definition total :: "unit_text list \<Rightarrow> nat" where "total us = sum_list (map size_of us)"

definition emit :: "packing \<Rightarrow> packing" where
  "emit P = (if pk_fresh P = 0 then P
             else P\<lparr>pk_out := pk_out P @ [(u_heading (pk_current P ! (length (pk_current P) - pk_fresh P)),
                                         join [CHR 0x0A] (map u_text (pk_current P)))]\<rparr>)"

text \<open>\<open>_overlap\<close>: from the end, while the budget lasts. The loop runs over the units reversed.\<close>

fun carry :: "nat \<Rightarrow> unit_text list \<Rightarrow> unit_text list" where
  "carry budget [] = []"
| "carry budget (u # us) = (if size_of u > budget then [] else carry (budget - size_of u) us @ [u])"

definition overlap :: "sentence_chunker \<Rightarrow> unit_text list \<Rightarrow> nat \<Rightarrow> unit_text list" where
  "overlap C previous incoming = carry (min (s_overlap C) (s_max C - incoming)) (rev previous)"

definition reset :: "packing \<Rightarrow> packing" where
  "reset P = P\<lparr>pk_current := [], pk_fresh := 0\<rparr>"

definition pack_unit :: "sentence_chunker \<Rightarrow> unit_text \<Rightarrow> packing \<Rightarrow> packing" where
  "pack_unit C u P =
     (let P1 = (if structured C \<and> u_starts u \<and> pk_current P \<noteq> [] then reset (emit P) else P) in
      if structured C \<and> u_is_heading u then P1
      else if size_of u > s_max C then
        (let P2 = emit P1
         in reset (P2\<lparr>pk_out := pk_out P2 @ map (\<lambda>ws. (u_heading u, join '' '' ws)) (pieces (s_max C) (split_words (u_text u)))\<rparr>))
      else
        (let P2 = (if pk_current P1 \<noteq> [] \<and> total (pk_current P1) + size_of u > s_max C
                   then (emit P1)\<lparr>pk_current := overlap C (pk_current P1) (size_of u), pk_fresh := 0\<rparr> else P1)
         in P2\<lparr>pk_current := pk_current P2 @ [u], pk_fresh := pk_fresh P2 + 1\<rparr>))"

definition pack :: "sentence_chunker \<Rightarrow> unit_text list \<Rightarrow> (string option \<times> string) list" where
  "pack C us = pk_out (emit (fold (pack_unit C) us \<lparr>pk_out = [], pk_current = [], pk_fresh = 0\<rparr>))"

text \<open>\<open>heading.split(" > ")[0]\<close>\<close>

fun first_part :: "string \<Rightarrow> string" where
  "first_part [] = []"
| "first_part (c # cs) = (if take 3 (c # cs) = '' > '' then [] else c # first_part cs)"

definition nonempty :: "string option \<Rightarrow> string list" where
  "nonempty x = (case x of None \<Rightarrow> [] | Some s \<Rightarrow> if s = [] then [] else [s])"

definition context_prefix :: "string option \<Rightarrow> string option \<Rightarrow> string" where
  "context_prefix title heading =
     (let t = (if nonempty title \<noteq> [] \<and> nonempty heading \<noteq> [] \<and> first_part (the heading) = the title then None else title)
      in join '' > '' (nonempty t @ nonempty heading))"

definition chunk_text_of :: "sentence_chunker \<Rightarrow> string option \<Rightarrow> string option \<Rightarrow> string \<Rightarrow> string" where
  "chunk_text_of C title heading body =
     (let prefix = (if structured C then context_prefix title heading else [])
      in if prefix = [] then body else prefix @ [CHR 0x0A] @ body)"

definition sentence_chunks :: "sentence_chunker \<Rightarrow> doc_section list \<Rightarrow> string option \<Rightarrow> chunk list" where
  "sentence_chunks C secs title =
     number_from 0 (concat (map (\<lambda>s. map (\<lambda>(h, body). (chunk_text_of C title h body, sec_page s, h))
        (pack C (split_units (sec_text s)))) secs))"

datatype strategy = Fixed | Sentence | Structured

definition build_chunker ::
  "strategy \<Rightarrow> int \<Rightarrow> int \<Rightarrow> value_error + (doc_section list \<Rightarrow> string option \<Rightarrow> chunk list)" where
  "build_chunker k m v =
     (if k = Fixed then map_sum id window_chunks (new_window_chunker m v)
      else map_sum id sentence_chunks (new_sentence_chunker m v (k = Structured)))"


section \<open>The groups behind the chunks\<close>

text \<open>What packing means: the units are dealt once, in order, into groups; a group may begin with units
  carried over from the end of the one before. A unit that is too long on its own is a group that is
  cut into pieces.\<close>

type_synonym group = "unit_text list \<times> unit_text list"

definition rendered :: "sentence_chunker \<Rightarrow> group \<Rightarrow> (string option \<times> string) list" where
  "rendered C g =
     (case g of (c, f) \<Rightarrow>
        if length f = 1 \<and> size_of (hd f) > s_max C
        then map (\<lambda>ws. (u_heading (hd f), join '' '' ws)) (pieces (s_max C) (split_words (u_text (hd f))))
        else [(u_heading (hd f), join [CHR 0x0A] (map u_text (c @ f)))])"

definition good_group :: "sentence_chunker \<Rightarrow> group \<Rightarrow> bool" where
  "good_group C g \<longleftrightarrow>
     (case g of (c, f) \<Rightarrow> f \<noteq> [] \<and> total c \<le> s_overlap C
        \<and> (total (c @ f) \<le> s_max C \<or> (c = [] \<and> length f = 1 \<and> size_of (hd f) > s_max C)))"

fun linked :: "unit_text list \<Rightarrow> group list \<Rightarrow> bool" where
  "linked prev [] = True"
| "linked prev ((c, f) # gs) \<longleftrightarrow> suffix c prev \<and> linked (c @ f) gs"

definition ending :: "group list \<Rightarrow> unit_text list" where
  "ending gs = (if gs = [] then [] else fst (last gs) @ snd (last gs))"

lemma linked_snoc: "linked [] (gs @ [(c, f)]) \<longleftrightarrow> linked [] gs \<and> suffix c (ending gs)"
proof -
  have "linked p (gs @ [(c, f)]) \<longleftrightarrow> linked p gs \<and> suffix c (if gs = [] then p else ending gs)" for p
    by (induction gs arbitrary: p) (auto simp: ending_def)
  then show ?thesis by (simp add: ending_def)
qed

text \<open>Which units packing keeps: with structure, a heading is in the prefix of its chunks instead.\<close>

definition kept_units :: "sentence_chunker \<Rightarrow> unit_text list \<Rightarrow> unit_text list" where
  "kept_units C us = filter (\<lambda>u. \<not> (structured C \<and> u_is_heading u)) us"

definition packed :: "sentence_chunker \<Rightarrow> unit_text list \<Rightarrow> group list \<Rightarrow> unit_text list \<Rightarrow> unit_text list \<Rightarrow> packing \<Rightarrow> bool" where
  "packed C us gs car fr P \<longleftrightarrow>
     pk_out P = concat (map (rendered C) gs) \<and> pk_current P = car @ fr \<and> pk_fresh P = length fr
     \<and> concat (map snd gs) @ fr = kept_units C us \<and> (\<forall>g \<in> set gs. good_group C g) \<and> linked [] gs
     \<and> total (car @ fr) \<le> s_max C \<and> total car \<le> s_overlap C \<and> suffix car (ending gs) \<and> (fr = [] \<longrightarrow> car = [])"

lemma total_simps [simp]: "total [] = 0" "total (u # us) = size_of u + total us" "total (us @ vs) = total us + total vs"
  by (simp_all add: total_def)

lemma fits_alone: "fr \<noteq> [] \<Longrightarrow> total (car @ fr) \<le> s_max C \<Longrightarrow> \<not> (length fr = 1 \<and> size_of (hd fr) > s_max C)"
  by (cases fr) auto

lemma emit_packed:
  assumes "packed C us gs car fr P"
  obtains gs' where "pk_out (emit P) = concat (map (rendered C) gs')" "concat (map snd gs') = kept_units C us"
    "\<forall>g \<in> set gs'. good_group C g" "linked [] gs'" "car @ fr \<noteq> [] \<longrightarrow> ending gs' = car @ fr"
    "pk_current (emit P) = car @ fr" "gs' = (if fr = [] then gs else gs @ [(car, fr)])"
proof (cases "fr = []")
  case True
  then show ?thesis using assms that[of gs] by (simp add: packed_def emit_def)
next
  case False
  have "rendered C (car, fr) = [(u_heading (hd fr), join [CHR 0x0A] (map u_text (car @ fr)))]"
    using assms fits_alone[OF False, of car C] by (auto simp: packed_def rendered_def)
  moreover have "(car @ fr) ! length car = hd fr" using False by (simp add: nth_append hd_conv_nth)
  ultimately show ?thesis
    using assms False by (intro that[of "gs @ [(car, fr)]"]) (auto simp: packed_def emit_def good_group_def linked_snoc ending_def)
qed

lemma carry_fits: "total (carry b us) \<le> b"
  by (induction b us rule: carry.induct) auto

lemma carry_suffix: "suffix (carry b us) (rev us)"
  by (induction b us rule: carry.induct) auto

lemma kept_snoc:
  "kept_units C (us @ [u]) = kept_units C us @ (if structured C \<and> u_is_heading u then [] else [u])"
  by (simp add: kept_units_def)

lemma pack_unit_reset:
  assumes "packed C us gs car fr P"
  obtains gs' car' fr' where "packed C us gs' car' fr' (if structured C \<and> u_starts u \<and> pk_current P \<noteq> [] then reset (emit P) else P)"
    and "structured C \<and> u_starts u \<longrightarrow> car' @ fr' = []" and "\<not> (structured C \<and> u_starts u) \<longrightarrow> gs' = gs \<and> car' = car \<and> fr' = fr"
    and "gs' = gs \<or> gs' = gs @ [(car, fr)]"
proof (cases "structured C \<and> u_starts u \<and> pk_current P \<noteq> []")
  case True
  from emit_packed[OF assms] obtain gs' where g: "pk_out (emit P) = concat (map (rendered C) gs')"
      "concat (map snd gs') = kept_units C us" "\<forall>g \<in> set gs'. good_group C g" "linked [] gs'"
      "gs' = (if fr = [] then gs else gs @ [(car, fr)])"
    by metis
  show ?thesis
    by (rule that[of gs' "[]" "[]"]) (use True g in \<open>auto simp: packed_def reset_def\<close>)
next
  case False
  then show ?thesis using assms by (intro that[of gs car fr]) (auto simp: packed_def)
qed


text \<open>With structure, the units of a group share one heading path, that of the section being packed.\<close>

definition same_section :: "unit_text list \<Rightarrow> group list \<Rightarrow> unit_text list \<Rightarrow> bool" where
  "same_section us gs current \<longleftrightarrow>
     (\<forall>(c, f) \<in> set gs. \<forall>v \<in> set (c @ f). u_heading v = u_heading (hd f))
     \<and> (\<forall>v \<in> set current. u_heading v = u_heading (last us))"

definition continues :: "unit_text list \<Rightarrow> unit_text \<Rightarrow> bool" where
  "continues us u \<longleftrightarrow> us \<noteq> [] \<and> \<not> u_starts u \<longrightarrow> u_heading u = u_heading (last us)"

lemma same_section_emit:
  assumes "same_section us gs (car @ fr)" and "fr \<noteq> []"
  shows "same_section us (gs @ [(car, fr)]) current \<longleftrightarrow> (\<forall>v \<in> set current. u_heading v = u_heading (last us))"
proof -
  have "u_heading v = u_heading (hd fr)" if "v \<in> set (car @ fr)" for v
    using assms that hd_in_set[OF assms(2)] by (fastforce simp: same_section_def)
  then show ?thesis using assms(1) by (auto simp: same_section_def)
qed

lemma overlap_facts:
  assumes "size_of u \<le> s_max C"
  shows "total (overlap C us (size_of u)) \<le> s_overlap C" "total (overlap C us (size_of u)) + size_of u \<le> s_max C"
    "suffix (overlap C us (size_of u)) us"
  using carry_fits[of "min (s_overlap C) (s_max C - size_of u)" "rev us"] assms
    carry_suffix[of "min (s_overlap C) (s_max C - size_of u)" "rev us"]
  by (auto simp: overlap_def)

lemma pack_unit_packed:
  assumes "packed C us gs car fr P"
  obtains gs' car' fr' where "packed C (us @ [u]) gs' car' fr' (pack_unit C u P)"
    and "structured C \<and> continues us u \<and> (us \<noteq> [] \<or> car @ fr = []) \<and> same_section us gs (car @ fr) \<longrightarrow>
           same_section (us @ [u]) gs' (car' @ fr')"
proof -
  define P1 where "P1 = (if structured C \<and> u_starts u \<and> pk_current P \<noteq> [] then reset (emit P) else P)"
  from pack_unit_reset[OF assms, of u] obtain gs1 car1 fr1 where p1: "packed C us gs1 car1 fr1 P1"
      and st: "structured C \<and> u_starts u \<longrightarrow> car1 @ fr1 = []"
      and ns: "\<not> (structured C \<and> u_starts u) \<longrightarrow> gs1 = gs \<and> car1 = car \<and> fr1 = fr"
      and g1: "gs1 = gs \<or> gs1 = gs @ [(car, fr)]"
    unfolding P1_def by metis
  have fr0: "gs1 = gs @ [(car, fr)] \<Longrightarrow> fr \<noteq> []" using p1 by (auto simp: packed_def good_group_def)
  have sec1: "same_section (us @ [u]) gs1 (car1 @ fr1)"
    if c: "structured C" "continues us u" "us \<noteq> [] \<or> car @ fr = []" "same_section us gs (car @ fr)"
  proof (cases "u_starts u")
    case True
    then have "car1 @ fr1 = []" using st c(1) by simp
    moreover from g1 have "same_section us gs1 []"
    proof
      assume "gs1 = gs"
      then show ?thesis using c(4) by (simp add: same_section_def)
    next
      assume g: "gs1 = gs @ [(car, fr)]"
      then show ?thesis using same_section_emit[OF c(4) fr0[OF g], of "[]"] by simp
    qed
    ultimately show ?thesis by (simp add: same_section_def)
  next
    case False
    then show ?thesis using ns c by (auto simp: same_section_def continues_def)
  qed
  from emit_packed[OF p1] obtain gs2 where e: "pk_out (emit P1) = concat (map (rendered C) gs2)"
      "concat (map snd gs2) = kept_units C us" "\<forall>g \<in> set gs2. good_group C g" "linked [] gs2"
      "car1 @ fr1 \<noteq> [] \<longrightarrow> ending gs2 = car1 @ fr1" "gs2 = (if fr1 = [] then gs1 else gs1 @ [(car1, fr1)])" by metis
  have sec2: "same_section (us @ [u]) gs2 []" if "same_section (us @ [u]) gs1 (car1 @ fr1)"
    using e(6) that same_section_emit[OF that, of "[]"] by (auto simp: same_section_def)
  have pu: "pack_unit C u P =
     (if structured C \<and> u_is_heading u then P1
      else if size_of u > s_max C then
        reset ((emit P1)\<lparr>pk_out := pk_out (emit P1) @ map (\<lambda>ws. (u_heading u, join '' '' ws)) (pieces (s_max C) (split_words (u_text u)))\<rparr>)
      else
        (let P2 = (if pk_current P1 \<noteq> [] \<and> total (pk_current P1) + size_of u > s_max C
                   then (emit P1)\<lparr>pk_current := overlap C (pk_current P1) (size_of u), pk_fresh := 0\<rparr> else P1)
         in P2\<lparr>pk_current := pk_current P2 @ [u], pk_fresh := pk_fresh P2 + 1\<rparr>))"
    by (simp only: pack_unit_def P1_def Let_def)
  consider "structured C \<and> u_is_heading u" | "\<not> (structured C \<and> u_is_heading u)" "size_of u > s_max C"
    | "\<not> (structured C \<and> u_is_heading u)" "size_of u \<le> s_max C" "pk_current P1 \<noteq> []" "total (pk_current P1) + size_of u > s_max C"
    | "\<not> (structured C \<and> u_is_heading u)" "size_of u \<le> s_max C" "pk_current P1 = [] \<or> total (pk_current P1) + size_of u \<le> s_max C"
    by linarith
  then show ?thesis
  proof cases
    case 1
    then have "pack_unit C u P = P1" by (simp add: pu)
    then have "packed C (us @ [u]) gs1 car1 fr1 (pack_unit C u P)" using p1 1 by (simp add: packed_def kept_snoc)
    from that[OF this] sec1 show ?thesis by blast
  next
    case 2
    define g where "g = ([] :: unit_text list, [u])"
    have g: "rendered C g = map (\<lambda>ws. (u_heading u, join '' '' ws)) (pieces (s_max C) (split_words (u_text u)))"
        "good_group C g" "snd g = [u]" "linked [] (gs2 @ [g])"
      using 2 e(4) by (simp_all add: rendered_def good_group_def g_def linked_snoc)
    have "pack_unit C u P = reset ((emit P1)\<lparr>pk_out := pk_out (emit P1) @ rendered C g\<rparr>)"
      using 2 by (auto simp: pu g(1))
    then have pk: "packed C (us @ [u]) (gs2 @ [g]) [] [] (pack_unit C u P)"
      using 2(1) e(1-3) g(2-4) by (simp add: packed_def reset_def kept_snoc)
    have sc: "same_section (us @ [u]) (gs2 @ [g]) ([] @ [])" if "same_section (us @ [u]) gs1 (car1 @ fr1)"
      using sec2[OF that] by (auto simp: same_section_def g_def)
    show ?thesis by (rule that[OF pk]) (intro impI sc sec1, simp_all)
  next
    case 3
    let ?car = "overlap C (pk_current P1) (size_of u)"
    have cur: "pk_current P1 = car1 @ fr1" using p1 by (simp add: packed_def)
    have pk: "packed C (us @ [u]) gs2 ?car [u] (pack_unit C u P)"
      using 3 e(1-5) cur overlap_facts[OF 3(2), of "pk_current P1"]
      by (auto simp: packed_def pu Let_def kept_snoc)
    have sc: "same_section (us @ [u]) gs2 (?car @ [u])" if "same_section (us @ [u]) gs1 (car1 @ fr1)"
      using sec2[OF that] that set_mono_suffix[OF overlap_facts(3)[OF 3(2), of "pk_current P1"]] cur
      by (auto simp: same_section_def)
    show ?thesis by (rule that[OF pk]) (intro impI sc sec1, simp_all)
  next
    case 4
    have cur: "pk_current P1 = car1 @ fr1" using p1 by (simp add: packed_def)
    have pk: "packed C (us @ [u]) gs1 car1 (fr1 @ [u]) (pack_unit C u P)"
    proof -
      have "pack_unit C u P = P1\<lparr>pk_current := pk_current P1 @ [u], pk_fresh := pk_fresh P1 + 1\<rparr>"
        using 4(2) by (simp only: pu 4(1) if_False not_less[symmetric] Let_def) (use 4(3) in auto)
      moreover have "total (car1 @ fr1) + size_of u \<le> s_max C" using 4(2,3) cur by auto
      moreover have "kept_units C (us @ [u]) = kept_units C us @ [u]" using 4(1) by (auto simp: kept_snoc)
      ultimately show ?thesis using p1 by (simp add: packed_def)
    qed
    have sc: "same_section (us @ [u]) gs1 (car1 @ (fr1 @ [u]))" if "same_section (us @ [u]) gs1 (car1 @ fr1)"
      using that by (auto simp: same_section_def)
    show ?thesis by (rule that[OF pk]) (intro impI sc sec1, simp_all)
  qed
qed


definition sectioned :: "unit_text list \<Rightarrow> bool" where
  "sectioned us \<longleftrightarrow> (\<forall>i < length us. continues (take i us) (us ! i))"

lemma sectioned_snoc: "sectioned (us @ [u]) \<longleftrightarrow> sectioned us \<and> continues us u"
  by (auto simp: sectioned_def less_Suc_eq nth_append)

lemma pack_groups:
  "\<exists>gs. pack C us = concat (map (rendered C) gs) \<and> concat (map snd gs) = kept_units C us
     \<and> (\<forall>g \<in> set gs. good_group C g) \<and> linked [] gs
     \<and> (structured C \<and> sectioned us \<longrightarrow> (\<forall>(c, f) \<in> set gs. \<forall>v \<in> set (c @ f). u_heading v = u_heading (hd f)))"
proof -
  let ?P0 = "\<lparr>pk_out = [], pk_current = [], pk_fresh = 0\<rparr>"
  have "\<exists>gs car fr. packed C us gs car fr (fold (pack_unit C) us ?P0)
      \<and> (us = [] \<longrightarrow> car @ fr = []) \<and> (structured C \<and> sectioned us \<longrightarrow> same_section us gs (car @ fr))"
  proof (induction us rule: rev_induct)
    case Nil
    have "packed C [] [] [] [] ?P0" by (simp add: packed_def kept_units_def ending_def)
    then show ?case by (fastforce simp: same_section_def)
  next
    case (snoc u us)
    then obtain gs car fr where p: "packed C us gs car fr (fold (pack_unit C) us ?P0)" "us = [] \<longrightarrow> car @ fr = []"
        "structured C \<and> sectioned us \<longrightarrow> same_section us gs (car @ fr)" by blast
    from pack_unit_packed[OF p(1), of u] obtain gs' car' fr' where
      "packed C (us @ [u]) gs' car' fr' (pack_unit C u (fold (pack_unit C) us ?P0))"
      "structured C \<and> continues us u \<and> (us \<noteq> [] \<or> car @ fr = []) \<and> same_section us gs (car @ fr) \<longrightarrow>
         same_section (us @ [u]) gs' (car' @ fr')" by blast
    then show ?case using p(2,3)
      by (intro exI[of _ gs'] exI[of _ car'] exI[of _ fr']) (auto simp: sectioned_snoc)
  qed
  then obtain gs car fr where p: "packed C us gs car fr (fold (pack_unit C) us ?P0)"
      and sec: "structured C \<and> sectioned us \<longrightarrow> same_section us gs (car @ fr)" by blast
  from emit_packed[OF p] obtain gs' where e: "pack C us = concat (map (rendered C) gs')"
      "concat (map snd gs') = kept_units C us" "\<forall>g \<in> set gs'. good_group C g" "linked [] gs'"
      and gs': "gs' = (if fr = [] then gs else gs @ [(car, fr)])" by (metis pack_def)
  have "same_section us gs' []" if "structured C \<and> sectioned us"
  proof (cases "fr = []")
    case True
    then show ?thesis using sec that gs' by (simp add: same_section_def)
  next
    case False
    then show ?thesis using sec that gs' same_section_emit[of us gs car fr "[]"] by simp
  qed
  then have "structured C \<and> sectioned us \<longrightarrow> (\<forall>(c, f) \<in> set gs'. \<forall>v \<in> set (c @ f). u_heading v = u_heading (hd f))"
    by (simp add: same_section_def)
  then show ?thesis using e by blast
qed

lemma words_of_lines: "us \<noteq> [] \<Longrightarrow> count_words (join [CHR 0x0A] (map u_text us)) = total us"
  using split_words_join[of "CHR 0x0A" "map u_text us"]
  by (simp add: count_words_def total_def size_of_def[abs_def] length_concat comp_def)

lemma rendered_bounds:
  assumes "good_group C g" and "(h, body) \<in> set (rendered C g)"
  shows "count_words body \<le> s_max C"
proof -
  obtain c f where g: "g = (c, f)" by (cases g)
  show ?thesis
  proof (cases "length f = 1 \<and> size_of (hd f) > s_max C")
    case True
    then obtain ws where "body = join '' '' ws" "ws \<in> set (pieces (s_max C) (split_words (u_text (hd f))))"
      using assms(2) g by (auto simp: rendered_def)
    moreover have "\<forall>w \<in> set ws. is_word w"
    proof
      fix w assume "w \<in> set ws"
      then have "w \<in> set (concat (pieces (s_max C) (split_words (u_text (hd f)))))" using calculation(2) by auto
      then have "w \<in> set (split_words (u_text (hd f)))"
        using concat_pieces[of "s_max C" "split_words (u_text (hd f))"] pieces_empty[of "s_max C" "split_words (u_text (hd f))"]
        by (metis gr0I list.set(1) empty_iff concat.simps(1))
      then show "is_word w" by (rule split_words_is_word)
    qed
    ultimately show ?thesis
      using split_words_join_words[of "CHR '' ''" ws] pieces_bounds by (fastforce simp: count_words_def)
  next
    case False
    then have "body = join [CHR 0x0A] (map u_text (c @ f))" and "c @ f \<noteq> []" and "total (c @ f) \<le> s_max C"
      using assms g by (auto simp: rendered_def good_group_def)
    then show ?thesis using words_of_lines[of "c @ f"] by simp
  qed
qed


section \<open>What splitting keeps\<close>

definition unit_words :: "unit_text list \<Rightarrow> string list" where
  "unit_words us = concat (map (\<lambda>u. split_words (u_text u)) us)"

lemma unit_words_simps [simp]:
  "unit_words [] = []" "unit_words (u # us) = split_words (u_text u) @ unit_words us"
  "unit_words (us @ vs) = unit_words us @ unit_words vs"
  by (simp_all add: unit_words_def)

text \<open>The words of the units that packing keeps.\<close>

definition own_words :: "bool \<Rightarrow> unit_text list \<Rightarrow> string list" where
  "own_words b us = unit_words (filter (\<lambda>u. \<not> (b \<and> u_is_heading u)) us)"

lemma own_words_simps [simp]:
  "own_words b [] = []" "own_words b (us @ vs) = own_words b us @ own_words b vs"
  "own_words b (u # us) = (if b \<and> u_is_heading u then [] else split_words (u_text u)) @ own_words b us"
  by (simp_all add: own_words_def)

text \<open>The words a line of the text stands for: of a heading its text without the hashes, and none with structure,
  where a heading is in the prefix of its chunks instead.\<close>

definition line_words :: "bool \<Rightarrow> string \<Rightarrow> string list" where
  "line_words b raw = (case heading_of (strip raw) of None \<Rightarrow> split_words raw | Some (l, t) \<Rightarrow> if b then [] else split_words t)"

lemma sentence_split_words: "concat (map split_words (sentence_split cur s)) = split_words (rev cur @ s)"
proof (induction cur s rule: sentence_split.induct)
  case (2 cur c cs)
  then show ?case
    using split_words_append_space[of c "rev cur" cs] by (auto simp: split_words_lstrip)
qed simp

lemma filter_words: "concat (map split_words (filter (\<lambda>x. x \<noteq> []) xs)) = concat (map split_words xs)"
  by (induction xs) auto

lemma sentences_words: "concat (map split_words (sentences ls)) = concat (map split_words ls)"
proof (cases "ls = []")
  case True
  then show ?thesis by (simp add: sentences_def strip_def lstrip_def rstrip_def)
next
  case False
  have "concat (map split_words (map strip xs)) = concat (map split_words xs)" for xs
    by (induction xs) auto
  then show ?thesis
    using sentence_split_words[of "[]" "join '' '' ls"] split_words_join[of "CHR '' ''" ls] False
    by (simp add: sentences_def filter_words)
qed

text \<open>A heading unit starts its section, and no other unit does; its heading path ends in its text.\<close>

definition marked :: "unit_text \<Rightarrow> bool" where
  "marked u \<longleftrightarrow> u_starts u = u_is_heading u \<and> (u_is_heading u \<longrightarrow> (\<exists>p. u_heading u = Some p \<and> suffix (u_text u) p))"

text \<open>The state of the splitter between two lines.\<close>

definition split_ok :: "splitting \<Rightarrow> bool" where
  "split_ok S \<longleftrightarrow> sectioned (sp_units S) \<and> \<not> sp_pending S \<and> (\<forall>u \<in> set (sp_units S). marked u)
     \<and> (sp_units S \<noteq> [] \<longrightarrow> u_heading (last (sp_units S)) = heading_path (sp_stack S))"

definition added :: "string list \<Rightarrow> bool \<Rightarrow> splitting \<Rightarrow> splitting \<Rightarrow> bool" where
  "added ps h S S' \<longleftrightarrow> split_ok S' \<and> sp_stack S' = sp_stack S \<and> sp_para S' = sp_para S
     \<and> (\<forall>b. own_words b (sp_units S') = own_words b (sp_units S) @ (if b \<and> h then [] else concat (map split_words ps)))"

lemma add_text_units:
  assumes "split_ok S"
  shows "added ps False S (add_units ps False S)"
  using assms
proof (induction ps arbitrary: S)
  case Nil
  then show ?case by (simp add: add_units_def added_def)
next
  case (Cons p ps)
  let ?u = "\<lparr>u_text = p, u_heading = heading_path (sp_stack S), u_starts = sp_pending S, u_is_heading = False\<rparr>"
  let ?S = "S\<lparr>sp_units := sp_units S @ [?u], sp_pending := False\<rparr>"
  have "continues (sp_units S) ?u" using Cons.prems by (auto simp: continues_def split_ok_def)
  then have "split_ok ?S" using Cons.prems by (auto simp: split_ok_def sectioned_snoc marked_def)
  moreover have "add_units (p # ps) False S = add_units ps False ?S" by (simp add: add_units_def)
  ultimately show ?case using Cons.IH[of ?S] by (simp add: added_def)
qed

lemma add_heading_unit:
  assumes "split_ok S" and "t \<noteq> []"
  shows "added [t] True (S\<lparr>sp_stack := push_heading l t (sp_stack S), sp_pending := True\<rparr>)
    (add_units [t] True (S\<lparr>sp_stack := push_heading l t (sp_stack S), sp_pending := True\<rparr>))"
proof -
  have "join sep (xs @ [t]) = (if xs = [] then t else join sep xs @ sep @ t)" for xs sep
    by (induction xs) auto
  then have "suffix t (join '' > '' (map snd (push_heading l t (sp_stack S))))"
      "join '' > '' (map snd (push_heading l t (sp_stack S))) \<noteq> []"
    using assms(2) by (auto simp: push_heading_def suffix_def)
  then have "\<exists>p. heading_path (push_heading l t (sp_stack S)) = Some p \<and> suffix t p"
    by (simp add: heading_path_def)
  then show ?thesis
    using assms(1) by (auto simp: added_def add_units_def split_ok_def sectioned_snoc continues_def marked_def)
qed

lemma end_paragraph_ok:
  assumes "split_ok S"
  shows "split_ok (end_paragraph S) \<and> sp_para (end_paragraph S) = [] \<and> sp_stack (end_paragraph S) = sp_stack S
     \<and> own_words b (sp_units (end_paragraph S)) = own_words b (sp_units S) @ concat (map split_words (sp_para S))"
  using add_text_units[OF assms, of "sentences (sp_para S)"] sentences_words[of "sp_para S"]
  by (auto simp: end_paragraph_def split_ok_def added_def)

lemma lazy_text_some: "body \<noteq> [] \<Longrightarrow> lazy_text body \<noteq> []"
  by (auto simp: lazy_text_def find_Some_iff simp del: upt_Suc split: option.splits)

lemma heading_text: "heading_of line = Some (l, t) \<Longrightarrow> t \<noteq> []"
  using lazy_text_some[of "dropWhile is_space (dropWhile (\<lambda>c. c = CHR ''#'') line)"]
  by (auto simp: heading_of_def Let_def simp del: dropWhile_eq_Nil_conv split: if_splits)

lemma split_line_ok:
  assumes "split_ok S"
  shows "split_ok (split_line raw S)
     \<and> own_words b (sp_units (split_line raw S)) @ concat (map split_words (sp_para (split_line raw S)))
       = own_words b (sp_units S) @ concat (map split_words (sp_para S)) @ line_words b raw"
proof -
  let ?line = "strip raw"
  note e = end_paragraph_ok[OF assms, of b]
  have eq: "split_words ?line = split_words raw" by simp
  show ?thesis
  proof (cases "heading_of ?line")
    case (Some x)
    obtain level t where x: "x = (level, t)" by (cases x)
    let ?S = "(end_paragraph S)\<lparr>sp_stack := push_heading level t (sp_stack (end_paragraph S)), sp_pending := True\<rparr>"
    have "split_line raw S = add_units [t] True ?S" using Some x by (simp add: split_line_def Let_def)
    then show ?thesis
      using add_heading_unit[of "end_paragraph S" t level] heading_text[OF Some[unfolded x]] e Some x
      by (simp add: added_def line_words_def)
  next
    case None
    consider "?line = []" | "?line \<noteq> []" "standalone ?line" | "?line \<noteq> []" "\<not> standalone ?line" by blast
    then show ?thesis
    proof cases
      case 1
      then have "split_line raw S = end_paragraph S" using None by (simp add: split_line_def Let_def standalone_def)
      moreover have "split_words raw = []" using eq 1 by simp
      ultimately show ?thesis using e None by (simp add: line_words_def)
    next
      case 2
      then have "split_line raw S = add_units [?line] False (end_paragraph S)" using None by (simp add: split_line_def Let_def)
      then show ?thesis using add_text_units[of "end_paragraph S" "[?line]"] e None by (simp add: added_def line_words_def)
    next
      case 3
      then have "split_line raw S = S\<lparr>sp_para := sp_para S @ [?line]\<rparr>" using None by (simp add: split_line_def Let_def)
      then show ?thesis using assms None by (simp add: split_ok_def line_words_def)
    qed
  qed
qed

lemma split_lines_ok:
  "split_ok S \<Longrightarrow> split_ok (fold split_line ls S)
     \<and> own_words b (sp_units (fold split_line ls S)) @ concat (map split_words (sp_para (fold split_line ls S)))
       = own_words b (sp_units S) @ concat (map split_words (sp_para S)) @ concat (map (line_words b) ls)"
proof (induction ls arbitrary: S)
  case (Cons l ls)
  then show ?case using split_line_ok[OF Cons.prems, where raw = l and b = b] Cons.IH[of "split_line l S"] by auto
qed simp

lemma split_units_ok:
  "sectioned (split_units x)" "u \<in> set (split_units x) \<Longrightarrow> marked u"
  "own_words b (split_units x) = concat (map (line_words b) (split_on CHR 0x0A x))"
proof -
  define S0 where "S0 = \<lparr>sp_units = [], sp_stack = [], sp_pending = False, sp_para = []\<rparr>"
  let ?S = "fold split_line (split_on CHR 0x0A x) S0"
  have su: "split_units x = sp_units (end_paragraph ?S)" by (simp add: split_units_def S0_def)
  have empty: "sp_units S0 = []" "sp_para S0 = []" by (simp_all add: S0_def)
  have "split_ok S0" by (simp add: split_ok_def sectioned_def S0_def)
  note s = split_lines_ok[OF this, of "split_on CHR 0x0A x"]
  then have ok: "split_ok ?S" by blast
  show "sectioned (split_units x)" "u \<in> set (split_units x) \<Longrightarrow> marked u"
    using conjunct1[OF end_paragraph_ok[OF ok]] unfolding su split_ok_def by blast+
  show "own_words b (split_units x) = concat (map (line_words b) (split_on CHR 0x0A x))"
    using end_paragraph_ok[OF ok, of b] conjunct2[OF s, of b] by (simp add: su empty)
qed

lemma words_without_headings:
  assumes "\<forall>l \<in> set (split_on CHR 0x0A x). heading_of (strip l) = None"
  shows "concat (map (line_words b) (split_on CHR 0x0A x)) = split_words x"
proof -
  have eq: "map (line_words b) (split_on CHR 0x0A x) = map split_words (split_on CHR 0x0A x)"
    using assms by (auto simp: line_words_def)
  show ?thesis unfolding eq by (rule split_words_split_on) (simp add: is_space_def)
qed

text \<open>The words of a group's chunks are those of its units.\<close>

lemma rendered_words:
  assumes "good_group C (c, f)" and "0 < s_max C"
  shows "concat (map (\<lambda>(h, body). split_words body) (rendered C (c, f))) = unit_words (c @ f)"
proof (cases "length f = 1 \<and> size_of (hd f) > s_max C")
  case True
  then obtain u where u: "f = [u]" by (cases f) auto
  have c: "c = []" using True assms(1) u by (auto simp: good_group_def)
  let ?ps = "pieces (s_max C) (split_words (u_text u))"
  have "map (\<lambda>ws. split_words (join '' '' ws)) ?ps = ?ps"
  proof (rule map_idI)
    fix ws assume "ws \<in> set ?ps"
    then have "set ws \<subseteq> set (concat ?ps)" by auto
    then have "\<forall>w \<in> set ws. is_word w"
      using concat_pieces[OF assms(2), of "split_words (u_text u)"] split_words_is_word by auto
    then show "split_words (join '' '' ws) = ws" by (rule split_words_join_words[rotated]) (simp add: is_space_def)
  qed
  then show ?thesis
    using True u c concat_pieces[OF assms(2), of "split_words (u_text u)"] by (simp add: rendered_def comp_def)
next
  case False
  then have "rendered C (c, f) = [(u_heading (hd f), join [CHR 0x0A] (map u_text (c @ f)))]" by (simp only: rendered_def prod.case if_False)
  then show ?thesis
    using split_words_join[of "CHR 0x0A" "map u_text (c @ f)"] assms(1)
    by (simp add: good_group_def unit_words_def is_space_def comp_def)
qed

section \<open>Sections are packed one by one\<close>

text \<open>The units of each section: a heading with what follows it, or what stands before the first one.\<close>

function section_runs :: "unit_text list \<Rightarrow> unit_text list list" where
  "section_runs [] = []"
| "section_runs (u # us) = (u # takeWhile (\<lambda>v. \<not> u_starts v) us) # section_runs (dropWhile (\<lambda>v. \<not> u_starts v) us)"
  by pat_completeness auto
termination by (relation "measure length") (auto simp: le_imp_less_Suc length_dropWhile_le)

lemma concat_section_runs: "concat (section_runs us) = us"
  by (induction us rule: section_runs.induct) auto

lemma runs_start: "us \<in> set (tl (section_runs vs)) \<Longrightarrow> us \<noteq> [] \<and> u_starts (hd us)"
proof (induction vs rule: section_runs.induct)
  case (2 u us')
  let ?r = "dropWhile (\<lambda>v. \<not> u_starts v) us'"
  show ?case
  proof (cases ?r)
    case Nil
    have "us \<in> set (section_runs ?r)" using 2(2) by simp
    then show ?thesis unfolding Nil by simp
  next
    case (Cons v vs)
    then have "u_starts v" using hd_dropWhile[of "\<lambda>v. \<not> u_starts v" us'] by simp
    then show ?thesis using 2 Cons by auto
  qed
qed simp

lemma runs_inside: "us \<in> set (section_runs vs) \<Longrightarrow> us \<noteq> [] \<and> set us \<subseteq> set vs \<and> (\<forall>u \<in> set (tl us). \<not> u_starts u)"
proof (induction vs rule: section_runs.induct)
  case (2 u us')
  let ?r = "dropWhile (\<lambda>v. \<not> u_starts v) us'" and ?t = "takeWhile (\<lambda>v. \<not> u_starts v) us'"
  consider "us = u # ?t" | "us \<in> set (section_runs ?r)" using 2(2) by auto
  then show ?case
  proof cases
    case 1
    then show ?thesis by (auto dest: set_takeWhileD)
  next
    case 2
    then have "set us \<subseteq> set ?r" and "us \<noteq> [] \<and> (\<forall>u \<in> set (tl us). \<not> u_starts u)" using "2.IH" by blast+
    moreover have "set ?r \<subseteq> set us'" by (meson set_dropWhileD subsetI)
    ultimately show ?thesis by auto
  qed
qed simp

lemma sectioned_same:
  "sectioned (as @ us @ bs) \<Longrightarrow> us \<noteq> [] \<Longrightarrow> \<forall>u \<in> set (tl us). \<not> u_starts u \<Longrightarrow> u \<in> set us \<Longrightarrow> u_heading u = u_heading (hd us)"
proof (induction us arbitrary: u bs rule: rev_induct)
  case (snoc v us)
  show ?case
  proof (cases "us = []")
    case False
    have "continues (as @ us) v"
      using snoc.prems(1)[unfolded sectioned_def, rule_format, of "length (as @ us)"] by (simp add: nth_append)
    moreover have "\<not> u_starts v" using snoc.prems(3) False by (cases us) auto
    ultimately have v: "u_heading v = u_heading (last us)" using False by (simp add: continues_def)
    have "sectioned (as @ us @ v # bs)" "\<forall>u \<in> set (tl us). \<not> u_starts u" using snoc.prems(1,3) False by (cases us; simp)+
    note IH = snoc.IH[OF this(1) False this(2)]
    have "hd (us @ [v]) = hd us" using False by simp
    then show ?thesis using v IH[of "last us"] IH[of u] False snoc.prems(4) by (cases "u \<in> set us") simp_all
  qed (use snoc.prems(4) in simp)
qed simp

text \<open>What is packed does not depend on what was put out before.\<close>

lemma pack_unit_out:
  "pack_unit C u (P\<lparr>pk_out := o1 @ pk_out P\<rparr>) = (pack_unit C u P)\<lparr>pk_out := o1 @ pk_out (pack_unit C u P)\<rparr>"
  by (simp add: pack_unit_def emit_def reset_def Let_def)

lemma fold_pack_out:
  "fold (pack_unit C) us (P\<lparr>pk_out := o1 @ pk_out P\<rparr>) = (fold (pack_unit C) us P)\<lparr>pk_out := o1 @ pk_out (fold (pack_unit C) us P)\<rparr>"
proof (induction us arbitrary: P)
  case (Cons u us)
  show ?case using Cons.IH[of "pack_unit C u P"] by (simp add: pack_unit_out)
qed simp

lemma emit_out: "pk_out (emit (P\<lparr>pk_out := o1 @ pk_out P\<rparr>)) = o1 @ pk_out (emit P)"
  by (simp add: emit_def)

lemma pack_idle: "pk_current (fold (pack_unit C) us \<lparr>pk_out = [], pk_current = [], pk_fresh = 0\<rparr>) = [] \<Longrightarrow>
    pk_fresh (fold (pack_unit C) us \<lparr>pk_out = [], pk_current = [], pk_fresh = 0\<rparr>) = 0"
proof (induction us rule: rev_induct)
  case (snoc u us)
  then show ?case by (auto simp: pack_unit_def emit_def reset_def Let_def split: if_splits)
qed simp

lemma pack_sections:
  assumes "structured C" and "u_starts v"
  shows "pack C (us @ v # vs) = pack C us @ pack C (v # vs)"
proof -
  let ?P0 = "\<lparr>pk_out = [], pk_current = [], pk_fresh = 0\<rparr> :: packing"
  define P where "P = fold (pack_unit C) us ?P0"
  have idle: "pk_current P = [] \<Longrightarrow> pk_fresh P = 0" unfolding P_def by (rule pack_idle)
  have "reset (emit P) = ?P0\<lparr>pk_out := pk_out (emit P) @ pk_out ?P0\<rparr>" by (cases P) (simp add: reset_def emit_def)
  moreover have "pack_unit C v P = pack_unit C v (reset (emit P))"
  proof (cases "pk_current P = []")
    case True
    then have "reset (emit P) = P" using idle by (cases P) (simp add: reset_def emit_def)
    then show ?thesis by simp
  next
    case False
    have "pk_current (reset (emit P)) = []" by (simp add: reset_def)
    then show ?thesis using False assms by (simp add: pack_unit_def)
  qed
  ultimately have "fold (pack_unit C) (us @ v # vs) ?P0 = fold (pack_unit C) (v # vs) (?P0\<lparr>pk_out := pk_out (emit P) @ pk_out ?P0\<rparr>)"
    by (simp add: P_def)
  then show ?thesis
    unfolding fold_pack_out by (simp add: pack_def emit_out P_def del: fold_simps)
qed

lemma pack_runs: "structured C \<Longrightarrow> pack C us = concat (map (pack C) (section_runs us))"
proof (induction us rule: section_runs.induct)
  case 1
  then show ?case by (simp add: pack_def emit_def)
next
  case (2 u us)
  let ?r = "dropWhile (\<lambda>v. \<not> u_starts v) us" and ?t = "takeWhile (\<lambda>v. \<not> u_starts v) us"
  show ?case
  proof (cases ?r)
    case Nil
    have t: "?t = us" using Nil by (metis append.right_neutral takeWhile_dropWhile_id)
    have "section_runs (u # us) = [u # us]" unfolding section_runs.simps Nil t by simp
    then show ?thesis by (simp del: section_runs.simps)
  next
    case (Cons v vs)
    then have "u_starts v" using hd_dropWhile[of "\<lambda>v. \<not> u_starts v" us] by simp
    moreover have "u # us = (u # ?t) @ v # vs" using Cons by (metis append_Cons takeWhile_dropWhile_id)
    ultimately show ?thesis using 2 Cons pack_sections[OF 2(2), of v "u # ?t" vs] by simp
  qed
qed

section \<open>What the windows cover\<close>

lemma windows_cover:
  assumes "v < m"
  shows "ws \<noteq> [] \<Longrightarrow> \<exists>R. windows m (m - v) ws = take m ws # R \<and> take m ws @ concat (map (drop v) R) = ws"
proof (induction "length ws" arbitrary: ws rule: less_induct)
  case less
  show ?case
  proof (cases "m \<ge> length ws")
    case True
    then show ?thesis using less.prems assms by (subst windows.simps) auto
  next
    case False
    let ?ws = "drop (m - v) ws"
    have "?ws \<noteq> []" and "length ?ws < length ws" using False assms less.prems by auto
    from less.hyps[OF this(2,1)] obtain R where r: "windows m (m - v) ?ws = take m ?ws # R"
        "take m ?ws @ concat (map (drop v) R) = ?ws" by blast
    have "v \<le> length (take m ?ws)" using False assms by auto
    then have "drop v (take m ?ws @ concat (map (drop v) R)) = drop v (take m ?ws) @ concat (map (drop v) R)"
      by (simp only: drop_append diff_is_0_eq[THEN iffD2] drop_0)
    then have "drop v (take m ?ws) @ concat (map (drop v) R) = drop m ws" using r(2) assms by simp
    then have "take m ws @ concat (map (drop v) (take m ?ws # R)) = ws" by simp
    moreover have "windows m (m - v) ws = take m ws # take m ?ws # R"
      using False assms less.prems r(1) by (subst windows.simps) simp
    ultimately show ?thesis by blast
  qed
qed

lemma windows_bounds: "w \<in> set (windows m step ws) \<Longrightarrow> length w \<le> m \<and> set w \<subseteq> set ws"
proof (induction m step ws rule: windows.induct)
  case (1 m step ws)
  then show ?case
    by (subst (asm) (2) windows.simps) (auto split: if_splits dest: in_set_takeD in_set_dropD)
qed

section \<open>The contract of a chunker\<close>

text \<open>Chunks are numbered in order from 0 and each comes from one section, whose page it carries.\<close>

locale chunker =
  fixes chunk :: "doc_section list \<Rightarrow> string option \<Rightarrow> chunk list"
  assumes numbered: "map c_index (chunk secs t) = [0..<length (chunk secs t)]"
    and paged: "c \<in> set (chunk secs t) \<Longrightarrow> \<exists>s \<in> set secs. c_page c = sec_page s"
    and empty: "chunk [] t = []"
begin

lemma distinct_indices: "distinct (map c_index (chunk secs t))"
  by (simp add: numbered)

lemma index_nth: "i < length (chunk secs t) \<Longrightarrow> c_index (chunk secs t ! i) = i"
  using nth_map[of i "chunk secs t" c_index] by (simp add: numbered)

lemma index_inj: "c \<in> set (chunk secs t) \<Longrightarrow> d \<in> set (chunk secs t) \<Longrightarrow> c_index c = c_index d \<Longrightarrow> c = d"
  using distinct_indices[of secs t] by (auto simp: distinct_map inj_on_def)

end

lemma number_from_index: "map c_index (number_from n xs) = [n..<n + length xs]"
  by (induction n xs rule: number_from.induct) (auto simp: upt_rec)

lemma length_number_from [simp]: "length (number_from n xs) = length xs"
  by (induction n xs rule: number_from.induct) auto

lemma number_from_in: "c \<in> set (number_from n xs) \<Longrightarrow> (c_text c, c_page c, c_heading c) \<in> set xs"
  by (induction n xs rule: number_from.induct) auto

interpretation window: chunker "window_chunks W" for W
proof
  show "map c_index (window_chunks W secs t) = [0..<length (window_chunks W secs t)]" for secs t
    by (simp add: window_chunks_def number_from_index)
  show "\<exists>s \<in> set secs. c_page c = sec_page s" if "c \<in> set (window_chunks W secs t)" for c secs t
    using number_from_in[OF that[unfolded window_chunks_def]] by auto
qed (simp add: window_chunks_def)

interpretation sentence: chunker "sentence_chunks C" for C
proof
  show "map c_index (sentence_chunks C secs t) = [0..<length (sentence_chunks C secs t)]" for secs t
    by (simp add: sentence_chunks_def number_from_index)
  show "\<exists>s \<in> set secs. c_page c = sec_page s" if "c \<in> set (sentence_chunks C secs t)" for c secs t
    using number_from_in[OF that[unfolded sentence_chunks_def]] by auto
qed (simp add: sentence_chunks_def)


section \<open>Properties\<close>

lemma later_windows:
  "0 < n \<Longrightarrow> map (\<lambda>c. drop (if c_index c = 0 then 0 else v) (split_words (c_text c)))
       (number_from n (map (\<lambda>ws. (join '' '' ws, p, None)) wss))
     = map (\<lambda>ws. drop v (split_words (join '' '' ws))) wss"
  by (induction wss arbitrary: n) auto

text \<open>The fixed windows of a section cover its text exactly: no window has more words than allowed, and
  the words of the first followed by those of each later one without the overlap it repeats are the
  words of the section, in order, none missing and none twice.\<close>

theorem windows_cover_the_text:
  assumes "new_window_chunker m v = Inr W"
  shows "concat (map (\<lambda>c. drop (if c_index c = 0 then 0 else nat v) (split_words (c_text c))) (window_chunks W [s] title))
           = split_words (sec_text s)
         \<and> (\<forall>c \<in> set (window_chunks W [s] title). count_words (c_text c) \<le> nat m \<and> c_page c = sec_page s)"
proof -
  let ?ws = "split_words (sec_text s)" and ?f = "\<lambda>ws. (join '' '' ws, sec_page s, None :: string option)"
  have W: "w_max W = nat m" "w_overlap W = nat v" "nat v < nat m"
    using assms by (auto simp: new_window_chunker_def split: if_splits)
  have cs: "window_chunks W [s] title = number_from 0 (map ?f (windows (nat m) (nat m - nat v) ?ws))"
    by (simp add: window_chunks_def W)
  have words: "split_words (join '' '' w) = w \<and> length w \<le> nat m" if "w \<in> set (windows (nat m) (nat m - nat v) ?ws)" for w
    using windows_bounds[OF that] by (auto intro!: split_words_join_words split_words_is_word)
  have "\<forall>c \<in> set (window_chunks W [s] title). count_words (c_text c) \<le> nat m \<and> c_page c = sec_page s"
    using number_from_in words unfolding cs by (fastforce simp: count_words_def)
  moreover have "concat (map (\<lambda>c. drop (if c_index c = 0 then 0 else nat v) (split_words (c_text c))) (window_chunks W [s] title)) = ?ws"
  proof (cases "?ws = []")
    case True
    then show ?thesis by (simp add: cs windows.simps)
  next
    case False
    from windows_cover[OF W(3) this] obtain R where r: "windows (nat m) (nat m - nat v) ?ws = take (nat m) ?ws # R"
        "take (nat m) ?ws @ concat (map (drop (nat v)) R) = ?ws" by blast
    have R: "map (\<lambda>ws. drop (nat v) (split_words (join '' '' ws))) R = map (drop (nat v)) R"
      by (rule map_cong[OF refl]) (use words in \<open>auto simp: r(1)\<close>)
    have first: "split_words (join '' '' (take (nat m) ?ws)) = take (nat m) ?ws" using words[of "take (nat m) ?ws"] by (simp add: r(1))
    show ?thesis by (simp add: cs r(1) later_windows R first r(2) del: map_map list.map_comp)
  qed
  ultimately show ?thesis by blast
qed

lemma windows_cover_the_text_witness:
  "\<exists>W. new_window_chunker 2 1 = Inr W
     \<and> concat (map (\<lambda>c. drop (if c_index c = 0 then 0 else nat 1) (split_words (c_text c)))
         (window_chunks W [\<lparr>sec_text = ''a b c'', sec_page = None\<rparr>] None)) = [''a'', ''b'', ''c'']"
proof -
  have w: "new_window_chunker 2 1 = Inr \<lparr>w_max = 2, w_overlap = 1\<rparr>" by (simp add: new_window_chunker_def)
  from windows_cover_the_text[OF w, of "\<lparr>sec_text = ''a b c'', sec_page = None\<rparr>" None] show ?thesis
    by (intro exI[of _ "\<lparr>w_max = 2, w_overlap = 1\<rparr>"]) (simp add: w split_words_def is_space_def)
qed

text \<open>C21: Packing deals the sentences, list items and rows once, in order, into groups, each rendered as a
  chunk: a group begins with at most the allowed overlap, taken from the end of the group before it,
  and a unit too long for a chunk is a group of its own, cut into pieces; no chunk has more words
  than allowed, its heading prefix apart.\<close>

theorem units_are_packed_once_within_bounds:
  assumes "new_sentence_chunker m v b = Inr C"
  shows "\<exists>gs. pack C us = concat (map (rendered C) gs) \<and> concat (map snd gs) = filter (\<lambda>u. \<not> (b \<and> u_is_heading u)) us
     \<and> linked [] gs \<and> (\<forall>(c, f) \<in> set gs. f \<noteq> [] \<and> total c \<le> nat v)
     \<and> (\<forall>(h, body) \<in> set (pack C us). count_words body \<le> nat m)"
proof -
  have C: "s_max C = nat m" "s_overlap C = nat v" "structured C = b"
    using assms by (auto simp: new_sentence_chunker_def split: if_splits)
  obtain gs where g: "pack C us = concat (map (rendered C) gs)" "concat (map snd gs) = kept_units C us"
      "\<forall>g \<in> set gs. good_group C g" "linked [] gs"
    using pack_groups[of C us] by blast
  have "\<forall>(h, body) \<in> set (pack C us). count_words body \<le> nat m"
    using rendered_bounds g(3) by (fastforce simp: g(1) C[symmetric])
  then show ?thesis using g C by (intro exI[of _ gs]) (auto simp: kept_units_def good_group_def)
qed

lemma units_are_packed_once_within_bounds_witness:
  "\<exists>C gs. new_sentence_chunker 3 1 False = Inr C
     \<and> pack C [\<lparr>u_text = ''a b'', u_heading = None, u_starts = False, u_is_heading = False\<rparr>] = concat (map (rendered C) gs)
     \<and> length (concat (map snd gs)) = 1"
  using units_are_packed_once_within_bounds[of 3 1 False "\<lparr>s_max = 3, s_overlap = 1, structured = False\<rparr>"
      "[\<lparr>u_text = ''a b'', u_heading = None, u_starts = False, u_is_heading = False\<rparr>]"]
  by (auto simp: new_sentence_chunker_def)

text \<open>C22: With structure, a chunk never mixes two sections: packing a text is packing its sections one by one,
  so nothing, overlap included, gets from one into a chunk of another. The sections are the units from one
  heading to the next; all units of one stand under one heading path, which is the heading of each of its chunks
  and ends in the text of the section's own heading; the chunks of a section are made of its units without the
  heading, each once and in order, with an overlap taken from the section's own preceding chunk.\<close>

theorem a_chunk_never_mixes_sections:
  fixes x :: string
  assumes "new_sentence_chunker m v True = Inr C"
  defines "us \<equiv> split_units x"
  shows "pack C us = concat (map (pack C) (section_runs us)) \<and> concat (section_runs us) = us
     \<and> (\<forall>r \<in> set (tl (section_runs us)). u_is_heading (hd r))
     \<and> (\<forall>r \<in> set (section_runs us).
          (\<forall>u \<in> set (tl r). \<not> u_is_heading u) \<and> (\<forall>u \<in> set r. u_heading u = u_heading (hd r))
        \<and> (u_is_heading (hd r) \<longrightarrow> (\<exists>p. u_heading (hd r) = Some p \<and> suffix (u_text (hd r)) p))
        \<and> (\<forall>(h, body) \<in> set (pack C r). h = u_heading (hd r))
        \<and> (\<exists>gs. pack C r = concat (map (rendered C) gs) \<and> concat (map snd gs) = filter (\<lambda>u. \<not> u_is_heading u) r \<and> linked [] gs))"
proof -
  have C: "structured C" using assms(1) by (auto simp: new_sentence_chunker_def split: if_splits)
  have marks: "u_starts u = u_is_heading u" "u_is_heading u \<Longrightarrow> \<exists>p. u_heading u = Some p \<and> suffix (u_text u) p" if "u \<in> set us" for u
    using split_units_ok(2)[of u x] that by (auto simp: us_def marked_def)
  have first: "u_is_heading (hd r)" if "r \<in> set (tl (section_runs us))" for r
  proof -
    have "r \<in> set (section_runs us)" using that by (cases "section_runs us") auto
    then have "hd r \<in> set us" using runs_inside by fastforce
    then show ?thesis using marks(1) runs_start[OF that] by simp
  qed
  have each: "(\<forall>u \<in> set (tl r). \<not> u_is_heading u) \<and> (\<forall>u \<in> set r. u_heading u = u_heading (hd r))
        \<and> (u_is_heading (hd r) \<longrightarrow> (\<exists>p. u_heading (hd r) = Some p \<and> suffix (u_text (hd r)) p))
        \<and> (\<forall>(h, body) \<in> set (pack C r). h = u_heading (hd r))
        \<and> (\<exists>gs. pack C r = concat (map (rendered C) gs) \<and> concat (map snd gs) = filter (\<lambda>u. \<not> u_is_heading u) r \<and> linked [] gs)"
    if r: "r \<in> set (section_runs us)" for r
  proof -
    note inside = runs_inside[OF r]
    obtain as bs where "section_runs us = as @ r # bs" using r by (meson split_list)
    then have "us = concat as @ r @ concat bs" using concat_section_runs[of us] by simp
    then have "sectioned (concat as @ r @ concat bs)" using split_units_ok(1)[of x] by (simp add: us_def)
    from sectioned_same[OF this] inside have same: "\<forall>u \<in> set r. u_heading u = u_heading (hd r)" by blast
    obtain gs where gs: "pack C r = concat (map (rendered C) gs)" "concat (map snd gs) = filter (\<lambda>u. \<not> u_is_heading u) r"
        "linked [] gs" "\<forall>g \<in> set gs. good_group C g"
      using pack_groups[of C r] C by (auto simp: kept_units_def)
    have "h = u_heading (hd r)" if p: "(h, body) \<in> set (pack C r)" for h body
    proof -
      obtain c f where g: "(c, f) \<in> set gs" "(h, body) \<in> set (rendered C (c, f))" using p by (auto simp: gs(1))
      have "h = u_heading (hd f)" using g(2) by (auto simp: rendered_def split: if_splits)
      moreover have "f \<noteq> []" using g(1) gs(4) by (auto simp: good_group_def)
      moreover have "set f \<subseteq> set (concat (map snd gs))" using g(1) by auto
      then have "set f \<subseteq> set r" unfolding gs(2) by auto
      ultimately show ?thesis using same hd_in_set by blast
    qed
    moreover have "hd r \<in> set us" "set (tl r) \<subseteq> set us" using inside hd_in_set by (auto dest: list.set_sel(2))
    ultimately show ?thesis using inside same gs(1-3) marks by blast
  qed
  show ?thesis using pack_runs[OF C] concat_section_runs first each by blast
qed

text \<open>Two sections of one sentence each, which would fit one chunk.\<close>

lemma a_chunk_never_mixes_sections_witness:
  "\<exists>C. new_sentence_chunker 6 5 True = Inr C
     \<and> pack C (split_units (''# A'' @ [CHR 0x0A] @ ''a1.'' @ [CHR 0x0A] @ ''# B'' @ [CHR 0x0A] @ ''b1.''))
       = [(Some ''A'', ''a1.''), (Some ''B'', ''b1.'')]"
proof -
  let ?C = "\<lparr>s_max = 6, s_overlap = 5, structured = True\<rparr>" and ?x = "''# A'' @ [CHR 0x0A] @ ''a1.'' @ [CHR 0x0A] @ ''# B'' @ [CHR 0x0A] @ ''b1.''"
  have c: "new_sentence_chunker 6 5 True = Inr ?C" by (simp add: new_sentence_chunker_def)
  have u: "split_units ?x = [\<lparr>u_text = ''A'', u_heading = Some ''A'', u_starts = True, u_is_heading = True\<rparr>,
      \<lparr>u_text = ''a1.'', u_heading = Some ''A'', u_starts = False, u_is_heading = False\<rparr>,
      \<lparr>u_text = ''B'', u_heading = Some ''B'', u_starts = True, u_is_heading = True\<rparr>,
      \<lparr>u_text = ''b1.'', u_heading = Some ''B'', u_starts = False, u_is_heading = False\<rparr>]"
    by code_simp
  have "pack ?C [\<lparr>u_text = t, u_heading = h, u_starts = True, u_is_heading = True\<rparr>,
      \<lparr>u_text = y, u_heading = h, u_starts = False, u_is_heading = False\<rparr>] = [(h, y)]" if "count_words y = 1" for t h y
    using that by (simp add: pack_def pack_unit_def emit_def size_of_def Let_def)
  moreover have "count_words ''a1.'' = 1" "count_words ''b1.'' = 1" by code_simp+
  ultimately show ?thesis
    using conjunct1[OF a_chunk_never_mixes_sections[OF c, of ?x], unfolded u] c unfolding u by (intro exI[of _ ?C]) simp
qed



text \<open>A section that is only a heading gives no chunk at all with structure: its words are in no chunk's text
  nor prefix, so the document is registered without a chunk and nothing retrieves it.\<close>

lemma heading_only_document_has_no_chunk:
  "sentence_chunks \<lparr>s_max = 180, s_overlap = 40, structured = True\<rparr> [\<lparr>sec_text = ''# Alpha'', sec_page = None\<rparr>] (Some ''Alpha'') = []"
proof -
  have "split_units ''# Alpha'' = [\<lparr>u_text = ''Alpha'', u_heading = Some ''Alpha'', u_starts = True, u_is_heading = True\<rparr>]"
    by (simp add: split_units_def split_line_def strip_def lstrip_def rstrip_def heading_of_def lazy_text_def hash_tail_def
        is_space_def standalone_def end_paragraph_def add_units_def sentences_def push_heading_def heading_path_def upt_rec Let_def)
  then show ?thesis by (simp add: sentence_chunks_def pack_def pack_unit_def emit_def Let_def)
qed

end
