(* ===== verification/Lexical.thy ===== *)
theory Lexical
  imports Text "HOL-Library.Word"
begin

unbundle bit_operations_syntax

text \<open>
  The lexical half of retrieval (\<open>app/rag/lexical.py\<close>): the terms of a text, their 32-bit ids and the
  BM25 weights sent to Qdrant. \<open>zlib.crc32\<close> is written out on 32-bit words; terms are ASCII, so a
  character is its UTF-8 byte.
\<close>

section \<open>Terms\<close>

definition joiner :: "char \<Rightarrow> bool" where "joiner c \<longleftrightarrow> c \<in> set ''._-''"

text \<open>The rest of a match of \<open>_TERM\<close> after its first character, and what follows it.\<close>

fun term_rest :: "string \<Rightarrow> string \<times> string" where
  "term_rest [] = ([], [])"
| "term_rest (c # cs) =
     (if is_alnum c \<or> (joiner c \<and> cs \<noteq> [] \<and> is_alnum (hd cs)) then (let (t, r) = term_rest cs in (c # t, r))
      else ([], c # cs))"

lemma term_rest_split: "fst (term_rest s) @ snd (term_rest s) = s"
  by (induction s rule: term_rest.induct) (auto simp: split_beta)

lemma term_rest_shorter: "length (snd (term_rest s)) \<le> length s"
  by (induction s rule: term_rest.induct) (auto simp: split_beta)

function find_terms :: "string \<Rightarrow> string list" where
  "find_terms [] = []"
| "find_terms (c # cs) =
     (if is_alnum c then (let (t, r) = term_rest cs in (c # t) # find_terms r) else find_terms cs)"
  by pat_completeness auto
termination
  by (relation "measure length") (auto, metis term_rest_shorter snd_conv le_imp_less_Suc)

text \<open>\<open>_PARTS.split\<close>, without the empty parts.\<close>

fun split_joined :: "string \<Rightarrow> string list" where
  "split_joined [] = [[]]"
| "split_joined (c # cs) =
     (if joiner c then [] # split_joined cs
      else (case split_joined cs of [] \<Rightarrow> [[c]] | x # xs \<Rightarrow> (c # x) # xs))"

definition term_parts :: "string \<Rightarrow> string list" where
  "term_parts t = filter (\<lambda>p. p \<noteq> []) (split_joined t)"

definition terms :: "string \<Rightarrow> string list" where
  "terms x =
     concat (map (\<lambda>t. t # (if length (term_parts t) > 1 then term_parts t else [])) (find_terms (lower x)))"

section \<open>Ids\<close>

definition crc_shift :: "32 word \<Rightarrow> 32 word" where
  "crc_shift c = (if c AND 1 = 1 then drop_bit 1 c XOR 0xEDB88320 else drop_bit 1 c)"

definition crc_byte :: "32 word \<Rightarrow> char \<Rightarrow> 32 word" where
  "crc_byte c b = (crc_shift ^^ 8) (c XOR of_char b)"

definition crc32 :: "string \<Rightarrow> 32 word" where
  "crc32 bs = NOT (foldl crc_byte (NOT 0) bs)"

definition term_id :: "string \<Rightarrow> nat" where
  "term_id t = unat (crc32 t AND 0x7FFFFFFF)"

lemma term_id_bound: "term_id t < 2 ^ 31"
proof -
  have "crc32 t AND 0x7FFFFFFF \<le> 0x7FFFFFFF" by (rule word_and_le1)
  then have "unat (crc32 t AND 0x7FFFFFFF) \<le> unat (0x7FFFFFFF :: 32 word)" by (simp only: word_le_nat_alt)
  then show ?thesis by (simp add: term_id_def)
qed

section \<open>Weights\<close>

record sparse_terms =
  indices :: "nat list"
  weights :: "real list"

definition K1 :: real where "K1 = 1.2"
definition B :: real where "B = 0.75"
definition AVERAGE_LENGTH :: real where "AVERAGE_LENGTH = 180"

definition count_ids :: "string list \<Rightarrow> (nat \<times> nat) list" where
  "count_ids ts = fold (\<lambda>t d. dict_set (term_id t) ((case dict_get d (term_id t) of None \<Rightarrow> 0 | Some n \<Rightarrow> n) + 1) d) ts []"

definition length_norm :: "real \<Rightarrow> nat \<Rightarrow> real" where
  "length_norm avg n = K1 * (1 - B + B * real n / avg)"

definition document_terms :: "string \<Rightarrow> real \<Rightarrow> sparse_terms" where
  "document_terms x avg =
     (let ts = terms x; counts = count_ids ts; norm = length_norm avg (length ts) in
      if ts = [] then \<lparr>indices = [], weights = []\<rparr>
      else \<lparr>indices = map fst counts, weights = map (\<lambda>(i, n). real n * (K1 + 1) / (real n + norm)) counts\<rparr>)"

definition query_terms :: "string \<Rightarrow> sparse_terms" where
  "query_terms x =
     (let unique = map fst (fold (\<lambda>t d. dict_set (term_id t) () d) (terms x) [])
      in \<lparr>indices = unique, weights = replicate (length unique) 1\<rparr>)"

section \<open>Facts\<close>

text \<open>A term begins and ends with a letter or a digit, so what a joiner separates is never empty.\<close>

lemma alnum_not_joiner: "is_alnum c \<Longrightarrow> \<not> joiner c"
  by (auto simp: joiner_def is_alnum_def is_digit_def)

lemma term_rest_last: "fst (term_rest s) \<noteq> [] \<Longrightarrow> is_alnum (last (fst (term_rest s)))"
proof (induction s rule: term_rest.induct)
  case (2 c cs)
  have more: "fst (term_rest cs) \<noteq> []" if "cs \<noteq> []" "is_alnum (hd cs)"
    using that by (cases cs) (auto simp: split_beta)
  show ?case using 2 more by (auto simp: split_beta split: if_splits)
qed simp

lemma find_terms_ends: "t \<in> set (find_terms s) \<Longrightarrow> t \<noteq> [] \<and> is_alnum (hd t) \<and> is_alnum (last t)"
proof (induction s rule: find_terms.induct)
  case (2 c cs)
  obtain u r where ur: "term_rest cs = (u, r)" by (cases "term_rest cs")
  show ?case
  proof (cases "is_alnum c")
    case True
    have "t = c # u \<or> t \<in> set (find_terms r)" using "2.prems" True ur by simp
    then show ?thesis
    proof
      assume "t = c # u"
      then show ?thesis using term_rest_last[of cs] True ur by simp
    next
      assume "t \<in> set (find_terms r)"
      then show ?thesis using "2.IH"(1)[OF True ur[symmetric] refl] by simp
    qed
  next
    case False
    then show ?thesis using 2 by simp
  qed
qed simp

lemma split_joined_not_Nil [simp]: "split_joined s \<noteq> []"
  by (induction s) (auto split: list.splits)

lemma split_joined_plain: "\<forall>c \<in> set s. \<not> joiner c \<Longrightarrow> split_joined s = [s]"
  by (induction s) auto

lemma split_joined_snoc:
  "\<not> joiner c \<Longrightarrow> last (split_joined (s @ [c])) \<noteq> []"
  by (induction s) (auto split: list.splits)

lemma split_joined_length: "joiner c \<Longrightarrow> c \<in> set s \<Longrightarrow> 1 < length (split_joined s)"
  by (induction s) (auto split: list.splits)

lemma term_parts_trivial:
  assumes "t \<noteq> []" "is_alnum (hd t)" "is_alnum (last t)" "length (term_parts t) \<le> 1"
  shows "term_parts t = [t]"
proof (cases "\<exists>c \<in> set t. joiner c")
  case False
  then show ?thesis using assms(1) by (simp add: term_parts_def split_joined_plain)
next
  case True
  obtain c cs where t: "t = c # cs" using assms(1) by (cases t) auto
  obtain x xs where x: "split_joined t = x # xs" "x \<noteq> []"
  proof -
    have "split_joined t = (case split_joined cs of [] \<Rightarrow> [[c]] | x # xs \<Rightarrow> (c # x) # xs)"
      using assms(2) alnum_not_joiner t by simp
    then show ?thesis using that by (cases "split_joined cs") auto
  qed
  have "last (split_joined t) \<noteq> []"
    using split_joined_snoc[of "last t" "butlast t"] assms(1,3) alnum_not_joiner by simp
  moreover have "xs \<noteq> []" using True split_joined_length x(1) by fastforce
  ultimately have "last xs \<in> set (filter (\<lambda>p. p \<noteq> []) xs)" using x(1) by simp
  then have "filter (\<lambda>p. p \<noteq> []) xs \<noteq> []" by (metis list.set_cases list.distinct(1))
  then have "1 < length (term_parts t)" using x by (simp add: term_parts_def)
  with assms(4) show ?thesis by simp
qed

lemma terms_have:
  assumes "t \<in> set (find_terms (lower x))" and "p = t \<or> p \<in> set (term_parts t)"
  shows "p \<in> set (terms x)"
proof -
  have "p \<in> set (t # (if length (term_parts t) > 1 then term_parts t else []))"
    using assms(2) find_terms_ends[OF assms(1)] term_parts_trivial[of t] by (cases "length (term_parts t) > 1") auto
  then show ?thesis using assms(1) unfolding terms_def by (simp only: set_concat set_map UN_iff bex_simps) blast
qed

text \<open>Counting the ids of the terms\<close>

definition id_count :: "nat \<Rightarrow> string list \<Rightarrow> nat" where
  "id_count i ts = length (filter (\<lambda>t. term_id t = i) ts)"

lemma count_ids_snoc:
  "count_ids (ts @ [t]) = dict_set (term_id t) ((case dict_get (count_ids ts) (term_id t) of None \<Rightarrow> 0 | Some n \<Rightarrow> n) + 1) (count_ids ts)"
  by (simp add: count_ids_def)

lemma count_ids_counts:
  "distinct (map fst (count_ids ts)) \<and> (\<forall>i n. dict_get (count_ids ts) i = Some n \<longleftrightarrow> n = id_count i ts \<and> 0 < n)"
proof (induction ts rule: rev_induct)
  case (snoc t ts)
  have "(case dict_get (count_ids ts) (term_id t) of None \<Rightarrow> 0 | Some n \<Rightarrow> n) = id_count (term_id t) ts"
  proof (cases "dict_get (count_ids ts) (term_id t)")
    case None
    then have "\<not> 0 < id_count (term_id t) ts" using snoc by (metis option.distinct(1))
    with None show ?thesis by simp
  next
    case (Some n)
    then show ?thesis using snoc by auto
  qed
  then show ?case
    using snoc by (auto simp: count_ids_snoc dict_get_set distinct_update id_count_def)
qed (auto simp: count_ids_def id_count_def)

lemma count_ids_entry: "(i, n) \<in> set (count_ids ts) \<longleftrightarrow> n = id_count i ts \<and> 0 < n"
  using count_ids_counts[of ts] map_of_eq_Some_iff by metis

lemma id_count_pos: "0 < id_count i ts \<longleftrightarrow> i \<in> term_id ` set ts"
  by (auto simp: id_count_def filter_empty_conv)

lemma count_ids_keys: "fst ` set (count_ids ts) = term_id ` set ts"
proof -
  have "i \<in> fst ` set (count_ids ts) \<longleftrightarrow> 0 < id_count i ts" for i
    using count_ids_entry[of i _ ts] by (metis (no_types, lifting) fst_conv image_iff prod.collapse)
  then show ?thesis by (auto simp: id_count_pos)
qed

lemma query_ids: "distinct (indices (query_terms x)) \<and> set (indices (query_terms x)) = term_id ` set (terms x)"
proof -
  have "distinct (map fst (fold (\<lambda>t d. dict_set (term_id t) () d) ts d))
      \<and> fst ` set (fold (\<lambda>t d. dict_set (term_id t) () d) ts d) = fst ` set d \<union> term_id ` set ts"
    if "distinct (map fst d)" for ts d
    using that by (induction ts arbitrary: d) (auto simp: distinct_update dom_update)
  from this[of "[]" "terms x"] show ?thesis by (simp add: query_terms_def Let_def)
qed

lemma length_norm_pos: "0 < avg \<Longrightarrow> 0 < length_norm avg n"
  by (simp add: length_norm_def K1_def B_def add_pos_nonneg)

section \<open>Properties\<close>

text \<open>A chunk is indexed under the ids of its terms, each once, and under exactly the ids a query of the
  same text asks for; an identifier is found whole and by each of its parts; the weight of an id is the
  BM25 term frequency, between 0 and the saturation \<open>K1 + 1\<close>.\<close>

theorem chunk_is_found_by_its_terms:
  assumes "0 < avg"
  shows "distinct (indices (document_terms x avg)) \<and> distinct (indices (query_terms x))
    \<and> set (indices (document_terms x avg)) = set (indices (query_terms x))
    \<and> (\<forall>t \<in> set (find_terms (lower x)). \<forall>p. p = t \<or> p \<in> set (term_parts t) \<longrightarrow> term_id p \<in> set (indices (document_terms x avg)))
    \<and> length (weights (document_terms x avg)) = length (indices (document_terms x avg))
    \<and> (\<forall>(i, v) \<in> set (zip (indices (document_terms x avg)) (weights (document_terms x avg))).
         0 < v \<and> v < K1 + 1
       \<and> v = real (id_count i (terms x)) * (K1 + 1) / (real (id_count i (terms x)) + length_norm avg (length (terms x))))"
proof -
  let ?c = "count_ids (terms x)" and ?N = "length_norm avg (length (terms x))"
  have d: "indices (document_terms x avg) = map fst ?c"
      "weights (document_terms x avg) = map (\<lambda>(i, n). real n * (K1 + 1) / (real n + ?N)) ?c"
    by (simp_all add: document_terms_def Let_def count_ids_def)
  have ids: "set (indices (document_terms x avg)) = term_id ` set (terms x)" by (simp add: d count_ids_keys)
  have "0 < v \<and> v < K1 + 1 \<and> v = real (id_count i (terms x)) * (K1 + 1) / (real (id_count i (terms x)) + ?N)"
    if "(i, v) \<in> set (zip (indices (document_terms x avg)) (weights (document_terms x avg)))" for i v
  proof -
    from that obtain n where n: "(i, n) \<in> set ?c" "v = real n * (K1 + 1) / (real n + ?N)"
      by (auto simp: d zip_map_map zip_same_conv_map)
    moreover from n(1) have "n = id_count i (terms x)" "0 < n" by (simp_all add: count_ids_entry)
    moreover have "0 < K1" by (simp add: K1_def)
    moreover have "0 < ?N" by (rule length_norm_pos[OF assms])
    ultimately have "0 < real n" "0 < ?N" "0 < K1" "n = id_count i (terms x)" by simp_all
    moreover from this have "0 < real n * (K1 + 1) / (real n + ?N)" "real n * (K1 + 1) / (real n + ?N) < K1 + 1"
      by (simp_all add: divide_less_eq algebra_simps add_pos_pos)
    ultimately show ?thesis using n(2) by simp
  qed
  then show ?thesis
    using ids query_ids[of x] terms_have[of _ x] count_ids_counts[of "terms x"] by (auto simp: d)
qed

lemma chunk_is_found_by_its_terms_witness:
  "term_id ''queue'' \<in> set (indices (document_terms ''MAX_QUEUE'' AVERAGE_LENGTH))"
proof -
  have a: "0 < AVERAGE_LENGTH" by (simp add: AVERAGE_LENGTH_def)
  have "''max_queue'' \<in> set (find_terms (lower ''MAX_QUEUE''))" "''queue'' \<in> set (term_parts ''max_queue'')" by code_simp+
  then show ?thesis using chunk_is_found_by_its_terms[OF a, of "''MAX_QUEUE''"] by blast
qed

end
