(* ===== verification/Vector_Store.thy ===== *)
theory Vector_Store
  imports Chunking Lexical
begin

text \<open>
  The chunk store on Qdrant (\<open>app/rag/vector_store.py\<close>). Qdrant is outside the program: the client is
  an argument, a function from a request to a reply and the next world, and so is \<open>uuid5\<close> in the
  store's namespace. What the code relies on is the named hypothesis \<open>qdrant_ok\<close>: requests on the
  collection change its points as Qdrant documents, and a query returns at most the rows asked for,
  all of them points that meet its filter, best first. How Qdrant scores and fuses is left open.
  \<open>None\<close> is an exception; vectors are exact.
\<close>

section \<open>Requests\<close>

record payload =
  pl_tenant :: string
  pl_doc :: string
  pl_index :: nat
  pl_text :: string
  pl_title :: string
  pl_page :: "int option"
  pl_heading :: "string option"

record point =
  pt_id :: string
  pt_dense :: "real list"
  pt_sparse :: "sparse_terms option"
  pt_payload :: payload

text \<open>The fields that have to match, as name and value.\<close>

type_synonym qfilter = "(string \<times> string) list"

datatype fusion = RRF | DBSF

datatype prefetch =
    DensePrefetch "real list" string qfilter int
  | SparsePrefetch sparse_terms string qfilter int

datatype query_vector = DenseQuery "real list" "string option" | FusionQuery "prefetch list" fusion

datatype qcmd =
    COLLECTION_EXISTS string
  | CREATE_COLLECTION string int bool      \<comment> \<open>with the lexical vector or not\<close>
  | GET_COLLECTION string
  | PAYLOAD_INDEX string string bool
  | UPSERT string "point list"
  | DELETE_WHERE string qfilter
  | QUERY string query_vector qfilter int

text \<open>The last one is an exception with its text; the flag says that it is an \<open>UnexpectedResponse\<close> or a
  \<open>ValueError\<close>.\<close>

datatype qreply =
    Exists bool
  | SparseNames "string list"
  | Ok
  | Hits "(point \<times> real) list"
  | QRaised bool string

type_synonym 'w qdrant = "qcmd \<Rightarrow> 'w \<Rightarrow> qreply \<times> 'w"

section \<open>The store\<close>

record 'w chunk_store =
  qx :: "'w qdrant"
  uuid5 :: "string \<Rightarrow> string"
  collection :: string
  has_lexical :: bool

record stored_chunk =
  s_doc :: string
  s_index :: nat
  s_text :: string
  s_title :: string
  s_page :: "int option"
  s_heading :: "string option"
  s_score :: real

definition LEXICAL :: string where "LEXICAL = ''lexical''"
definition PREFETCH_FLOOR :: int where "PREFETCH_FLOOR = 20"

definition point_id :: "'w chunk_store \<Rightarrow> string \<Rightarrow> string \<Rightarrow> nat \<Rightarrow> string" where
  "point_id S t d i = uuid5 S (t @ ''/'' @ d @ ''/'' @ decimal i)"

definition stored :: "point \<times> real \<Rightarrow> stored_chunk" where
  "stored h = (let p = pt_payload (fst h) in
     \<lparr>s_doc = pl_doc p, s_index = pl_index p, s_text = pl_text p, s_title = pl_title p, s_page = pl_page p,
      s_heading = pl_heading p, s_score = snd h\<rparr>)"

definition tenant_filter :: "string \<Rightarrow> string option \<Rightarrow> qfilter" where
  "tenant_filter t d = (''tenant_id'', t) # (case d of None \<Rightarrow> [] | Some x \<Rightarrow> [(''doc_id'', x)])"

definition has_lexical_vector :: "'w chunk_store \<Rightarrow> 'w \<Rightarrow> bool \<times> 'w" where
  "has_lexical_vector S w =
     (let (r, w1) = qx S (GET_COLLECTION (collection S)) w in
      (case r of SparseNames ns \<Rightarrow> LEXICAL \<in> set ns | _ \<Rightarrow> False, w1))"

definition create_collection :: "'w chunk_store \<Rightarrow> int \<Rightarrow> bool \<Rightarrow> 'w \<Rightarrow> unit option \<times> 'w" where
  "create_collection S dims wanted w =
     (let (r, w1) = qx S (CREATE_COLLECTION (collection S) dims wanted) w in
      (case r of
         QRaised expected e \<Rightarrow> if expected \<and> sublist ''already exists'' (lower e) then Some () else None
       | _ \<Rightarrow> Some (), w1))"

text \<open>\<open>setup\<close>: the store as it is afterwards. The two indexes are asked for on every start.\<close>

definition store_setup :: "'w chunk_store \<Rightarrow> int \<Rightarrow> bool \<Rightarrow> 'w \<Rightarrow> 'w chunk_store option \<times> 'w" where
  "store_setup S dims wanted w =
     (let (r, w1) = qx S (COLLECTION_EXISTS (collection S)) w;
          (c, w2) = (case r of
                       Exists True \<Rightarrow> (Some (), w1)
                     | Exists False \<Rightarrow> create_collection S dims wanted w1
                     | _ \<Rightarrow> (None, w1))
      in if c = None then (None, w2)
         else
           (let (l, w3) = (if wanted then has_lexical_vector S w2 else (False, w2));
                (r1, w4) = qx S (PAYLOAD_INDEX (collection S) ''tenant_id'' True) w3
            in case r1 of
                 QRaised b e \<Rightarrow> (None, w4)
               | _ \<Rightarrow>
                   (let (r2, w5) = qx S (PAYLOAD_INDEX (collection S) ''doc_id'' False) w4 in
                    (case r2 of QRaised b e \<Rightarrow> None | _ \<Rightarrow> Some (S\<lparr>has_lexical := l\<rparr>), w5))))"

definition point_of :: "'w chunk_store \<Rightarrow> string \<Rightarrow> string \<Rightarrow> string \<Rightarrow> chunk \<Rightarrow> real list \<Rightarrow> point" where
  "point_of S t d title c v =
     \<lparr>pt_id = point_id S t d (c_index c), pt_dense = v,
      pt_sparse = (if has_lexical S then Some (document_terms (c_text c) AVERAGE_LENGTH) else None),
      pt_payload = \<lparr>pl_tenant = t, pl_doc = d, pl_index = c_index c, pl_text = c_text c, pl_title = title,
                    pl_page = c_page c, pl_heading = c_heading c\<rparr>\<rparr>"

definition delete_document :: "'w chunk_store \<Rightarrow> string \<Rightarrow> string \<Rightarrow> 'w \<Rightarrow> unit option \<times> 'w" where
  "delete_document S t d w =
     (let (r, w1) = qx S (DELETE_WHERE (collection S) (tenant_filter t (Some d))) w in
      (case r of QRaised b e \<Rightarrow> None | _ \<Rightarrow> Some (), w1))"

fun upsert_batches :: "'w chunk_store \<Rightarrow> point list list \<Rightarrow> 'w \<Rightarrow> unit option \<times> 'w" where
  "upsert_batches S [] w = (Some (), w)"
| "upsert_batches S (ps # pss) w =
     (let (r, w1) = qx S (UPSERT (collection S) ps) w in
      case r of QRaised b e \<Rightarrow> (None, w1) | _ \<Rightarrow> upsert_batches S pss w1)"

text \<open>\<open>zip(..., strict=True)\<close> raises when there is not a vector for each chunk; the old chunks are gone then.\<close>

definition replace_document ::
  "'w chunk_store \<Rightarrow> string \<Rightarrow> string \<Rightarrow> string \<Rightarrow> chunk list \<Rightarrow> real list list \<Rightarrow> 'w \<Rightarrow> unit option \<times> 'w" where
  "replace_document S t d title chunks vs w =
     (let (r, w1) = delete_document S t d w in
      if r = None \<or> length chunks \<noteq> length vs then (None, w1)
      else upsert_batches S (pieces 256 (map2 (point_of S t d title) chunks vs)) w1)"

definition run_query :: "'w chunk_store \<Rightarrow> query_vector \<Rightarrow> string \<Rightarrow> int \<Rightarrow> 'w \<Rightarrow> stored_chunk list option \<times> 'w" where
  "run_query S q t limit w =
     (let (r, w1) = qx S (QUERY (collection S) q (tenant_filter t None) limit) w in
      (case r of Hits hs \<Rightarrow> Some (map stored hs) | _ \<Rightarrow> None, w1))"

definition dense_search :: "'w chunk_store \<Rightarrow> string \<Rightarrow> real list \<Rightarrow> int \<Rightarrow> 'w \<Rightarrow> stored_chunk list option \<times> 'w" where
  "dense_search S t v limit w = run_query S (DenseQuery v (if has_lexical S then Some [] else None)) t limit w"

definition hybrid_search ::
  "'w chunk_store \<Rightarrow> string \<Rightarrow> real list \<Rightarrow> string \<Rightarrow> int \<Rightarrow> fusion \<Rightarrow> 'w \<Rightarrow> stored_chunk list option \<times> 'w" where
  "hybrid_search S t v x limit fus w =
     (if \<not> has_lexical S then dense_search S t v limit w
      else
        (let sparse = query_terms x; depth = max limit PREFETCH_FLOOR; f = tenant_filter t None in
         run_query S (FusionQuery (DensePrefetch v [] f depth
            # (if indices sparse = [] then [] else [SparsePrefetch sparse LEXICAL f depth])) fus) t limit w))"

section \<open>What is documented of Qdrant\<close>

type_synonym points = "string \<Rightarrow> string \<rightharpoonup> point"  \<comment> \<open>by collection and id\<close>

definition field_is :: "payload \<Rightarrow> string \<times> string \<Rightarrow> bool" where
  "field_is p f = ((fst f = ''tenant_id'' \<and> snd f = pl_tenant p) \<or> (fst f = ''doc_id'' \<and> snd f = pl_doc p))"

definition meets :: "qfilter \<Rightarrow> point \<Rightarrow> bool" where
  "meets f p = (\<forall>x \<in> set f. field_is (pt_payload p) x)"

definition put_points :: "point list \<Rightarrow> (string \<rightharpoonup> point) \<Rightarrow> string \<rightharpoonup> point" where
  "put_points ps m = fold (\<lambda>p m. m(pt_id p \<mapsto> p)) ps m"

definition drop_points :: "qfilter \<Rightarrow> (string \<rightharpoonup> point) \<Rightarrow> string \<rightharpoonup> point" where
  "drop_points f m i = (case m i of None \<Rightarrow> None | Some p \<Rightarrow> if meets f p then None else Some p)"

fun qeffect :: "qcmd \<Rightarrow> points \<Rightarrow> points" where
  "qeffect (UPSERT c ps) P = P(c := put_points ps (P c))"
| "qeffect (DELETE_WHERE c f) P = P(c := drop_points f (P c))"
| "qeffect _ P = P"

fun qanswer :: "qcmd \<Rightarrow> points \<Rightarrow> qreply \<Rightarrow> bool" where
  "qanswer (UPSERT c ps) P r \<longleftrightarrow> r = Ok"
| "qanswer (DELETE_WHERE c f) P r \<longleftrightarrow> r = Ok"
| "qanswer (QUERY c q f n) P r \<longleftrightarrow>
     (\<exists>hs. r = Hits hs \<and> length hs \<le> nat n \<and> sorted_wrt (\<lambda>h g. snd h \<ge> snd g) hs \<and> distinct (map (\<lambda>h. pt_id (fst h)) hs)
        \<and> (\<forall>(p, x) \<in> set hs. P c (pt_id p) = Some p \<and> meets f p))"
| "qanswer _ P r \<longleftrightarrow> True"

definition qdrant_ok :: "'w qdrant \<Rightarrow> ('w \<Rightarrow> points) \<Rightarrow> bool" where
  "qdrant_ok exec pts \<longleftrightarrow>
     (\<forall>c w. qanswer c (pts w) (fst (exec c w)) \<and> pts (snd (exec c w)) = qeffect c (pts w))"

text \<open>The half of it that reading needs\<close>

definition qdrant_reads :: "'w qdrant \<Rightarrow> ('w \<Rightarrow> points) \<Rightarrow> bool" where
  "qdrant_reads exec pts \<longleftrightarrow>
     (\<forall>k q f n w. qanswer (QUERY k q f n) (pts w) (fst (exec (QUERY k q f n) w)) \<and> pts (snd (exec (QUERY k q f n) w)) = pts w)"

lemma qdrant_ok_reads: "qdrant_ok exec pts \<Longrightarrow> qdrant_reads exec pts"
  unfolding qdrant_ok_def qdrant_reads_def by (metis qeffect.simps(7))

section \<open>Facts\<close>

lemma qdrant_rules:
  assumes "qdrant_ok exec pts"
  shows "qanswer c (pts w) (fst (exec c w))" and "pts (snd (exec c w)) = qeffect c (pts w)"
  using assms by (simp_all add: qdrant_ok_def)

text \<open>The points of a document, and what every point of the collection looks like.\<close>

definition points_in :: "(string \<rightharpoonup> point) \<Rightarrow> string \<Rightarrow> string \<Rightarrow> point set" where
  "points_in m t d = {p \<in> ran m. pl_tenant (pt_payload p) = t \<and> pl_doc (pt_payload p) = d}"

definition slash_free :: "string \<Rightarrow> bool" where "slash_free d \<longleftrightarrow> CHR ''/'' \<notin> set d"

definition own_point :: "'w chunk_store \<Rightarrow> point \<Rightarrow> bool" where
  "own_point S p = (let y = pt_payload p in pt_id p = point_id S (pl_tenant y) (pl_doc y) (pl_index y) \<and> slash_free (pl_doc y))"

definition store_ok :: "'w chunk_store \<Rightarrow> (string \<rightharpoonup> point) \<Rightarrow> bool" where
  "store_ok S m \<longleftrightarrow> (\<forall>i p. m i = Some p \<longrightarrow> pt_id p = i \<and> own_point S p)"

lemma decimal_no_slash: "CHR ''/'' \<notin> set (decimal n)"
  using decimal_digits[of "CHR ''/''" n] by (auto simp: is_digit_def)

lemma last_slash:
  assumes "a @ CHR ''/'' # b = a' @ CHR ''/'' # b'" "CHR ''/'' \<notin> set b" "CHR ''/'' \<notin> set b'"
  shows "a = a' \<and> b = b'"
proof -
  have w: "takeWhile (\<lambda>c. c \<noteq> CHR ''/'') (rev (x @ CHR ''/'' # y)) = rev y" if "CHR ''/'' \<notin> set y" for x y
    using that by (simp add: takeWhile_append)
  have "b = b'" using w[OF assms(2), of a] w[OF assms(3), of a'] assms(1) by simp
  then show ?thesis using assms(1) by simp
qed

lemma point_id_eq:
  assumes "inj (uuid5 S)" "slash_free d" "slash_free e"
  shows "point_id S t d i = point_id S u e j \<longleftrightarrow> t = u \<and> d = e \<and> i = j"
proof
  assume "point_id S t d i = point_id S u e j"
  then have "(t @ ''/'' @ d) @ CHR ''/'' # decimal i = (u @ ''/'' @ e) @ CHR ''/'' # decimal j"
    using assms(1) by (simp add: point_id_def inj_eq)
  from last_slash[OF this decimal_no_slash decimal_no_slash]
  have "t @ CHR ''/'' # d = u @ CHR ''/'' # e" "decimal i = decimal j" by simp_all
  then show "t = u \<and> d = e \<and> i = j" using last_slash[of t d u e] assms(2,3) by (simp add: slash_free_def)
qed simp

lemma put_points_append: "put_points (ps @ qs) m = put_points qs (put_points ps m)"
  by (simp add: put_points_def)

lemma put_points_at:
  "distinct (map pt_id ps) \<Longrightarrow> put_points ps m i = (case find (\<lambda>p. pt_id p = i) ps of Some p \<Rightarrow> Some p | None \<Rightarrow> m i)"
  unfolding put_points_def
proof (induction ps arbitrary: m)
  case (Cons p ps)
  have "find (\<lambda>q. pt_id q = pt_id p) ps = None"
    unfolding find_None_iff using Cons.prems by (metis distinct.simps(2) image_eqI list.simps(9) set_map)
  then show ?case using Cons by (auto split: option.splits)
qed simp

lemma find_id: "distinct (map pt_id ps) \<Longrightarrow> find (\<lambda>q. pt_id q = i) ps = Some p \<longleftrightarrow> p \<in> set ps \<and> pt_id p = i"
  by (induction ps) auto

lemma find_no_id: "find (\<lambda>q. pt_id q = i) ps = None \<longleftrightarrow> i \<notin> pt_id ` set ps"
  by (auto simp: find_None_iff)

lemma upsert_batches_ok:
  assumes "qdrant_ok (qx S) pts"
  shows "\<exists>w'. upsert_batches S pss w = (Some (), w') \<and> pts w' = (pts w)(collection S := put_points (concat pss) (pts w (collection S)))"
proof (induction pss arbitrary: w)
  case Nil
  then show ?case by (simp add: put_points_def)
next
  case (Cons ps pss)
  obtain w1 where w1: "qx S (UPSERT (collection S) ps) w = (Ok, w1)"
      "pts w1 = (pts w)(collection S := put_points ps (pts w (collection S)))"
    using qdrant_rules[OF assms, of "UPSERT (collection S) ps" w] by (cases "qx S (UPSERT (collection S) ps) w") auto
  obtain w2 where "upsert_batches S pss w1 = (Some (), w2)"
      "pts w2 = (pts w1)(collection S := put_points (concat pss) (pts w1 (collection S)))"
    using Cons.IH[of w1] by blast
  then show ?case using w1 by (intro exI[of _ w2]) (simp add: put_points_append)
qed

lemma delete_document_ok:
  assumes "qdrant_ok (qx S) pts"
  shows "\<exists>w'. delete_document S t d w = (Some (), w')
     \<and> pts w' = (pts w)(collection S := drop_points (tenant_filter t (Some d)) (pts w (collection S)))"
  using qdrant_rules[OF assms, of "DELETE_WHERE (collection S) (tenant_filter t (Some d))" w]
  by (cases "qx S (DELETE_WHERE (collection S) (tenant_filter t (Some d))) w") (auto simp: delete_document_def)

lemma meets_tenant [simp]:
  "meets (tenant_filter t None) p \<longleftrightarrow> pl_tenant (pt_payload p) = t"
  "meets (tenant_filter t (Some d)) p \<longleftrightarrow> pl_tenant (pt_payload p) = t \<and> pl_doc (pt_payload p) = d"
  by (auto simp: meets_def tenant_filter_def field_is_def)

lemma drop_ok: "store_ok S m \<Longrightarrow> store_ok S (drop_points f m)"
  by (auto simp: store_ok_def drop_points_def split: option.splits if_splits)

lemma drop_points_in:
  "points_in (drop_points (tenant_filter t (Some d)) m) t' d' = (if t' = t \<and> d' = d then {} else points_in m t' d')"
  by (auto simp: points_in_def ran_def drop_points_def split: option.splits if_splits)

text \<open>Writing the points of one document where there are none of it.\<close>

lemma put_document:
  assumes "store_ok S m" and "inj (uuid5 S)" and "distinct (map pt_id ps)" and "points_in m t d = {}"
    and new: "\<And>p. p \<in> set ps \<Longrightarrow> own_point S p \<and> pl_tenant (pt_payload p) = t \<and> pl_doc (pt_payload p) = d"
  shows "store_ok S (put_points ps m)"
    and "points_in (put_points ps m) t' d' = (if t' = t \<and> d' = d then set ps else points_in m t' d')"
proof -
  let ?m = "put_points ps m"
  have at: "?m i = Some p \<longleftrightarrow> (p \<in> set ps \<and> pt_id p = i) \<or> (i \<notin> pt_id ` set ps \<and> m i = Some p)" for i p
  proof (cases "find (\<lambda>q. pt_id q = i) ps")
    case None
    then show ?thesis using find_no_id[of i ps] by (auto simp: put_points_at[OF assms(3)])
  next
    case (Some q)
    then have "q \<in> set ps" "pt_id q = i" using find_id[OF assms(3), of i q] by simp_all
    moreover have "?m i = Some q" using Some by (simp add: put_points_at[OF assms(3)])
    moreover have "q = p \<longleftrightarrow> p \<in> set ps \<and> pt_id p = i" using find_id[OF assms(3), of i p] Some by simp
    ultimately show ?thesis by auto
  qed
  show "store_ok S ?m" using assms(1) new by (auto simp: store_ok_def at)
  have keep: "i \<notin> pt_id ` set ps" if "m i = Some p" for i p
  proof
    assume "i \<in> pt_id ` set ps"
    then obtain q where q: "q \<in> set ps" "pt_id q = i" by blast
    have "pt_id p = i" "own_point S p" using assms(1) that by (auto simp: store_ok_def)
    moreover have "own_point S q" "pl_tenant (pt_payload q) = t" "pl_doc (pt_payload q) = d" using new[OF q(1)] by simp_all
    ultimately have "point_id S (pl_tenant (pt_payload p)) (pl_doc (pt_payload p)) (pl_index (pt_payload p))
        = point_id S t d (pl_index (pt_payload q))" "slash_free (pl_doc (pt_payload p))" "slash_free d"
      using q(2) by (simp_all add: own_point_def Let_def)
    then have "pl_tenant (pt_payload p) = t \<and> pl_doc (pt_payload p) = d" using point_id_eq[OF assms(2)] by blast
    then show False using assms(4) that by (auto simp: points_in_def ran_def)
  qed
  have "p \<in> ran ?m \<longleftrightarrow> p \<in> set ps \<or> p \<in> ran m" for p
    using at keep unfolding ran_def by blast
  then show "points_in ?m t' d' = (if t' = t \<and> d' = d then set ps else points_in m t' d')"
    using new assms(4) by (auto simp: points_in_def)
qed

section \<open>Properties\<close>

lemma replaced_points:
  assumes "inj (uuid5 S)" "slash_free d" "length chunks = length vs" "distinct (map c_index chunks)"
  shows "distinct (map pt_id (map2 (point_of S t d title) chunks vs))"
    and "p \<in> set (map2 (point_of S t d title) chunks vs) \<Longrightarrow>
           own_point S p \<and> pl_tenant (pt_payload p) = t \<and> pl_doc (pt_payload p) = d"
proof -
  have "map pt_id (map2 (point_of S t d title) chunks vs) = map (point_id S t d) (map c_index chunks)"
    using assms(3) by (induction chunks vs rule: list_induct2) (simp_all add: point_of_def)
  moreover have "inj (point_id S t d)" using point_id_eq[OF assms(1,2,2)] by (simp add: inj_def)
  ultimately show "distinct (map pt_id (map2 (point_of S t d title) chunks vs))"
    using assms(4) by (simp only: distinct_map inj_on_subset[OF _ subset_UNIV])
  show "own_point S p \<and> pl_tenant (pt_payload p) = t \<and> pl_doc (pt_payload p) = d"
    if "p \<in> set (map2 (point_of S t d title) chunks vs)"
    using that assms(2) by (auto simp: point_of_def own_point_def)
qed

lemma replace_points:
  assumes "qdrant_ok (qx S) pts" and "inj (uuid5 S)" and "store_ok S (pts w (collection S))" and "slash_free d"
    and "length chunks = length vs" and "distinct (map c_index chunks)"
  obtains w' where "replace_document S t d title chunks vs w = (Some (), w')" "store_ok S (pts w' (collection S))"
    "\<And>t' d'. points_in (pts w' (collection S)) t' d'
        = (if t' = t \<and> d' = d then set (map2 (point_of S t d title) chunks vs) else points_in (pts w (collection S)) t' d')"
    "card (set (map2 (point_of S t d title) chunks vs)) = length chunks"
proof -
  define ps where "ps = map2 (point_of S t d title) chunks vs"
  define m where "m = drop_points (tenant_filter t (Some d)) (pts w (collection S))"
  obtain w1 where w1: "delete_document S t d w = (Some (), w1)" "pts w1 = (pts w)(collection S := m)"
    using delete_document_ok[OF assms(1)] unfolding m_def by blast
  obtain w2 where w2: "upsert_batches S (pieces 256 ps) w1 = (Some (), w2)"
      "pts w2 = (pts w1)(collection S := put_points (concat (pieces 256 ps)) (pts w1 (collection S)))"
    using upsert_batches_ok[OF assms(1)] by blast
  have m2: "pts w2 (collection S) = put_points ps m" by (simp add: w2(2) w1(2) concat_pieces)
  have dist: "distinct (map pt_id ps)" unfolding ps_def by (rule replaced_points(1)[OF assms(2,4,5,6)])
  have new: "\<And>p. p \<in> set ps \<Longrightarrow> own_point S p \<and> pl_tenant (pt_payload p) = t \<and> pl_doc (pt_payload p) = d"
    unfolding ps_def by (rule replaced_points(2)[OF assms(2,4,5,6)])
  have none: "points_in m t d = {}" by (simp add: drop_points_in m_def)
  have ok: "store_ok S m" unfolding m_def by (rule drop_ok[OF assms(3)])
  note put = put_document[OF ok assms(2) dist none new]
  have "store_ok S (pts w2 (collection S))" unfolding m2 by (rule put(1))
  moreover have "points_in (pts w2 (collection S)) t' d' = (if t' = t \<and> d' = d then set ps else points_in (pts w (collection S)) t' d')" for t' d'
    using put(2)[of t' d'] by (simp add: m2 drop_points_in m_def)
  moreover have "replace_document S t d title chunks vs w = (Some (), w2)"
    using w1(1) w2(1) assms(5) by (simp add: replace_document_def ps_def)
  moreover have "card (set ps) = length chunks"
    using dist assms(5) by (simp add: distinct_card distinct_map ps_def[symmetric]) (simp add: ps_def distinct_card)
  ultimately show ?thesis using that unfolding ps_def by blast
qed

text \<open>C28: Storing a document replaces its points and nobody else's: whatever version was there before, the
  points of the document are then exactly one for each chunk, and every other document of every tenant
  has the points it had; storing it again changes nothing.\<close>

theorem storing_replaces_one_document:
  assumes "qdrant_ok (qx S) pts" and "inj (uuid5 S)" and "store_ok S (pts w (collection S))" and "slash_free d"
    and "length chunks = length vs" and "distinct (map c_index chunks)"
  shows "\<exists>w'. replace_document S t d title chunks vs w = (Some (), w') \<and> store_ok S (pts w' (collection S))
     \<and> (\<forall>t' d'. points_in (pts w' (collection S)) t' d'
           = (if t' = t \<and> d' = d then set (map2 (point_of S t d title) chunks vs) else points_in (pts w (collection S)) t' d'))"
proof -
  obtain w' where "replace_document S t d title chunks vs w = (Some (), w')" "store_ok S (pts w' (collection S))"
    "\<And>t' d'. points_in (pts w' (collection S)) t' d'
        = (if t' = t \<and> d' = d then set (map2 (point_of S t d title) chunks vs) else points_in (pts w (collection S)) t' d')"
    by (rule replace_points[OF assms, of t title]) blast
  then show ?thesis by blast
qed

text \<open>A server of one collection that answers a query with the point under one id, if it may.\<close>

definition small_qdrant :: "string \<Rightarrow> points qdrant" where
  "small_qdrant i c P =
     (case c of
        QUERY k q f n \<Rightarrow>
          (case P k i of
             Some p \<Rightarrow> Hits (if pt_id p = i \<and> meets f p \<and> 0 < n then [(p, 1)] else [])
           | None \<Rightarrow> Hits [])
      | _ \<Rightarrow> Ok, qeffect c P)"

lemma small_qdrant_ok: "qdrant_ok (small_qdrant i) id"
proof -
  have "qanswer c P (fst (small_qdrant i c P))" for c and P :: points
    by (cases c) (auto simp: small_qdrant_def split: option.splits)
  then show ?thesis by (simp add: qdrant_ok_def small_qdrant_def)
qed

definition small_store :: "points chunk_store" where
  "small_store = \<lparr>qx = small_qdrant ''t/d/0'', uuid5 = id, collection = ''c'', has_lexical = True\<rparr>"

definition small_chunk :: chunk where
  "small_chunk = \<lparr>c_index = 0, c_text = ''EMBED_MAX'', c_page = None, c_heading = None\<rparr>"

lemma storing_replaces_one_document_witness:
  "\<exists>P. replace_document small_store ''t'' ''d'' ''T'' [small_chunk] [[1]] (\<lambda>_ _. None) = (Some (), P)
     \<and> points_in (P ''c'') ''t'' ''d'' = {point_of small_store ''t'' ''d'' ''T'' small_chunk [1]} \<and> points_in (P ''c'') ''u'' ''d'' = {}"
proof -
  have ok: "qdrant_ok (qx small_store) id" by (simp add: small_store_def small_qdrant_ok)
  have s: "store_ok small_store (id (\<lambda>_ _. None) (collection small_store))" by (simp add: store_ok_def)
  have "inj (uuid5 small_store)" "slash_free ''d''" "length [small_chunk] = length [[1 :: real]]" "distinct (map c_index [small_chunk])"
    by (simp_all add: small_store_def slash_free_def)
  from storing_replaces_one_document[OF ok this(1) s this(2-4), of "''t''" "''T''"]
  obtain P where "replace_document small_store ''t'' ''d'' ''T'' [small_chunk] [[1]] (\<lambda>_ _. None) = (Some (), P)"
      and "\<forall>t' d'. points_in (P ''c'') t' d' = (if t' = ''t'' \<and> d' = ''d'' then {point_of small_store ''t'' ''d'' ''T'' small_chunk [1]} else {})"
    by (auto simp: small_store_def points_in_def)
  then show ?thesis by auto
qed

text \<open>What every search comes down to\<close>

lemma run_query_ok:
  assumes "qdrant_reads (qx S) pts"
  shows "\<exists>l w'. run_query S q t n w = (Some l, w') \<and> pts w' = pts w \<and> length l \<le> nat n
     \<and> sorted_wrt (\<lambda>a b. s_score a \<ge> s_score b) l
     \<and> (\<forall>a \<in> set l. \<exists>p \<in> points_in (pts w (collection S)) t (s_doc a).
          s_index a = pl_index (pt_payload p) \<and> s_text a = pl_text (pt_payload p))"
proof -
  let ?c = "QUERY (collection S) q (tenant_filter t None) n"
  obtain r w1 where r: "qx S ?c w = (r, w1)" by (cases "qx S ?c w")
  then obtain hs where hs: "r = Hits hs" "length hs \<le> nat n" "sorted_wrt (\<lambda>h g. snd h \<ge> snd g) hs"
      "\<forall>(p, y) \<in> set hs. pts w (collection S) (pt_id p) = Some p \<and> meets (tenant_filter t None) p"
    using assms[unfolded qdrant_reads_def, rule_format, of "collection S" q "tenant_filter t None" n w] by auto
  have "\<exists>p \<in> points_in (pts w (collection S)) t (s_doc (stored h)).
      s_index (stored h) = pl_index (pt_payload p) \<and> s_text (stored h) = pl_text (pt_payload p)" if "h \<in> set hs" for h
  proof (intro bexI[of _ "fst h"])
    have "pts w (collection S) (pt_id (fst h)) = Some (fst h)" "pl_tenant (pt_payload (fst h)) = t"
      using that hs(4) by (auto simp: case_prod_beta)
    then show "fst h \<in> points_in (pts w (collection S)) t (s_doc (stored h))"
      by (auto simp: stored_def Let_def points_in_def ran_def)
  qed (simp add: stored_def Let_def)
  moreover have "pts w1 = pts w" using assms[unfolded qdrant_reads_def, rule_format, of "collection S" q "tenant_filter t None" n w] r by simp
  moreover have "sorted_wrt (\<lambda>a b. s_score a \<ge> s_score b) (map stored hs)"
    using hs(3) by (simp add: sorted_wrt_map stored_def Let_def)
  ultimately show ?thesis using r hs(1,2) by (auto simp: run_query_def)
qed

lemma search_is_a_query:
  "\<exists>q. hybrid_search S t v x n fus w = run_query S q t n w" "\<exists>q. dense_search S t v n w = run_query S q t n w"
  by (auto simp: hybrid_search_def dense_search_def Let_def)

text \<open>C4: No search crosses tenants: whatever the vector, the words and the fusion, a search returns at most
  the rows asked for, best first, and each is a chunk that was stored for the tenant that asks.\<close>

theorem searches_stay_with_the_tenant:
  assumes "qdrant_reads (qx S) pts" and "search \<in> {\<lambda>w. hybrid_search S t v x n fus w, \<lambda>w. dense_search S t v n w}"
  shows "\<exists>l w'. search w = (Some l, w') \<and> pts w' = pts w \<and> length l \<le> nat n
     \<and> sorted_wrt (\<lambda>a b. s_score a \<ge> s_score b) l
     \<and> (\<forall>a \<in> set l. \<exists>p \<in> points_in (pts w (collection S)) t (s_doc a).
          s_index a = pl_index (pt_payload p) \<and> s_text a = pl_text (pt_payload p))"
proof -
  obtain q where "search w = run_query S q t n w"
    using assms(2) search_is_a_query[where S = S and t = t and v = v and n = n and w = w] by auto
  then show ?thesis using run_query_ok[OF assms(1), of q t n w] by simp
qed

lemma searches_stay_with_the_tenant_witness:
  "let P = (\<lambda>_. [''t/d/0'' \<mapsto> point_of small_store ''t'' ''d'' ''T'' small_chunk [1]]) in
   \<exists>a w'. hybrid_search small_store ''t'' [1] ''embed'' 5 RRF P = (Some [a], w')
     \<and> (\<exists>p \<in> points_in (P ''c'') ''t'' (s_doc a). s_text a = pl_text (pt_payload p))"
proof -
  let ?P = "\<lambda>_. [''t/d/0'' \<mapsto> point_of small_store ''t'' ''d'' ''T'' small_chunk [1]]"
  have ok: "qdrant_reads (qx small_store) id" by (simp add: small_store_def small_qdrant_ok qdrant_ok_reads)
  have "point_id small_store ''t'' ''d'' 0 = ''t/d/0''" by (simp add: point_id_def small_store_def decimal.simps digit_def) code_simp
  then obtain a w' where a: "hybrid_search small_store ''t'' [1] ''embed'' 5 RRF ?P = (Some [a], w')"
    by (auto simp: hybrid_search_def run_query_def small_store_def small_qdrant_def point_of_def small_chunk_def)
  from searches_stay_with_the_tenant[OF ok insertI1, of "''t''" "[1]" "''embed''" 5 RRF ?P] a
  show ?thesis by (auto simp: small_store_def Let_def)
qed

end
