(* ===== verification/Embeddings.thy ===== *)
theory Embeddings
  imports Text
begin

text \<open>
  The embedders (\<open>app/core/embeddings.py\<close>). The ONNX model behind its inference gate is an argument: a
  call ends with a value, with \<open>OverloadedError\<close>, or with another exception. The hashing embedder hashes
  features with BLAKE2b, 8 bytes as a number (\<open>hash8\<close>), also an argument. Vectors are lists of exact
  reals; every one is normalised.
\<close>

datatype 'a stage = Ready 'a | Overloaded | Broke

section \<open>Vectors\<close>

definition norm2 :: "real list \<Rightarrow> real" where "norm2 v = sqrt (sum_list (map (\<lambda>x. x * x) v))"

definition normalise :: "real list \<Rightarrow> real list" where
  "normalise v = (let n = norm2 v in if n > 0 then map (\<lambda>x. x / n) v else v)"

section \<open>The model's embedder\<close>

record 'w model =
  m_embed :: "string \<Rightarrow> 'w \<Rightarrow> real list stage \<times> 'w"
  m_query :: "string \<Rightarrow> 'w \<Rightarrow> real list stage \<times> 'w"
  m_passages :: "string list \<Rightarrow> 'w \<Rightarrow> real list list stage \<times> 'w"
  batch_size :: nat

fun map_stage :: "('a \<Rightarrow> 'b) \<Rightarrow> 'a stage \<Rightarrow> 'b stage" where
  "map_stage f (Ready x) = Ready (f x)"
| "map_stage f Overloaded = Overloaded"
| "map_stage f Broke = Broke"

definition embed_one :: "'w model \<Rightarrow> string \<Rightarrow> 'w \<Rightarrow> real list stage \<times> 'w" where
  "embed_one M x w = map_prod (map_stage normalise) id (m_embed M x w)"

definition embed_query :: "'w model \<Rightarrow> string \<Rightarrow> 'w \<Rightarrow> real list stage \<times> 'w" where
  "embed_query M x w = map_prod (map_stage normalise) id (m_query M x w)"

fun embed_batches :: "'w model \<Rightarrow> string list list \<Rightarrow> real list list \<Rightarrow> 'w \<Rightarrow> real list list stage \<times> 'w" where
  "embed_batches M [] rows w = (Ready rows, w)"
| "embed_batches M (b # bs) rows w =
     (let (r, w1) = m_passages M b w in
      case r of
        Ready batch \<Rightarrow> embed_batches M bs (rows @ map normalise batch) w1
      | Overloaded \<Rightarrow> (Overloaded, w1)
      | Broke \<Rightarrow> (Broke, w1))"

definition embed_documents :: "'w model \<Rightarrow> string list \<Rightarrow> 'w \<Rightarrow> real list list stage \<times> 'w" where
  "embed_documents M texts w = (if texts = [] then (Ready [], w) else embed_batches M (pieces (batch_size M) texts) [] w)"

section \<open>The hashing embedder\<close>

fun token_run :: "string \<Rightarrow> string \<Rightarrow> string list" where
  "token_run cur [] = (if cur = [] then [] else [rev cur])"
| "token_run cur (c # cs) =
     (if is_alnum c then token_run (c # cur) cs
      else if cur = [] then token_run [] cs else rev cur # token_run [] cs)"

definition features :: "string \<Rightarrow> string list" where
  "features x = (let ts = token_run [] (lower x) in ts @ map2 (\<lambda>a b. a @ '' '' @ b) ts (tl ts))"

definition add_feature :: "(string \<Rightarrow> nat) \<Rightarrow> string \<Rightarrow> real list \<Rightarrow> real list" where
  "add_feature hash8 f v =
     (let h = hash8 f; i = h mod length v in v[i := v ! i + (if (h div 2 ^ 63) mod 2 = 1 then 1 else -1)])"

definition hashing_vector :: "(string \<Rightarrow> nat) \<Rightarrow> nat \<Rightarrow> string \<Rightarrow> real list" where
  "hashing_vector hash8 n x = normalise (fold (add_feature hash8) (features x) (replicate n 0))"

definition hashing_documents :: "(string \<Rightarrow> nat) \<Rightarrow> nat \<Rightarrow> string list \<Rightarrow> real list list" where
  "hashing_documents hash8 n texts = (if texts = [] then [] else map (hashing_vector hash8 n) texts)"

section \<open>Facts\<close>

lemma length_normalise [simp]: "length (normalise v) = length v"
  by (simp add: normalise_def Let_def)

lemma squares_nonneg: "0 \<le> sum_list (map (\<lambda>x. x * x) (v :: real list))"
  by (rule sum_list_nonneg) auto

lemma squares_divide: "sum_list (map (\<lambda>x. (x / n) * (x / n)) v) = sum_list (map (\<lambda>x. x * x) v) / (n * n)" for n :: real
  by (induction v) (simp_all add: add_divide_distrib)

lemma norm2_normalise: "norm2 (normalise v) = (if norm2 v > 0 then 1 else 0)"
proof (cases "norm2 v > 0")
  case True
  have "norm2 v * norm2 v = sum_list (map (\<lambda>x. x * x) v)" using squares_nonneg[of v] by (simp add: norm2_def)
  moreover have "sum_list (map (\<lambda>x. x * x) v) \<noteq> 0" using True by (auto simp: norm2_def)
  ultimately show ?thesis using True squares_divide[of "norm2 v" v] by (simp add: normalise_def norm2_def[of "map _ _"] comp_def Let_def)
next
  case False
  moreover have "0 \<le> norm2 v" using squares_nonneg by (simp add: norm2_def)
  ultimately show ?thesis by (simp add: normalise_def)
qed

lemma embed_batches_ready:
  assumes "\<And>b w. b \<in> set bs \<Longrightarrow> \<exists>w'. m_passages M b w = (Ready (map f b), w')"
  shows "\<exists>w'. embed_batches M bs rows w = (Ready (rows @ map (normalise \<circ> f) (concat bs)), w')"
  using assms
proof (induction bs arbitrary: rows w)
  case (Cons b bs)
  obtain w1 where "m_passages M b w = (Ready (map f b), w1)" using Cons.prems[of b w] by auto
  moreover obtain w' where "embed_batches M bs (rows @ map normalise (map f b)) w1
      = (Ready ((rows @ map normalise (map f b)) @ map (normalise \<circ> f) (concat bs)), w')"
    using Cons.IH[of "rows @ map normalise (map f b)" w1] Cons.prems by auto
  ultimately show ?case by simp
qed simp

section \<open>Properties\<close>

text \<open>Batching does not show: when the model embeds any batch of at most \<open>batch_size\<close> passages one by one,
  a document of any length gets the normalised vector of each of its passages, in order, even if
  the model can take no more than a batch; every vector has length 1, or 0 when the model's was 0.\<close>

theorem batching_does_not_show:
  assumes "0 < batch_size M" and "\<And>b w. b \<noteq> [] \<Longrightarrow> length b \<le> batch_size M \<Longrightarrow> \<exists>w'. m_passages M b w = (Ready (map f b), w')"
  shows "\<exists>vs w'. embed_documents M texts w = (Ready vs, w') \<and> vs = map (\<lambda>x. normalise (f x)) texts
     \<and> (\<forall>v \<in> set vs. norm2 v = 0 \<or> norm2 v = 1)"
proof -
  have batches: "\<exists>w'. m_passages M b w = (Ready (map f b), w')" if "b \<in> set (pieces (batch_size M) texts)" for b w
    using assms(2) pieces_bounds[OF that] by blast
  obtain w' where "embed_batches M (pieces (batch_size M) texts) [] w
      = (Ready (map (normalise \<circ> f) (concat (pieces (batch_size M) texts))), w')"
    using embed_batches_ready[of "pieces (batch_size M) texts" M f "[]" w] batches by auto
  then have "\<exists>w'. embed_documents M texts w = (Ready (map (\<lambda>x. normalise (f x)) texts), w')"
    using assms(1) by (simp add: embed_documents_def concat_pieces comp_def)
  then show ?thesis by (auto simp: norm2_normalise)
qed

lemma batching_does_not_show_witness:
  "\<exists>w'. embed_documents \<lparr>m_embed = \<lambda>x w. (Broke, w), m_query = \<lambda>x w. (Broke, w),
           m_passages = \<lambda>b (w :: nat). (if length b \<le> 2 then Ready (map (\<lambda>x. [real (length x), 0]) b) else Broke, w + 1), batch_size = 2\<rparr>
         [''a'', ''bb'', ''''] 0 = (Ready [[1, 0], [1, 0], [0, 0]], w')"
proof -
  let ?M = "\<lparr>m_embed = \<lambda>x w. (Broke, w), m_query = \<lambda>x w. (Broke, w),
           m_passages = \<lambda>b (w :: nat). (if length b \<le> 2 then Ready (map (\<lambda>x. [real (length x), 0]) b) else Broke, w + 1), batch_size = 2\<rparr>"
  have "0 < batch_size ?M" by simp
  moreover have "\<exists>w'. m_passages ?M b w = (Ready (map (\<lambda>x. [real (length x), 0]) b), w')" if "length b \<le> batch_size ?M" for b w
    using that by simp
  ultimately obtain w' where "embed_documents ?M [''a'', ''bb'', ''''] 0
      = (Ready (map (\<lambda>x. normalise [real (length x), 0]) [''a'', ''bb'', '''']), w')"
    using batching_does_not_show[of ?M "\<lambda>x. [real (length x), 0]" "[''a'', ''bb'', '''']" 0] by blast
  then show ?thesis by (simp add: normalise_def norm2_def)
qed

end
