(* ===== verification/Retrieval.thy ===== *)
theory Retrieval
  imports Vector_Store Embeddings "HOL-Library.Multiset"
begin

text \<open>
  Two-stage retrieval (\<open>app/rag/retrieval.py\<close>, \<open>app/rag/reranking.py\<close>): a search over the tenant's
  chunks and, if there is a reranker, a second scoring of the candidates. The embedder and the
  cross-encoder behind its gate are arguments; each call ends with a value, with \<open>OverloadedError\<close>, or
  with another exception. The numbers of rows are positive, as the schemas ensure.
\<close>

type_synonym 'w scorer = "string \<Rightarrow> string list \<Rightarrow> 'w \<Rightarrow> real list stage \<times> 'w"

record 'w retriever =
  rt_store :: "'w chunk_store"
  rt_embed :: "string \<Rightarrow> 'w \<Rightarrow> real list stage \<times> 'w"
  rt_reranker :: "'w scorer option"
  candidates :: int
  rt_fusion :: fusion
  rerank_max_words :: int
  hybrid :: bool

record retrieved =
  rc_chunk :: stored_chunk
  rc_rerank :: "real option"

definition vector_score :: "retrieved \<Rightarrow> real" where "vector_score r = s_score (rc_chunk r)"

definition new_retriever ::
  "'w chunk_store \<Rightarrow> (string \<Rightarrow> 'w \<Rightarrow> real list stage \<times> 'w) \<Rightarrow> 'w scorer option \<Rightarrow> int \<Rightarrow> bool \<Rightarrow> fusion \<Rightarrow> int
     \<Rightarrow> 'w retriever" where
  "new_retriever S e rr c h f n =
     \<lparr>rt_store = S, rt_embed = e, rt_reranker = rr, candidates = c, rt_fusion = f, rerank_max_words = n,
      hybrid = (h \<and> has_lexical S)\<rparr>"

text \<open>\<open>CrossEncoderReranker.scores\<close>; \<open>run\<close> is the model behind the gate.\<close>

definition cross_scores :: "'w scorer \<Rightarrow> 'w scorer" where
  "cross_scores run q passages w = (if passages = [] then (Ready [], w) else run q passages w)"

text \<open>\<open>_for_scoring\<close>\<close>

definition for_scoring :: "'w retriever \<Rightarrow> string \<Rightarrow> string" where
  "for_scoring R x =
     (if rerank_max_words R \<le> 0 then x
      else if int (length (split_words x)) \<le> rerank_max_words R then x
      else join '' '' (take (nat (rerank_max_words R)) (split_words x)))"

definition unranked :: "int \<Rightarrow> stored_chunk list \<Rightarrow> retrieved list" where
  "unranked k hits = map (\<lambda>h. \<lparr>rc_chunk = h, rc_rerank = None\<rparr>) (take (nat k) hits)"

text \<open>\<open>sorted\<close> with \<open>reverse=True\<close> keeps equal scores in their order.\<close>

definition best_first :: "(stored_chunk \<times> real) list \<Rightarrow> (stored_chunk \<times> real) list" where
  "best_first ps = sort_key (\<lambda>p. - snd p) ps"

definition rerank_hits :: "'w retriever \<Rightarrow> 'w scorer \<Rightarrow> string \<Rightarrow> int \<Rightarrow> stored_chunk list \<Rightarrow> 'w \<Rightarrow> retrieved list stage \<times> 'w" where
  "rerank_hits R score q k hits w =
     (let (s, w1) = score q (map (\<lambda>h. for_scoring R (s_text h)) hits) w in
      (case s of
         Overloaded \<Rightarrow> Ready (unranked k hits)
       | Broke \<Rightarrow> Broke
       | Ready scores \<Rightarrow>
           if length scores \<noteq> length hits then Broke
           else Ready (map (\<lambda>(h, x). \<lparr>rc_chunk = h, rc_rerank = Some x\<rparr>) (take (nat k) (best_first (zip hits scores)))), w1))"

definition find_hits :: "'w retriever \<Rightarrow> string \<Rightarrow> string \<Rightarrow> real list \<Rightarrow> int \<Rightarrow> 'w \<Rightarrow> stored_chunk list option \<times> 'w" where
  "find_hits R t q v limit w =
     (if hybrid R then hybrid_search (rt_store R) t v q limit (rt_fusion R) w else dense_search (rt_store R) t v limit w)"

definition retrieve :: "'w retriever \<Rightarrow> string \<Rightarrow> string \<Rightarrow> int \<Rightarrow> bool \<Rightarrow> 'w \<Rightarrow> retrieved list stage \<times> 'w" where
  "retrieve R t q k rerank w =
     (let scorer = (if rerank then rt_reranker R else None); (e, w1) = rt_embed R q w in
      case e of
        Overloaded \<Rightarrow> (Overloaded, w1)
      | Broke \<Rightarrow> (Broke, w1)
      | Ready v \<Rightarrow>
          (let limit = (if scorer = None then k else max (candidates R) k);
               (h, w2) = find_hits R t q v limit w1
           in case h of
                None \<Rightarrow> (Broke, w2)
              | Some hits \<Rightarrow>
                  (case scorer of
                     None \<Rightarrow> (Ready (unranked k hits), w2)
                   | Some score \<Rightarrow>
                       if hits = [] then (Ready (unranked k hits), w2) else rerank_hits R score q k hits w2)))"

section \<open>Facts\<close>

lemma mset_best_first: "mset (best_first ps) = mset ps"
  by (simp add: best_first_def)

lemma best_first_sorted: "sorted_wrt (\<lambda>p q. snd q \<le> snd p) (best_first ps)"
proof -
  have "sorted (map (\<lambda>p. - snd p) (best_first ps))" unfolding best_first_def by (rule sorted_sort_key)
  then show ?thesis by (simp add: sorted_map sorted_wrt_iff_nth_less sorted_iff_nth_mono_less)
qed

lemma best_first_stable: "filter (\<lambda>p. snd p = x) (best_first ps) = filter (\<lambda>p. snd p = x) ps"
proof -
  have "filter (\<lambda>p. - snd p = - x) (best_first ps) = filter (\<lambda>p. - snd p = - x) ps"
    unfolding best_first_def by (rule stable_sort_key_sort_key[unfolded stable_sort_key_def, rule_format, where k = "- x"])
  then show ?thesis by simp
qed

lemma taken_before:
  "sorted_wrt R xs \<Longrightarrow> x \<in> set (take n xs) \<Longrightarrow> y \<in> set (drop n xs) \<Longrightarrow> R x y"
  by (metis append_take_drop_id sorted_wrt_append)

text \<open>What the first stage finds belongs to the tenant.\<close>

definition of_tenant :: "'w retriever \<Rightarrow> points \<Rightarrow> string \<Rightarrow> stored_chunk \<Rightarrow> bool" where
  "of_tenant R P t h \<longleftrightarrow> (\<exists>p \<in> points_in (P (collection (rt_store R))) t (s_doc h).
     s_index h = pl_index (pt_payload p) \<and> s_text h = pl_text (pt_payload p))"

lemma find_hits_ok:
  assumes "qdrant_reads (qx (rt_store R)) pts"
  obtains l w' where "find_hits R t q v n w = (Some l, w')" "pts w' = pts w" "length l \<le> nat n"
    "\<forall>h \<in> set l. of_tenant R (pts w) t h"
proof -
  obtain x where "find_hits R t q v n w = run_query (rt_store R) x t n w"
    using search_is_a_query[where S = "rt_store R"] by (metis find_hits_def)
  then show ?thesis using run_query_ok[OF assms, of x t n w] that by (auto simp: of_tenant_def)
qed

text \<open>Whatever the reranker does, an answer is made of the tenant's chunks.\<close>

lemma rerank_hits_from:
  "rerank_hits R score q k hits w = (Ready l, w') \<Longrightarrow> length l \<le> nat k \<and> rc_chunk ` set l \<subseteq> set hits"
proof (cases "score q (map (\<lambda>h. for_scoring R (s_text h)) hits) w")
  case (Pair s w1)
  assume r: "rerank_hits R score q k hits w = (Ready l, w')"
  show ?thesis
  proof (cases s)
    case (Ready scores)
    then have l: "l = map (\<lambda>(h, x). \<lparr>rc_chunk = h, rc_rerank = Some x\<rparr>) (take (nat k) (best_first (zip hits scores)))"
      using r Pair by (auto simp: rerank_hits_def split: if_splits)
    have "fst ` set (best_first (zip hits scores)) \<subseteq> set hits"
      using mset_best_first[of "zip hits scores", THEN mset_eq_setD] by (auto dest: set_zip_leftD)
    then show ?thesis unfolding l by (auto dest!: in_set_takeD)
  next
    case Overloaded
    then have "l = unranked k hits" using r Pair by (simp add: rerank_hits_def)
    then show ?thesis using set_take_subset[of "nat k" hits] by (auto simp: unranked_def)
  next
    case Broke
    then show ?thesis using r Pair by (simp add: rerank_hits_def)
  qed
qed

lemma retrieve_from_tenant:
  assumes "qdrant_reads (qx (rt_store R)) pts" and "\<And>x w. pts (snd (rt_embed R x w)) = pts w"
    and "retrieve R t q k b w = (Ready l, w')"
  shows "length l \<le> nat k \<and> (\<forall>h \<in> set l. of_tenant R (pts w) t (rc_chunk h))"
proof -
  obtain x w1 where x: "rt_embed R q w = (x, w1)" by (cases "rt_embed R q w")
  then obtain v where e: "rt_embed R q w = (Ready v, w1)" using assms(3) by (cases x) (simp_all add: retrieve_def)
  have w1: "pts w1 = pts w" using assms(2)[of q w] e by simp
  define scorer where "scorer = (if b then rt_reranker R else None)"
  obtain hits w2 where h: "find_hits R t q v (if scorer = None then k else max (candidates R) k) w1 = (Some hits, w2)"
      "\<forall>h \<in> set hits. of_tenant R (pts w1) t h"
    by (rule find_hits_ok[OF assms(1), of t q v "if scorer = None then k else max (candidates R) k" w1]) blast
  have plain: "length (unranked k hits) \<le> nat k \<and> rc_chunk ` set (unranked k hits) \<subseteq> set hits"
    using set_take_subset[of "nat k" hits] by (auto simp: unranked_def)
  have "length l \<le> nat k \<and> rc_chunk ` set l \<subseteq> set hits"
  proof (cases scorer)
    case None
    then have "l = unranked k hits" using assms(3) e h(1) by (simp add: retrieve_def scorer_def[symmetric] split: option.splits)
    then show ?thesis using plain by simp
  next
    case (Some score)
    then have "retrieve R t q k b w = (if hits = [] then (Ready (unranked k hits), w2) else rerank_hits R score q k hits w2)"
      using e h(1) by (simp add: retrieve_def scorer_def[symmetric])
    then show ?thesis using assms(3) plain rerank_hits_from[of R score q k hits w2 l w'] by (cases "hits = []") simp_all
  qed
  then show ?thesis using h(2) w1 by auto
qed

section \<open>Properties\<close>

text \<open>C29: Retrieval returns the best of the tenant's candidates: at most \<open>top_k\<close> of the hits of the first stage,
  which all are chunks of the tenant; with scores from the reranker these are the highest ones, in
  order, equal ones as the first stage had them, and no candidate left out scores higher.\<close>

theorem reranking_keeps_the_best:
  assumes "qdrant_reads (qx (rt_store R)) pts" and "rt_reranker R = Some score" and "rt_embed R q w = (Ready v, w1)"
    and "\<And>ps w. \<exists>w'. score q ps w = (Ready (map f ps), w')"
  shows "\<exists>hits w2 w3 ps rest. find_hits R t q v (max (candidates R) k) w1 = (Some hits, w2)
      \<and> (\<forall>h \<in> set hits. of_tenant R (pts w1) t h)
      \<and> retrieve R t q k True w = (Ready (map (\<lambda>(h, x). \<lparr>rc_chunk = h, rc_rerank = Some x\<rparr>) ps), w3)
      \<and> length ps = min (nat k) (length hits)
      \<and> mset (ps @ rest) = mset (map (\<lambda>h. (h, f (for_scoring R (s_text h)))) hits)
      \<and> sorted_wrt (\<lambda>a b. snd b \<le> snd a) (ps @ rest)
      \<and> (\<forall>x. filter (\<lambda>p. snd p = x) (ps @ rest) = filter (\<lambda>p. snd p = x) (map (\<lambda>h. (h, f (for_scoring R (s_text h)))) hits))"
proof -
  obtain hits w2 where h: "find_hits R t q v (max (candidates R) k) w1 = (Some hits, w2)"
      "\<forall>h \<in> set hits. of_tenant R (pts w1) t h"
    by (rule find_hits_ok[OF assms(1), of t q v "max (candidates R) k" w1]) blast
  define all where "all = best_first (zip hits (map (\<lambda>h. f (for_scoring R (s_text h))) hits))"
  obtain w3 where w3: "score q (map (\<lambda>h. for_scoring R (s_text h)) hits) w2
      = (Ready (map f (map (\<lambda>h. for_scoring R (s_text h)) hits)), w3)"
    using assms(4) by blast
  have "\<exists>w'. retrieve R t q k True w = (Ready (map (\<lambda>(h, x). \<lparr>rc_chunk = h, rc_rerank = Some x\<rparr>) (take (nat k) all)), w')"
  proof (cases "hits = []")
    case True
    then show ?thesis using assms(2,3) h(1) by (simp add: retrieve_def unranked_def all_def best_first_def)
  next
    case False
    then show ?thesis using assms(2,3) h(1) w3 by (simp add: retrieve_def rerank_hits_def all_def comp_def)
  qed
  then obtain w' where "retrieve R t q k True w = (Ready (map (\<lambda>(h, x). \<lparr>rc_chunk = h, rc_rerank = Some x\<rparr>) (take (nat k) all)), w')"
    by blast
  moreover have "length (take (nat k) all) = min (nat k) (length hits)" by (simp add: all_def best_first_def min.commute)
  moreover have z: "zip hits (map (\<lambda>h. f (for_scoring R (s_text h))) hits) = map (\<lambda>h. (h, f (for_scoring R (s_text h)))) hits"
    by (simp add: zip_map2 zip_same_conv_map)
  have "mset (take (nat k) all @ drop (nat k) all) = mset (map (\<lambda>h. (h, f (for_scoring R (s_text h)))) hits)"
    unfolding append_take_drop_id all_def by (simp only: mset_best_first z)
  moreover have "sorted_wrt (\<lambda>a b. snd b \<le> snd a) (take (nat k) all @ drop (nat k) all)"
    unfolding append_take_drop_id all_def by (rule best_first_sorted)
  moreover have "\<forall>x. filter (\<lambda>p. snd p = x) (take (nat k) all @ drop (nat k) all)
      = filter (\<lambda>p. snd p = x) (map (\<lambda>h. (h, f (for_scoring R (s_text h)))) hits)"
    unfolding append_take_drop_id all_def by (simp only: best_first_stable z simp_thms)
  ultimately show ?thesis using h
    by (intro exI[of _ hits] exI[of _ w2] exI[of _ w'] exI[of _ "take (nat k) all"] exI[of _ "drop (nat k) all"] conjI)
qed

text \<open>A retriever over the small store, with a reranker that scores by length.\<close>

definition small_retriever :: "points scorer \<Rightarrow> points retriever" where
  "small_retriever score = new_retriever small_store (\<lambda>q w. (Ready [1], w)) (Some score) 3 True RRF 1"

definition small_points :: points where
  "small_points = (\<lambda>_. [''t/d/0'' \<mapsto> point_of small_store ''t'' ''d'' ''T'' small_chunk [1]])"

lemma small_ok: "qdrant_reads (qx (rt_store (small_retriever score))) id"
  by (simp add: small_retriever_def new_retriever_def small_store_def small_qdrant_ok qdrant_ok_reads)

lemma reranking_keeps_the_best_witness:
  "\<exists>ps w. retrieve (small_retriever (\<lambda>q xs w. (Ready (map (\<lambda>x. real (length x)) xs), w))) ''t'' ''embed'' 2 True small_points
     = (Ready (map (\<lambda>(h, x). \<lparr>rc_chunk = h, rc_rerank = Some x\<rparr>) ps), w) \<and> length ps \<le> 2"
proof -
  let ?score = "\<lambda>q xs w. (Ready (map (\<lambda>x. real (length x)) xs), w :: points)"
  have "rt_reranker (small_retriever ?score) = Some ?score" by (simp add: small_retriever_def new_retriever_def)
  moreover have "rt_embed (small_retriever ?score) ''embed'' small_points = (Ready [1], small_points)"
    by (simp add: small_retriever_def new_retriever_def)
  ultimately show ?thesis
    using reranking_keeps_the_best[OF small_ok, of ?score ?score "''embed''" small_points "[1]" small_points
        "\<lambda>x. real (length x)" "''t''" 2] by auto
qed

text \<open>A saturated reranker costs the order and nothing else: the answer is the first \<open>top_k\<close> of what a
  search of the same depth without a reranker finds, without scores.\<close>

theorem a_saturated_reranker_costs_only_the_order:
  assumes "rt_reranker R = Some score" and "\<And>ps w. score q ps w = (Overloaded, w)" and "0 \<le> k"
  shows "retrieve R t q k True w
     = (case retrieve (R\<lparr>rt_reranker := None\<rparr>) t q (max (candidates R) k) True w of
          (Ready l, w') \<Rightarrow> (Ready (take (nat k) l), w')
        | other \<Rightarrow> other)"
proof -
  have same: "find_hits (R\<lparr>rt_reranker := None\<rparr>) t q v n w = find_hits R t q v n w" for v n w
    by (simp add: find_hits_def)
  have "unranked k hits = take (nat k) (unranked (max (candidates R) k) hits)" for hits
    using assms(3) by (simp add: unranked_def take_map min_def)
  then show ?thesis
    using assms(1,2) by (auto simp: retrieve_def rerank_hits_def same split: stage.splits option.splits prod.splits)
qed

lemma a_saturated_reranker_costs_only_the_order_witness:
  "\<exists>r w. retrieve (small_retriever (\<lambda>q xs w. (Overloaded, w))) ''t'' ''embed'' 2 True small_points = (Ready [r], w)
     \<and> rc_rerank r = None"
proof -
  let ?R = "small_retriever (\<lambda>q xs w. (Overloaded, w))"
  have i: "point_id small_store ''t'' ''d'' 0 = ''t/d/0''" by (simp add: point_id_def small_store_def decimal.simps digit_def) code_simp
  have r: "rt_reranker ?R = Some (\<lambda>q xs w. (Overloaded, w))" by (simp add: small_retriever_def new_retriever_def)
  have "\<exists>r w. retrieve (?R\<lparr>rt_reranker := None\<rparr>) ''t'' ''embed'' 3 True small_points = (Ready [r], w) \<and> rc_rerank r = None"
    using i by (auto simp: retrieve_def find_hits_def hybrid_search_def run_query_def small_retriever_def new_retriever_def
        small_store_def small_qdrant_def small_points_def point_of_def small_chunk_def unranked_def)
  then show ?thesis
    using a_saturated_reranker_costs_only_the_order[OF r, of 2 "''t''" "''embed''" small_points]
    by (auto simp: small_retriever_def new_retriever_def)
qed

end
