(* ===== verification/Route_Table.thy ===== *)
theory Route_Table
  imports Text
begin

text \<open>
  The data the gateway passes around (\<open>app/gateway/schemas.py\<close>), the route table
  (\<open>app/gateway/routing_config.py\<close>) and the price of a call (\<open>app/gateway/pricing.py\<close>). Pydantic checks
  the declared bounds of a model when it is built: each model has a \<open>valid_\<close> predicate with exactly
  those bounds. Parsing YAML and the JSON fingerprint are library calls and stay parameters where
  they are used.
\<close>

section \<open>Messages, requests, responses\<close>

datatype role = System | User | Assistant | ToolRole

record chat_message =
  msg_role :: role
  msg_content :: string

record chat_request =
  req_model :: string
  messages :: "chat_message list"
  temperature :: "real option"
  max_tokens :: "int option"
  streamed :: bool
  use_cache :: bool

definition valid_chat_request :: "chat_request \<Rightarrow> bool" where
  "valid_chat_request r \<longleftrightarrow>
     messages r \<noteq> []
     \<and> (case temperature r of None \<Rightarrow> True | Some t \<Rightarrow> 0 \<le> t \<and> t \<le> 2)
     \<and> (case max_tokens r of None \<Rightarrow> True | Some n \<Rightarrow> 0 < n)"

record usage =
  prompt_tokens :: int
  completion_tokens :: int

definition no_usage :: usage where "no_usage = \<lparr>prompt_tokens = 0, completion_tokens = 0\<rparr>"

definition total_tokens :: "usage \<Rightarrow> int" where
  "total_tokens u = prompt_tokens u + completion_tokens u"

record provider_response =
  resp_content :: string
  resp_usage :: usage
  resp_model :: string
  resp_finish :: string

record stream_delta =
  delta_content :: string
  delta_finish :: "string option"
  delta_usage :: "usage option"
  delta_model :: "string option"

datatype outcome = Success | Error | Timeout | Skipped | ClientError | Interrupted

record attempt =
  att_deployment :: string
  att_outcome :: outcome
  att_latency :: real
  att_error :: "string option"

section \<open>Deployments and route tables\<close>

record pricing =
  input_per_mtok :: real
  output_per_mtok :: real

record deployment =
  dep_name :: string
  dep_provider :: string
  dep_model :: string
  dep_api_base :: "string option"
  dep_timeout :: "real option"
  max_retries :: int
  dep_pricing :: "pricing option"
  self_hosted :: bool
  dep_options :: "(string \<times> real) list"

definition valid_deployment :: "deployment \<Rightarrow> bool" where
  "valid_deployment d \<longleftrightarrow>
     0 \<le> max_retries d \<and> max_retries d \<le> 5
     \<and> (case dep_pricing d of None \<Rightarrow> True
          | Some p \<Rightarrow> 0 \<le> input_per_mtok p \<and> 0 \<le> output_per_mtok p)"

type_synonym routes = "(string \<times> deployment list) list"

text \<open>\<open>timeout = dep.timeout_seconds or self._default_timeout\<close>: a timeout of 0 is falsy too.\<close>

definition effective_timeout :: "real \<Rightarrow> deployment \<Rightarrow> real" where
  "effective_timeout dflt d =
     (case dep_timeout d of Some t \<Rightarrow> if t = 0 then dflt else t | None \<Rightarrow> dflt)"

text \<open>The model validator: no empty chain, and a deployment name means one thing. \<open>setdefault\<close> leaves a
  known name alone and returns what it already meant.\<close>

fun check_chain ::
  "deployment list \<Rightarrow> (string \<times> deployment) list \<Rightarrow> value_error + (string \<times> deployment) list" where
  "check_chain [] seen = Inr seen"
| "check_chain (d # ds) seen =
     (case dict_get seen (dep_name d) of
        None \<Rightarrow> check_chain ds (dict_set (dep_name d) d seen)
      | Some d' \<Rightarrow>
          if d' \<noteq> d
          then Inl (ValueError (''deployment '' @ dep_name d @ '' defined twice with different config''))
          else check_chain ds seen)"

fun check_routes ::
  "routes \<Rightarrow> (string \<times> deployment) list \<Rightarrow> value_error + (string \<times> deployment) list" where
  "check_routes [] seen = Inr seen"
| "check_routes ((alias, chain) # rs) seen =
     (if chain = [] then Inl (ValueError (''route '' @ alias @ '' has no deployments''))
      else (case check_chain chain seen of Inl e \<Rightarrow> Inl e | Inr seen' \<Rightarrow> check_routes rs seen'))"

definition validate_routes :: "routes \<Rightarrow> value_error + routes" where
  "validate_routes rs = (case check_routes rs [] of Inl e \<Rightarrow> Inl e | Inr _ \<Rightarrow> Inr rs)"

text \<open>The \<open>deployments\<close> property is a dict comprehension: a later deployment of the same name replaces the
  earlier one in place.\<close>

definition deployments :: "routes \<Rightarrow> (string \<times> deployment) list" where
  "deployments rs = fold (\<lambda>d. dict_set (dep_name d) d) (concat (map snd rs)) []"

text \<open>\<open>from_text\<close>: parse, then validate; \<open>parse\<close> stands for \<open>yaml.safe_load\<close> and pydantic's field checks.\<close>

definition routes_from_text :: "(string \<Rightarrow> value_error + routes) \<Rightarrow> string \<Rightarrow> value_error + routes" where
  "routes_from_text parse text = (case parse text of Inl e \<Rightarrow> Inl e | Inr rs \<Rightarrow> validate_routes rs)"

section \<open>The price of a call\<close>

text \<open>\<open>lit\<close> stands for \<open>litellm.cost_per_token\<close>: the two costs, or \<open>None\<close> when it raises.\<close>

type_synonym price_map = "string \<Rightarrow> int \<Rightarrow> int \<Rightarrow> (real \<times> real) option"

definition litellm_cost :: "price_map \<Rightarrow> string \<Rightarrow> int \<Rightarrow> int \<Rightarrow> real" where
  "litellm_cost lit model p c =
     (case lit model p c of Some (prompt_cost, completion_cost) \<Rightarrow> prompt_cost + completion_cost | None \<Rightarrow> 0)"

definition compute_cost :: "price_map \<Rightarrow> deployment \<Rightarrow> usage \<Rightarrow> real" where
  "compute_cost lit d u =
     (case dep_pricing d of
        Some p \<Rightarrow>
          (of_int (prompt_tokens u) * input_per_mtok p + of_int (completion_tokens u) * output_per_mtok p)
          / 1000000
      | None \<Rightarrow> litellm_cost lit (dep_model d) (prompt_tokens u) (completion_tokens u))"

section \<open>Lemmas\<close>

lemma check_chain_Inr:
  "check_chain ds seen = Inr seen' \<Longrightarrow>
     (\<forall>d \<in> set ds. dict_get seen' (dep_name d) = Some d)
     \<and> (\<forall>n d. dict_get seen n = Some d \<longrightarrow> dict_get seen' n = Some d)"
proof (induction ds seen rule: check_chain.induct)
  case (2 d ds seen)
  show ?case
  proof (cases "dict_get seen (dep_name d)")
    case None
    then have "check_chain ds (dict_set (dep_name d) d seen) = Inr seen'" using "2.prems" by simp
    note ih = "2.IH"(1)[OF None this]
    have new: "dict_get (dict_set (dep_name d) d seen) n = (if n = dep_name d then Some d else dict_get seen n)" for n
      by (simp add: dict_get_set)
    show ?thesis using ih new None by (metis option.distinct(1) set_ConsD)
  next
    case (Some d')
    then have "d' = d" "check_chain ds seen = Inr seen'" using "2.prems" by (auto split: if_splits)
    then show ?thesis using "2.IH"(2)[OF Some] Some by auto
  qed
qed simp

lemma check_routes_Inr:
  "check_routes rs seen = Inr seen' \<Longrightarrow>
     (\<forall>(a, ds) \<in> set rs. ds \<noteq> [] \<and> (\<forall>d \<in> set ds. dict_get seen' (dep_name d) = Some d))
     \<and> (\<forall>n d. dict_get seen n = Some d \<longrightarrow> dict_get seen' n = Some d)"
proof (induction rs seen rule: check_routes.induct)
  case (2 a chain rs seen)
  then obtain s1 where s1: "chain \<noteq> []" "check_chain chain seen = Inr s1" "check_routes rs s1 = Inr seen'"
    by (auto split: if_splits sum.splits)
  from "2.IH"[OF _ s1(2,3)] check_chain_Inr[OF s1(2)] s1(1) show ?case by auto
qed simp

lemma fold_dict_set_get:
  "dict_get (fold (\<lambda>d. dict_set (dep_name d) d) ds acc) n =
     (case find (\<lambda>d. dep_name d = n) (rev ds) of Some d \<Rightarrow> Some d | None \<Rightarrow> dict_get acc n)"
proof (induction ds arbitrary: acc)
  case (Cons d ds)
  show ?case using Cons[of "dict_set (dep_name d) d acc"]
    by (auto simp: dict_get_set find_snoc split: option.splits)
qed simp

section \<open>Properties\<close>

text \<open>A route table that passes validation has no empty chain, and a deployment name means one thing in
  it: looking up the name of any deployment of any chain in \<open>deployments\<close> gives that very deployment,
  and every entry of \<open>deployments\<close> occurs in some chain. Breakers keyed by name are therefore never
  shared by two different deployments.\<close>

theorem valid_routes_names_are_unique:
  assumes "validate_routes rs = Inr rs'"
  shows "rs' = rs \<and> (\<forall>(alias, chain) \<in> set rs. chain \<noteq> []
           \<and> (\<forall>d \<in> set chain. dict_get (deployments rs) (dep_name d) = Some d))
         \<and> (\<forall>n d. dict_get (deployments rs) n = Some d \<longrightarrow>
              dep_name d = n \<and> (\<exists>(alias, chain) \<in> set rs. d \<in> set chain))"
proof -
  obtain seen where seen: "check_routes rs [] = Inr seen" and "rs' = rs"
    using assms by (auto simp: validate_routes_def split: sum.splits)
  note ok = check_routes_Inr[OF seen]
  let ?all = "concat (map snd rs)"
  have found: "dict_get (deployments rs) n = find (\<lambda>d. dep_name d = n) (rev ?all)" for n
    unfolding deployments_def fold_dict_set_get by (simp split: option.splits)
  have seen_all: "dict_get seen (dep_name d) = Some d" if "d \<in> set ?all" for d
  proof -
    from that obtain a ds where "(a, ds) \<in> set rs" "d \<in> set ds" by auto
    then show ?thesis using conjunct1[OF ok] by blast
  qed
  have one: "d = d'" if "d \<in> set ?all" "d' \<in> set ?all" "dep_name d = dep_name d'" for d d'
  proof -
    have "Some d = Some d'"
      using seen_all[OF that(1)] seen_all[OF that(2)] unfolding that(3) by (rule trans[OF sym])
    then show ?thesis by (rule option.inject[THEN iffD1])
  qed
  have hit: "dep_name d = n \<and> d \<in> set ?all" if "find (\<lambda>d. dep_name d = n) (rev ?all) = Some d" for n d
    using find_hit[OF that] by simp
  have "dict_get (deployments rs) (dep_name d) = Some d" if d: "d \<in> set ?all" for d
  proof -
    have "find (\<lambda>x. dep_name x = dep_name d) (rev ?all) \<noteq> None"
      unfolding find_None_iff using d by auto
    then obtain d' where d': "find (\<lambda>x. dep_name x = dep_name d) (rev ?all) = Some d'" by blast
    have "d' = d" using hit[OF d'] d by (intro one) simp_all
    then show ?thesis unfolding found d' by (rule arg_cong)
  qed
  moreover have "dep_name d = n \<and> d \<in> set ?all" if "dict_get (deployments rs) n = Some d" for n d
    by (rule hit) (use that found in simp)
  moreover have "(\<exists>(alias, chain) \<in> set rs. d \<in> set chain) \<longleftrightarrow> d \<in> set ?all" for d
    by force
  moreover have "chain \<noteq> [] \<and> set chain \<subseteq> set ?all" if "(a, chain) \<in> set rs" for a chain
    using conjunct1[OF ok] that by force
  ultimately show ?thesis using \<open>rs' = rs\<close> by blast
qed

lemma valid_routes_names_are_unique_witness:
  "\<exists>d1 d2. d1 \<noteq> d2 \<and> validate_routes [(''a'', [d1, d2]), (''b'', [d2])] = Inr [(''a'', [d1, d2]), (''b'', [d2])]
     \<and> dict_get (deployments [(''a'', [d1, d2]), (''b'', [d2])]) ''y'' = Some d2"
proof -
  define d1 d2 :: deployment where "d1 = \<lparr>dep_name = ''x'', dep_provider = ''mock'', dep_model = ''m'', dep_api_base = None,
    dep_timeout = None, max_retries = 0, dep_pricing = None, self_hosted = False, dep_options = []\<rparr>"
    and "d2 = d1\<lparr>dep_name := ''y''\<rparr>"
  have "validate_routes [(''a'', [d1, d2]), (''b'', [d2])] = Inr [(''a'', [d1, d2]), (''b'', [d2])]"
    by (simp add: validate_routes_def d1_def d2_def)
  from valid_routes_names_are_unique[OF this] show ?thesis
    using \<open>validate_routes _ = _\<close> by (intro exI[of _ d1] exI[of _ d2]) (auto simp: d1_def d2_def)
qed

text \<open>With declared prices a call's cost is never negative, is additive in its usage and grows with
  every token; with no declared price and a price map that raises, it is 0.\<close>

theorem compute_cost_additive:
  assumes "valid_deployment d" and "dep_pricing d = Some p"
    and "0 \<le> prompt_tokens u" and "0 \<le> completion_tokens u"
    and "0 \<le> prompt_tokens v" and "0 \<le> completion_tokens v"
  shows "0 \<le> compute_cost lit d u
         \<and> compute_cost lit d \<lparr>prompt_tokens = prompt_tokens u + prompt_tokens v,
                              completion_tokens = completion_tokens u + completion_tokens v\<rparr>
           = compute_cost lit d u + compute_cost lit d v
         \<and> compute_cost lit d u \<le> compute_cost lit d
             \<lparr>prompt_tokens = prompt_tokens u + prompt_tokens v,
              completion_tokens = completion_tokens u + completion_tokens v\<rparr>"
proof -
  have p: "0 \<le> input_per_mtok p" "0 \<le> output_per_mtok p"
    using assms(1,2) by (auto simp: valid_deployment_def)
  have nn: "0 \<le> compute_cost lit d w" if "0 \<le> prompt_tokens w" "0 \<le> completion_tokens w" for w :: usage
    using that p assms(2) by (simp add: compute_cost_def)
  show ?thesis
    using nn[of u] nn[of v] assms by (simp add: compute_cost_def field_simps)
qed

lemma compute_cost_additive_witness:
  "\<exists>d. compute_cost (\<lambda>_ _ _. None) d \<lparr>prompt_tokens = 3, completion_tokens = 5\<rparr> = 13 / 1000000"
proof -
  define d :: deployment where "d = \<lparr>dep_name = ''x'', dep_provider = ''mock'', dep_model = ''m'', dep_api_base = None,
    dep_timeout = None, max_retries = 0, dep_pricing = Some \<lparr>input_per_mtok = 1, output_per_mtok = 2\<rparr>,
    self_hosted = False, dep_options = []\<rparr>"
  have "compute_cost (\<lambda>_ _ _. None) d \<lparr>prompt_tokens = 3, completion_tokens = 5\<rparr> = 13 / 1000000"
    using compute_cost_additive[of d "\<lparr>input_per_mtok = 1, output_per_mtok = 2\<rparr>"
        "\<lparr>prompt_tokens = 1, completion_tokens = 5\<rparr>" "\<lparr>prompt_tokens = 2, completion_tokens = 0\<rparr>" "\<lambda>_ _ _. None"]
    by (simp add: d_def valid_deployment_def compute_cost_def)
  then show ?thesis by blast
qed

end
