(* ===== verification/Circuit_Breaker.thy ===== *)
theory Circuit_Breaker
  imports Prelude
begin

text \<open>
  The in-process circuit breaker of \<open>app/gateway/circuit_breaker.py\<close>: its record, one definition
  per method, an abstract four-state machine it refines, and the facts about runs of requests that
  follow from the refinement. The monotonic clock is an argument: a method that reads the clock
  once takes one reading, \<open>record_failure\<close>, which may read it twice, takes two.
\<close>

section \<open>State and operations\<close>

datatype breaker_state = CLOSED | OPEN | HALF_OPEN

record breaker =
  failure_threshold :: int
  cooldown_seconds :: seconds
  st :: breaker_state
  consecutive_failures :: int
  opened_at :: seconds
  probe_in_flight :: bool

definition new_breaker :: "int \<Rightarrow> seconds \<Rightarrow> value_error + breaker" where
  "new_breaker threshold cooldown =
     (if threshold < 1 then Inl (ValueError ''failure_threshold must be >= 1'')
      else Inr \<lparr>failure_threshold = threshold, cooldown_seconds = cooldown, st = CLOSED,
                consecutive_failures = 0, opened_at = 0, probe_in_flight = False\<rparr>)"

text \<open>The \<open>state\<close> property moves an expired OPEN to HALF_OPEN as a side effect; its value is the
  \<open>st\<close> of the result.\<close>

definition read_state :: "seconds \<Rightarrow> breaker \<Rightarrow> breaker" where
  "read_state t b =
     (if st b = OPEN \<and> t - opened_at b \<ge> cooldown_seconds b
      then b\<lparr>st := HALF_OPEN, probe_in_flight := False\<rparr>
      else b)"

definition allow_request :: "seconds \<Rightarrow> breaker \<Rightarrow> bool \<times> breaker" where
  "allow_request t b =
     (let b' = read_state t b in
      if st b' = CLOSED then (True, b')
      else if st b' = HALF_OPEN \<and> \<not> probe_in_flight b'
      then (True, b'\<lparr>probe_in_flight := True\<rparr>)
      else (False, b'))"

definition adopt :: "seconds \<Rightarrow> breaker_state \<Rightarrow> int \<Rightarrow> breaker \<Rightarrow> breaker" where
  "adopt t s n b =
     (let b' = b\<lparr>st := s, consecutive_failures := n\<rparr> in
      if s = OPEN then b'\<lparr>opened_at := t, probe_in_flight := False\<rparr>
      else if s = HALF_OPEN
      then b'\<lparr>opened_at := t - cooldown_seconds b, probe_in_flight := False\<rparr>
      else b')"

definition record_success :: "breaker \<Rightarrow> breaker" where
  "record_success b = b\<lparr>st := CLOSED, consecutive_failures := 0, probe_in_flight := False\<rparr>"

definition record_failure :: "seconds \<Rightarrow> seconds \<Rightarrow> breaker \<Rightarrow> bool \<times> breaker" where
  "record_failure t1 t2 b =
     (let b1 = b\<lparr>consecutive_failures := consecutive_failures b + 1\<rparr>;
          b2 = read_state t1 b1 in
      if st b2 = HALF_OPEN
         \<or> (st b2 = CLOSED \<and> consecutive_failures b2 \<ge> failure_threshold b2)
      then (True, b2\<lparr>st := OPEN, opened_at := t2, probe_in_flight := False\<rparr>)
      else (False, b2))"

lemmas breaker_ops_def =
  read_state_def allow_request_def adopt_def record_success_def record_failure_def

section \<open>The configuration never changes, and a probe is only in flight when half-open\<close>

lemma read_state_config [simp, breaker_simps]:
  "failure_threshold (read_state t b) = failure_threshold b"
  "cooldown_seconds (read_state t b) = cooldown_seconds b"
  by (simp_all add: read_state_def)

lemma read_state_running [breaker_simps]:
  "t - opened_at b < cooldown_seconds b \<Longrightarrow> read_state t b = b"
  "st b \<noteq> OPEN \<Longrightarrow> read_state t b = b"
  by (simp_all add: read_state_def)

lemma allow_request_config [simp, breaker_simps]:
  "failure_threshold (snd (allow_request t b)) = failure_threshold b"
  "cooldown_seconds (snd (allow_request t b)) = cooldown_seconds b"
  by (simp_all add: allow_request_def Let_def)

lemma adopt_config [simp, breaker_simps]:
  "failure_threshold (adopt t s n b) = failure_threshold b"
  "cooldown_seconds (adopt t s n b) = cooldown_seconds b"
  by (simp_all add: adopt_def Let_def)

lemma record_success_config [simp, breaker_simps]:
  "failure_threshold (record_success b) = failure_threshold b"
  "cooldown_seconds (record_success b) = cooldown_seconds b"
  by (simp_all add: record_success_def)

lemma record_failure_config [simp, breaker_simps]:
  "failure_threshold (snd (record_failure t1 t2 b)) = failure_threshold b"
  "cooldown_seconds (snd (record_failure t1 t2 b)) = cooldown_seconds b"
  by (simp_all add: record_failure_def Let_def)

definition breaker_ok :: "breaker \<Rightarrow> bool" where
  "breaker_ok b \<longleftrightarrow> failure_threshold b \<ge> 1 \<and> (probe_in_flight b \<longrightarrow> st b = HALF_OPEN)"

lemma new_breaker_ok: "new_breaker n c = Inr b \<Longrightarrow> breaker_ok b"
  by (auto simp: new_breaker_def breaker_ok_def split: if_splits)

lemma read_state_ok [intro]: "breaker_ok b \<Longrightarrow> breaker_ok (read_state t b)"
  by (auto simp: read_state_def breaker_ok_def)

lemma allow_request_ok [intro]: "breaker_ok b \<Longrightarrow> breaker_ok (snd (allow_request t b))"
  by (auto simp: allow_request_def read_state_def breaker_ok_def Let_def)

lemma record_success_ok [intro]: "breaker_ok b \<Longrightarrow> breaker_ok (record_success b)"
  by (auto simp: record_success_def breaker_ok_def)

lemma record_failure_ok [intro]: "breaker_ok b \<Longrightarrow> breaker_ok (snd (record_failure t1 t2 b))"
  by (auto simp: record_failure_def read_state_def breaker_ok_def Let_def)

lemma adopt_ok [intro]:
  "breaker_ok b \<Longrightarrow> s = CLOSED \<Longrightarrow> st b \<noteq> HALF_OPEN \<Longrightarrow> breaker_ok (adopt t s n b)"
  "breaker_ok b \<Longrightarrow> s \<noteq> CLOSED \<Longrightarrow> breaker_ok (adopt t s n b)"
  by (cases s; auto simp: adopt_def breaker_ok_def Let_def)+

section \<open>The abstract machine\<close>

text \<open>
  What the breaker promises, without the bookkeeping fields: either up with a count of consecutive
  failures, or down until a point in time, or on trial with or without a probe out.
\<close>

datatype health = Up int | Down seconds | Trial bool

fun spec_allow :: "seconds \<Rightarrow> health \<Rightarrow> bool \<times> health" where
  "spec_allow t (Up n) = (True, Up n)"
| "spec_allow t (Down d) = (if t \<ge> d then (True, Trial True) else (False, Down d))"
| "spec_allow t (Trial out) = (\<not> out, Trial True)"

fun spec_failure :: "int \<Rightarrow> seconds \<Rightarrow> seconds \<Rightarrow> seconds \<Rightarrow> health \<Rightarrow> bool \<times> health" where
  "spec_failure thr cd t1 t2 (Up n) =
     (if n + 1 \<ge> thr then (True, Down (t2 + cd)) else (False, Up (n + 1)))"
| "spec_failure thr cd t1 t2 (Down d) =
     (if t1 \<ge> d then (True, Down (t2 + cd)) else (False, Down d))"
| "spec_failure thr cd t1 t2 (Trial out) = (True, Down (t2 + cd))"

definition health_of :: "breaker \<Rightarrow> health" where
  "health_of b =
     (case st b of
        CLOSED \<Rightarrow> Up (consecutive_failures b)
      | OPEN \<Rightarrow> Down (opened_at b + cooldown_seconds b)
      | HALF_OPEN \<Rightarrow> Trial (probe_in_flight b))"

lemma health_of_eq [simp, breaker_simps]:
  "health_of b = Up n \<longleftrightarrow> st b = CLOSED \<and> consecutive_failures b = n"
  "health_of b = Down d \<longleftrightarrow> st b = OPEN \<and> opened_at b + cooldown_seconds b = d"
  "health_of b = Trial p \<longleftrightarrow> st b = HALF_OPEN \<and> probe_in_flight b = p"
  by (cases "st b"; simp add: health_of_def)+

lemma allow_refines:
  "map_prod id health_of (allow_request t b) = spec_allow t (health_of b)"
  by (cases "st b") (auto simp: allow_request_def read_state_def health_of_def Let_def)

lemma failure_refines:
  "map_prod id health_of (record_failure t1 t2 b) =
   spec_failure (failure_threshold b) (cooldown_seconds b) t1 t2 (health_of b)"
  by (cases "st b") (auto simp: record_failure_def read_state_def health_of_def Let_def)

lemma success_refines: "health_of (record_success b) = Up 0"
  by (simp add: record_success_def health_of_def)

section \<open>Runs of calls on one breaker\<close>

datatype breaker_event = Ask seconds | Fail seconds seconds | Succeed

primrec event_ordered :: "seconds \<Rightarrow> breaker_event list \<Rightarrow> bool" where
  "event_ordered now [] = True"
| "event_ordered now (e # es) =
     (case e of
        Ask t \<Rightarrow> now \<le> t \<and> event_ordered t es
      | Fail t1 t2 \<Rightarrow> now \<le> t1 \<and> t1 \<le> t2 \<and> event_ordered t2 es
      | Succeed \<Rightarrow> event_ordered now es)"

text \<open>
  A run is a list of events applied in order; the functions below take the three operations as
  arguments, so that the same run can be played on the record and on the abstract machine.
  \<open>granted\<close> collects the times of the requests that were let through, \<open>answers\<close> everything
  the caller sees, \<open>failing\<close> plays nothing but failures.
\<close>

primrec granted ::
  "(seconds \<Rightarrow> 'b \<Rightarrow> bool \<times> 'b) \<Rightarrow> (seconds \<Rightarrow> seconds \<Rightarrow> 'b \<Rightarrow> bool \<times> 'b) \<Rightarrow> ('b \<Rightarrow> 'b)
     \<Rightarrow> breaker_event list \<Rightarrow> 'b \<Rightarrow> seconds list" where
  "granted allow failure success [] b = []"
| "granted allow failure success (e # es) b =
     (case e of
        Ask t \<Rightarrow> (if fst (allow t b) then [t] else [])
                 @ granted allow failure success es (snd (allow t b))
      | Fail t1 t2 \<Rightarrow> granted allow failure success es (snd (failure t1 t2 b))
      | Succeed \<Rightarrow> granted allow failure success es (success b))"

primrec answers ::
  "(seconds \<Rightarrow> 'b \<Rightarrow> bool \<times> 'b) \<Rightarrow> (seconds \<Rightarrow> seconds \<Rightarrow> 'b \<Rightarrow> bool \<times> 'b) \<Rightarrow> ('b \<Rightarrow> 'b)
     \<Rightarrow> breaker_event list \<Rightarrow> 'b \<Rightarrow> bool list" where
  "answers allow failure success [] b = []"
| "answers allow failure success (e # es) b =
     (case e of
        Ask t \<Rightarrow> fst (allow t b) # answers allow failure success es (snd (allow t b))
      | Fail t1 t2 \<Rightarrow> fst (failure t1 t2 b) # answers allow failure success es (snd (failure t1 t2 b))
      | Succeed \<Rightarrow> answers allow failure success es (success b))"

fun failing ::
  "(seconds \<Rightarrow> seconds \<Rightarrow> 'b \<Rightarrow> bool \<times> 'b) \<Rightarrow> (seconds \<times> seconds) list \<Rightarrow> 'b \<Rightarrow> bool list \<times> 'b" where
  "failing failure [] b = ([], b)"
| "failing failure ((t1, t2) # ts) b =
     (case failure t1 t2 b of (opened, b') \<Rightarrow>
        (case failing failure ts b' of (os, b'') \<Rightarrow> (opened # os, b'')))"

lemma failing_append:
  "failing f (xs @ ys) b =
     (case failing f xs b of (os, b') \<Rightarrow> case failing f ys b' of (os', b'') \<Rightarrow> (os @ os', b''))"
  by (induction f xs b rule: failing.induct) (auto split: prod.splits)

definition spaced :: "seconds \<Rightarrow> seconds list \<Rightarrow> bool" where
  "spaced gap ts \<longleftrightarrow> sorted_wrt (\<lambda>s t. s + gap \<le> t) ts"

definition not_before :: "seconds \<Rightarrow> seconds \<Rightarrow> health \<Rightarrow> seconds" where
  "not_before cd now h =
     (case h of Up n \<Rightarrow> now | Down d \<Rightarrow> d | Trial out \<Rightarrow> if out then now + cd else now)"

section \<open>The interface a circuit promises its callers\<close>

locale circuit =
  fixes view :: "'b \<Rightarrow> health"
    and allow :: "seconds \<Rightarrow> 'b \<Rightarrow> bool \<times> 'b"
    and failure :: "seconds \<Rightarrow> seconds \<Rightarrow> 'b \<Rightarrow> bool \<times> 'b"
    and success :: "'b \<Rightarrow> 'b"
    and wf :: "'b \<Rightarrow> bool"
    and thr :: int
    and cd :: seconds
  assumes allow_view: "wf b \<Longrightarrow> map_prod id view (allow t b) = spec_allow t (view b)"
    and failure_view: "wf b \<Longrightarrow> map_prod id view (failure t1 t2 b) = spec_failure thr cd t1 t2 (view b)"
    and success_view: "wf b \<Longrightarrow> view (success b) = Up 0"
    and wf_allow: "wf b \<Longrightarrow> wf (snd (allow t b))"
    and wf_failure: "wf b \<Longrightarrow> wf (snd (failure t1 t2 b))"
    and wf_success: "wf b \<Longrightarrow> wf (success b)"
begin

lemma allow_parts:
  assumes "wf b"
  shows "fst (allow t b) = fst (spec_allow t (view b))"
    and "view (snd (allow t b)) = snd (spec_allow t (view b))"
  using allow_view[OF assms, of t] by (simp_all add: prod_eq_iff)

lemma failure_parts:
  assumes "wf b"
  shows "fst (failure t1 t2 b) = fst (spec_failure thr cd t1 t2 (view b))"
    and "view (snd (failure t1 t2 b)) = snd (spec_failure thr cd t1 t2 (view b))"
  using failure_view[OF assms, of t1 t2] by (simp_all add: prod_eq_iff)

lemma answers_refine:
  "wf b \<Longrightarrow> answers allow failure success es b
            = answers spec_allow (spec_failure thr cd) (\<lambda>_. Up 0) es (view b)"
proof (induction es arbitrary: b)
  case (Cons e es)
  then show ?case
    by (cases e) (simp_all add: allow_parts failure_parts success_view wf_allow wf_failure wf_success)
qed simp

lemma grants_spaced:
  assumes "wf b" and "0 \<le> cd" and "event_ordered now es" and "Succeed \<notin> set es"
    and "\<forall>n. view b \<noteq> Up n"
  shows "spaced cd (granted allow failure success es b)
         \<and> (\<forall>t \<in> set (granted allow failure success es b). now \<le> t \<and> not_before cd now (view b) \<le> t)"
  using assms
proof (induction es arbitrary: b now)
  case Nil
  then show ?case by (simp add: spaced_def)
next
  case (Cons e es)
  note wf = Cons.prems(1) and IH = Cons.IH
  let ?g = "granted allow failure success es"
  show ?case
  proof (cases e)
    case (Ask t)
    let ?b = "snd (allow t b)"
    have "\<forall>n. view ?b \<noteq> Up n"
      using Cons.prems(5) allow_parts(2)[OF wf, of t] by (cases "view b") auto
    then have ih: "spaced cd (?g ?b)" "\<forall>s \<in> set (?g ?b). t \<le> s \<and> not_before cd t (view ?b) \<le> s"
      using IH[OF wf_allow[OF wf, of t], of t] Cons.prems(2,3,4) Ask by auto
    show ?thesis
      using ih Cons.prems allow_parts[OF wf, of t] Ask
      by (cases "view b") (fastforce simp: spaced_def not_before_def split: if_splits)+
  next
    case (Fail t1 t2)
    let ?b = "snd (failure t1 t2 b)"
    have "\<forall>n. view ?b \<noteq> Up n"
      using Cons.prems(5) failure_parts(2)[OF wf, of t1 t2] by (cases "view b") auto
    then have ih: "spaced cd (?g ?b)" "\<forall>s \<in> set (?g ?b). t2 \<le> s \<and> not_before cd t2 (view ?b) \<le> s"
      using IH[OF wf_failure[OF wf, of t1 t2], of t2] Cons.prems(2,3,4) Fail by auto
    show ?thesis
      using ih Cons.prems failure_parts[OF wf, of t1 t2] Fail
      by (cases "view b") (fastforce simp: not_before_def split: if_splits)+
  next
    case Succeed
    with Cons.prems show ?thesis by simp
  qed
qed

lemma below_threshold:
  assumes "wf b" and "view b = Up n" and "n + int (length ts) < thr"
  shows "\<exists>b'. failing failure ts b = (replicate (length ts) False, b')
              \<and> view b' = Up (n + int (length ts)) \<and> wf b'"
  using assms
proof (induction ts arbitrary: b n)
  case (Cons p ts)
  obtain t1 t2 where p: "p = (t1, t2)" by (cases p)
  obtain o1 b1 where f: "failure t1 t2 b = (o1, b1)" by (cases "failure t1 t2 b")
  have "o1 = False" "view b1 = Up (n + 1)" "wf b1"
    using failure_parts[OF Cons.prems(1), of t1 t2] wf_failure[OF Cons.prems(1), of t1 t2]
      Cons.prems f by auto
  then show ?case using Cons.IH[of b1 "n + 1"] Cons.prems p f by (auto simp: algebra_simps)
qed simp

lemma at_threshold:
  assumes "wf b" and "view b = Up n" and "n + int (length ts) + 1 = thr"
  shows "\<exists>b'. failing failure (ts @ [(t1, t2)]) b = (replicate (length ts) False @ [True], b')
              \<and> view b' = Down (t2 + cd) \<and> wf b'"
proof -
  obtain b1 where b1: "failing failure ts b = (replicate (length ts) False, b1)"
      "view b1 = Up (n + int (length ts))" "wf b1"
    using below_threshold[OF assms(1,2), of ts] assms(3) by auto
  obtain o2 b2 where f: "failure t1 t2 b1 = (o2, b2)" by (cases "failure t1 t2 b1")
  have "o2 = True" "view b2 = Down (t2 + cd)" "wf b2"
    using failure_parts[OF b1(3), of t1 t2] wf_failure[OF b1(3), of t1 t2] b1(2) assms(3) f by auto
  then show ?thesis using b1(1) f by (auto simp: failing_append)
qed

end

interpretation local_breaker: circuit health_of allow_request record_failure record_success
    "\<lambda>b. failure_threshold b = thr \<and> cooldown_seconds b = cd" thr cd
  for thr cd
  by unfold_locales (auto simp: allow_refines failure_refines success_refines)

section \<open>Properties\<close>

text \<open>C15: The method-by-method record implementation refines the abstract machine: on every sequence of
  calls, the caller of a breaker sees exactly the answers of the abstract machine started from the
  breaker's health, so the fields the abstraction drops can never be observed.\<close>

theorem breaker_refines_spec:
  "answers allow_request record_failure record_success es b =
   answers spec_allow (spec_failure (failure_threshold b) (cooldown_seconds b)) (\<lambda>_. Up 0) es
     (health_of b)"
  by (rule local_breaker.answers_refine) simp

text \<open>A new breaker with threshold \<open>n\<close> stays closed, and lets requests through, after any number
  of consecutive failures below \<open>n\<close>, reporting no transition; the \<open>n\<close>-th consecutive failure reports
  the transition and leaves it open, stamped with the clock of that failure.\<close>

theorem breaker_opens_exactly_at_threshold:
  assumes "new_breaker n cd = Inr b" and "int (length ts) + 1 = n"
  shows "(\<forall>k \<le> length ts. \<exists>b'. failing record_failure (take k ts) b = (replicate k False, b')
             \<and> st b' = CLOSED \<and> consecutive_failures b' = int k \<and> fst (allow_request t b'))
         \<and> (\<exists>b'. failing record_failure (ts @ [(t1, t2)]) b = (replicate (length ts) False @ [True], b')
             \<and> st b' = OPEN \<and> opened_at b' = t2)"
proof -
  have b: "failure_threshold b = n \<and> cooldown_seconds b = cd" "health_of b = Up 0"
    using assms(1) by (auto simp: new_breaker_def split: if_splits)
  have "\<exists>b'. failing record_failure (take k ts) b = (replicate k False, b')
             \<and> st b' = CLOSED \<and> consecutive_failures b' = int k \<and> fst (allow_request t b')"
    if "k \<le> length ts" for k
    using local_breaker.below_threshold[OF b, of "take k ts"] that assms(2)
    by (auto simp: allow_request_def read_state_def)
  moreover have "\<exists>b'. failing record_failure (ts @ [(t1, t2)]) b = (replicate (length ts) False @ [True], b')
             \<and> st b' = OPEN \<and> opened_at b' = t2"
    using local_breaker.at_threshold[OF b, of ts t1 t2] assms(2) by auto
  ultimately show ?thesis by blast
qed

lemma breaker_opens_exactly_at_threshold_witness:
  "\<exists>b b'. new_breaker 3 30 = Inr b
     \<and> failing record_failure [(1, 1), (2, 2), (3, 3)] b = ([False, False, True], b')
     \<and> st b' = OPEN \<and> opened_at b' = 3"
proof -
  obtain b where b: "new_breaker 3 30 = Inr b" by (simp add: new_breaker_def)
  show ?thesis
    using b breaker_opens_exactly_at_threshold[OF b, of "[(1, 1), (2, 2)]" 0 3 3] by auto
qed

text \<open>While no call succeeds, a breaker that is not closed lets requests through one at a time and at
  least a whole cooldown apart, whatever order requests and failures arrive in; an open one lets
  none through before its cooldown has elapsed.\<close>

theorem breaker_probes_one_per_cooldown:
  assumes "0 \<le> cooldown_seconds b" and "st b \<noteq> CLOSED" and "event_ordered now es"
    and "Succeed \<notin> set es"
    and "ts = granted allow_request record_failure record_success es b"
  shows "spaced (cooldown_seconds b) ts
         \<and> (st b = OPEN \<longrightarrow> (\<forall>t \<in> set ts. opened_at b + cooldown_seconds b \<le> t))"
proof -
  have "\<forall>n. health_of b \<noteq> Up n" using assms(2) by simp
  from local_breaker.grants_spaced[OF conjI[OF refl refl] assms(1,3,4) this]
  show ?thesis by (auto simp: not_before_def health_of_def assms(5))
qed

lemma breaker_probes_one_per_cooldown_witness:
  "\<exists>b. st b = OPEN \<and> opened_at b = 0 \<and> cooldown_seconds b = 10
     \<and> granted allow_request record_failure record_success
          [Ask 5, Ask 12, Ask 13, Fail 14 14, Ask 20, Ask 24, Ask 25] b = [12, 24]
     \<and> spaced 10 [12, 24]"
proof -
  let ?b = "\<lparr>failure_threshold = 1, cooldown_seconds = 10, st = OPEN, consecutive_failures = 1,
             opened_at = 0, probe_in_flight = False\<rparr> :: breaker"
  let ?es = "[Ask 5, Ask 12, Ask 13, Fail 14 14, Ask 20, Ask 24, Ask 25]"
  have g: "[12, 24] = granted allow_request record_failure record_success ?es ?b"
    by (simp add: breaker_ops_def Let_def)
  have "spaced (cooldown_seconds ?b) [12, 24] \<and> (st ?b = OPEN \<longrightarrow>
          (\<forall>t \<in> set [12, 24]. opened_at ?b + cooldown_seconds ?b \<le> t))"
    by (rule breaker_probes_one_per_cooldown[OF _ _ _ _ g, of 0]) simp_all
  then show ?thesis using g by (intro exI[of _ ?b]) simp
qed

end
