(* ===== verification/Redis.thy ===== *)
theory Redis
  imports Prelude "HOL-Library.List_Lexorder" "HOL-Library.Char_ord"
begin

text \<open>
  The boundary to the Redis server. Redis is not part of the program, so every definition that
  talks to it takes the server as an argument: a function from a command and the outside world to a
  reply and the next world. Commands are the ones the source sends, with the source's arguments;
  \<open>Raised\<close> is any exception redis-py raises (connection lost, wrong type).

  What the code relies on is the named hypothesis \<open>redis_ok\<close>: seen through an observation of the
  keys it holds, the server answers and changes as the Redis manual documents for these commands
  (\<open>doc\<close>). The other hypothesis used is \<open>redis_down\<close>: every command raises. Byte strings are
  \<open>bulk\<close> values; \<open>Num\<close> and \<open>Flt\<close> stand for the decimal rendering of a number, which is what
  redis-py sends for one and what the counter commands read, and \<open>Json j\<close> for the text
  \<open>json.dumps(j)\<close>, \<open>Vec v\<close> for the
  float32 bytes of a vector, so \<open>Txt\<close> is text that is none of these. The match patterns of the source
  all end in their only star: \<open>SCAN p\<close> stands for the keys a \<open>scan_iter\<close> over \<open>p*\<close> goes through. A hash is kept in the order its fields
  were added; nothing in the source depends on that order.
\<close>

section \<open>Commands and replies\<close>

datatype json =
    JNull
  | JBool bool
  | JNum int
  | JReal real
  | JStr string
  | JArr "json list"
  | JObj "(string \<times> json) list"

datatype bulk = Txt string | Num int | Flt real | Json json | Vec "real list"

datatype cmd =
    GET string
  | MGET "string list"
  | SET string bulk
  | SETEX string bulk int
  | SETNXEX string bulk int
  | DEL "string list"
  | INCR string
  | EXPIRE string int
  | TTL string
  | HSET string "(string \<times> bulk) list"
  | HGET string string
  | HMGET string "string list"
  | HGETALL string
  | HDEL string "string list"
  | HINCRBY string string int
  | HINCRBYFLOAT string string real
  | SADD string string
  | SREM string string
  | SMEMBERS string
  | LPUSH string bulk
  | LTRIM string int int
  | LRANGE string int int
  | LLEN string
  | ZADD string string real
  | ZADDNX string string real
  | ZREM string "string list"
  | ZRANGE string int int
  | ZREVRANGE string int int
  | ZREMUPTO string real  \<comment> \<open>\<open>ZREMRANGEBYSCORE key -inf max\<close>\<close>
  | ZREMRANK string int int
  | SCAN string

datatype reply =
    NilReply
  | OK
  | Bulk bulk
  | Integer int
  | Bulks "bulk option list"
  | Hash "(string \<times> bulk) list"
  | Members "string set"
  | Raised

type_synonym 'w redis = "cmd \<Rightarrow> 'w \<Rightarrow> reply \<times> 'w"

text \<open>A pipeline sends its commands in order and raises if any of them did.\<close>

primrec send_all :: "'w redis \<Rightarrow> cmd list \<Rightarrow> 'w \<Rightarrow> reply list \<times> 'w" where
  "send_all exec [] w = ([], w)"
| "send_all exec (c # cs) w =
     (let (r, w') = exec c w; (rs, w'') = send_all exec cs w' in (r # rs, w''))"

definition pipeline :: "'w redis \<Rightarrow> cmd list \<Rightarrow> 'w \<Rightarrow> reply list option \<times> 'w" where
  "pipeline exec cs w =
     (let (rs, w') = send_all exec cs w in (if Raised \<in> set rs then None else Some rs, w'))"

lemma length_send_all [simp]: "length (fst (send_all exec cs w)) = length cs"
  by (induction cs arbitrary: w) (simp_all add: split_beta)

text \<open>\<open>int(v)\<close> on what a counter holds; anything but an integer raises \<open>ValueError\<close>.\<close>

fun bulk_int :: "bulk \<Rightarrow> int option" where
  "bulk_int (Num n) = Some n"
| "bulk_int _ = None"

text \<open>\<open>json.loads\<close> on such a value, \<open>None\<close> when it raises, and a key of an object.\<close>

fun bulk_json :: "bulk \<Rightarrow> json option" where
  "bulk_json (Json j) = Some j"
| "bulk_json (Num n) = Some (JNum n)"
| "bulk_json (Flt x) = Some (JReal x)"
| "bulk_json _ = None"

fun json_get :: "json \<Rightarrow> string \<Rightarrow> json option" where
  "json_get (JObj kvs) k = dict_get kvs k"
| "json_get _ k = None"

text \<open>The fields of a record kept as JSON: a text, a number or a truth value, or null.\<close>

definition js :: "string option \<Rightarrow> json" where "js x = (case x of None \<Rightarrow> JNull | Some s \<Rightarrow> JStr s)"

fun sj :: "json option \<Rightarrow> string option option" where
  "sj (Some (JStr s)) = Some (Some s)"
| "sj (Some JNull) = Some None"
| "sj None = Some None"
| "sj _ = None"

fun nj :: "json option \<Rightarrow> int option option" where
  "nj (Some (JNum n)) = Some (Some n)"
| "nj (Some JNull) = Some None"
| "nj None = Some None"
| "nj _ = None"

fun bj :: "json option \<Rightarrow> bool option option" where
  "bj (Some (JBool b)) = Some (Some b)"
| "bj (Some JNull) = Some None"
| "bj None = Some None"
| "bj _ = None"

text \<open>The members of a reply, when they are all text.\<close>

fun text_ids :: "bulk option list \<Rightarrow> string list option" where
  "text_ids [] = Some []"
| "text_ids (Some (Txt s) # bs) = map_option ((#) s) (text_ids bs)"
| "text_ids _ = None"

text \<open>\<open>int(x)\<close> on a float truncates towards zero.\<close>

definition py_int :: "real \<Rightarrow> int" where
  "py_int x = (if x \<ge> 0 then \<lfloor>x\<rfloor> else \<lceil>x\<rceil>)"

section \<open>The documented behaviour of the commands\<close>

datatype rval =
    RStr bulk
  | RHash "(string \<times> bulk) list"
  | RSet "string set"
  | RList "bulk list"
  | RZset "(string \<times> real) list"  \<comment> \<open>by ascending score, then member\<close>

type_synonym keyspace = "string \<rightharpoonup> rval \<times> seconds option"

text \<open>Redis list ranges are inclusive, and negative indices count from the end.\<close>

definition list_range :: "int \<Rightarrow> int \<Rightarrow> 'a list \<Rightarrow> 'a list" where
  "list_range a b xs =
     (let n = int (length xs);
          i = max 0 (if a < 0 then n + a else a);
          j = (if b < 0 then n + b else b)
      in take (nat (j - i + 1)) (drop (nat i) xs))"

definition hash_at :: "keyspace \<Rightarrow> string \<Rightarrow> (string \<times> bulk) list option" where
  "hash_at ks k =
     (case ks k of None \<Rightarrow> Some [] | Some (RHash h, t) \<Rightarrow> Some h | Some _ \<Rightarrow> None)"

definition list_at :: "keyspace \<Rightarrow> string \<Rightarrow> bulk list option" where
  "list_at ks k =
     (case ks k of None \<Rightarrow> Some [] | Some (RList xs, t) \<Rightarrow> Some xs | Some _ \<Rightarrow> None)"

definition set_at :: "keyspace \<Rightarrow> string \<Rightarrow> string set option" where
  "set_at ks k =
     (case ks k of None \<Rightarrow> Some {} | Some (RSet xs, t) \<Rightarrow> Some xs | Some _ \<Rightarrow> None)"

definition zset_at :: "keyspace \<Rightarrow> string \<Rightarrow> (string \<times> real) list option" where
  "zset_at ks k =
     (case ks k of None \<Rightarrow> Some [] | Some (RZset z, t) \<Rightarrow> Some z | Some _ \<Rightarrow> None)"

definition zput :: "string \<Rightarrow> real \<Rightarrow> (string \<times> real) list \<Rightarrow> (string \<times> real) list" where
  "zput m x z =
     (let z' = filter (\<lambda>(n, y). n \<noteq> m) z in
      filter (\<lambda>(n, y). y < x \<or> (y = x \<and> n < m)) z' @ [(m, x)] @ filter (\<lambda>(n, y). \<not> (y < x \<or> (y = x \<and> n < m))) z')"

text \<open>A range of ranks, negative ones counted from the end, and what is left without it.\<close>

definition rank_range :: "int \<Rightarrow> int \<Rightarrow> 'a list \<Rightarrow> nat \<times> nat" where
  "rank_range a b xs =
     (let n = int (length xs); i = max 0 (if a < 0 then n + a else a); j = (if b < 0 then n + b else b)
      in (nat i, nat (j - i + 1)))"

definition rank_drop :: "int \<Rightarrow> int \<Rightarrow> 'a list \<Rightarrow> 'a list" where
  "rank_drop a b xs = (let (i, k) = rank_range a b xs in take i xs @ drop (i + k) xs)"

definition members :: "(string \<times> real) list \<Rightarrow> reply" where
  "members z = Bulks (map (\<lambda>(m, x). Some (Txt m)) z)"

text \<open>A key with no elements left is gone.\<close>

definition put_zset :: "string \<Rightarrow> (string \<times> real) list \<Rightarrow> keyspace \<Rightarrow> keyspace" where
  "put_zset k z ks = (if z = [] then ks(k := None) else ks(k \<mapsto> (RZset z, case ks k of None \<Rightarrow> None | Some (v, t) \<Rightarrow> t)))"

definition ttl_at :: "keyspace \<Rightarrow> string \<Rightarrow> seconds option" where
  "ttl_at ks k = (case ks k of None \<Rightarrow> None | Some (v, t) \<Rightarrow> t)"

definition put_val :: "string \<Rightarrow> rval \<Rightarrow> keyspace \<Rightarrow> keyspace" where
  "put_val k v ks = ks(k \<mapsto> (v, ttl_at ks k))"

definition get_doc :: "keyspace \<Rightarrow> string \<Rightarrow> bulk option" where
  "get_doc ks k = (case ks k of Some (RStr v, t) \<Rightarrow> Some v | _ \<Rightarrow> None)"

definition present :: "keyspace \<Rightarrow> string list \<Rightarrow> int" where
  "present ks l = int (length (filter (\<lambda>k. ks k \<noteq> None) (remdups l)))"

primrec doc :: "keyspace redis" where
  "doc (GET k) ks =
     (case ks k of None \<Rightarrow> NilReply | Some (RStr v, t) \<Rightarrow> Bulk v | Some _ \<Rightarrow> Raised, ks)"
| "doc (MGET l) ks = (Bulks (map (get_doc ks) l), ks)"
| "doc (SET k v) ks = (OK, ks(k \<mapsto> (RStr v, None)))"
| "doc (SETEX k v s) ks = (if s > 0 then (OK, ks(k \<mapsto> (RStr v, Some (of_int s)))) else (Raised, ks))"
| "doc (SETNXEX k v s) ks =
     (if s \<le> 0 then (Raised, ks)
      else if ks k = None then (OK, ks(k \<mapsto> (RStr v, Some (of_int s)))) else (NilReply, ks))"
| "doc (DEL l) ks = (Integer (present ks l), ks |` (- set l))"
| "doc (INCR k) ks =
     (case ks k of
        None \<Rightarrow> (Integer 1, ks(k \<mapsto> (RStr (Num 1), None)))
      | Some (RStr (Num n), t) \<Rightarrow> (Integer (n + 1), ks(k \<mapsto> (RStr (Num (n + 1)), t)))
      | Some _ \<Rightarrow> (Raised, ks))"
| "doc (EXPIRE k s) ks =
     (case ks k of
        None \<Rightarrow> (Integer 0, ks)
      | Some (v, t) \<Rightarrow> (Integer 1, if s \<le> 0 then ks(k := None) else ks(k \<mapsto> (v, Some (of_int s)))))"
| "doc (TTL k) ks =
     (Integer (case ks k of None \<Rightarrow> -2 | Some (v, None) \<Rightarrow> -1 | Some (v, Some t) \<Rightarrow> round t), ks)"
| "doc (HSET k fs) ks =
     (case hash_at ks k of
        None \<Rightarrow> (Raised, ks)
      | Some h \<Rightarrow>
          (Integer (int (length (filter (\<lambda>f. dict_get h f = None) (remdups (map fst fs))))),
           put_val k (RHash (fold (\<lambda>(f, v). dict_set f v) fs h)) ks))"
| "doc (HGET k f) ks =
     (case hash_at ks k of
        None \<Rightarrow> Raised
      | Some h \<Rightarrow> (case dict_get h f of None \<Rightarrow> NilReply | Some v \<Rightarrow> Bulk v), ks)"
| "doc (HMGET k fs) ks =
     (case hash_at ks k of None \<Rightarrow> Raised | Some h \<Rightarrow> Bulks (map (dict_get h) fs), ks)"
| "doc (HGETALL k) ks = (case hash_at ks k of None \<Rightarrow> Raised | Some h \<Rightarrow> Hash h, ks)"
| "doc (HDEL k fs) ks =
     (case hash_at ks k of
        None \<Rightarrow> (Raised, ks)
      | Some h \<Rightarrow>
          (Integer (int (length (filter (\<lambda>f. dict_get h f \<noteq> None) (remdups fs)))),
           if ks k = None then ks else put_val k (RHash (filter (\<lambda>(f, v). f \<notin> set fs) h)) ks))"
| "doc (HINCRBY k f n) ks =
     (case hash_at ks k of
        None \<Rightarrow> (Raised, ks)
      | Some h \<Rightarrow>
          (case dict_get h f of
             None \<Rightarrow> (Integer n, put_val k (RHash (dict_set f (Num n) h)) ks)
           | Some (Num m) \<Rightarrow> (Integer (m + n), put_val k (RHash (dict_set f (Num (m + n)) h)) ks)
           | Some _ \<Rightarrow> (Raised, ks)))"
| "doc (HINCRBYFLOAT k f x) ks =
     (case hash_at ks k of
        None \<Rightarrow> (Raised, ks)
      | Some h \<Rightarrow>
          (case dict_get h f of
             None \<Rightarrow> (Bulk (Flt x), put_val k (RHash (dict_set f (Flt x) h)) ks)
           | Some (Num m) \<Rightarrow> (Bulk (Flt (of_int m + x)), put_val k (RHash (dict_set f (Flt (of_int m + x)) h)) ks)
           | Some (Flt y) \<Rightarrow> (Bulk (Flt (y + x)), put_val k (RHash (dict_set f (Flt (y + x)) h)) ks)
           | Some _ \<Rightarrow> (Raised, ks)))"
| "doc (SADD k m) ks =
     (case set_at ks k of
        None \<Rightarrow> (Raised, ks)
      | Some s \<Rightarrow> (Integer (if m \<in> s then 0 else 1), put_val k (RSet (insert m s)) ks))"
| "doc (SREM k m) ks =
     (case set_at ks k of
        None \<Rightarrow> (Raised, ks)
      | Some s \<Rightarrow> (Integer (if m \<in> s then 1 else 0),
                  if ks k = None then ks else put_val k (RSet (s - {m})) ks))"
| "doc (SMEMBERS k) ks = (case set_at ks k of None \<Rightarrow> Raised | Some s \<Rightarrow> Members s, ks)"
| "doc (LPUSH k v) ks =
     (case list_at ks k of
        None \<Rightarrow> (Raised, ks)
      | Some xs \<Rightarrow> (Integer (int (length xs) + 1), put_val k (RList (v # xs)) ks))"
| "doc (LTRIM k a b) ks =
     (case list_at ks k of
        None \<Rightarrow> (Raised, ks)
      | Some xs \<Rightarrow> (OK, if ks k = None then ks else put_val k (RList (list_range a b xs)) ks))"
| "doc (LRANGE k a b) ks =
     (case list_at ks k of None \<Rightarrow> Raised | Some xs \<Rightarrow> Bulks (map Some (list_range a b xs)), ks)"
| "doc (LLEN k) ks =
     (case list_at ks k of None \<Rightarrow> Raised | Some xs \<Rightarrow> Integer (int (length xs)), ks)"
| "doc (ZADD k m x) ks =
     (case zset_at ks k of
        None \<Rightarrow> (Raised, ks)
      | Some z \<Rightarrow> (Integer (if m \<in> fst ` set z then 0 else 1), put_zset k (zput m x z) ks))"
| "doc (ZADDNX k m x) ks =
     (case zset_at ks k of
        None \<Rightarrow> (Raised, ks)
      | Some z \<Rightarrow> if m \<in> fst ` set z then (Integer 0, ks) else (Integer 1, put_zset k (zput m x z) ks))"
| "doc (ZREM k ms) ks =
     (case zset_at ks k of
        None \<Rightarrow> (Raised, ks)
      | Some z \<Rightarrow> (Integer (int (length (filter (\<lambda>(m, x). m \<in> set ms) z))),
                  put_zset k (filter (\<lambda>(m, x). m \<notin> set ms) z) ks))"
| "doc (ZRANGE k a b) ks =
     (case zset_at ks k of None \<Rightarrow> Raised | Some z \<Rightarrow> members (list_range a b z), ks)"
| "doc (ZREVRANGE k a b) ks =
     (case zset_at ks k of None \<Rightarrow> Raised | Some z \<Rightarrow> members (list_range a b (rev z)), ks)"
| "doc (ZREMUPTO k x) ks =
     (case zset_at ks k of
        None \<Rightarrow> (Raised, ks)
      | Some z \<Rightarrow> (Integer (int (length (filter (\<lambda>(m, y). y \<le> x) z))), put_zset k (filter (\<lambda>(m, y). \<not> y \<le> x) z) ks))"
| "doc (ZREMRANK k a b) ks =
     (case zset_at ks k of
        None \<Rightarrow> (Raised, ks)
      | Some z \<Rightarrow> (Integer (int (length z) - int (length (rank_drop a b z))), put_zset k (rank_drop a b z) ks))"
| "doc (SCAN p) ks = (Members {k. ks k \<noteq> None \<and> take (length p) k = p}, ks)"

section \<open>The hypotheses on the server\<close>

definition redis_ok :: "'w redis \<Rightarrow> ('w \<Rightarrow> keyspace) \<Rightarrow> bool" where
  "redis_ok exec keys \<longleftrightarrow>
     (\<forall>c w. fst (exec c w) = fst (doc c (keys w)) \<and> keys (snd (exec c w)) = snd (doc c (keys w)))"

definition redis_down :: "'w redis \<Rightarrow> bool" where
  "redis_down exec \<longleftrightarrow> (\<forall>c w. fst (exec c w) = Raised)"

lemma redis_ok_doc [simp]: "redis_ok doc id"
  by (simp add: redis_ok_def)

lemma redis_reply: "redis_ok exec keys \<Longrightarrow> fst (exec c w) = fst (doc c (keys w))"
  by (simp add: redis_ok_def)

lemma redis_keys: "redis_ok exec keys \<Longrightarrow> keys (snd (exec c w)) = snd (doc c (keys w))"
  by (simp add: redis_ok_def)

lemma redis_send_all:
  assumes "redis_ok exec keys"
  shows "fst (send_all exec cs w) = fst (send_all doc cs (keys w))
         \<and> keys (snd (send_all exec cs w)) = snd (send_all doc cs (keys w))"
  by (induction cs arbitrary: w) (simp_all add: split_beta redis_reply[OF assms] redis_keys[OF assms])

lemma redis_pipeline:
  assumes "redis_ok exec keys"
  shows "fst (pipeline exec cs w) = fst (pipeline doc cs (keys w))"
    and "keys (snd (pipeline exec cs w)) = snd (pipeline doc cs (keys w))"
  using redis_send_all[OF assms, of cs w] by (simp_all add: pipeline_def split_beta)

lemma pipeline_down: "redis_down exec \<Longrightarrow> cs \<noteq> [] \<Longrightarrow> fst (pipeline exec cs w) = None"
  by (cases cs) (auto simp: pipeline_def redis_down_def split_beta)

lemmas redis_rules = redis_reply redis_keys redis_pipeline

section \<open>Frame rules\<close>

text \<open>What a hash, set or list reads as after a write to the same key or to another one.\<close>

lemma at_upd_other [redis_simps]:
  "k' \<noteq> k \<Longrightarrow> hash_at (ks(k := v)) k' = hash_at ks k'" "k' \<noteq> k \<Longrightarrow> set_at (ks(k := v)) k' = set_at ks k'"
  "k' \<noteq> k \<Longrightarrow> list_at (ks(k := v)) k' = list_at ks k'" "k' \<noteq> k \<Longrightarrow> get_doc (ks(k := v)) k' = get_doc ks k'"
  by (simp_all add: hash_at_def set_at_def list_at_def get_doc_def)

lemma put_val_at [redis_simps]: "put_val k v ks k' = (if k' = k then Some (v, ttl_at ks k) else ks k')"
  by (simp add: put_val_def)

lemma at_put_other [redis_simps]:
  "k' \<noteq> k \<Longrightarrow> hash_at (put_val k v ks) k' = hash_at ks k'" "k' \<noteq> k \<Longrightarrow> set_at (put_val k v ks) k' = set_at ks k'"
  "k' \<noteq> k \<Longrightarrow> list_at (put_val k v ks) k' = list_at ks k'" "k' \<noteq> k \<Longrightarrow> get_doc (put_val k v ks) k' = get_doc ks k'"
  by (simp_all add: hash_at_def set_at_def list_at_def get_doc_def put_val_def)

lemma at_put_same [redis_simps]:
  "hash_at (put_val k (RHash h) ks) k = Some h" "set_at (put_val k (RSet s) ks) k = Some s"
  "list_at (put_val k (RList l) ks) k = Some l"
  by (simp_all add: hash_at_def set_at_def list_at_def put_val_def)

lemma at_restrict [redis_simps]:
  "k \<notin> A \<Longrightarrow> hash_at (ks |` (- A)) k = hash_at ks k" "k \<notin> A \<Longrightarrow> set_at (ks |` (- A)) k = set_at ks k"
  "k \<notin> A \<Longrightarrow> list_at (ks |` (- A)) k = list_at ks k" "k \<notin> A \<Longrightarrow> get_doc (ks |` (- A)) k = get_doc ks k"
  "(ks |` (- A)) k = (if k \<in> A then None else ks k)"
  by (simp_all add: hash_at_def set_at_def list_at_def get_doc_def restrict_map_def)

lemma zset_at_upd [redis_simps]:
  "k' \<noteq> k \<Longrightarrow> zset_at (ks(k := v)) k' = zset_at ks k'" "k' \<noteq> k \<Longrightarrow> zset_at (put_val k x ks) k' = zset_at ks k'"
  "k' \<notin> A \<Longrightarrow> zset_at (ks |` (- A)) k' = zset_at ks k'"
  by (simp_all add: zset_at_def put_val_def restrict_map_def)

lemma put_zset_frame [redis_simps]:
  "k' \<noteq> k \<Longrightarrow> put_zset k z ks k' = ks k'" "zset_at (put_zset k z ks) k = Some z"
  "k' \<noteq> k \<Longrightarrow> zset_at (put_zset k z ks) k' = zset_at ks k'" "k' \<noteq> k \<Longrightarrow> hash_at (put_zset k z ks) k' = hash_at ks k'"
  "k' \<noteq> k \<Longrightarrow> list_at (put_zset k z ks) k' = list_at ks k'"
  by (simp_all add: put_zset_def zset_at_def hash_at_def list_at_def)

lemma zput_not_Nil: "zput m x z \<noteq> []"
  by (simp add: zput_def Let_def)

lemma get_doc_frame: "ks' k = ks k \<Longrightarrow> get_doc ks' k = get_doc ks k"
  by (simp add: get_doc_def)

lemma at_same_key:
  "ks' k = ks k \<Longrightarrow> hash_at ks' k = hash_at ks k" "ks' k = ks k \<Longrightarrow> list_at ks' k = list_at ks k"
  "ks' k = ks k \<Longrightarrow> zset_at ks' k = zset_at ks k" "ks' k = ks k \<Longrightarrow> get_doc ks' k = get_doc ks k"
  by (simp_all add: hash_at_def list_at_def zset_at_def get_doc_def)

lemma optional_fields [simp]:
  "sj (Some (js x)) = Some x" "nj (Some (case n of None \<Rightarrow> JNull | Some n \<Rightarrow> JNum n)) = Some n"
  "bj (Some (case b of None \<Rightarrow> JNull | Some b \<Rightarrow> JBool b)) = Some b"
  by (cases x; simp add: js_def) ((cases n; simp), (cases b; simp))

text \<open>Sorted sets are kept by score, then member, each member once.\<close>

definition zset_ok :: "(string \<times> real) list \<Rightarrow> bool" where
  "zset_ok z \<longleftrightarrow> sorted_wrt (\<lambda>(m, x) (n, y). x < y \<or> (x = y \<and> m < n)) z \<and> distinct (map fst z)"

lemma zset_ok_Nil [simp]: "zset_ok []" by (simp add: zset_ok_def)

lemma distinct_fst_filter: "distinct (map fst z) \<Longrightarrow> distinct (map fst (filter P z))"
  by (induction z) (auto simp: image_iff)

lemma zset_ok_filter: "zset_ok z \<Longrightarrow> zset_ok (filter P z)"
  by (simp add: zset_ok_def distinct_fst_filter sorted_wrt_filter)

lemma set_zput: "set (zput m x z) = insert (m, x) {(n, y) \<in> set z. n \<noteq> m}"
  by (auto simp: zput_def Let_def)

lemma zset_ok_zput:
  assumes "zset_ok z"
  shows "zset_ok (zput m x z)"
proof -
  define z' where "z' = filter (\<lambda>(n, y). n \<noteq> m) z"
  have ok: "zset_ok z'" "m \<notin> fst ` set z'" using zset_ok_filter[OF assms] by (auto simp: z'_def)
  let ?P = "\<lambda>(n, y). y < x \<or> (y = x \<and> n < m)"
  have z: "zput m x z = filter ?P z' @ [(m, x)] @ filter (\<lambda>p. \<not> ?P p) z'"
    by (simp add: zput_def Let_def z'_def case_prod_beta)
  have "distinct (map fst (zput m x z))"
    using ok by (force simp: z zset_ok_def distinct_fst_filter inj_on_def distinct_map)
  moreover have "sorted_wrt (\<lambda>(m, x) (n, y). x < y \<or> (x = y \<and> m < n)) (zput m x z)"
    unfolding z using ok by (force simp: sorted_wrt_append zset_ok_def sorted_wrt_filter)
  ultimately show ?thesis by (simp add: zset_ok_def)
qed

text \<open>Commands that only read.\<close>

lemma send_reads:
  "(\<And>c. c \<in> set cs \<Longrightarrow> snd (doc c ks) = ks) \<Longrightarrow> send_all doc cs ks = (map (\<lambda>c. fst (doc c ks)) cs, ks)"
  by (induction cs) (simp_all add: split_beta)

lemma pipeline_reads:
  assumes "\<And>c. c \<in> set cs \<Longrightarrow> snd (doc c ks) = ks \<and> fst (doc c ks) \<noteq> Raised"
  shows "fst (pipeline doc cs ks) = Some (map (\<lambda>c. fst (doc c ks)) cs)"
proof -
  have "send_all doc cs ks = (map (\<lambda>c. fst (doc c ks)) cs, ks)" by (rule send_reads) (use assms in blast)
  moreover have "Raised \<notin> set (map (\<lambda>c. fst (doc c ks)) cs)"
  proof
    assume "Raised \<in> set (map (\<lambda>c. fst (doc c ks)) cs)"
    then obtain c where "c \<in> set cs" "fst (doc c ks) = Raised" unfolding set_map image_iff by metis
    then show False using assms by blast
  qed
  ultimately show ?thesis by (simp only: pipeline_def split_beta Let_def fst_conv snd_conv if_False)
qed

section \<open>Time passing on the server\<close>

text \<open>After \<open>d\<close> seconds every deadline is \<open>d\<close> closer, and the keys whose deadline passed are gone.\<close>

definition elapse :: "seconds \<Rightarrow> keyspace \<Rightarrow> keyspace" where
  "elapse d ks k =
     (case ks k of
        None \<Rightarrow> None
      | Some (v, None) \<Rightarrow> Some (v, None)
      | Some (v, Some t) \<Rightarrow> if t \<le> d then None else Some (v, Some (t - d)))"

end
