(* ===== verification/Breaker_Cluster.thy ===== *)
theory Breaker_Cluster
  imports Circuit_Breaker Redis
begin

text \<open>
  Circuit state shared by every replica, \<open>app/gateway/breaker_cluster.py\<close>. A method takes the
  process clock \<open>clk\<close> and the Redis server \<open>exec\<close>, both read from the outside world \<open>w\<close>; the code
  between two awaits takes no time, so a method that is not waiting sees one clock value. A
  replica's breakers are the router's dictionary from deployment names to breakers. Metrics and log
  lines, which nothing in the program reads back, are left out.
\<close>

section \<open>Keys and configuration\<close>

definition FAILS :: "string \<Rightarrow> string" where "FAILS d = ''breaker:fails:'' @ d"
definition OPEN_KEY :: "string \<Rightarrow> string" where "OPEN_KEY d = ''breaker:open:'' @ d"
definition PROBE :: "string \<Rightarrow> string" where "PROBE d = ''breaker:probe:'' @ d"

lemma breaker_keys_distinct [simp, redis_simps]:
  "FAILS d \<noteq> OPEN_KEY e" "OPEN_KEY e \<noteq> FAILS d" "FAILS d \<noteq> PROBE e" "PROBE e \<noteq> FAILS d"
  "OPEN_KEY d \<noteq> PROBE e" "PROBE e \<noteq> OPEN_KEY d"
  "FAILS d = FAILS e \<longleftrightarrow> d = e" "OPEN_KEY d = OPEN_KEY e \<longleftrightarrow> d = e" "PROBE d = PROBE e \<longleftrightarrow> d = e"
  by (simp_all add: FAILS_def OPEN_KEY_def PROBE_def)

record cluster =
  cl_threshold :: int
  cl_cooldown :: seconds
  cl_window :: seconds
  cl_refresh :: seconds
  cl_probe_seconds :: seconds
  synced_at :: "seconds option"  \<comment> \<open>\<open>None\<close> is \<open>float("-inf")\<close>\<close>

type_synonym 'w clock = "'w \<Rightarrow> seconds"
type_synonym breakers = "(string \<times> breaker) list"

definition new_cluster :: "int \<Rightarrow> seconds \<Rightarrow> seconds \<Rightarrow> seconds \<Rightarrow> seconds \<Rightarrow> cluster" where
  "new_cluster threshold cooldown window refresh probe =
     \<lparr>cl_threshold = threshold, cl_cooldown = cooldown, cl_window = window, cl_refresh = refresh,
      cl_probe_seconds = probe, synced_at = None\<rparr>"

section \<open>Writing\<close>

definition publish_open :: "'w redis \<Rightarrow> cluster \<Rightarrow> string \<Rightarrow> 'w \<Rightarrow> 'w" where
  "publish_open exec c name w =
     snd (pipeline exec
            [SETEX (OPEN_KEY name) (Txt ''1'') (max (py_int (cl_cooldown c)) 1),
             DEL [FAILS name, PROBE name]] w)"

definition cluster_failure ::
  "'w clock \<Rightarrow> 'w redis \<Rightarrow> cluster \<Rightarrow> string \<Rightarrow> breaker \<Rightarrow> 'w \<Rightarrow> (bool \<times> breaker) \<times> 'w" where
  "cluster_failure clk exec c name b w =
     (let (opened, b') = record_failure (clk w) (clk w) b in
      if opened then ((True, b'), publish_open exec c name w)
      else
        (let (replies, w') =
               pipeline exec [INCR (FAILS name), EXPIRE (FAILS name) (max (py_int (cl_window c)) 1)] w
         in case replies of
              Some (Integer count # _) \<Rightarrow>
                if count \<ge> cl_threshold c
                then (let w'' = publish_open exec c name w'
                      in ((True, adopt (clk w'') OPEN count b'), w''))
                else ((False, b'), w')
            | _ \<Rightarrow> ((opened, b'), w')))"

definition cluster_success ::
  "'w redis \<Rightarrow> string \<Rightarrow> breaker \<Rightarrow> 'w \<Rightarrow> breaker \<times> 'w" where
  "cluster_success exec name b w =
     (record_success b, snd (exec (DEL [FAILS name, OPEN_KEY name, PROBE name]) w))"

section \<open>Reading\<close>

definition adopt_open :: "'w clock \<Rightarrow> cluster \<Rightarrow> breaker \<Rightarrow> 'w \<Rightarrow> breaker" where
  "adopt_open clk c b w = adopt (clk w) OPEN (cl_threshold c) (read_state (clk w) b)"

definition claim_probe ::
  "'w clock \<Rightarrow> 'w redis \<Rightarrow> cluster \<Rightarrow> string \<Rightarrow> breaker \<Rightarrow> 'w \<Rightarrow> breaker \<times> 'w" where
  "claim_probe clk exec c name b w =
     (let (r, w') = exec (SETNXEX (PROBE name) (Txt ''1'') (max (py_int (cl_probe_seconds c)) 1)) w;
          won = (r \<noteq> NilReply)  \<comment> \<open>an exception counts as won\<close>
      in (if won then adopt (clk w') HALF_OPEN 0 b else b, w'))"

text \<open>One deployment of \<open>sync\<close>: what the two keys say, applied to its local breaker. \<open>int(fails)\<close>
  raises on anything but an integer.\<close>

definition sync_one ::
  "'w clock \<Rightarrow> 'w redis \<Rightarrow> cluster \<Rightarrow> string \<Rightarrow> reply \<Rightarrow> reply \<Rightarrow> breaker \<Rightarrow> 'w
     \<Rightarrow> value_error option \<times> breaker \<times> 'w" where
  "sync_one clk exec c name open_flag fails b w =
     (if open_flag \<noteq> NilReply \<and> open_flag \<noteq> Bulk (Txt []) then (None, adopt_open clk c b w, w)
      else
        (let b1 = read_state (clk w) b in
         if st b1 = OPEN then
           (let (b2, w') = claim_probe clk exec c name b1 w in (None, b2, w'))
         else
           (case fails of
              Bulk v \<Rightarrow>
                (case bulk_int v of
                   Some n \<Rightarrow> (None, adopt (clk w) (st b1) n b1, w)
                 | None \<Rightarrow> (Some (ValueError ''invalid literal for int()''), b1, w))
            | _ \<Rightarrow> (None, b1, w))))"

fun sync_each ::
  "'w clock \<Rightarrow> 'w redis \<Rightarrow> cluster \<Rightarrow> string list \<Rightarrow> reply list \<Rightarrow> breakers \<Rightarrow> 'w
     \<Rightarrow> value_error option \<times> breakers \<times> 'w" where
  "sync_each clk exec c (name # names) (open_flag # fails # rs) bs w =
     (case dict_get bs name of
        None \<Rightarrow> sync_each clk exec c names rs bs w
      | Some b \<Rightarrow>
          (let (e, b', w') = sync_one clk exec c name open_flag fails b w;
               bs' = dict_set name b' bs
           in case e of
                Some err \<Rightarrow> (Some err, bs', w')
              | None \<Rightarrow> sync_each clk exec c names rs bs' w'))"
| "sync_each clk exec c _ _ bs w = (None, bs, w)"

definition sync_reads :: "string list \<Rightarrow> cmd list" where
  "sync_reads names = concat (map (\<lambda>n. [GET (OPEN_KEY n), GET (FAILS n)]) names)"

definition cluster_sync ::
  "'w clock \<Rightarrow> 'w redis \<Rightarrow> string list \<Rightarrow> cluster \<Rightarrow> breakers \<Rightarrow> 'w
     \<Rightarrow> value_error option \<times> cluster \<times> breakers \<times> 'w" where
  "cluster_sync clk exec names c bs w =
     (let now = clk w in
      if (case synced_at c of None \<Rightarrow> False | Some t \<Rightarrow> now - t < cl_refresh c)
      then (None, c, bs, w)
      else
        (let c' = c\<lparr>synced_at := Some now\<rparr>;
             (replies, w') = pipeline exec (sync_reads names) w
         in case replies of
              None \<Rightarrow> (None, c', bs, w')
            | Some rs \<Rightarrow>
                (let (e, bs', w'') = sync_each clk exec c' names rs bs w' in (e, c', bs', w''))))"

text \<open>The admin view: for each deployment whether the shared key is open, how long it has left and how
  many failures are pooled; \<open>int(fails or 0)\<close> raises on anything but an integer or an empty text.\<close>

definition pooled_of :: "reply \<Rightarrow> int option" where
  "pooled_of fails = (case fails of Bulk v \<Rightarrow> if v = Txt [] then Some 0 else bulk_int v | _ \<Rightarrow> Some 0)"

fun shared_states :: "string list \<Rightarrow> reply list \<Rightarrow> value_error + (string \<times> bool \<times> int \<times> int) list" where
  "shared_states (name # names) (Integer ttl # fails # rs) =
     (case pooled_of fails of
        None \<Rightarrow> Inl (ValueError ''invalid literal for int()'')
      | Some n \<Rightarrow> map_sum id (\<lambda>xs. (name, ttl > 0, max ttl 0, n) # xs) (shared_states names rs))"
| "shared_states _ _ = Inr []"

definition cluster_states ::
  "'w redis \<Rightarrow> string list \<Rightarrow> 'w \<Rightarrow> (value_error + (string \<times> bool \<times> int \<times> int) list) \<times> 'w" where
  "cluster_states exec names w =
     (let (replies, w') =
            pipeline exec (concat (map (\<lambda>n. [TTL (OPEN_KEY n), GET (FAILS n)]) names)) w
      in (case replies of None \<Rightarrow> Inr [] | Some rs \<Rightarrow> shared_states names rs, w'))"

section \<open>Lemmas\<close>

lemma sync_one_keeps_config [breaker_simps]:
  "cooldown_seconds (fst (snd (sync_one clk exec c name r1 r2 b w))) = cooldown_seconds b"
  "failure_threshold (fst (snd (sync_one clk exec c name r1 r2 b w))) = failure_threshold b"
  by (simp_all add: sync_one_def adopt_open_def claim_probe_def Let_def split_beta
        split: reply.splits option.splits)

text \<open>Every deployment's breaker is changed by its own pair of replies only, whatever happens to the
  deployments read before and after it.\<close>

lemma sync_each_get:
  assumes "distinct names" and "\<forall>n \<in> set names. \<forall>v. f n = Bulk v \<longrightarrow> bulk_int v \<noteq> None"
  shows "case sync_each clk exec c names (concat (map (\<lambda>n. [p n, f n]) names)) bs w of
           (e, bs', w') \<Rightarrow>
             e = None
             \<and> (\<forall>n. n \<notin> set names \<longrightarrow> dict_get bs' n = dict_get bs n)
             \<and> (\<forall>n \<in> set names. \<exists>w1. dict_get bs' n
                   = map_option (\<lambda>b. fst (snd (sync_one clk exec c n (p n) (f n) b w1))) (dict_get bs n))"
  using assms
proof (induction names arbitrary: bs w)
  case (Cons n names)
  show ?case
  proof (cases "dict_get bs n")
    case None
    then show ?thesis using Cons.IH[of bs w] Cons.prems by (auto split: prod.splits)
  next
    case (Some b)
    obtain e b' w' where s: "sync_one clk exec c n (p n) (f n) b w = (e, b', w')"
      by (cases "sync_one clk exec c n (p n) (f n) b w")
    have "e = None"
      using s Cons.prems(2)
      by (auto simp: sync_one_def Let_def split_beta split: if_splits reply.splits option.splits)
    moreover have "\<exists>w1. b' = fst (snd (sync_one clk exec c n (p n) (f n) b w1))"
      by (rule exI[of _ w]) (simp add: s)
    ultimately show ?thesis
      using Cons.IH[of "dict_set n b' bs" w'] Cons.prems Some s
      by (fastforce simp: dict_get_set split: prod.splits)
  qed
qed simp

lemma cluster_send_reads:
  "send_all doc (concat (map (\<lambda>n. [GET (g n), GET (h n)]) names)) ks
   = (concat (map (\<lambda>n. [fst (doc (GET (g n)) ks), fst (doc (GET (h n)) ks)]) names), ks)"
  by (induction names) (simp_all add: split_beta)

definition counters_ok :: "keyspace \<Rightarrow> string list \<Rightarrow> bool" where
  "counters_ok ks names \<longleftrightarrow>
     (\<forall>n \<in> set names. (\<forall>v t. ks (FAILS n) = Some (v, t) \<longrightarrow> (\<exists>m. v = RStr (Num m)))
                     \<and> (\<forall>v t. ks (OPEN_KEY n) = Some (v, t) \<longrightarrow> (\<exists>s. v = RStr (Txt s))))"

lemma pipeline_reads_doc:
  assumes "counters_ok ks names"
  shows "fst (pipeline doc (sync_reads names) ks) =
           Some (concat (map (\<lambda>n. [fst (doc (GET (OPEN_KEY n)) ks), fst (doc (GET (FAILS n)) ks)]) names))"
proof -
  have "Raised \<notin> set (concat (map (\<lambda>n. [fst (doc (GET (OPEN_KEY n)) ks), fst (doc (GET (FAILS n)) ks)]) names))"
    using assms by (fastforce simp: counters_ok_def split: option.splits prod.splits)
  then show ?thesis by (simp add: pipeline_def sync_reads_def cluster_send_reads del: doc.simps)
qed

lemma publish_open_keys:
  assumes "redis_ok exec keys"
  shows "keys (publish_open exec c name w) =
           (keys w)(OPEN_KEY name \<mapsto> (RStr (Txt ''1''), Some (of_int (max (py_int (cl_cooldown c)) 1))),
                    FAILS name := None, PROBE name := None)"
  using redis_pipeline(2)[OF assms, of "[SETEX (OPEN_KEY name) (Txt ''1'') (max (py_int (cl_cooldown c)) 1),
             DEL [FAILS name, PROBE name]]" w]
  by (auto simp: publish_open_def pipeline_def fun_eq_iff restrict_map_def)

definition pooled_count :: "keyspace \<Rightarrow> string \<Rightarrow> int option" where
  "pooled_count ks name =
     (case ks (FAILS name) of None \<Rightarrow> Some 0 | Some (RStr v, t) \<Rightarrow> bulk_int v | Some _ \<Rightarrow> None)"

lemma bulk_int_eq [simp]: "bulk_int v = Some n \<longleftrightarrow> v = Num n"
  by (cases v) auto

lemma pooled_count_eq:
  "pooled_count ks name = Some n \<longleftrightarrow>
     (ks (FAILS name) = None \<and> n = 0) \<or> (\<exists>t. ks (FAILS name) = Some (RStr (Num n), t))"
  by (auto simp: pooled_count_def split: option.splits rval.splits)

lemma cluster_failure_counts:
  assumes "redis_ok exec keys" and "fst (record_failure (clk w) (clk w) b) = False"
    and "pooled_count (keys w) name = Some n"
    and "n + 1 < cl_threshold c"
  shows "\<exists>b' w'. cluster_failure clk exec c name b w = ((False, b'), w')
           \<and> keys w' = (keys w)(FAILS name \<mapsto> (RStr (Num (n + 1)), Some (of_int (max (py_int (cl_window c)) 1))))"
proof -
  let ?p = "[INCR (FAILS name), EXPIRE (FAILS name) (max (py_int (cl_window c)) 1)]"
  have "fst (pipeline doc ?p (keys w)) = Some [Integer (n + 1), Integer 1]"
    and "snd (pipeline doc ?p (keys w)) =
      (keys w)(FAILS name \<mapsto> (RStr (Num (n + 1)), Some (of_int (max (py_int (cl_window c)) 1))))"
    using assms(3) by (auto simp: pipeline_def pooled_count_eq)
  then show ?thesis
    using assms(2,4) redis_pipeline[OF assms(1), of ?p w]
    by (auto simp: cluster_failure_def Let_def split_beta prod_eq_iff)
qed

lemma cluster_failure_trips:
  assumes "redis_ok exec keys" and "fst (record_failure (clk w) (clk w) b) = False"
    and "pooled_count (keys w) name = Some n"
    and "n + 1 \<ge> cl_threshold c"
  shows "\<exists>b' w'. cluster_failure clk exec c name b w = ((True, b'), w') \<and> st b' = OPEN
           \<and> (\<exists>w1. keys w1 = (keys w)(FAILS name \<mapsto> (RStr (Num (n + 1)), Some (of_int (max (py_int (cl_window c)) 1))))
                   \<and> w' = publish_open exec c name w1)"
proof -
  let ?p = "[INCR (FAILS name), EXPIRE (FAILS name) (max (py_int (cl_window c)) 1)]"
  have "fst (pipeline doc ?p (keys w)) = Some [Integer (n + 1), Integer 1]"
    and "snd (pipeline doc ?p (keys w)) =
      (keys w)(FAILS name \<mapsto> (RStr (Num (n + 1)), Some (of_int (max (py_int (cl_window c)) 1))))"
    using assms(3) by (auto simp: pipeline_def pooled_count_eq)
  then show ?thesis
    using assms(2,4) redis_pipeline[OF assms(1), of ?p w]
    by (auto simp: cluster_failure_def Let_def split_beta prod_eq_iff adopt_def)
qed

text \<open>The keys after a failure: the circuit is published as open, or the failure is pooled.\<close>

definition opened_keys :: "cluster \<Rightarrow> string \<Rightarrow> keyspace \<Rightarrow> keyspace" where
  "opened_keys c name ks =
     ks(OPEN_KEY name \<mapsto> (RStr (Txt ''1''), Some (of_int (max (py_int (cl_cooldown c)) 1))), FAILS name := None, PROBE name := None)"

definition pooled_keys :: "cluster \<Rightarrow> string \<Rightarrow> int \<Rightarrow> keyspace \<Rightarrow> keyspace" where
  "pooled_keys c name n ks = ks(FAILS name \<mapsto> (RStr (Num n), Some (of_int (max (py_int (cl_window c)) 1))))"

lemma cluster_failure_shared:
  assumes "redis_ok exec keys" and "pooled_count (keys w) name = Some n" and "cluster_failure clk exec c name b w = ((opened, b'), w')"
  shows "if fst (record_failure (clk w) (clk w) b) \<or> cl_threshold c \<le> n + 1
    then opened \<and> st b' = OPEN \<and> keys w' = opened_keys c name (keys w)
    else \<not> opened \<and> b' = snd (record_failure (clk w) (clk w) b) \<and> keys w' = pooled_keys c name (n + 1) (keys w)"
proof -
  consider "fst (record_failure (clk w) (clk w) b)" | "\<not> fst (record_failure (clk w) (clk w) b)" "cl_threshold c \<le> n + 1"
    | "\<not> fst (record_failure (clk w) (clk w) b)" "\<not> cl_threshold c \<le> n + 1" by blast
  then show ?thesis
  proof cases
    case 1
    then have "opened" "b' = snd (record_failure (clk w) (clk w) b)" "w' = publish_open exec c name w"
      using assms(3) by (auto simp: cluster_failure_def split_beta Let_def)
    moreover have "st (snd (record_failure (clk w) (clk w) b)) = OPEN"
      using 1 by (auto simp: record_failure_def Let_def split: if_splits)
    ultimately show ?thesis using 1 publish_open_keys[OF assms(1)] by (simp add: opened_keys_def)
  next
    case 2
    then obtain w1 where "opened" "st b' = OPEN" "keys w1 = pooled_keys c name (n + 1) (keys w)" "w' = publish_open exec c name w1"
      using cluster_failure_trips[OF assms(1) _ assms(2), where clk = clk and c = c and b = b] assms(3) by (auto simp: pooled_keys_def)
    then show ?thesis using 2 publish_open_keys[OF assms(1), of c name w1] by (auto simp: opened_keys_def pooled_keys_def fun_eq_iff)
  next
    case 3
    let ?p = "[INCR (FAILS name), EXPIRE (FAILS name) (max (py_int (cl_window c)) 1)]"
    have "fst (pipeline doc ?p (keys w)) = Some [Integer (n + 1), Integer 1]"
      and "snd (pipeline doc ?p (keys w)) = pooled_keys c name (n + 1) (keys w)"
      using assms(2) by (auto simp: pipeline_def pooled_count_eq pooled_keys_def)
    then show ?thesis
      using 3 assms(3) redis_pipeline[OF assms(1), of ?p w]
      by (auto simp: cluster_failure_def Let_def split_beta prod_eq_iff)
  qed
qed

section \<open>Properties\<close>

text \<open>With Redis unreachable a replica behaves exactly as if nothing were shared: failures and
  successes are counted by the local breaker alone, and a sync changes no breaker.\<close>

theorem cluster_down_is_local:
  assumes "redis_down exec" and "names \<noteq> []"
  shows "fst (cluster_failure clk exec c name b w) = record_failure (clk w) (clk w) b
         \<and> fst (cluster_success exec name b w) = record_success b
         \<and> (case cluster_sync clk exec names c bs w of (e, c', bs', w') \<Rightarrow> e = None \<and> bs' = bs)"
proof -
  have "sync_reads names \<noteq> []" using assms(2) by (cases names) (simp_all add: sync_reads_def)
  then have "fst (pipeline exec (sync_reads names) w) = None"
    by (rule pipeline_down[OF assms(1)])
  moreover have "fst (pipeline exec [INCR (FAILS name), EXPIRE (FAILS name) n] w) = None" for n
    by (rule pipeline_down[OF assms(1)]) simp
  ultimately show ?thesis
    by (auto simp: cluster_failure_def cluster_success_def cluster_sync_def Let_def split_beta prod_eq_iff)
qed

lemma cluster_down_is_local_witness:
  "\<exists>b. new_breaker 3 30 = Inr b
     \<and> fst (cluster_failure (\<lambda>_. 0) (\<lambda>c w. (Raised, w)) (new_cluster 3 30 60 1 5) ''a'' b ())
       = record_failure 0 0 b"
proof -
  obtain b where b: "new_breaker 3 30 = Inr b" by (simp add: new_breaker_def)
  have "redis_down (\<lambda>c w. (Raised, w))" by (simp add: redis_down_def)
  then have "fst (cluster_failure (\<lambda>_. 0) (\<lambda>c w. (Raised, w)) (new_cluster 3 30 60 1 5) ''a'' b ())
       = record_failure 0 0 b"
    using cluster_down_is_local[where names = "[''a'']" and clk = "\<lambda>_. 0" and b = b and w = "()"
        and c = "new_cluster 3 30 60 1 5" and name = "''a''"] by blast
  with b show ?thesis by blast
qed

text \<open>Failures of one deployment reported one after another, each by a replica with a breaker of its
  own.\<close>

fun pooled_failures ::
  "'w clock \<Rightarrow> 'w redis \<Rightarrow> cluster \<Rightarrow> string \<Rightarrow> breaker list \<Rightarrow> 'w \<Rightarrow> (bool \<times> breaker) list \<times> 'w" where
  "pooled_failures clk exec c name [] w = ([], w)"
| "pooled_failures clk exec c name (b # bs) w =
     (let (r, w') = cluster_failure clk exec c name b w;
          (rs, w'') = pooled_failures clk exec c name bs w'
      in (r # rs, w''))"

lemma pooled_failures_append:
  "pooled_failures clk exec c name (bs @ cs) w =
     (let (r1, w1) = pooled_failures clk exec c name bs w;
          (r2, w2) = pooled_failures clk exec c name cs w1
      in (r1 @ r2, w2))"
  by (induction bs arbitrary: w) (simp_all add: split_beta Let_def)

lemma pooled_below:
  assumes "redis_ok exec keys" and "\<forall>b \<in> set bs. \<forall>t. fst (record_failure t t b) = False"
    and "pooled_count (keys w) name = Some n"
    and "n + int (length bs) < cl_threshold c" and "keys w (OPEN_KEY name) = None"
  shows "\<exists>rs w'. pooled_failures clk exec c name bs w = (rs, w')
           \<and> map fst rs = replicate (length bs) False
           \<and> pooled_count (keys w') name = Some (n + int (length bs))
           \<and> keys w' (OPEN_KEY name) = None"
  using assms(2-5)
proof (induction bs arbitrary: w n)
  case Nil
  then show ?case by simp
next
  case (Cons b bs)
  obtain b' w' where f: "cluster_failure clk exec c name b w = ((False, b'), w')"
      "keys w' = (keys w)(FAILS name \<mapsto> (RStr (Num (n + 1)), Some (of_int (max (py_int (cl_window c)) 1))))"
    using cluster_failure_counts[OF assms(1), where clk = clk and w = w and b = b and name = name
        and n = n and c = c] Cons.prems by auto
  have "pooled_count (keys w') name = Some (n + 1)" and "keys w' (OPEN_KEY name) = None"
    using f(2) Cons.prems(4) by (simp_all add: pooled_count_def)
  then obtain rs w'' where "pooled_failures clk exec c name bs w' = (rs, w'')"
      "map fst rs = replicate (length bs) False"
      "pooled_count (keys w'') name = Some (n + 1 + int (length bs))"
      "keys w'' (OPEN_KEY name) = None"
    using Cons.IH[where n = "n + 1" and w = w'] Cons.prems by auto
  then show ?case using f(1) by (auto simp: algebra_simps)
qed

text \<open>Failures are pooled across replicas: when as many failures as the threshold are reported within
  one window, by any replicas, none of which has seen enough failures of its own to open its local
  breaker, the last report opens the circuit for everyone: it alone reports a transition, its
  breaker is open, the shared open key is set with the cooldown as its time to live, and the shared
  count is cleared.\<close>

theorem pooled_failures_open_the_circuit:
  assumes "redis_ok exec keys"
    and "\<forall>b \<in> set (bs @ [b]). \<forall>t. fst (record_failure t t b) = False"
    and "int (length bs) + 1 = cl_threshold c"
    and "keys w (FAILS name) = None" and "keys w (OPEN_KEY name) = None"
  shows "\<exists>rs b' w'. pooled_failures clk exec c name (bs @ [b]) w = (rs @ [(True, b')], w')
           \<and> map fst rs = replicate (length bs) False \<and> st b' = OPEN
           \<and> keys w' (OPEN_KEY name) = Some (RStr (Txt ''1''), Some (of_int (max (py_int (cl_cooldown c)) 1)))
           \<and> keys w' (FAILS name) = None"
proof -
  obtain rs w1 where r: "pooled_failures clk exec c name bs w = (rs, w1)"
      "map fst rs = replicate (length bs) False"
      "pooled_count (keys w1) name = Some (int (length bs))"
    using pooled_below[OF assms(1), where bs = bs and w = w and name = name and n = 0 and c = c
        and clk = clk] assms by (auto simp: pooled_count_def)
  then obtain b' w2 w' where "cluster_failure clk exec c name b w1 = ((True, b'), w')" "st b' = OPEN"
      "w' = publish_open exec c name w2"
    using cluster_failure_trips[OF assms(1), where clk = clk and w = w1 and b = b and name = name
        and n = "int (length bs)" and c = c] assms(2,3) by auto
  then show ?thesis
    using r publish_open_keys[OF assms(1)] by (auto simp: pooled_failures_append)
qed

lemma pooled_failures_open_the_circuit_witness:
  "\<exists>b rs b' w'. new_breaker 3 30 = Inr b
     \<and> pooled_failures (\<lambda>_. 0) doc (new_cluster 3 30 60 1 5) ''a'' [b, b, b] Map.empty
       = (rs @ [(True, b')], w') \<and> map fst rs = [False, False] \<and> st b' = OPEN"
proof -
  obtain b where b: "new_breaker 3 30 = Inr b" by (simp add: new_breaker_def)
  then have "fst (record_failure t t b) = False" for t
    by (auto simp: new_breaker_def record_failure_def read_state_def split: if_splits)
  then show ?thesis
    using b pooled_failures_open_the_circuit[OF redis_ok_doc, where bs = "[b, b]" and b = b
        and c = "new_cluster 3 30 60 1 5" and w = Map.empty and name = "''a''" and clk = "\<lambda>_. 0"]
    by (auto simp: new_cluster_def numeral_2_eq_2)
qed

text \<open>Once any replica has published an open circuit, the next due sync of every other replica that
  walks the deployment leaves its breaker open, and that breaker then refuses every request until a
  whole local cooldown after the sync.\<close>

theorem open_circuit_reaches_every_replica:
  assumes "redis_ok exec keys" and "w1 = publish_open exec pub name w"
    and "\<forall>t. synced_at c = Some t \<longrightarrow> cl_refresh c \<le> clk w1 - t"
    and "name \<in> set names" and "distinct names"
    and "counters_ok (keys w1) names" and "dict_get bs name = Some b"
  shows "case cluster_sync clk exec names c bs w1 of (e, c', bs', w2) \<Rightarrow>
           e = None \<and> (\<exists>b' now. dict_get bs' name = Some b' \<and> st b' = OPEN \<and> opened_at b' = now
             \<and> (\<forall>t. t - now < cooldown_seconds b \<longrightarrow> \<not> fst (allow_request t b')))"
proof -
  let ?ks = "keys w1" and ?c = "c\<lparr>synced_at := Some (clk w1)\<rparr>"
  let ?g = "\<lambda>n. fst (doc (GET (OPEN_KEY n)) ?ks)" and ?f = "\<lambda>n. fst (doc (GET (FAILS n)) ?ks)"
  have flag: "?g name = Bulk (Txt ''1'')"
    using publish_open_keys[OF assms(1), of pub name w] assms(2) by simp
  have "\<forall>n \<in> set names. \<forall>v. ?f n = Bulk v \<longrightarrow> bulk_int v \<noteq> None"
    using assms(6) by (fastforce simp: counters_ok_def split: option.splits prod.splits rval.splits)
  note each = sync_each_get[OF assms(5) this, where p = ?g and clk = clk and exec = exec and c = ?c
      and bs = bs and w = "snd (pipeline exec (sync_reads names) w1)"]
  then obtain e bs' w2 w3 where s: "sync_each clk exec ?c names
        (concat (map (\<lambda>n. [?g n, ?f n]) names)) bs (snd (pipeline exec (sync_reads names) w1)) = (e, bs', w2)"
      "e = None" "dict_get bs' name = Some (fst (snd (sync_one clk exec ?c name (?g name) (?f name) b w3)))"
    using assms(4,7) by (fastforce split: prod.splits)
  have "cluster_sync clk exec names c bs w1 = (e, ?c, bs', w2)"
    using s(1) assms(3) redis_pipeline(1)[OF assms(1)] pipeline_reads_doc[OF assms(6)]
    by (cases "synced_at c") (simp_all add: cluster_sync_def Let_def split_beta del: doc.simps)
  then show ?thesis
    using s(2,3) flag
    by (auto simp: sync_one_def adopt_open_def adopt_def allow_request_def read_state_def Let_def)
qed

lemma open_circuit_reaches_every_replica_witness:
  "\<exists>b. new_breaker 3 30 = Inr b
     \<and> (case cluster_sync (\<lambda>_. 7) doc [''x'', ''a''] (new_cluster 3 30 60 1 5) [(''a'', b), (''x'', b)]
              (publish_open doc (new_cluster 3 30 60 1 5) ''a'' Map.empty) of (e, c', bs', w2) \<Rightarrow>
          \<exists>b'. dict_get bs' ''a'' = Some b' \<and> st b' = OPEN)"
proof -
  obtain b where b: "new_breaker 3 30 = Inr b" by (simp add: new_breaker_def)
  let ?c = "new_cluster 3 30 60 1 5"
  have "counters_ok (publish_open doc ?c ''a'' Map.empty) [''x'', ''a'']"
    using publish_open_keys[OF redis_ok_doc, of ?c "''a''" Map.empty]
    by (auto simp: counters_ok_def)
  with b show ?thesis
    using open_circuit_reaches_every_replica[OF redis_ok_doc refl, where pub = ?c and c = ?c
        and w = Map.empty and name = "''a''" and names = "[''x'', ''a'']"
        and bs = "[(''a'', b), (''x'', b)]" and b = b and clk = "\<lambda>_. 7"]
    by (fastforce simp: new_cluster_def split: prod.splits)
qed

text \<open>What a sync does to the keys: it may set the probe key of a deployment it walks, and nothing else.\<close>

lemma claim_probe_keys:
  assumes "redis_ok exec keys"
  shows "k \<noteq> PROBE n \<Longrightarrow> keys (snd (claim_probe clk exec c n b w)) k = keys w k"
    "keys (snd (claim_probe clk exec c n b w)) (PROBE n) \<noteq> None"
    "fst (claim_probe clk exec c n b w) =
       (if keys w (PROBE n) = None then adopt (clk (snd (claim_probe clk exec c n b w))) HALF_OPEN 0 b else b)"
  using redis_reply[OF assms] redis_keys[OF assms]
  by (auto simp: claim_probe_def Let_def split_beta)

lemma sync_one_keys:
  assumes "redis_ok exec keys" and "k \<noteq> PROBE n"
  shows "keys (snd (snd (sync_one clk exec c n r1 r2 b w))) k = keys w k"
  using claim_probe_keys(1)[OF assms]
  by (auto simp: sync_one_def Let_def split_beta split: reply.splits option.splits)

lemma sync_one_no_error:
  "(\<forall>v. r2 = Bulk v \<longrightarrow> bulk_int v \<noteq> None) \<Longrightarrow> fst (sync_one clk exec c n r1 r2 b w) = None"
  by (auto simp: sync_one_def Let_def split_beta split: reply.splits option.splits)

lemma sync_each_at:
  assumes "redis_ok exec keys" and "distinct names" and "\<forall>n \<in> set names. \<forall>v. f n = Bulk v \<longrightarrow> bulk_int v \<noteq> None"
    and "sync_each clk exec c names (concat (map (\<lambda>n. [p n, f n]) names)) bs w = (e, bs', w')"
  shows "e = None \<and> (\<forall>k. k \<notin> PROBE ` set names \<longrightarrow> keys w' k = keys w k)
    \<and> (\<forall>n \<in> set names. \<forall>b. dict_get bs n = Some b \<longrightarrow> (\<exists>w1. keys w1 (PROBE n) = keys w (PROBE n)
         \<and> dict_get bs' n = Some (fst (snd (sync_one clk exec c n (p n) (f n) b w1)))
         \<and> keys w' (PROBE n) = keys (snd (snd (sync_one clk exec c n (p n) (f n) b w1))) (PROBE n)))
    \<and> (\<forall>n. n \<notin> set names \<longrightarrow> dict_get bs' n = dict_get bs n)"
  using assms(2-4)
proof (induction names arbitrary: bs w)
  case Nil
  then show ?case by simp
next
  case (Cons m names)
  show ?case
  proof (cases "dict_get bs m")
    case None
    with Cons.prems have "sync_each clk exec c names (concat (map (\<lambda>n. [p n, f n]) names)) bs w = (e, bs', w')" by simp
    from Cons.IH[OF _ _ this] Cons.prems(1,2) None show ?thesis by auto
  next
    case (Some b)
    obtain e1 b1 w1 where one: "sync_one clk exec c m (p m) (f m) b w = (e1, b1, w1)"
      by (cases "sync_one clk exec c m (p m) (f m) b w")
    have "e1 = None" using sync_one_no_error[of "f m" clk exec c m "p m" b w] Cons.prems(2) one by simp
    then have rest: "sync_each clk exec c names (concat (map (\<lambda>n. [p n, f n]) names)) (dict_set m b1 bs) w1 = (e, bs', w')"
      using Cons.prems(3) Some one by simp
    have ks: "keys w1 k = keys w k" if "k \<noteq> PROBE m" for k
      using sync_one_keys[OF assms(1) that, of clk c "p m" "f m" b w] one by simp
    note ih = Cons.IH[OF _ _ rest]
    have m: "m \<notin> set names" "distinct names" using Cons.prems(1) by auto
    have "\<exists>wx. keys wx (PROBE n) = keys w (PROBE n)
         \<and> dict_get bs' n = Some (fst (snd (sync_one clk exec c n (p n) (f n) x wx)))
         \<and> keys w' (PROBE n) = keys (snd (snd (sync_one clk exec c n (p n) (f n) x wx))) (PROBE n)"
      if n: "n \<in> set (m # names)" and x: "dict_get bs n = Some x" for n x
    proof (cases "n = m")
      case True
      have "PROBE m \<notin> PROBE ` set names" using m(1) by auto
      then have "dict_get bs' m = dict_get (dict_set m b1 bs) m" "keys w' (PROBE m) = keys w1 (PROBE m)"
        using ih m Cons.prems(2) by simp_all
      with True x Some one show ?thesis by (intro exI[of _ w]) (simp add: dict_get_set)
    next
      case False
      with n x have "n \<in> set names" "dict_get (dict_set m b1 bs) n = Some x" by (auto simp: dict_get_set)
      with ih m Cons.prems(2) ks[of "PROBE n"] False show ?thesis by fastforce
    qed
    with ih m Cons.prems(2) ks show ?thesis by (auto simp: dict_get_set)
  qed
qed

lemma counters_ok_keys:
  "(\<And>k. k \<notin> range PROBE \<Longrightarrow> ks' k = ks k) \<Longrightarrow> counters_ok ks' names = counters_ok ks names"
  by (simp add: counters_ok_def image_iff)

lemma cluster_sync_at:
  assumes "redis_ok exec keys" and "distinct names" and "counters_ok (keys w) names"
    and "\<forall>t. synced_at c = Some t \<longrightarrow> cl_refresh c \<le> clk w - t"
    and "cluster_sync clk exec names c bs w = (e, c', bs', w')" and "name \<in> set names" and "dict_get bs name = Some b"
  shows "e = None \<and> (\<forall>k. k \<notin> range PROBE \<longrightarrow> keys w' k = keys w k)
    \<and> (\<exists>c1 w1. keys w1 (PROBE name) = keys w (PROBE name)
         \<and> dict_get bs' name = Some (fst (snd (sync_one clk exec c1 name (fst (doc (GET (OPEN_KEY name)) (keys w)))
              (fst (doc (GET (FAILS name)) (keys w))) b w1)))
         \<and> keys w' (PROBE name) = keys (snd (snd (sync_one clk exec c1 name (fst (doc (GET (OPEN_KEY name)) (keys w)))
              (fst (doc (GET (FAILS name)) (keys w))) b w1))) (PROBE name))"
proof -
  let ?c = "c\<lparr>synced_at := Some (clk w)\<rparr>" and ?w = "snd (pipeline exec (sync_reads names) w)"
  let ?p = "\<lambda>n. fst (doc (GET (OPEN_KEY n)) (keys w))" and ?f = "\<lambda>n. fst (doc (GET (FAILS n)) (keys w))"
  have reads: "fst (pipeline exec (sync_reads names) w) = Some (concat (map (\<lambda>n. [?p n, ?f n]) names))"
    using redis_pipeline(1)[OF assms(1), of "sync_reads names" w] pipeline_reads_doc[OF assms(3)] by simp
  have same: "keys ?w = keys w"
    using redis_pipeline(2)[OF assms(1), of "sync_reads names" w]
    by (simp add: pipeline_def sync_reads_def cluster_send_reads del: doc.simps)
  have "sync_each clk exec ?c names (concat (map (\<lambda>n. [?p n, ?f n]) names)) bs ?w = (e, bs', w')"
    using assms(4,5) reads by (cases "synced_at c") (auto simp: cluster_sync_def Let_def split_beta prod_eq_iff simp del: doc.simps)
  moreover have "\<forall>n \<in> set names. \<forall>v. ?f n = Bulk v \<longrightarrow> bulk_int v \<noteq> None"
    using assms(3) by (fastforce simp: counters_ok_def split: option.splits prod.splits rval.splits)
  ultimately show ?thesis
    using sync_each_at[OF assms(1,2), where p = ?p and f = ?f and clk = clk and c = ?c and bs = bs and w = ?w] assms(6,7)
    unfolding same by blast
qed

text \<open>Replicas, each with its own clock, walk, view of the cluster and breakers, syncing one after another.\<close>

type_synonym 'w replica = "'w clock \<times> string list \<times> cluster \<times> breakers"

fun sync_replicas :: "'w redis \<Rightarrow> 'w replica list \<Rightarrow> 'w \<Rightarrow> (value_error option \<times> breakers) list \<times> 'w" where
  "sync_replicas exec [] w = ([], w)"
| "sync_replicas exec ((clk, names, c, bs) # rs) w =
     (let (e, c', bs', w1) = cluster_sync clk exec names c bs w; (out, w2) = sync_replicas exec rs w1
      in ((e, bs') # out, w2))"

text \<open>A replica that holds the circuit of a deployment open on a timer that is still running, and whose sync is due.\<close>

definition holds_open :: "string \<Rightarrow> 'w replica \<Rightarrow> bool" where
  "holds_open name r \<longleftrightarrow>
     (case r of (clk, names, c, bs) \<Rightarrow>
        name \<in> set names \<and> distinct names \<and> (\<forall>w t. synced_at c = Some t \<longrightarrow> cl_refresh c \<le> clk w - t)
        \<and> (\<exists>b. dict_get bs name = Some b \<and> st b = OPEN \<and> (\<forall>w. clk w - opened_at b < cooldown_seconds b)))"

definition breakers_of :: "'w replica \<Rightarrow> breakers" where
  "breakers_of r = (case r of (clk, names, c, bs) \<Rightarrow> bs)"

definition walk_of :: "'w replica \<Rightarrow> string list" where
  "walk_of r = (case r of (clk, names, c, bs) \<Rightarrow> names)"

lemma cluster_sync_expired:
  assumes "redis_ok exec keys" and "holds_open name (clk, names, c, bs)" and "counters_ok (keys w) names"
    and "keys w (OPEN_KEY name) = None" and "cluster_sync clk exec names c bs w = (e, c', bs', w')"
  shows "e = None \<and> (\<forall>k. k \<notin> range PROBE \<longrightarrow> keys w' k = keys w k) \<and> keys w' (PROBE name) \<noteq> None
    \<and> (if keys w (PROBE name) = None
       then \<exists>b'. dict_get bs' name = Some b' \<and> st b' = HALF_OPEN \<and> (\<forall>t. fst (allow_request t b'))
       else dict_get bs' name = dict_get bs name)"
proof -
  obtain b where b: "dict_get bs name = Some b" "st b = OPEN" "\<And>w. clk w - opened_at b < cooldown_seconds b"
      and ns: "name \<in> set names" "distinct names" "\<forall>t. synced_at c = Some t \<longrightarrow> cl_refresh c \<le> clk w - t"
    using assms(2) by (auto simp: holds_open_def)
  have still: "read_state (clk v) b = b" for v using b(3) by (rule read_state_running)
  have one: "sync_one clk exec c1 name (fst (doc (GET (OPEN_KEY name)) (keys w))) r b v
      = (None, fst (claim_probe clk exec c1 name b v), snd (claim_probe clk exec c1 name b v))" for c1 r v
    using assms(4) b(2) by (simp add: sync_one_def still Let_def split_beta)
  from cluster_sync_at[OF assms(1) ns(2) assms(3) ns(3) assms(5) ns(1) b(1)]
  obtain c1 w1 where e: "e = None" "\<forall>k. k \<notin> range PROBE \<longrightarrow> keys w' k = keys w k"
      and w1: "keys w1 (PROBE name) = keys w (PROBE name)" "dict_get bs' name = Some (fst (claim_probe clk exec c1 name b w1))"
        "keys w' (PROBE name) = keys (snd (claim_probe clk exec c1 name b w1)) (PROBE name)"
    by (auto simp: one simp del: doc.simps)
  have "fst (allow_request t (adopt u HALF_OPEN 0 b))" "st (adopt u HALF_OPEN 0 b) = HALF_OPEN" for t u
    by (simp_all add: allow_request_def adopt_def read_state_def Let_def)
  then show ?thesis using e w1 b(1) claim_probe_keys(2,3)[OF assms(1), where clk = clk and c = c1 and n = name and b = b and w = w1]
    by simp
qed

lemma sync_replicas_taken:
  assumes "redis_ok exec keys" and "\<forall>r \<in> set rs. holds_open name r \<and> counters_ok (keys w) (walk_of r)"
    and "keys w (OPEN_KEY name) = None" and "keys w (PROBE name) \<noteq> None"
  shows "map (\<lambda>(e, bs). (e, dict_get bs name)) (fst (sync_replicas exec rs w)) = map (\<lambda>r. (None, dict_get (breakers_of r) name)) rs"
  using assms(2-4)
proof (induction rs arbitrary: w)
  case Nil
  then show ?case by simp
next
  case (Cons r rs)
  obtain clk names c bs where r: "r = (clk, names, c, bs)" by (cases r)
  obtain e c' bs' w' where s: "cluster_sync clk exec names c bs w = (e, c', bs', w')" by (cases "cluster_sync clk exec names c bs w")
  note one = cluster_sync_expired[OF assms(1) _ _ Cons.prems(2) s]
  have here: "e = None" "\<And>k. k \<notin> range PROBE \<Longrightarrow> keys w' k = keys w k" "keys w' (PROBE name) \<noteq> None"
      "dict_get bs' name = dict_get bs name"
    using one Cons.prems(1,3) by (auto simp: r walk_of_def)
  have "keys w' (OPEN_KEY name) = None" using here(2)[of "OPEN_KEY name"] Cons.prems(2) by fastforce
  moreover have "\<forall>r \<in> set rs. holds_open name r \<and> counters_ok (keys w') (walk_of r)"
    using Cons.prems(1) counters_ok_keys[of "keys w'" "keys w"] here(2) by simp
  ultimately show ?case using Cons.IH here s by (simp add: r breakers_of_def split_beta)
qed


definition idle_open :: breaker where
  "idle_open = \<lparr>failure_threshold = 3, cooldown_seconds = 30, st = OPEN, consecutive_failures = 3,
                opened_at = 0, probe_in_flight = False\<rparr>"

definition idle_replica :: "seconds \<Rightarrow> keyspace replica" where
  "idle_replica t = ((\<lambda>_. t), [''a''], new_cluster 3 30 60 1 5, [(''a'', idle_open)])"


section \<open>Where the shared state falls short of its description\<close>

text \<open>
  Three closed runs on the documented server. First: a replica that saw no traffic while the circuit
  was open has a local timer that has run out too, so its sync finds it half-open already and never
  claims the probe key; two such replicas both send a probe.
\<close>

lemma idle_replicas_probe_together:
  "map (\<lambda>(e, bs). map_option (\<lambda>b. fst (allow_request 31 b)) (dict_get bs ''a''))
       (fst (sync_replicas doc [idle_replica 31, idle_replica 31] Map.empty)) = [Some True, Some True]"
  by (simp add: idle_replica_def new_cluster_def cluster_sync_def sync_reads_def pipeline_def idle_open_def sync_one_def
        read_state_def allow_request_def)

text \<open>Second: a success deletes the shared keys, but a replica whose local breaker is open does not
  close when it reads that; it goes half-open, and the next one stays open.\<close>

lemma success_leaves_peers_open:
  "case cluster_success doc ''a'' idle_open
          (publish_open doc (new_cluster 3 30 60 1 5) ''a'' Map.empty) of
     (b, w) \<Rightarrow> st b = CLOSED \<and>
       map (\<lambda>(e, bs). map_option st (dict_get bs ''a'')) (fst (sync_replicas doc [idle_replica 1, idle_replica 1] w))
         = [Some HALF_OPEN, Some OPEN]"
  by (simp add: idle_replica_def cluster_sync_def sync_reads_def idle_open_def sync_one_def read_state_def claim_probe_def
        adopt_def Let_def cluster_success_def record_success_def publish_open_def pipeline_def restrict_map_def new_cluster_def
        py_int_def)

text \<open>Third: while a probe is in flight, one failure recorded by a replica that still had the circuit
  closed makes the next sync re-adopt HALF_OPEN, which forgets the probe and lets a second through.\<close>

lemma resync_forgets_the_probe:
  "st b = HALF_OPEN \<Longrightarrow> probe_in_flight b \<Longrightarrow> \<not> fst (allow_request t b) \<and>
     fst (allow_request t (fst (snd (sync_one clk exec c name NilReply (Bulk (Num 1)) b w))))"
  by (simp add: sync_one_def read_state_def adopt_def allow_request_def Let_def)

end
