(* ===== verification/Providers.thy ===== *)
theory Providers
  imports Route_Table Breaker_Cluster
begin

text \<open>
  Provider adapters (\<open>app/gateway/providers.py\<close>) and fault injection (\<open>app/gateway/faults.py\<close>), over the
  environment the gateway runs in. The environment \<open>env\<close> is everything outside the program: the
  monotonic clock, Redis, sleeping, the random generator, the registered adapters, LiteLLM's price
  map and Python's rendering of a float; each reads or advances the outside world \<open>'w\<close>.

  A call that was awaited ends as a \<open>call\<close> value: it returned, its iterator was exhausted, the
  \<open>asyncio.wait_for\<close> deadline passed, the adapter raised \<open>ProviderError\<close>, or something else was
  raised. A stream is the list of the events it will produce, each with the time it takes to arrive;
  the list is finite, a stream that never ends is not modelled.
\<close>

section \<open>Calls, streams and adapters\<close>

datatype 'a call =
    Returned 'a
  | Stopped
  | TimedOut
  | ProviderError string bool "int option"
  | Crashed string string

type_synonym stream_events = "(seconds \<times> stream_delta call) list"

record 'w provider =
  adapter_complete :: "deployment \<Rightarrow> chat_request \<Rightarrow> seconds \<Rightarrow> 'w \<Rightarrow> provider_response call \<times> 'w"
  adapter_stream :: "(deployment \<Rightarrow> chat_request \<Rightarrow> 'w \<Rightarrow> stream_events \<times> 'w) option"

record 'w env =
  clk :: "'w clock"
  redis :: "'w redis"
  sleep :: "seconds \<Rightarrow> 'w \<Rightarrow> 'w"
  rng :: "'w \<Rightarrow> real \<times> 'w"
  adapters :: "(string \<times> 'w provider) list"
  price_map_of :: price_map
  show_float :: "real \<Rightarrow> string"

text \<open>\<open>await asyncio.wait_for(anext(iterator), timeout)\<close>: the next event, unless it takes longer than the
  deadline; the time spent waiting passes on the clock.\<close>

fun pull_next ::
  "'w env \<Rightarrow> seconds \<Rightarrow> stream_events \<Rightarrow> 'w \<Rightarrow> stream_delta call \<times> stream_events \<times> 'w" where
  "pull_next env timeout [] w = (Stopped, [], w)"
| "pull_next env timeout ((d, r) # es) w =
     (if d > timeout then (TimedOut, [], sleep env timeout w) else (r, es, sleep env d w))"

text \<open>Python's \<open>x or y\<close> on an optional string and on an optional count.\<close>

definition or_str :: "string option \<Rightarrow> string \<Rightarrow> string" where
  "or_str x y = (case x of Some s \<Rightarrow> if s = [] then y else s | None \<Rightarrow> y)"

definition or_zero :: "int option \<Rightarrow> int" where
  "or_zero x = (case x of Some n \<Rightarrow> n | None \<Rightarrow> 0)"

section \<open>The LiteLLM adapter\<close>

record lit_args =
  la_model :: string
  la_messages :: "chat_message list"
  la_num_retries :: int
  la_api_base :: "string option"
  la_temperature :: "real option"
  la_max_tokens :: "int option"

definition litellm_kwargs :: "deployment \<Rightarrow> chat_request \<Rightarrow> lit_args" where
  "litellm_kwargs d r =
     \<lparr>la_model = dep_model d, la_messages = messages r, la_num_retries = 0,
      la_api_base = (case dep_api_base d of Some b \<Rightarrow> if b = [] then None else Some b | None \<Rightarrow> None),
      la_temperature = temperature r, la_max_tokens = max_tokens r\<rparr>"

record lit_usage =
  lu_prompt :: "int option"
  lu_completion :: "int option"

record lit_response =
  lr_choices :: "(string option \<times> string option) list"  \<comment> \<open>content and finish reason\<close>
  lr_usage :: "lit_usage option"
  lr_model :: "string option"

datatype 'a lit_call = LitOk 'a | LitBadRequest string | LitRaised string string "int option" | LitTimeout

definition lit_usage_out :: "lit_usage \<Rightarrow> usage" where
  "lit_usage_out u = \<lparr>prompt_tokens = or_zero (lu_prompt u), completion_tokens = or_zero (lu_completion u)\<rparr>"

fun litellm_result :: "deployment \<Rightarrow> lit_response lit_call \<Rightarrow> provider_response call" where
  "litellm_result d (LitOk r) =
     (case lr_choices r of
        [] \<Rightarrow> Crashed ''IndexError'' ''list index out of range''
      | (content, finish) # _ \<Rightarrow>
          Returned \<lparr>resp_content = or_str content [],
                    resp_usage = (case lr_usage r of None \<Rightarrow> no_usage | Some u \<Rightarrow> lit_usage_out u),
                    resp_model = or_str (lr_model r) (dep_model d),
                    resp_finish = or_str finish ''stop''\<rparr>)"
| "litellm_result d (LitBadRequest m) = ProviderError m False (Some 400)"
| "litellm_result d (LitRaised ty m code) = ProviderError (ty @ '': '' @ m) True code"
| "litellm_result d LitTimeout = TimedOut"

definition litellm_complete ::
  "(lit_args \<Rightarrow> seconds \<Rightarrow> 'w \<Rightarrow> lit_response lit_call \<times> 'w)
     \<Rightarrow> deployment \<Rightarrow> chat_request \<Rightarrow> seconds \<Rightarrow> 'w \<Rightarrow> provider_response call \<times> 'w" where
  "litellm_complete acompletion d r timeout w =
     (let (x, w') = acompletion (litellm_kwargs d r) timeout w in (litellm_result d x, w'))"

text \<open>One part of a LiteLLM stream, as \<open>stream\<close> turns it into a delta.\<close>

definition litellm_delta :: "lit_response \<Rightarrow> stream_delta" where
  "litellm_delta part =
     \<lparr>delta_content = (case lr_choices part of [] \<Rightarrow> [] | (content, f) # _ \<Rightarrow> or_str content []),
      delta_finish = (case lr_choices part of [] \<Rightarrow> None | (c, finish) # _ \<Rightarrow> finish),
      delta_usage = map_option lit_usage_out (lr_usage part),
      delta_model = lr_model part\<rparr>"

fun litellm_event :: "lit_response lit_call \<Rightarrow> stream_delta call" where
  "litellm_event (LitOk part) = Returned (litellm_delta part)"
| "litellm_event (LitBadRequest m) = ProviderError m False (Some 400)"
| "litellm_event (LitRaised ty m code) = ProviderError (ty @ '': '' @ m) True code"
| "litellm_event LitTimeout = TimedOut"

text \<open>An exception ends the generator, so nothing after the first one is produced.\<close>

fun until_raise :: "(seconds \<times> 'a call) list \<Rightarrow> (seconds \<times> 'a call) list" where
  "until_raise [] = []"
| "until_raise ((d, Returned x) # es) = (d, Returned x) # until_raise es"
| "until_raise ((d, r) # es) = [(d, r)]"

definition litellm_stream :: "(seconds \<times> lit_response lit_call) list \<Rightarrow> stream_events" where
  "litellm_stream parts = until_raise (map (\<lambda>(d, p). (d, litellm_event p)) parts)"

section \<open>The mock adapter\<close>

definition option_or :: "(string \<times> real) list \<Rightarrow> string \<Rightarrow> real \<Rightarrow> real" where
  "option_or opts k dflt = (case dict_get opts k of Some x \<Rightarrow> x | None \<Rightarrow> dflt)"

definition mock_answer :: "deployment \<Rightarrow> chat_request \<Rightarrow> string" where
  "mock_answer d r =
     ''['' @ dep_name d @ ''] You said: '' @
     (case find (\<lambda>m. msg_role m = User) (rev (messages r)) of Some m \<Rightarrow> msg_content m | None \<Rightarrow> [])"

definition word_count :: "string \<Rightarrow> int" where
  "word_count s = int (length (split_words s))"

definition prompt_words :: "chat_request \<Rightarrow> int" where
  "prompt_words r = sum_list (map (\<lambda>m. word_count (msg_content m)) (messages r))"

definition mock_usage :: "chat_request \<Rightarrow> string \<Rightarrow> usage" where
  "mock_usage r content = \<lparr>prompt_tokens = prompt_words r, completion_tokens = word_count content\<rparr>"

definition mock_complete ::
  "'w env \<Rightarrow> deployment \<Rightarrow> chat_request \<Rightarrow> seconds \<Rightarrow> 'w \<Rightarrow> provider_response call \<times> 'w" where
  "mock_complete env d r timeout w =
     (let latency = option_or (dep_options d) ''latency_ms'' 50 / 1000 in
      if latency > timeout then (TimedOut, sleep env timeout w)
      else
        (let (u, w') = rng env (sleep env latency w) in
         if u < option_or (dep_options d) ''failure_rate'' 0
         then (ProviderError (dep_name d @ '': simulated 503'') True (Some 503), w')
         else (let content = mock_answer d r in
               (Returned \<lparr>resp_content = content, resp_usage = mock_usage r content,
                          resp_model = dep_model d, resp_finish = ''stop''\<rparr>, w'))))"

text \<open>The words of a mock stream, each preceded by its share of the latency; a mid-stream failure may
  replace any word but the first, and no random number is drawn for the first.\<close>

fun mock_words ::
  "'w env \<Rightarrow> deployment \<Rightarrow> real \<Rightarrow> bool \<Rightarrow> string list \<Rightarrow> stream_events \<Rightarrow> 'w \<Rightarrow> stream_events \<times> 'w" where
  "mock_words env d per_word first [] last_event w = (last_event, w)"
| "mock_words env d per_word first (word # ws) last_event w =
     (let (u, w1) = (if first then (1, w) else rng env w) in
      if \<not> first \<and> u < option_or (dep_options d) ''stream_failure_rate'' 0
      then ([(per_word, ProviderError (dep_name d @ '': stream died mid-answer'') True (Some 503))], w1)
      else
        (let (es, w2) = mock_words env d per_word False ws last_event w1 in
         ((per_word, Returned \<lparr>delta_content = (if first then word else '' '' @ word), delta_finish = None,
                               delta_usage = None, delta_model = Some (dep_model d)\<rparr>) # es, w2)))"

definition mock_stream ::
  "'w env \<Rightarrow> deployment \<Rightarrow> chat_request \<Rightarrow> 'w \<Rightarrow> stream_events \<times> 'w" where
  "mock_stream env d r w =
     (let (u, w1) = rng env w in
      if u < option_or (dep_options d) ''failure_rate'' 0
      then ([(0, ProviderError (dep_name d @ '': simulated 503'') True (Some 503))], w1)
      else
        (let content = mock_answer d r; words = split_words content;
             per_word = option_or (dep_options d) ''latency_ms'' 50 / 1000 / of_int (max (int (length words)) 1)
         in mock_words env d per_word True words
              [(0, Returned \<lparr>delta_content = [], delta_finish = Some ''stop'',
                             delta_usage = Some (mock_usage r content), delta_model = Some (dep_model d)\<rparr>)] w1))"

definition mock_provider :: "'w env \<Rightarrow> 'w provider" where
  "mock_provider env = \<lparr>adapter_complete = mock_complete env, adapter_stream = Some (mock_stream env)\<rparr>"

section \<open>Fault injection\<close>

record faults =
  fault_refresh :: seconds
  fault_rates :: "(string \<times> real) list"
  fetched_at :: "seconds option"  \<comment> \<open>\<open>None\<close> is \<open>float("-inf")\<close>\<close>

definition FAULTS_KEY :: string where "FAULTS_KEY = ''faults:deployments''"

text \<open>\<open>float(rate)\<close>; text that is not a number raises.\<close>

fun bulk_float :: "bulk \<Rightarrow> real option" where
  "bulk_float (Flt x) = Some x"
| "bulk_float (Num n) = Some (of_int n)"
| "bulk_float _ = None"

fun parse_rates :: "(string \<times> bulk) list \<Rightarrow> (string \<times> real) list option" where
  "parse_rates [] = Some []"
| "parse_rates ((n, v) # h) =
     (case bulk_float v of
        None \<Rightarrow> None
      | Some x \<Rightarrow> (case parse_rates h of None \<Rightarrow> None | Some rs \<Rightarrow> Some ((n, x) # rs)))"

definition read_rates :: "'w env \<Rightarrow> faults \<Rightarrow> 'w \<Rightarrow> faults \<times> 'w" where
  "read_rates env f w =
     (let now = clk env w in
      if (case fetched_at f of None \<Rightarrow> True | Some t \<Rightarrow> now - t \<ge> fault_refresh f)
      then
        (let (r, w') = redis env (HGETALL FAULTS_KEY) w;
             rates = (case r of
                        Hash h \<Rightarrow> (case parse_rates h of Some rs \<Rightarrow> rs | None \<Rightarrow> [])
                      | _ \<Rightarrow> [])
         in (f\<lparr>fault_rates := rates, fetched_at := Some now\<rparr>, w'))
      else (f, w))"

definition maybe_fail ::
  "'w env \<Rightarrow> string \<Rightarrow> faults \<Rightarrow> 'w \<Rightarrow> (string \<times> bool \<times> int option) option \<times> faults \<times> 'w" where
  "maybe_fail env dep f w =
     (let (f', w1) = read_rates env f w;
          rate = (case dict_get (fault_rates f') dep of Some x \<Rightarrow> x | None \<Rightarrow> 0)
      in if rate > 0 then
           (let (u, w2) = rng env w1 in
            (if u < rate then Some (dep @ '': injected fault'', True, Some 503) else None, f', w2))
         else (None, f', w1))"

text \<open>\<open>set\<close> and \<open>clear\<close> let an exception of Redis through (\<open>None\<close>) and then leave the cache alone.\<close>

definition set_fault :: "'w env \<Rightarrow> string \<Rightarrow> real \<Rightarrow> faults \<Rightarrow> 'w \<Rightarrow> unit option \<times> faults \<times> 'w" where
  "set_fault env dep rate f w =
     (let (r, w') = redis env (HSET FAULTS_KEY [(dep, Flt rate)]) w in
      if r = Raised then (None, f, w') else (Some (), f\<lparr>fetched_at := None\<rparr>, w'))"

definition clear_fault :: "'w env \<Rightarrow> string \<Rightarrow> faults \<Rightarrow> 'w \<Rightarrow> bool option \<times> faults \<times> 'w" where
  "clear_fault env dep f w =
     (let (r, w') = redis env (HDEL FAULTS_KEY [dep]) w in
      case r of
        Integer n \<Rightarrow> (Some (n \<noteq> 0), f\<lparr>fetched_at := None\<rparr>, w')
      | _ \<Rightarrow> (None, f, w'))"

section \<open>Lemmas on the fault table\<close>

lemma parse_rates_set:
  "parse_rates h = Some rs \<Longrightarrow> parse_rates (dict_set n (Flt x) h) = Some (dict_set n x rs)"
  by (induction h arbitrary: rs) (auto split: option.splits)

lemma parse_rates_remove:
  "parse_rates h = Some rs \<Longrightarrow> \<exists>rs'. parse_rates (filter (\<lambda>(f, v). f \<noteq> n) h) = Some rs' \<and> dict_get rs' n = None"
  by (induction h arbitrary: rs) (auto split: option.splits)

lemma parse_rates_has: "parse_rates h = Some rs \<Longrightarrow> dict_get h n = None \<longleftrightarrow> dict_get rs n = None"
  by (induction h arbitrary: rs) (auto split: option.splits)

lemma read_rates_due:
  assumes "redis_ok (redis env) keys" and "fetched_at f = None"
    and "hash_at (keys w) FAULTS_KEY = Some h" and "parse_rates h = Some rs"
  shows "fault_rates (fst (read_rates env f w)) = rs"
  using assms(2-4) redis_reply[OF assms(1)] by (simp add: read_rates_def Let_def split_beta)

lemma hash_at_put [simp, redis_simps]: "hash_at (put_val k (RHash h) ks) k = Some h"
  by (simp add: hash_at_def put_val_def)

lemma set_fault_stores:
  assumes "redis_ok (redis env) keys" and "hash_at (keys w) FAULTS_KEY = Some h"
    and "set_fault env d rate f w = (r, f', w')"
  shows "r = Some () \<and> fetched_at f' = None
         \<and> hash_at (keys w') FAULTS_KEY = Some (dict_set d (Flt rate) h)"
  using assms(2,3) redis_reply[OF assms(1), of "HSET FAULTS_KEY [(d, Flt rate)]" w]
    redis_keys[OF assms(1), of "HSET FAULTS_KEY [(d, Flt rate)]" w]
  by (auto simp: set_fault_def Let_def split_beta)

lemma clear_fault_removes:
  assumes "redis_ok (redis env) keys" and "hash_at (keys w) FAULTS_KEY = Some h" and "dict_get h d \<noteq> None"
    and "clear_fault env d f w = (r, f', w')"
  shows "r = Some True \<and> fetched_at f' = None
         \<and> hash_at (keys w') FAULTS_KEY = Some (filter (\<lambda>(f, v). f \<noteq> d) h)"
proof -
  have "keys w FAULTS_KEY \<noteq> None" using assms(2,3) by (cases "keys w FAULTS_KEY") (auto simp: hash_at_def)
  then show ?thesis
    using assms(2,3,4) redis_reply[OF assms(1), of "HDEL FAULTS_KEY [d]" w]
      redis_keys[OF assms(1), of "HDEL FAULTS_KEY [d]" w]
    by (auto simp: clear_fault_def Let_def split_beta)
qed

section \<open>Properties\<close>

text \<open>An injected fault of rate 1 is in force on this replica from the next call on, as a retryable
  503 of that deployment, and is gone again after it is cleared; with Redis down no fault is
  injected once the cached table is due for a refresh.\<close>

theorem injected_fault_until_cleared:
  assumes "redis_ok (redis env) keys" and "\<forall>w. fst (rng env w) < 1"
    and "hash_at (keys w) FAULTS_KEY = Some h" and "parse_rates h = Some rs"
    and "set_fault env d 1 f w = (r, f1, w1)" and "clear_fault env d f1 w1 = (r', f2, w2)"
  shows "fst (maybe_fail env d f1 w1) = Some (d @ '': injected fault'', True, Some 503)
         \<and> r' = Some True \<and> fst (maybe_fail env d f2 w2) = None
         \<and> (redis_down (redis env') \<longrightarrow> fetched_at g = None \<longrightarrow> fst (maybe_fail env' d g v) = None)"
proof -
  note s = set_fault_stores[OF assms(1,3,5)]
  have p1: "parse_rates (dict_set d (Flt 1) h) = Some (dict_set d 1 rs)"
    by (rule parse_rates_set[OF assms(4)])
  have "dict_get (fault_rates (fst (read_rates env f1 w1))) d = Some 1"
    using read_rates_due[OF assms(1) _ _ p1, of f1 w1] s by (simp add: dict_get_set)
  then have on: "fst (maybe_fail env d f1 w1) = Some (d @ '': injected fault'', True, Some 503)"
    using assms(2) by (simp add: maybe_fail_def Let_def split_beta)
  have c: "r' = Some True" "fetched_at f2 = None"
      "hash_at (keys w2) FAULTS_KEY = Some (filter (\<lambda>(f, v). f \<noteq> d) (dict_set d (Flt 1) h))"
    using clear_fault_removes[OF assms(1) _ _ assms(6)] s by (auto simp: dict_get_set)
  obtain rs' where p2: "parse_rates (filter (\<lambda>(f, v). f \<noteq> d) (dict_set d (Flt 1) h)) = Some rs'"
      "dict_get rs' d = None"
    using parse_rates_remove[OF p1] by blast
  have "dict_get (fault_rates (fst (read_rates env f2 w2))) d = None"
    using read_rates_due[OF assms(1) c(2,3) p2(1)] p2(2) by simp
  then have off: "fst (maybe_fail env d f2 w2) = None"
    by (simp add: maybe_fail_def Let_def split_beta)
  have "fst (maybe_fail env' d g v) = None" if "redis_down (redis env')" "fetched_at g = None"
    using that by (simp add: maybe_fail_def read_rates_def redis_down_def Let_def split_beta)
  then show ?thesis using on off c(1) by blast
qed

text \<open>A concrete environment over the documented Redis, used to exercise the properties: the clock stands
  still, the generator always draws 0 and every price is unknown.\<close>

definition doc_env :: "keyspace env" where
  "doc_env = \<lparr>clk = (\<lambda>_. 0), redis = doc, sleep = (\<lambda>_ w. w), rng = (\<lambda>w. (0, w)), adapters = [],
              price_map_of = (\<lambda>_ _ _. None), show_float = (\<lambda>_. ''1.0'')\<rparr>"

lemma injected_fault_until_cleared_witness:
  "\<exists>f1 w1 f2 w2. set_fault doc_env ''a'' 1 \<lparr>fault_refresh = 1, fault_rates = [], fetched_at = None\<rparr> Map.empty
         = (Some (), f1, w1)
     \<and> fst (maybe_fail doc_env ''a'' f1 w1) = Some (''a: injected fault'', True, Some 503)
     \<and> clear_fault doc_env ''a'' f1 w1 = (Some True, f2, w2) \<and> fst (maybe_fail doc_env ''a'' f2 w2) = None"
proof -
  let ?f = "\<lparr>fault_refresh = 1, fault_rates = [], fetched_at = None\<rparr>"
  obtain r f1 w1 where s: "set_fault doc_env ''a'' 1 ?f Map.empty = (r, f1, w1)"
    by (cases "set_fault doc_env ''a'' 1 ?f Map.empty")
  obtain r' f2 w2 where c: "clear_fault doc_env ''a'' f1 w1 = (r', f2, w2)"
    by (cases "clear_fault doc_env ''a'' f1 w1")
  have ok: "redis_ok (redis doc_env) id" and u: "\<forall>w. fst (rng doc_env w) < 1"
    by (simp_all add: doc_env_def)
  have h: "hash_at (id Map.empty) FAULTS_KEY = Some []" "parse_rates [] = Some []"
    by (simp_all add: hash_at_def)
  show ?thesis
    using s c set_fault_stores[OF ok h(1) s] injected_fault_until_cleared[OF ok u h s c, where env' = doc_env and g = f1 and v = w1]
    by auto
qed

end
