(* ===== verification/Router.thy ===== *)
theory Router
  imports Providers
begin

text \<open>
  The LLM router of \<open>app/gateway/router.py\<close> for complete answers: preparing a chain, the retries of one
  deployment, the walk down the fallback chain and the pricing of the answer. The router's state is
  \<open>gateway\<close>: the outside world, the dictionary of breakers, the cluster view and fault table when they
  are configured, and the token and cost counters it adds to, in order (\<open>LLM_TOKENS\<close>, \<open>LLM_COST\<close>);
  the other metrics and the log lines are not kept. One request is run to its end: the model does
  not interleave two requests of a process, runs of breaker calls in any order are the subject of
  \<open>Circuit_Breaker\<close>.

  Streams retry and fall back in the same way, with another way of trying a deployment once, so the
  retry loop and the walk take that as an argument (\<open>once\<close>, \<open>trial\<close>).
\<close>

section \<open>State\<close>

record metered =
  m_deployment :: string
  m_usage :: usage
  m_cost :: real

record 'w gateway =
  gw_world :: 'w
  gw_breakers :: breakers
  gw_cluster :: "cluster option"
  gw_faults :: "faults option"
  gw_counters :: "metered list"

record 'w router =
  r_env :: "'w env"
  r_config :: routes
  r_default_timeout :: seconds
  r_breaker :: breaker  \<comment> \<open>what \<open>breaker_factory()\<close> makes\<close>

definition new_router ::
  "'w env \<Rightarrow> routes \<Rightarrow> seconds \<Rightarrow> breaker \<Rightarrow> value_error + ('w router \<times> breakers)" where
  "new_router env config timeout b =
     (if \<exists>(n, d) \<in> set (deployments config). dict_get (adapters env) (dep_provider d) = None
      then Inl (ValueError ''routes reference unregistered providers'')
      else Inr (\<lparr>r_env = env, r_config = config, r_default_timeout = timeout, r_breaker = b\<rparr>,
                map (\<lambda>(n, d). (n, b)) (deployments config)))"

section \<open>Breakers\<close>

definition brk :: "'w router \<Rightarrow> string \<Rightarrow> 'w gateway \<Rightarrow> breaker" where
  "brk R name g = (case dict_get (gw_breakers g) name of Some b \<Rightarrow> b | None \<Rightarrow> r_breaker R)"

definition put_brk :: "string \<Rightarrow> breaker \<Rightarrow> 'w gateway \<Rightarrow> 'w gateway" where
  "put_brk name b g = g\<lparr>gw_breakers := dict_set name b (gw_breakers g)\<rparr>"

text \<open>\<open>_breaker\<close>: a breaker on first use.\<close>

definition ensure_breaker :: "'w router \<Rightarrow> string \<Rightarrow> 'w gateway \<Rightarrow> 'w gateway" where
  "ensure_breaker R name g = (if dict_get (gw_breakers g) name = None then put_brk name (r_breaker R) g else g)"

definition time_now :: "'w router \<Rightarrow> 'w gateway \<Rightarrow> seconds" where
  "time_now R g = clk (r_env R) (gw_world g)"

definition brk_allow :: "'w router \<Rightarrow> string \<Rightarrow> 'w gateway \<Rightarrow> bool \<times> 'w gateway" where
  "brk_allow R name g =
     (let (ok, b) = allow_request (time_now R g) (brk R name g) in (ok, put_brk name b g))"

text \<open>\<open>_failed\<close> and \<open>_succeeded\<close>\<close>

definition brk_failed :: "'w router \<Rightarrow> string \<Rightarrow> 'w gateway \<Rightarrow> bool \<times> 'w gateway" where
  "brk_failed R name g =
     (case gw_cluster g of
        Some c \<Rightarrow>
          (let ((opened, b), w) =
                 cluster_failure (clk (r_env R)) (redis (r_env R)) c name (brk R name g) (gw_world g)
           in (opened, put_brk name b (g\<lparr>gw_world := w\<rparr>)))
      | None \<Rightarrow>
          (let (opened, b) = record_failure (time_now R g) (time_now R g) (brk R name g)
           in (opened, put_brk name b g)))"

definition brk_succeeded :: "'w router \<Rightarrow> string \<Rightarrow> 'w gateway \<Rightarrow> 'w gateway" where
  "brk_succeeded R name g =
     (case gw_cluster g of
        Some c \<Rightarrow>
          (let (b, w) = cluster_success (redis (r_env R)) name (brk R name g) (gw_world g)
           in put_brk name b (g\<lparr>gw_world := w\<rparr>))
      | None \<Rightarrow> put_brk name (record_success (brk R name g)) g)"

text \<open>\<open>breaker.state is not CLOSED\<close>, with the side effect of reading the state\<close>

definition brk_tripped :: "'w router \<Rightarrow> string \<Rightarrow> 'w gateway \<Rightarrow> bool \<times> 'w gateway" where
  "brk_tripped R name g =
     (let b = read_state (time_now R g) (brk R name g) in (st b \<noteq> CLOSED, put_brk name b g))"

definition sync_names ::
  "'w router \<Rightarrow> string list \<Rightarrow> 'w gateway \<Rightarrow> value_error option \<times> 'w gateway" where
  "sync_names R names g =
     (case gw_cluster g of
        None \<Rightarrow> (None, g)
      | Some c \<Rightarrow>
          (let (e, c', bs, w) = cluster_sync (clk (r_env R)) (redis (r_env R)) names c (gw_breakers g) (gw_world g)
           in (e, g\<lparr>gw_cluster := Some c', gw_breakers := bs, gw_world := w\<rparr>)))"

definition prepare_chain :: "'w router \<Rightarrow> deployment list \<Rightarrow> 'w gateway \<Rightarrow> value_error option \<times> 'w gateway" where
  "prepare_chain R chain g =
     (if gw_cluster g = None then (None, g)
      else sync_names R (map dep_name chain) (fold (\<lambda>d. ensure_breaker R (dep_name d)) chain g))"

definition sync_breakers :: "'w router \<Rightarrow> 'w gateway \<Rightarrow> value_error option \<times> 'w gateway" where
  "sync_breakers R g = sync_names R (map fst (gw_breakers g)) g"

text \<open>\<open>breaker_states\<close>: reading a state may move an expired OPEN to HALF_OPEN.\<close>

definition breaker_states :: "'w router \<Rightarrow> 'w gateway \<Rightarrow> (string \<times> breaker_state \<times> int) list \<times> 'w gateway" where
  "breaker_states R g =
     (let bs = map (\<lambda>(n, b). (n, read_state (time_now R g) b)) (gw_breakers g)
      in (map (\<lambda>(n, b). (n, st b, consecutive_failures b)) bs, g\<lparr>gw_breakers := bs\<rparr>))"

section \<open>Trying one deployment\<close>

datatype 'a tried = Answered 'a | Exhausted | Rejected string | NoAdapter string

type_synonym ('w, 'a) once = "'w gateway \<Rightarrow> 'a call \<times> 'w gateway"

definition backoff :: "nat \<Rightarrow> seconds" where
  "backoff retry = (1/5) * 2 ^ (retry - 1)"

definition backoff_pause :: "'w router \<Rightarrow> nat \<Rightarrow> 'w gateway \<Rightarrow> 'w gateway" where
  "backoff_pause R retry g =
     (if retry > 0 then g\<lparr>gw_world := sleep (r_env R) (backoff retry) (gw_world g)\<rparr> else g)"

text \<open>A chaos fault is raised exactly where the provider would fail.\<close>

definition inject_fault :: "'w router \<Rightarrow> string \<Rightarrow> ('w, 'a) once \<Rightarrow> ('w, 'a) once" where
  "inject_fault R name run g =
     (case gw_faults g of
        None \<Rightarrow> run g
      | Some f \<Rightarrow>
          (let (fault, f', w) = maybe_fail (r_env R) name f (gw_world g); g' = g\<lparr>gw_faults := Some f', gw_world := w\<rparr>
           in case fault of
                Some (msg, retryable, code) \<Rightarrow> (ProviderError msg retryable code, g')
              | None \<Rightarrow> run g'))"

definition elapsed_ms :: "'w router \<Rightarrow> seconds \<Rightarrow> 'w gateway \<Rightarrow> real" where
  "elapsed_ms R start g = (time_now R g - start) * 1000"

definition failure_text :: "string \<Rightarrow> string \<Rightarrow> 'a call \<Rightarrow> outcome \<times> string" where
  "failure_text on_timeout on_stop r =
     (case r of
        TimedOut \<Rightarrow> (Timeout, on_timeout)
      | Stopped \<Rightarrow> (Error, on_stop)
      | ProviderError m retryable code \<Rightarrow> (Error, m)
      | Crashed ty m \<Rightarrow> (Error, ty @ '': '' @ m)
      | Returned x \<Rightarrow> (Success, []))"

text \<open>
  The loop of \<open>_call_with_retries\<close> and \<open>_open_with_retries\<close>: \<open>left\<close> tries remain, \<open>retry\<close> is the loop
  variable. \<open>settle\<close> says whether a success is reported to the breaker here (a complete answer) or
  only when the stream has ended. The loop ends early when the breaker has left CLOSED.
\<close>

fun retry_loop ::
  "'w router \<Rightarrow> deployment \<Rightarrow> ('w, 'a) once \<Rightarrow> bool \<Rightarrow> string \<Rightarrow> string \<Rightarrow> nat \<Rightarrow> nat
     \<Rightarrow> attempt list \<Rightarrow> 'w gateway \<Rightarrow> 'a tried \<times> attempt list \<times> 'w gateway" where
  "retry_loop R d run settle tmo stp 0 retry ats g = (Exhausted, ats, g)"
| "retry_loop R d run settle tmo stp (Suc left) retry ats g =
     (let name = dep_name d;
          g1 = backoff_pause R retry g;
          start = time_now R g1;
          (r, g2) = inject_fault R name run g1
      in case r of
           Returned x \<Rightarrow>
             (let att = \<lparr>att_deployment = name, att_outcome = Success,
                        att_latency = elapsed_ms R start g2, att_error = None\<rparr>
              in (Answered x, ats @ [att], if settle then brk_succeeded R name g2 else g2))
         | ProviderError msg False code \<Rightarrow>
             (let g3 = brk_succeeded R name g2;
                  att = \<lparr>att_deployment = name, att_outcome = ClientError,
                        att_latency = elapsed_ms R start g3, att_error = Some msg\<rparr>
              in (Rejected msg, ats @ [att], g3))
         | _ \<Rightarrow>
             (let (outc, err) = failure_text tmo stp r;
                  att = \<lparr>att_deployment = name, att_outcome = outc,
                        att_latency = elapsed_ms R start g2, att_error = Some err\<rparr>;
                  (opened, g3) = brk_failed R name g2;
                  (tripped, g4) = brk_tripped R name g3
              in if tripped then (Exhausted, ats @ [att], g4)
                 else retry_loop R d run settle tmo stp left (Suc retry) (ats @ [att]) g4))"

definition timeout_of :: "'w router \<Rightarrow> deployment \<Rightarrow> seconds" where
  "timeout_of R d = effective_timeout (r_default_timeout R) d"

definition no_adapter :: "deployment \<Rightarrow> string" where
  "no_adapter d = ''no provider adapter '' @ dep_provider d @ '' for '' @ dep_name d"

definition complete_once :: "'w router \<Rightarrow> 'w provider \<Rightarrow> deployment \<Rightarrow> chat_request \<Rightarrow> ('w, provider_response) once" where
  "complete_once R p d req g =
     (let (r, w) = adapter_complete p d req (timeout_of R d) (gw_world g) in (r, g\<lparr>gw_world := w\<rparr>))"

definition call_with_retries ::
  "'w router \<Rightarrow> chat_request \<Rightarrow> deployment \<Rightarrow> attempt list \<Rightarrow> 'w gateway
     \<Rightarrow> provider_response tried \<times> attempt list \<times> 'w gateway" where
  "call_with_retries R req d ats g =
     (case dict_get (adapters (r_env R)) (dep_provider d) of
        None \<Rightarrow> (NoAdapter (no_adapter d), ats, g)
      | Some p \<Rightarrow>
          retry_loop R d (complete_once R p d req) True
            (''no response within '' @ show_float (r_env R) (timeout_of R d) @ ''s'')
            ''StopAsyncIteration: '' (nat (max_retries d + 1)) 0 ats g)"

section \<open>Walking the chain\<close>

datatype route_error =
    UnknownModel string
  | AllProvidersFailed string "attempt list"
  | ClientRequestError string "attempt list"
  | SyncError value_error

definition skipped_attempt :: "deployment \<Rightarrow> attempt" where
  "skipped_attempt d = \<lparr>att_deployment = dep_name d, att_outcome = Skipped, att_latency = 0, att_error = None\<rparr>"

fun walk_chain ::
  "'w router \<Rightarrow> (deployment \<Rightarrow> attempt list \<Rightarrow> 'w gateway \<Rightarrow> 'a tried \<times> attempt list \<times> 'w gateway)
     \<Rightarrow> string \<Rightarrow> deployment list \<Rightarrow> attempt list \<Rightarrow> 'w gateway
     \<Rightarrow> (route_error + 'a \<times> deployment \<times> attempt list) \<times> 'w gateway" where
  "walk_chain R trial route [] ats g = (Inl (AllProvidersFailed route ats), g)"
| "walk_chain R trial route (d # ds) ats g =
     (let (ok, g1) = brk_allow R (dep_name d) (ensure_breaker R (dep_name d) g) in
      if \<not> ok then walk_chain R trial route ds (ats @ [skipped_attempt d]) g1
      else
        (let (r, ats', g2) = trial d ats g1 in
         case r of
           Answered x \<Rightarrow> (Inr (x, d, ats'), g2)
         | Exhausted \<Rightarrow> walk_chain R trial route ds ats' g2
         | Rejected msg \<Rightarrow> (Inl (ClientRequestError msg ats'), g2)
         | NoAdapter msg \<Rightarrow> (Inl (UnknownModel msg), g2)))"

definition route_request ::
  "'w router \<Rightarrow> (deployment \<Rightarrow> attempt list \<Rightarrow> 'w gateway \<Rightarrow> 'a tried \<times> attempt list \<times> 'w gateway)
     \<Rightarrow> routes \<Rightarrow> chat_request \<Rightarrow> 'w gateway
     \<Rightarrow> (route_error + 'a \<times> deployment \<times> attempt list) \<times> 'w gateway" where
  "route_request R trial config req g =
     (case dict_get config (req_model req) of
        None \<Rightarrow> (Inl (UnknownModel (req_model req)), g)
      | Some chain \<Rightarrow>
          (let (e, g1) = prepare_chain R chain g in
           case e of
             Some err \<Rightarrow> (Inl (SyncError err), g1)
           | None \<Rightarrow> walk_chain R trial (req_model req) chain [] g1))"

record routed_result =
  rr_response :: provider_response
  rr_deployment :: deployment
  rr_attempts :: "attempt list"
  rr_cost :: real

definition count_tokens :: "string \<Rightarrow> usage \<Rightarrow> real \<Rightarrow> 'w gateway \<Rightarrow> 'w gateway" where
  "count_tokens name u cost g =
     g\<lparr>gw_counters := gw_counters g @ [\<lparr>m_deployment = name, m_usage = u, m_cost = cost\<rparr>]\<rparr>"

text \<open>\<open>complete\<close>: the route table is the caller's, a canary's or the router's own.\<close>

definition router_complete ::
  "'w router \<Rightarrow> chat_request \<Rightarrow> routes \<Rightarrow> 'w gateway \<Rightarrow> (route_error + routed_result) \<times> 'w gateway" where
  "router_complete R req config g =
     (let (r, g1) = route_request R (call_with_retries R req) config req g in
      case r of
        Inl e \<Rightarrow> (Inl e, g1)
      | Inr (resp, d, ats) \<Rightarrow>
          (let cost = compute_cost (price_map_of (r_env R)) d (resp_usage resp)
           in (Inr \<lparr>rr_response = resp, rr_deployment = d, rr_attempts = ats, rr_cost = cost\<rparr>,
               count_tokens (dep_name d) (resp_usage resp) cost g1)))"

section \<open>What a segment of attempts looks like\<close>

text \<open>The attempts of one deployment: it was skipped, or every trial failed, or it failed some times and
  then ended in a way that ends the walk.\<close>

definition tries :: "deployment \<Rightarrow> nat" where
  "tries d = nat (max_retries d + 1)"

definition failed_attempt :: "deployment \<Rightarrow> attempt \<Rightarrow> bool" where
  "failed_attempt d a \<longleftrightarrow> att_deployment a = dep_name d \<and> att_outcome a \<in> {Error, Timeout}"

definition gave_up :: "deployment \<Rightarrow> attempt list \<Rightarrow> bool" where
  "gave_up d s \<longleftrightarrow> s = [skipped_attempt d]
     \<or> (s \<noteq> [] \<and> length s \<le> tries d \<and> (\<forall>a \<in> set s. failed_attempt d a))"

definition ended :: "outcome \<Rightarrow> deployment \<Rightarrow> attempt list \<Rightarrow> bool" where
  "ended oc d s \<longleftrightarrow> s \<noteq> [] \<and> length s \<le> tries d \<and> (\<forall>a \<in> set (butlast s). failed_attempt d a)
     \<and> att_deployment (last s) = dep_name d \<and> att_outcome (last s) = oc"

lemma ended_Cons: "failed_attempt d a \<Longrightarrow> s \<noteq> [] \<Longrightarrow> length s < tries d \<Longrightarrow> ended oc d s \<Longrightarrow> ended oc d (a # s)"
  by (auto simp: ended_def)

text \<open>The walk that started with the attempts \<open>ats\<close> reached \<open>d\<close>, every deployment before it having
  been skipped or having failed every try, and ended there with the outcome \<open>oc\<close>.\<close>

definition reached ::
  "outcome \<Rightarrow> deployment list \<Rightarrow> attempt list \<Rightarrow> deployment \<Rightarrow> attempt list \<Rightarrow> bool" where
  "reached oc ds ats d all \<longleftrightarrow>
     (\<exists>pre post segs s. ds = pre @ d # post \<and> all = ats @ concat segs @ s
        \<and> list_all2 gave_up pre segs \<and> ended oc d s)"

definition all_gave_up :: "deployment list \<Rightarrow> attempt list \<Rightarrow> attempt list \<Rightarrow> bool" where
  "all_gave_up ds ats all \<longleftrightarrow> (\<exists>segs. all = ats @ concat segs \<and> list_all2 gave_up ds segs)"

lemma reached_here: "ended oc d s \<Longrightarrow> reached oc (d # ds) ats d (ats @ s)"
  unfolding reached_def
  by (rule exI[of _ "[]"], rule exI[of _ ds], rule exI[of _ "[]"], rule exI[of _ s]) simp

lemma reached_later:
  assumes "gave_up d s" and "reached oc ds (ats @ s) d' all"
  shows "reached oc (d # ds) ats d' all"
proof -
  from assms(2) obtain pre post segs s' where "ds = pre @ d' # post" "all = (ats @ s) @ concat segs @ s'"
      "list_all2 gave_up pre segs" "ended oc d' s'"
    unfolding reached_def by blast
  then show ?thesis
    using assms(1) unfolding reached_def
    by (intro exI[of _ "d # pre"] exI[of _ post] exI[of _ "s # segs"] exI[of _ s']) simp
qed

lemma all_gave_up_later: "gave_up d s \<Longrightarrow> all_gave_up ds (ats @ s) all \<Longrightarrow> all_gave_up (d # ds) ats all"
  unfolding all_gave_up_def by (metis append_assoc concat.simps(2) list.rel_intros(2))

text \<open>How a walk that started with the attempts \<open>ats\<close> can end.\<close>

definition walk_result ::
  "string \<Rightarrow> deployment list \<Rightarrow> attempt list \<Rightarrow> (route_error + 'a \<times> deployment \<times> attempt list) \<Rightarrow> bool" where
  "walk_result route ds ats r \<longleftrightarrow>
     (case r of
        Inr (x, d, all) \<Rightarrow> reached Success ds ats d all
      | Inl (ClientRequestError m all) \<Rightarrow> (\<exists>d. reached ClientError ds ats d all)
      | Inl (AllProvidersFailed a all) \<Rightarrow> a = route \<and> all_gave_up ds ats all
      | Inl (UnknownModel m) \<Rightarrow> True
      | Inl (SyncError e) \<Rightarrow> False)"

section \<open>The contract of a way to try a deployment, and the walk that relies on it\<close>

locale deployment_trial =
  fixes trial :: "deployment \<Rightarrow> attempt list \<Rightarrow> 'w gateway \<Rightarrow> 'a tried \<times> attempt list \<times> 'w gateway"
  assumes trial_appends: "0 \<le> max_retries d \<Longrightarrow> trial d ats g = (r, ats', g') \<Longrightarrow>
    \<exists>s. ats' = ats @ s
        \<and> (case r of
             Answered x \<Rightarrow> ended Success d s
           | Exhausted \<Rightarrow> s \<noteq> [] \<and> length s \<le> tries d \<and> (\<forall>a \<in> set s. failed_attempt d a)
           | Rejected m \<Rightarrow> ended ClientError d s
           | NoAdapter m \<Rightarrow> s = [])"
begin

lemma walk_result_step:
  assumes "gave_up d s" and "walk_result route ds (ats @ s) r"
  shows "walk_result route (d # ds) ats r"
  using assms(2) reached_later[OF assms(1)] all_gave_up_later[OF assms(1)]
  by (fastforce simp: walk_result_def split: sum.splits route_error.splits)

lemma walk_in_order:
  assumes "\<forall>d \<in> set ds. 0 \<le> max_retries d"
  shows "walk_result route ds ats (fst (walk_chain R trial route ds ats g))"
  using assms
proof (induction ds arbitrary: ats g)
  case Nil
  then show ?case by (simp add: walk_result_def all_gave_up_def)
next
  case (Cons d ds)
  obtain ok g1 where ok: "brk_allow R (dep_name d) (ensure_breaker R (dep_name d) g) = (ok, g1)"
    by (cases "brk_allow R (dep_name d) (ensure_breaker R (dep_name d) g)")
  obtain r ats' g2 where r: "trial d ats g1 = (r, ats', g2)" by (cases "trial d ats g1")
  obtain s where s: "ats' = ats @ s"
      "case r of Answered x \<Rightarrow> ended Success d s
         | Exhausted \<Rightarrow> s \<noteq> [] \<and> length s \<le> tries d \<and> (\<forall>a \<in> set s. failed_attempt d a)
         | Rejected m \<Rightarrow> ended ClientError d s | NoAdapter m \<Rightarrow> s = []"
    using trial_appends[OF _ r] Cons.prems by auto
  show ?case
  proof (cases ok)
    case False
    then show ?thesis
      using ok Cons.IH[of "ats @ [skipped_attempt d]" g1] Cons.prems
        walk_result_step[of d "[skipped_attempt d]"] by (simp add: gave_up_def)
  next
    case True
    show ?thesis
    proof (cases r)
      case (Answered x)
      then have "walk_result route (d # ds) ats (Inr (x, d, ats'))"
        using s reached_here[of Success d s ds ats] by (simp add: walk_result_def)
      then show ?thesis using ok True r Answered by simp
    next
      case Exhausted
      then show ?thesis
        using ok True r s Cons.IH[of ats' g2] Cons.prems walk_result_step[of d s]
        by (simp add: gave_up_def)
    next
      case (Rejected m)
      then have "walk_result route (d # ds) ats (Inl (ClientRequestError m ats'))"
        using s reached_here[of ClientError d s ds ats] by (auto simp: walk_result_def)
      then show ?thesis using ok True r Rejected by simp
    next
      case (NoAdapter m)
      then show ?thesis using ok True r by (simp add: walk_result_def)
    qed
  qed
qed

end

section \<open>The retry loop keeps the contract\<close>

lemma retry_loop_appends:
  "retry_loop R d run settle tmo stp left retry ats g = (r, ats', g') \<Longrightarrow>
     \<exists>s. ats' = ats @ s \<and> length s \<le> left
        \<and> (case r of
             Answered x \<Rightarrow> s \<noteq> [] \<and> (\<forall>a \<in> set (butlast s). failed_attempt d a)
                 \<and> att_deployment (last s) = dep_name d \<and> att_outcome (last s) = Success
           | Exhausted \<Rightarrow> (left > 0 \<longrightarrow> s \<noteq> []) \<and> (\<forall>a \<in> set s. failed_attempt d a)
           | Rejected m \<Rightarrow> s \<noteq> [] \<and> (\<forall>a \<in> set (butlast s). failed_attempt d a)
                 \<and> att_deployment (last s) = dep_name d \<and> att_outcome (last s) = ClientError
           | NoAdapter m \<Rightarrow> False)"
proof (induction left arbitrary: retry ats g)
  case 0
  then show ?case by auto
next
  case (Suc left)
  let ?g1 = "backoff_pause R retry g"
  obtain c g2 where c: "inject_fault R (dep_name d) run ?g1 = (c, g2)"
    by (cases "inject_fault R (dep_name d) run ?g1")
  show ?case
  proof (cases "(\<exists>x. c = Returned x) \<or> (\<exists>m code. c = ProviderError m False code)")
    case True
    then show ?thesis using Suc.prems c by (auto simp: Let_def)
  next
    case False
    define a where "a = \<lparr>att_deployment = dep_name d, att_outcome = fst (failure_text tmo stp c),
      att_latency = elapsed_ms R (time_now R ?g1) g2, att_error = Some (snd (failure_text tmo stp c))\<rparr>"
    define g4 where "g4 = brk_tripped R (dep_name d) (snd (brk_failed R (dep_name d) g2))"
    have eq: "retry_loop R d run settle tmo stp (Suc left) retry ats g
      = (if fst g4 then (Exhausted, ats @ [a], snd g4)
         else retry_loop R d run settle tmo stp left (Suc retry) (ats @ [a]) (snd g4))"
      using c False
      by (cases c) (auto simp: a_def g4_def Let_def split_beta split: bool.splits)
    have a: "failed_attempt d a"
      using False by (cases c) (auto simp: a_def failed_attempt_def failure_text_def)
    show ?thesis
    proof (cases "fst g4")
      case True
      then show ?thesis using Suc.prems eq a by auto
    next
      case False
      then have "retry_loop R d run settle tmo stp left (Suc retry) (ats @ [a]) (snd g4) = (r, ats', g')"
        using Suc.prems eq by simp
      from Suc.IH[OF this] obtain s where
        "ats' = (ats @ [a]) @ s" "length s \<le> left"
        "case r of
             Answered x \<Rightarrow> s \<noteq> [] \<and> (\<forall>a \<in> set (butlast s). failed_attempt d a)
                 \<and> att_deployment (last s) = dep_name d \<and> att_outcome (last s) = Success
           | Exhausted \<Rightarrow> (left > 0 \<longrightarrow> s \<noteq> []) \<and> (\<forall>a \<in> set s. failed_attempt d a)
           | Rejected m \<Rightarrow> s \<noteq> [] \<and> (\<forall>a \<in> set (butlast s). failed_attempt d a)
                 \<and> att_deployment (last s) = dep_name d \<and> att_outcome (last s) = ClientError
           | NoAdapter m \<Rightarrow> False"
        by blast
      then show ?thesis using a by (intro exI[of _ "a # s"]) (auto split: tried.splits)
    qed
  qed
qed

lemma retry_loop_trial:
  assumes "0 \<le> max_retries d"
    and "retry_loop R d run settle tmo stp (nat (max_retries d + 1)) 0 ats g = (r, ats', g')"
  shows "\<exists>s. ats' = ats @ s
        \<and> (case r of
             Answered x \<Rightarrow> ended Success d s
           | Exhausted \<Rightarrow> s \<noteq> [] \<and> length s \<le> tries d \<and> (\<forall>a \<in> set s. failed_attempt d a)
           | Rejected m \<Rightarrow> ended ClientError d s
           | NoAdapter m \<Rightarrow> s = [])"
  using retry_loop_appends[OF assms(2)] assms(1)
  by (fastforce simp: tries_def ended_def split: tried.splits)

lemma call_with_retries_trial:
  assumes "0 \<le> max_retries d" and "call_with_retries R req d ats g = (r, ats', g')"
  shows "\<exists>s. ats' = ats @ s
        \<and> (case r of
             Answered x \<Rightarrow> ended Success d s
           | Exhausted \<Rightarrow> s \<noteq> [] \<and> length s \<le> tries d \<and> (\<forall>a \<in> set s. failed_attempt d a)
           | Rejected m \<Rightarrow> ended ClientError d s
           | NoAdapter m \<Rightarrow> s = [])"
proof (cases "dict_get (adapters (r_env R)) (dep_provider d)")
  case None
  then show ?thesis using assms(2) by (auto simp: call_with_retries_def)
next
  case (Some p)
  show ?thesis
    by (rule retry_loop_trial[OF assms(1), where R = R and run = "complete_once R p d req"])
      (use assms(2) Some in \<open>simp add: call_with_retries_def\<close>)
qed

interpretation complete_trial: deployment_trial "call_with_retries R req" for R req
  by unfold_locales (rule call_with_retries_trial)

section \<open>Breakers in the gateway state\<close>

lemma brk_put [simp, breaker_simps]:
  "brk R n (put_brk m b g) = (if n = m then b else brk R n g)"
  by (simp add: brk_def put_brk_def dict_get_set)

lemma brk_world [simp, breaker_simps]:
  "brk R n (g\<lparr>gw_world := w\<rparr>) = brk R n g" "brk R n (g\<lparr>gw_faults := f\<rparr>) = brk R n g"
  "brk R n (g\<lparr>gw_counters := c\<rparr>) = brk R n g" "brk R n (g\<lparr>gw_cluster := k\<rparr>) = brk R n g"
  by (simp_all add: brk_def)

lemma put_brk_fields [simp, breaker_simps]:
  "gw_world (put_brk n b g) = gw_world g" "gw_cluster (put_brk n b g) = gw_cluster g"
  "gw_faults (put_brk n b g) = gw_faults g" "gw_counters (put_brk n b g) = gw_counters g"
  by (simp_all add: put_brk_def)

lemma ensure_breaker_fields [simp, breaker_simps]:
  "brk R n (ensure_breaker R m g) = brk R n g" "gw_world (ensure_breaker R m g) = gw_world g"
  "gw_cluster (ensure_breaker R m g) = gw_cluster g" "gw_counters (ensure_breaker R m g) = gw_counters g"
  by (simp_all add: ensure_breaker_def) (simp add: brk_def)

lemma brk_tripped_eq:
  "brk_tripped R n g = (st (read_state (time_now R g) (brk R n g)) \<noteq> CLOSED,
                        put_brk n (read_state (time_now R g) (brk R n g)) g)"
  by (simp add: brk_tripped_def Let_def)

lemma backoff_pause_frame [simp]:
  "brk R n (backoff_pause R k g) = brk R n g" "gw_cluster (backoff_pause R k g) = gw_cluster g"
  by (simp_all add: backoff_pause_def)

lemma brk_failed_local:
  assumes "gw_cluster g = None"
  shows "brk R n (snd (brk_failed R n g))
           = snd (record_failure (time_now R g) (time_now R g) (brk R n g))"
    and "gw_cluster (snd (brk_failed R n g)) = None"
  using assms by (simp_all add: brk_failed_def split_beta)

lemma brk_succeeded_closes:
  "st (brk R n (brk_succeeded R n g)) = CLOSED \<and> consecutive_failures (brk R n (brk_succeeded R n g)) = 0
   \<and> gw_counters (brk_succeeded R n g) = gw_counters g"
  by (simp add: brk_succeeded_def cluster_success_def record_success_def split_beta split: option.splits)

text \<open>A try that leaves the breakers alone.\<close>

definition breaker_frame :: "('w, 'a) once \<Rightarrow> bool" where
  "breaker_frame run \<longleftrightarrow>
     (\<forall>g. gw_breakers (snd (run g)) = gw_breakers g \<and> gw_cluster (snd (run g)) = gw_cluster g)"

lemma inject_frame:
  assumes "breaker_frame run"
  shows "brk R n (snd (inject_fault R m run g)) = brk R n g"
    and "gw_cluster (snd (inject_fault R m run g)) = gw_cluster g"
  using assms
  by (auto simp: inject_fault_def breaker_frame_def brk_def split_beta Let_def split: option.splits)

lemma complete_once_frame: "breaker_frame (complete_once R p d req)"
  by (simp add: breaker_frame_def complete_once_def split_beta)

text \<open>The failures left before the breaker of a deployment trips.\<close>

definition failures_left :: "breaker \<Rightarrow> int" where
  "failures_left b = (if st b = CLOSED then failure_threshold b - consecutive_failures b else 1)"

lemma record_failure_trips:
  assumes "failures_left b \<le> 1"
  shows "st (read_state t' (snd (record_failure t1 t2 b))) \<noteq> CLOSED"
  using assms
  by (cases "st b") (auto simp: failures_left_def record_failure_def read_state_def Let_def)

lemma record_failure_counts_down:
  assumes "1 < failures_left b"
  shows "failures_left (read_state t' (snd (record_failure t1 t2 b))) = failures_left b - 1"
  using assms
  by (cases "st b") (auto simp: failures_left_def record_failure_def read_state_def Let_def)

lemma retry_loop_bounded_by_breaker:
  assumes "breaker_frame run"
  shows "retry_loop R d run settle tmo stp left retry ats g = (r, ats', g') \<Longrightarrow> gw_cluster g = None
    \<Longrightarrow> 1 \<le> failures_left (brk R (dep_name d) g)
    \<Longrightarrow> int (length ats') \<le> int (length ats) + failures_left (brk R (dep_name d) g)"
proof (induction left arbitrary: retry ats g)
  case 0
  then show ?case by auto
next
  case (Suc left)
  let ?n = "dep_name d" and ?g1 = "backoff_pause R retry g"
  obtain c g2 where c: "inject_fault R ?n run ?g1 = (c, g2)"
    by (cases "inject_fault R ?n run ?g1")
  have g2: "brk R ?n g2 = brk R ?n g" "gw_cluster g2 = None"
    using inject_frame(1)[OF assms, where R = R and n = ?n and m = ?n and g = ?g1]
      inject_frame(2)[OF assms, where R = R and m = ?n and g = ?g1] c Suc.prems(2) by simp_all
  show ?case
  proof (cases "(\<exists>x. c = Returned x) \<or> (\<exists>m code. c = ProviderError m False code)")
    case True
    then show ?thesis using Suc.prems c by (auto simp: Let_def)
  next
    case False
    define a where "a = \<lparr>att_deployment = ?n, att_outcome = fst (failure_text tmo stp c),
      att_latency = elapsed_ms R (time_now R ?g1) g2, att_error = Some (snd (failure_text tmo stp c))\<rparr>"
    define g3 where "g3 = snd (brk_failed R ?n g2)"
    define b where "b = read_state (time_now R g3) (brk R ?n g3)"
    have eq: "retry_loop R d run settle tmo stp (Suc left) retry ats g
      = (if st b \<noteq> CLOSED then (Exhausted, ats @ [a], put_brk ?n b g3)
         else retry_loop R d run settle tmo stp left (Suc retry) (ats @ [a]) (put_brk ?n b g3))"
      using c False
      by (cases c) (auto simp: a_def g3_def b_def brk_tripped_eq Let_def split_beta split: bool.splits)
    have g3: "brk R ?n g3 = snd (record_failure (time_now R g2) (time_now R g2) (brk R ?n g))"
        "gw_cluster g3 = None"
      using brk_failed_local[OF g2(2), of R ?n] g2(1) by (simp_all add: g3_def)
    show ?thesis
    proof (cases "failures_left (brk R ?n g) \<le> 1")
      case True
      then have "st b \<noteq> CLOSED" using record_failure_trips[OF True] g3 by (simp add: b_def)
      then show ?thesis using Suc.prems eq by auto
    next
      case False
      then have "failures_left b = failures_left (brk R ?n g) - 1"
        using record_failure_counts_down g3 by (simp add: b_def)
      then show ?thesis
        using Suc.IH[of "Suc retry" "ats @ [a]" "put_brk ?n b g3"] Suc.prems eq g3 False
        by (auto split: if_splits)
    qed
  qed
qed

lemma walk_all_open:
  assumes "\<forall>d \<in> set ds. st (brk R (dep_name d) g) = OPEN
             \<and> time_now R g - opened_at (brk R (dep_name d) g) < cooldown_seconds (brk R (dep_name d) g)"
  shows "fst (walk_chain R trial route ds ats g) = Inl (AllProvidersFailed route (ats @ map skipped_attempt ds))
         \<and> gw_world (snd (walk_chain R trial route ds ats g)) = gw_world g
         \<and> gw_counters (snd (walk_chain R trial route ds ats g)) = gw_counters g"
  using assms
proof (induction ds arbitrary: ats g)
  case (Cons d ds)
  let ?g = "ensure_breaker R (dep_name d) g" and ?b = "brk R (dep_name d) g"
  have "allow_request (time_now R ?g) ?b = (False, ?b)"
    using Cons.prems by (simp add: allow_request_def read_state_running time_now_def Let_def)
  then have al: "brk_allow R (dep_name d) ?g = (False, put_brk (dep_name d) ?b ?g)"
    by (simp add: brk_allow_def)
  have "brk R n (put_brk (dep_name d) ?b ?g) = brk R n g" for n by simp
  then show ?case
    using Cons.IH[of "put_brk (dep_name d) ?b ?g" "ats @ [skipped_attempt d]"] Cons.prems al
    by (simp add: time_now_def)
qed simp

section \<open>What a rejection and a failed walk leave behind\<close>

definition counters_frame :: "('w gateway \<Rightarrow> 'a \<times> 'w gateway) \<Rightarrow> bool" where
  "counters_frame f \<longleftrightarrow> (\<forall>g. gw_counters (snd (f g)) = gw_counters g)"

lemma brk_ops_counters [simp, breaker_simps]:
  "gw_counters (snd (brk_allow R n g)) = gw_counters g" "gw_counters (snd (brk_failed R n g)) = gw_counters g"
  "gw_counters (brk_succeeded R n g) = gw_counters g" "gw_counters (snd (brk_tripped R n g)) = gw_counters g"
  "gw_counters (backoff_pause R k g) = gw_counters g"
  by (auto simp: brk_allow_def brk_failed_def brk_succeeded_def brk_tripped_def backoff_pause_def
      split_beta Let_def split: option.splits)

lemma sync_names_counters [simp]: "gw_counters (snd (sync_names R ns g)) = gw_counters g"
  by (simp add: sync_names_def split_beta split: option.splits)

lemma fold_ensure_counters [simp]: "gw_counters (fold (\<lambda>d. ensure_breaker R (dep_name d)) ds g) = gw_counters g"
  by (induction ds arbitrary: g) simp_all

lemma prepare_chain_counters: "gw_counters (snd (prepare_chain R chain g)) = gw_counters g"
  by (simp add: prepare_chain_def)

lemma inject_counters:
  "counters_frame run \<Longrightarrow> gw_counters (snd (inject_fault R m run g)) = gw_counters g"
  by (auto simp: inject_fault_def counters_frame_def split_beta Let_def split: option.splits)

lemma retry_loop_counters:
  assumes "counters_frame run"
  shows "gw_counters (snd (snd (retry_loop R d run settle tmo stp left retry ats g))) = gw_counters g"
proof (induction left arbitrary: retry ats g)
  case (Suc left)
  obtain c g2 where c: "inject_fault R (dep_name d) run (backoff_pause R retry g) = (c, g2)"
    by (cases "inject_fault R (dep_name d) run (backoff_pause R retry g)")
  have "gw_counters g2 = gw_counters g"
    using inject_counters[OF assms, of R "dep_name d" "backoff_pause R retry g"] c by simp
  then show ?case using c Suc
    by (cases c) (auto simp: Let_def split_beta split: bool.splits)
qed simp

lemma call_with_retries_counters: "gw_counters (snd (snd (call_with_retries R req d ats g))) = gw_counters g"
proof -
  have "counters_frame (complete_once R p d req)" for p
    by (simp add: counters_frame_def complete_once_def split_beta)
  from retry_loop_counters[OF this] show ?thesis by (auto simp: call_with_retries_def split: option.splits)
qed

lemma walk_counters:
  assumes "\<And>d ats g. gw_counters (snd (snd (trial d ats g))) = gw_counters g"
  shows "gw_counters (snd (walk_chain R trial route ds ats g)) = gw_counters g"
proof (induction ds arbitrary: ats g)
  case (Cons d ds)
  then show ?case
    using assms by (auto simp: Let_def split_beta split: tried.splits)
qed simp

definition rejection_clears :: "'w router \<Rightarrow> string \<Rightarrow> attempt list \<Rightarrow> 'w gateway \<Rightarrow> bool" where
  "rejection_clears R msg ats g \<longleftrightarrow>
     ats \<noteq> [] \<and> att_outcome (last ats) = ClientError \<and> att_error (last ats) = Some msg
     \<and> st (brk R (att_deployment (last ats)) g) = CLOSED
     \<and> consecutive_failures (brk R (att_deployment (last ats)) g) = 0"

lemma retry_loop_rejected:
  "retry_loop R d run settle tmo stp left retry ats g = (Rejected msg, ats', g') \<Longrightarrow> rejection_clears R msg ats' g'"
proof (induction left arbitrary: retry ats g)
  case (Suc left)
  obtain c g2 where c: "inject_fault R (dep_name d) run (backoff_pause R retry g) = (c, g2)"
    by (cases "inject_fault R (dep_name d) run (backoff_pause R retry g)")
  show ?case
    using Suc.prems Suc.IH c
    by (cases c) (auto simp: Let_def split_beta rejection_clears_def brk_succeeded_closes
        split: bool.splits if_splits)
qed simp

lemma walk_rejected:
  "walk_chain R (call_with_retries R req) route ds ats g = (Inl (ClientRequestError msg ats'), g')
     \<Longrightarrow> ats' \<noteq> [] \<and> att_outcome (last ats') = ClientError \<and> att_error (last ats') = Some msg
         \<and> st (brk R (att_deployment (last ats')) g') = CLOSED
         \<and> consecutive_failures (brk R (att_deployment (last ats')) g') = 0"
proof (induction ds arbitrary: ats g)
  case (Cons d ds)
  have rej: "rejection_clears R msg ats1 g1" if "call_with_retries R req d a g0 = (Rejected msg, ats1, g1)" for a g0 ats1 g1
    using that retry_loop_rejected by (auto simp: call_with_retries_def split: option.splits)
  obtain ok g1 where ok: "brk_allow R (dep_name d) (ensure_breaker R (dep_name d) g) = (ok, g1)"
    by (cases "brk_allow R (dep_name d) (ensure_breaker R (dep_name d) g)")
  obtain r ats1 g2 where r: "call_with_retries R req d ats g1 = (r, ats1, g2)"
    by (cases "call_with_retries R req d ats g1")
  show ?case
  proof (cases "ok \<and> (\<exists>m. r = Rejected m)")
    case True
    then have "r = Rejected msg" "ats' = ats1" "g' = g2" using Cons.prems ok r by auto
    then show ?thesis using rej[of ats g1 ats1 g2] r unfolding rejection_clears_def by simp
  next
    case False
    then show ?thesis using Cons.prems Cons.IH ok r by (auto split: tried.splits if_splits)
  qed
qed simp

section \<open>Properties\<close>

text \<open>C1: A complete call falls back strictly in chain order. The attempts it reports are those of the
  chain's deployments one after another: each deployment before the one that ended the call either
  was skipped because its breaker refused or failed on each of at least one and at most
  \<open>max_retries + 1\<close> tries; the answering deployment's last attempt is its only success; a rejected
  request ends the walk at once; and when all fail, every deployment of the chain is accounted for.\<close>

theorem complete_falls_back_in_order:
  assumes "dict_get config (req_model req) = Some chain" and "\<forall>d \<in> set chain. valid_deployment d"
  shows "case fst (router_complete R req config g) of
           Inr res \<Rightarrow> reached Success chain [] (rr_deployment res) (rr_attempts res)
                      \<and> rr_cost res = compute_cost (price_map_of (r_env R)) (rr_deployment res)
                                        (resp_usage (rr_response res))
         | Inl (ClientRequestError m ats) \<Rightarrow> \<exists>d. reached ClientError chain [] d ats
         | Inl (AllProvidersFailed a ats) \<Rightarrow> a = req_model req \<and> all_gave_up chain [] ats
         | Inl (UnknownModel m) \<Rightarrow> True
         | Inl (SyncError e) \<Rightarrow> gw_cluster g \<noteq> None"
proof -
  obtain e g1 where p: "prepare_chain R chain g = (e, g1)" by (cases "prepare_chain R chain g")
  have sync: "e = None" if "gw_cluster g = None"
    using p that by (simp add: prepare_chain_def)
  have "walk_result (req_model req) chain [] (fst (walk_chain R (call_with_retries R req) (req_model req) chain [] g1))"
    by (rule complete_trial.walk_in_order) (use assms(2) in \<open>auto simp: valid_deployment_def\<close>)
  then show ?thesis
    using assms(1) p sync
    by (cases "walk_chain R (call_with_retries R req) (req_model req) chain [] g1"; cases e)
      (auto simp: router_complete_def route_request_def walk_result_def Let_def
        split: sum.splits route_error.splits)
qed

text \<open>A small gateway to exercise the properties on: \<open>bad\<close> always fails with a retryable error, \<open>good\<close>
  answers, \<open>picky\<close> rejects every request, over a world that never changes.\<close>

definition ex_deployment :: "string \<Rightarrow> string \<Rightarrow> int \<Rightarrow> deployment" where
  "ex_deployment name provider retries =
     \<lparr>dep_name = name, dep_provider = provider, dep_model = ''m'', dep_api_base = None, dep_timeout = None,
      max_retries = retries, dep_pricing = Some \<lparr>input_per_mtok = 1, output_per_mtok = 2\<rparr>,
      self_hosted = False, dep_options = []\<rparr>"

definition ex_response :: provider_response where
  "ex_response = \<lparr>resp_content = ''hi there'', resp_usage = \<lparr>prompt_tokens = 1, completion_tokens = 2\<rparr>,
                  resp_model = ''m'', resp_finish = ''stop''\<rparr>"

definition ex_env :: "keyspace env" where
  "ex_env = doc_env\<lparr>adapters :=
     [(''bad'', \<lparr>adapter_complete = (\<lambda>d r t w. (ProviderError ''503'' True (Some 503), w)), adapter_stream = None\<rparr>),
      (''good'', \<lparr>adapter_complete = (\<lambda>d r t w. (Returned ex_response, w)), adapter_stream = None\<rparr>),
      (''picky'', \<lparr>adapter_complete = (\<lambda>d r t w. (ProviderError ''bad request'' False (Some 400), w)),
                  adapter_stream = None\<rparr>)]\<rparr>"

definition ex_breaker :: breaker where
  "ex_breaker = \<lparr>failure_threshold = 3, cooldown_seconds = 30, st = CLOSED, consecutive_failures = 0,
                 opened_at = 0, probe_in_flight = False\<rparr>"

definition ex_router :: "keyspace router" where
  "ex_router = \<lparr>r_env = ex_env, r_config = [], r_default_timeout = 30, r_breaker = ex_breaker\<rparr>"

definition ex_gateway :: "keyspace gateway" where
  "ex_gateway = \<lparr>gw_world = Map.empty, gw_breakers = [], gw_cluster = None, gw_faults = None, gw_counters = []\<rparr>"

definition ex_request :: chat_request where
  "ex_request = \<lparr>req_model = ''r'', messages = [\<lparr>msg_role = User, msg_content = ''hello''\<rparr>],
                 temperature = None, max_tokens = None, streamed = False, use_cache = True\<rparr>"

lemmas ex_defs = ex_deployment_def ex_response_def ex_env_def ex_breaker_def ex_router_def
  ex_gateway_def ex_request_def doc_env_def

lemmas retry_eval = call_with_retries_def inject_fault_def complete_once_def backoff_pause_def
  timeout_of_def effective_timeout_def failure_text_def brk_failed_def brk_tripped_def brk_succeeded_def
  brk_allow_def brk_def put_brk_def ensure_breaker_def time_now_def elapsed_ms_def
  record_failure_def read_state_def record_success_def allow_request_def Let_def

lemma complete_falls_back_in_order_witness:
  "\<exists>res. fst (router_complete ex_router ex_request
            [(''r'', [ex_deployment ''a'' ''bad'' 1, ex_deployment ''b'' ''good'' 0])] ex_gateway) = Inr res
     \<and> dep_name (rr_deployment res) = ''b'' \<and> map att_deployment (rr_attempts res) = [''a'', ''a'', ''b'']
     \<and> reached Success [ex_deployment ''a'' ''bad'' 1, ex_deployment ''b'' ''good'' 0] []
         (rr_deployment res) (rr_attempts res)"
proof -
  let ?ds = "[ex_deployment ''a'' ''bad'' 1, ex_deployment ''b'' ''good'' 0]"
  have chain: "dict_get [(''r'', ?ds)] (req_model ex_request) = Some ?ds"
    by (simp add: ex_request_def)
  have valid: "\<forall>d \<in> set ?ds. valid_deployment d"
    by (simp add: ex_deployment_def valid_deployment_def)
  obtain res where res: "fst (router_complete ex_router ex_request [(''r'', ?ds)] ex_gateway) = Inr res"
      "dep_name (rr_deployment res) = ''b''" "map att_deployment (rr_attempts res) = [''a'', ''a'', ''b'']"
    by (simp add: router_complete_def route_request_def prepare_chain_def retry_eval ex_defs numeral_2_eq_2)
  then show ?thesis
    using complete_falls_back_in_order[OF chain valid, where R = ex_router and g = ex_gateway] by auto
qed

text \<open>A deployment is not hammered past the point where its breaker trips. Within one request, with
  the breakers not shared, the attempts on a deployment number at most the failures its breaker had
  left before tripping, and exactly one when the breaker is half-open or open, however many retries
  are configured.\<close>

theorem retries_stop_when_the_breaker_trips:
  assumes "call_with_retries R req d [] g = (r, ats, g')" and "gw_cluster g = None"
    and "1 \<le> failures_left (brk R (dep_name d) g)"
  shows "int (length ats) \<le> failures_left (brk R (dep_name d) g)"
  using assms retry_loop_bounded_by_breaker[OF complete_once_frame, where R = R and d = d and g = g and ats = "[]"]
  by (fastforce simp: call_with_retries_def split: option.splits)

lemma retries_stop_when_the_breaker_trips_witness:
  "\<exists>ats g'. call_with_retries ex_router ex_request (ex_deployment ''a'' ''bad'' 5) [] ex_gateway
            = (Exhausted, ats, g') \<and> int (length ats) \<le> 3"
proof -
  obtain r ats g' where r: "call_with_retries ex_router ex_request (ex_deployment ''a'' ''bad'' 5) [] ex_gateway
      = (r, ats, g')" and "r = Exhausted"
    by (simp add: retry_eval ex_defs eval_nat_numeral)
  moreover have "failures_left (brk ex_router (dep_name (ex_deployment ''a'' ''bad'' 5)) ex_gateway) = 3"
    by (simp add: failures_left_def brk_def ex_defs)
  ultimately show ?thesis
    using retries_stop_when_the_breaker_trips[OF r] by (simp add: ex_gateway_def)
qed

text \<open>When every breaker of the chain is open and cooling down, a request costs nothing: no provider
  is called and the outside world is untouched, and the caller gets one skipped attempt per
  deployment.\<close>

theorem open_circuits_spare_the_providers:
  assumes "dict_get config (req_model req) = Some chain" and "gw_cluster g = None"
    and "\<forall>d \<in> set chain. st (brk R (dep_name d) g) = OPEN
           \<and> time_now R g - opened_at (brk R (dep_name d) g) < cooldown_seconds (brk R (dep_name d) g)"
  shows "fst (router_complete R req config g)
           = Inl (AllProvidersFailed (req_model req) (map skipped_attempt chain))
         \<and> gw_world (snd (router_complete R req config g)) = gw_world g
         \<and> gw_counters (snd (router_complete R req config g)) = gw_counters g"
  using walk_all_open[OF assms(3), where trial = "call_with_retries R req" and route = "req_model req" and ats = "[]"]
    assms(1,2)
  by (simp add: router_complete_def route_request_def prepare_chain_def split_beta Let_def)

lemma open_circuits_spare_the_providers_witness:
  "fst (router_complete ex_router ex_request [(''r'', [ex_deployment ''a'' ''bad'' 1])]
          (ex_gateway\<lparr>gw_breakers := [(''a'', ex_breaker\<lparr>st := OPEN\<rparr>)]\<rparr>))
     = Inl (AllProvidersFailed ''r'' [skipped_attempt (ex_deployment ''a'' ''bad'' 1)])"
  using open_circuits_spare_the_providers[where config = "[(''r'', [ex_deployment ''a'' ''bad'' 1])]"
      and req = ex_request and chain = "[ex_deployment ''a'' ''bad'' 1]" and R = ex_router
      and g = "ex_gateway\<lparr>gw_breakers := [(''a'', ex_breaker\<lparr>st := OPEN\<rparr>)]\<rparr>"]
  by (simp add: ex_defs brk_def time_now_def)

text \<open>A request the provider itself rejects is the caller's fault, not the provider's: the rejection
  is the call's last attempt, the breaker of the deployment that rejected it ends closed with its
  failure count cleared, and no tokens or cost are counted.\<close>

theorem client_error_clears_the_breaker:
  assumes "router_complete R req config g = (Inl (ClientRequestError msg ats), g')"
  shows "ats \<noteq> [] \<and> att_outcome (last ats) = ClientError \<and> att_error (last ats) = Some msg
         \<and> st (brk R (att_deployment (last ats)) g') = CLOSED
         \<and> consecutive_failures (brk R (att_deployment (last ats)) g') = 0
         \<and> gw_counters g' = gw_counters g"
proof -
  obtain chain where chain: "dict_get config (req_model req) = Some chain"
    using assms by (auto simp: router_complete_def route_request_def split: option.splits)
  obtain e g1 where prep: "prepare_chain R chain g = (e, g1)" by (cases "prepare_chain R chain g")
  have "walk_chain R (call_with_retries R req) (req_model req) chain [] g1 = (Inl (ClientRequestError msg ats), g')"
    using assms chain prep by (auto simp: router_complete_def route_request_def Let_def
        split: option.splits sum.splits prod.splits)
  note p = chain prep this
  have "gw_counters g1 = gw_counters g" using p(2) prepare_chain_counters[of R chain g] by simp
  then show ?thesis
    using walk_rejected[OF p(3)] walk_counters[where trial = "call_with_retries R req", OF call_with_retries_counters,
        where R = R and route = "req_model req" and ds = chain and ats = "[]" and g = g1] p(3)
    by simp
qed

lemma client_error_clears_the_breaker_witness:
  "\<exists>ats g'. router_complete ex_router ex_request [(''r'', [ex_deployment ''a'' ''picky'' 2])]
              (ex_gateway\<lparr>gw_breakers := [(''a'', ex_breaker\<lparr>consecutive_failures := 2\<rparr>)]\<rparr>)
            = (Inl (ClientRequestError ''bad request'' ats), g')
     \<and> st (brk ex_router ''a'' g') = CLOSED \<and> consecutive_failures (brk ex_router ''a'' g') = 0"
proof -
  obtain ats g' where r: "router_complete ex_router ex_request [(''r'', [ex_deployment ''a'' ''picky'' 2])]
              (ex_gateway\<lparr>gw_breakers := [(''a'', ex_breaker\<lparr>consecutive_failures := 2\<rparr>)]\<rparr>)
            = (Inl (ClientRequestError ''bad request'' ats), g')" "map att_deployment ats = [''a'']"
    by (simp add: router_complete_def route_request_def prepare_chain_def retry_eval ex_defs eval_nat_numeral)
  then have "att_deployment (last ats) = ''a''" by (cases ats) auto
  then show ?thesis using r client_error_clears_the_breaker[OF r(1)] by auto
qed

end
