(* ===== verification/Router_Stream.thy ===== *)
theory Router_Stream
  imports Router
begin

text \<open>
  Streams through the router (\<open>open_stream\<close>, \<open>_open_with_retries\<close>, \<open>_relay\<close> and their helpers in
  \<open>app/gateway/router.py\<close>). Until the first token a stream retries and falls back like a complete
  answer, with \<open>retry_loop\<close> and \<open>walk_chain\<close> of theory \<open>Router\<close> over another way to try a deployment
  once. After it the choice is locked in and \<open>relay\<close> passes the rest on; the client may hang up at any
  delta it is handed, which closes the generator there (\<open>GeneratorExit\<close> at the \<open>yield\<close>).
\<close>

section \<open>Opening a stream\<close>

record open_stream =
  os_deployment :: deployment
  os_model :: string
  os_attempts :: "attempt list"
  os_first :: stream_delta
  os_rest :: stream_events
  os_ttft :: real
  os_prompt_estimate :: int
  os_synthesized :: bool
  os_usage :: usage
  os_finish :: string
  os_cost :: real
  os_usage_estimated :: bool
  os_reported :: bool
  os_settled :: bool

definition delta :: "string \<Rightarrow> string \<Rightarrow> stream_delta" where
  "delta content model = \<lparr>delta_content = content, delta_finish = None, delta_usage = None, delta_model = Some model\<rparr>"

definition chunk_completion :: "provider_response \<Rightarrow> nat \<Rightarrow> stream_delta \<times> stream_events" where
  "chunk_completion resp k =
     (let ps = (if pieces k (resp_content resp) = [] then [[]] else pieces k (resp_content resp)) in
      (delta (hd ps) (resp_model resp),
       map (\<lambda>p. (0, Returned (delta p (resp_model resp)))) (tl ps)
         @ [(0, Returned \<lparr>delta_content = [], delta_finish = Some (resp_finish resp),
                         delta_usage = Some (resp_usage resp), delta_model = Some (resp_model resp)\<rparr>)]))"

text \<open>One try: the first token and the iterator with the rest. An adapter without \<open>stream\<close> completes, and
  its answer is cut into a stream.\<close>

definition open_once ::
  "'w router \<Rightarrow> 'w provider \<Rightarrow> deployment \<Rightarrow> chat_request \<Rightarrow> ('w, stream_delta \<times> stream_events \<times> bool) once" where
  "open_once R p d req g =
     (case adapter_stream p of
        None \<Rightarrow>
          (let (r, w) = adapter_complete p d req (timeout_of R d) (gw_world g); g' = g\<lparr>gw_world := w\<rparr> in
           case r of
             Returned resp \<Rightarrow> (let (first, es) = chunk_completion resp 24 in (Returned (first, es, True), g'))
           | Stopped \<Rightarrow> (Stopped, g')
           | TimedOut \<Rightarrow> (TimedOut, g')
           | ProviderError m retryable code \<Rightarrow> (ProviderError m retryable code, g')
           | Crashed ty m \<Rightarrow> (Crashed ty m, g'))
      | Some stream \<Rightarrow>
          (let (es, w1) = stream d req (gw_world g);
               (r, es', w2) = pull_next (r_env R) (timeout_of R d) es w1;
               g' = g\<lparr>gw_world := w2\<rparr>
           in case r of
             Returned first \<Rightarrow> (Returned (first, es', False), g')
           | Stopped \<Rightarrow> (Stopped, g')
           | TimedOut \<Rightarrow> (TimedOut, g')
           | ProviderError m retryable code \<Rightarrow> (ProviderError m retryable code, g')
           | Crashed ty m \<Rightarrow> (Crashed ty m, g')))"

definition open_with_retries ::
  "'w router \<Rightarrow> chat_request \<Rightarrow> deployment \<Rightarrow> attempt list \<Rightarrow> 'w gateway
     \<Rightarrow> (stream_delta \<times> stream_events \<times> bool) tried \<times> attempt list \<times> 'w gateway" where
  "open_with_retries R req d ats g =
     (case dict_get (adapters (r_env R)) (dep_provider d) of
        None \<Rightarrow> (NoAdapter (no_adapter d), ats, g)
      | Some p \<Rightarrow>
          retry_loop R d (open_once R p d req) False
            (''no first token within '' @ show_float (r_env R) (timeout_of R d) @ ''s'')
            ''stream ended before any token'' (nat (max_retries d + 1)) 0 ats g)"

text \<open>\<open>first.model or dep.model\<close>; the time to the first token is the latency noted for the attempt.\<close>

definition opened_from ::
  "chat_request \<Rightarrow> stream_delta \<Rightarrow> stream_events \<Rightarrow> bool \<Rightarrow> deployment \<Rightarrow> attempt list \<Rightarrow> open_stream" where
  "opened_from req first es synth d ats =
     \<lparr>os_deployment = d, os_model = or_str (delta_model first) (dep_model d), os_attempts = ats,
      os_first = first, os_rest = es, os_ttft = att_latency (last ats), os_prompt_estimate = prompt_words req,
      os_synthesized = synth, os_usage = no_usage, os_finish = ''stop'', os_cost = 0,
      os_usage_estimated = False, os_reported = False, os_settled = False\<rparr>"

definition router_open_stream ::
  "'w router \<Rightarrow> chat_request \<Rightarrow> routes \<Rightarrow> 'w gateway \<Rightarrow> (route_error + open_stream) \<times> 'w gateway" where
  "router_open_stream R req config g =
     (let (r, g1) = route_request R (open_with_retries R req) config req g in
      case r of
        Inl e \<Rightarrow> (Inl e, g1)
      | Inr ((first, es, synth), d, ats) \<Rightarrow> (Inr (opened_from req first es synth d ats), g1))"

section \<open>Relaying the rest\<close>

definition absorb :: "stream_delta \<Rightarrow> open_stream \<Rightarrow> open_stream" where
  "absorb x os =
     (let os1 = (case delta_usage x of Some u \<Rightarrow> os\<lparr>os_usage := u, os_reported := True\<rparr> | None \<Rightarrow> os);
          os2 = (case delta_finish x of Some f \<Rightarrow> os1\<lparr>os_finish := f\<rparr> | None \<Rightarrow> os1)
      in (case delta_model x of Some m \<Rightarrow> if m = [] then os2 else os2\<lparr>os_model := m\<rparr> | None \<Rightarrow> os2))"

definition estimate :: "'w router \<Rightarrow> int \<Rightarrow> open_stream \<Rightarrow> open_stream" where
  "estimate R words os =
     (if os_reported os then os
      else (let u = \<lparr>prompt_tokens = os_prompt_estimate os, completion_tokens = words\<rparr> in
            os\<lparr>os_usage := u, os_usage_estimated := True,
               os_cost := compute_cost (price_map_of (r_env R)) (os_deployment os) u\<rparr>))"

definition settle_stream :: "'w router \<Rightarrow> string \<Rightarrow> open_stream \<Rightarrow> 'w gateway \<Rightarrow> open_stream \<times> 'w gateway" where
  "settle_stream R sofar os g =
     (if os_settled os then (os, g)
      else
        (let os1 = os\<lparr>os_settled := True\<rparr>;
             os2 = (if os_reported os1 then os1\<lparr>os_usage_estimated := False\<rparr>
                    else os1\<lparr>os_usage := \<lparr>prompt_tokens = os_prompt_estimate os1, completion_tokens = word_count sofar\<rparr>,
                             os_usage_estimated := True\<rparr>);
             cost = compute_cost (price_map_of (r_env R)) (os_deployment os2) (os_usage os2);
             os3 = os2\<lparr>os_cost := cost\<rparr>
         in (os3, count_tokens (dep_name (os_deployment os3)) (os_usage os3) cost g)))"

definition record_interruption :: "'w router \<Rightarrow> string \<Rightarrow> open_stream \<Rightarrow> 'w gateway \<Rightarrow> open_stream \<times> 'w gateway" where
  "record_interruption R err os g =
     (let name = dep_name (os_deployment os);
          os1 = os\<lparr>os_attempts := os_attempts os
                    @ [\<lparr>att_deployment = name, att_outcome = Interrupted, att_latency = 0, att_error = Some err\<rparr>]\<rparr>;
          (opened, g1) = brk_failed R name g
      in (os1, g1))"

definition relay_error :: "'w router \<Rightarrow> deployment \<Rightarrow> 'a call \<Rightarrow> string" where
  "relay_error R d r =
     (case r of
        ProviderError m retryable code \<Rightarrow> ''ProviderError: '' @ m
      | Crashed ty m \<Rightarrow> ty @ '': '' @ m
      | _ \<Rightarrow> ''stalled for more than '' @ show_float (r_env R) (timeout_of R d) @ ''s'')"

text \<open>How the relay ended: the stream ran out, it broke (with the error and the text already delivered) or
  the client hung up (with the stream object as it was then, before the closing generator settles it).
  \<open>hang = Some n\<close> means the client hangs up at the delta after the next \<open>n\<close>.\<close>

datatype stream_end = Completed | Broken string string | HungUp open_stream

lemma pull_next_shorter [termination_simp]:
  "pull_next env tmo es w = (Returned x, es', w') \<Longrightarrow> length es' < length es"
  by (cases "(env, tmo, es, w)" rule: pull_next.cases) (auto split: if_splits)

function relay_loop ::
  "'w router \<Rightarrow> nat option \<Rightarrow> string \<Rightarrow> int \<Rightarrow> stream_events \<Rightarrow> open_stream \<Rightarrow> 'w gateway
     \<Rightarrow> stream_delta list \<times> stream_end \<times> open_stream \<times> 'w gateway" where
  "relay_loop R hang sofar words es os g =
     (let d = os_deployment os in
      case pull_next (r_env R) (timeout_of R d) es (gw_world g) of (r, es', w) \<Rightarrow>
      let g1 = g\<lparr>gw_world := w\<rparr> in
      case r of
        Stopped \<Rightarrow>
          (let g2 = brk_succeeded R (dep_name d) g1; (os1, g3) = settle_stream R sofar os g2;
               (os2, g4) = settle_stream R sofar os1 g3
           in ([], Completed, os2, g4))
      | Returned x \<Rightarrow>
          (let os1 = absorb x os in
           if delta_content x = [] then relay_loop R hang sofar words es' os1 g1
           else
             (let words' = words + int (count_char CHR '' '' (delta_content x));
                  sofar' = sofar @ delta_content x;
                  os2 = estimate R words' os1
              in if hang = Some 0
                 then (let (os3, g2) = settle_stream R sofar' os2 g1 in ([x], HungUp os2, os3, g2))
                 else (let (ys, fin, os3, g2) =
                             relay_loop R (map_option (\<lambda>n. n - 1) hang) sofar' words' es' os2 g1
                       in (x # ys, fin, os3, g2))))
      | _ \<Rightarrow>
          (let err = relay_error R d r;
               (os1, g2) = settle_stream R sofar os g1;
               (os2, g3) = record_interruption R err os1 g2;
               (os3, g4) = settle_stream R sofar os2 g3
           in ([], Broken err sofar, os3, g4)))"
  by pat_completeness auto
termination by (relation "measure (\<lambda>(R, hang, sofar, words, es, os, g). length es)") (auto dest: pull_next_shorter[OF sym])

declare relay_loop.simps [simp del]

text \<open>Settling a stream twice is settling it once, so the \<open>finally\<close> only matters when the client hung up.\<close>

lemma settle_stream_settled: "os_settled os \<Longrightarrow> settle_stream R sofar os g = (os, g)"
  by (simp add: settle_stream_def)

lemma settle_stream_settles: "settle_stream R sofar os g = (os1, g1) \<Longrightarrow> os_settled os1"
  by (auto simp: settle_stream_def Let_def split: if_splits)

lemma record_interruption_settled: "record_interruption R err os g = (os1, g1) \<Longrightarrow> os_settled os1 = os_settled os"
  by (auto simp: record_interruption_def Let_def split: prod.splits)

lemma relay_loop_unfold:
  "relay_loop R hang sofar words es os g =
     (let d = os_deployment os in
      case pull_next (r_env R) (timeout_of R d) es (gw_world g) of (r, es', w) \<Rightarrow>
      let g1 = g\<lparr>gw_world := w\<rparr> in
      case r of
        Stopped \<Rightarrow>
          (let g2 = brk_succeeded R (dep_name d) g1; (os1, g3) = settle_stream R sofar os g2
           in ([], Completed, os1, g3))
      | Returned x \<Rightarrow>
          (let os1 = absorb x os in
           if delta_content x = [] then relay_loop R hang sofar words es' os1 g1
           else
             (let words' = words + int (count_char CHR '' '' (delta_content x));
                  sofar' = sofar @ delta_content x;
                  os2 = estimate R words' os1
              in if hang = Some 0
                 then (let (os3, g2) = settle_stream R sofar' os2 g1 in ([x], HungUp os2, os3, g2))
                 else (let (ys, fin, os3, g2) =
                             relay_loop R (map_option (\<lambda>n. n - 1) hang) sofar' words' es' os2 g1
                       in (x # ys, fin, os3, g2))))
      | _ \<Rightarrow>
          (let err = relay_error R d r;
               (os1, g2) = settle_stream R sofar os g1;
               (os2, g3) = record_interruption R err os1 g2
           in ([], Broken err sofar, os2, g3)))"
proof -
  have twice: "(let (os1, g3) = settle_stream R sofar os x; (os2, g4) = settle_stream R sofar os1 g3 in ([], Completed, os2, g4))
      = (let (os1, g3) = settle_stream R sofar os x in ([], Completed, os1, g3))" for x
    by (cases "settle_stream R sofar os x") (simp add: settle_stream_settled[OF settle_stream_settles])
  have broken: "(let (os1, g2) = settle_stream R sofar os x; (os2, g3) = record_interruption R err os1 g2; (os3, g4) = settle_stream R sofar os2 g3
        in ([], Broken err sofar, os3, g4))
      = (let (os1, g2) = settle_stream R sofar os x; (os2, g3) = record_interruption R err os1 g2 in ([], Broken err sofar, os2, g3))" for err x
  proof (cases "settle_stream R sofar os x")
    case (Pair os1 g1)
    then show ?thesis
      using settle_stream_settles[OF Pair] record_interruption_settled[of R err os1 g1]
      by (cases "record_interruption R err os1 g1") (simp add: settle_stream_settled)
  qed
  show ?thesis
    by (subst relay_loop.simps) (simp only: Let_def twice[unfolded Let_def] broken[unfolded Let_def])
qed

definition first_words :: "string \<Rightarrow> int" where
  "first_words s = int (count_char CHR '' '' s) + (if s = [] then 0 else 1)"

definition relay ::
  "'w router \<Rightarrow> nat option \<Rightarrow> open_stream \<Rightarrow> 'w gateway
     \<Rightarrow> stream_delta list \<times> stream_end \<times> open_stream \<times> 'w gateway" where
  "relay R hang os g =
     (let sofar = delta_content (os_first os); words = first_words sofar
      in relay_loop R hang sofar words (os_rest os) (estimate R words (absorb (os_first os) os)) g)"

text \<open>A client of the opened stream: \<open>hang = Some 0\<close> leaves at the first chunk, before the generator of the relay
  has started, so that none of its code runs.\<close>

definition drain ::
  "'w router \<Rightarrow> nat option \<Rightarrow> open_stream \<Rightarrow> 'w gateway
     \<Rightarrow> stream_delta list \<times> stream_end \<times> open_stream \<times> 'w gateway" where
  "drain R hang os g =
     (if hang = Some 0 then ([], HungUp os, os, g) else relay R (map_option (\<lambda>n. n - 1) hang) os g)"

section \<open>Opening keeps the contract of a trial\<close>

lemma open_with_retries_trial:
  assumes "0 \<le> max_retries d" and "open_with_retries R req d ats g = (r, ats', g')"
  shows "\<exists>s. ats' = ats @ s
        \<and> (case r of
             Answered x \<Rightarrow> ended Success d s
           | Exhausted \<Rightarrow> s \<noteq> [] \<and> length s \<le> tries d \<and> (\<forall>a \<in> set s. failed_attempt d a)
           | Rejected m \<Rightarrow> ended ClientError d s
           | NoAdapter m \<Rightarrow> s = [])"
proof (cases "dict_get (adapters (r_env R)) (dep_provider d)")
  case None
  then show ?thesis using assms(2) by (auto simp: open_with_retries_def)
next
  case (Some p)
  show ?thesis
    by (rule retry_loop_trial[OF assms(1), where R = R and run = "open_once R p d req"])
      (use assms(2) Some in \<open>simp add: open_with_retries_def\<close>)
qed

interpretation stream_trial: deployment_trial "open_with_retries R req" for R req
  by unfold_locales (rule open_with_retries_trial)

lemma open_with_retries_counters: "gw_counters (snd (snd (open_with_retries R req d ats g))) = gw_counters g"
proof -
  have "counters_frame (open_once R p d req)" for p
    by (auto simp: counters_frame_def open_once_def split_beta Let_def split: option.splits call.splits)
  from retry_loop_counters[OF this] show ?thesis by (auto simp: open_with_retries_def split: option.splits)
qed

section \<open>What a relay leaves behind\<close>

lemma absorb_fields [simp]:
  "os_deployment (absorb x os) = os_deployment os" "os_settled (absorb x os) = os_settled os"
  "os_attempts (absorb x os) = os_attempts os" "os_prompt_estimate (absorb x os) = os_prompt_estimate os"
  by (auto simp: absorb_def Let_def split: option.splits)

lemma estimate_fields [simp]:
  "os_deployment (estimate R n os) = os_deployment os" "os_settled (estimate R n os) = os_settled os"
  "os_attempts (estimate R n os) = os_attempts os" "os_prompt_estimate (estimate R n os) = os_prompt_estimate os"
  "os_reported (estimate R n os) = os_reported os" "os_finish (estimate R n os) = os_finish os"
  "os_model (estimate R n os) = os_model os"
  by (auto simp: estimate_def Let_def)

text \<open>The bill of a stream that delivered \<open>sofar\<close>.\<close>

definition billed :: "'w router \<Rightarrow> deployment \<Rightarrow> int \<Rightarrow> string \<Rightarrow> open_stream \<Rightarrow> metered list \<Rightarrow> metered list \<Rightarrow> bool" where
  "billed R d prompt sofar os before after \<longleftrightarrow>
     os_settled os \<and> os_deployment os = d
     \<and> after = before @ [\<lparr>m_deployment = dep_name d, m_usage = os_usage os, m_cost = os_cost os\<rparr>]
     \<and> os_cost os = compute_cost (price_map_of (r_env R)) d (os_usage os)
     \<and> os_usage_estimated os = (\<not> os_reported os)
     \<and> (\<not> os_reported os \<longrightarrow> os_usage os = \<lparr>prompt_tokens = prompt, completion_tokens = word_count sofar\<rparr>)"

text \<open>What a failure does when breakers are shared: without Redis it is the local breaker's, and with it the
  failure is pooled, or the circuit opened for every replica.\<close>

definition shared_failure :: "'w router \<Rightarrow> cluster \<Rightarrow> string \<Rightarrow> breaker \<Rightarrow> 'w \<Rightarrow> breaker \<Rightarrow> 'w \<Rightarrow> bool" where
  "shared_failure R c name b w b' w' \<longleftrightarrow>
     (let t = clk (r_env R) w; (opened, own) = record_failure t t b in
      (redis_down (redis (r_env R)) \<longrightarrow> b' = own)
      \<and> (\<forall>keys n. redis_ok (redis (r_env R)) keys \<and> pooled_count (keys w) name = Some n \<longrightarrow>
           (if opened \<or> cl_threshold c \<le> n + 1 then st b' = OPEN \<and> keys w' = opened_keys c name (keys w)
            else b' = own \<and> keys w' = pooled_keys c name (n + 1) (keys w))))"

text \<open>The verdict on the deployment: success when the stream ran out, failure when it broke, and none at
  all when the client hung up. The failure is recorded in the world the stream broke in, whose keys
  are those the relay started with unless they change while it waits.\<close>

definition same_keys :: "'w router \<Rightarrow> 'w \<Rightarrow> 'w \<Rightarrow> bool" where
  "same_keys R w w' \<longleftrightarrow> (\<forall>keys :: 'w \<Rightarrow> keyspace. (\<forall>t x. keys (sleep (r_env R) t x) = keys x) \<longrightarrow> keys w = keys w')"

definition verdict :: "'w router \<Rightarrow> string \<Rightarrow> stream_end \<Rightarrow> 'w gateway \<Rightarrow> 'w gateway \<Rightarrow> bool" where
  "verdict R name fin g g' \<longleftrightarrow>
     (case fin of
        Completed \<Rightarrow> st (brk R name g') = CLOSED \<and> consecutive_failures (brk R name g') = 0
          \<and> (\<forall>keys. gw_cluster g \<noteq> None \<and> redis_ok (redis (r_env R)) keys \<longrightarrow>
               keys (gw_world g') (FAILS name) = None \<and> keys (gw_world g') (OPEN_KEY name) = None)
      | Broken err sofar \<Rightarrow>
          (case gw_cluster g of
             None \<Rightarrow> brk R name g' = snd (record_failure (time_now R g') (time_now R g') (brk R name g))
           | Some c \<Rightarrow> \<exists>w. same_keys R w (gw_world g) \<and> shared_failure R c name (brk R name g) w (brk R name g') (gw_world g'))
      | HungUp seen \<Rightarrow> gw_breakers g' = gw_breakers g)"

definition relayed ::
  "'w router \<Rightarrow> string \<Rightarrow> open_stream \<Rightarrow> 'w gateway
     \<Rightarrow> stream_delta list \<times> stream_end \<times> open_stream \<times> 'w gateway \<Rightarrow> bool" where
  "relayed R sofar os g out \<longleftrightarrow>
     (case out of (ys, fin, os', g') \<Rightarrow>
        billed R (os_deployment os) (os_prompt_estimate os) (sofar @ concat (map delta_content ys)) os'
          (gw_counters g) (gw_counters g')
        \<and> verdict R (dep_name (os_deployment os)) fin g g'
        \<and> (\<forall>y \<in> set ys. delta_content y \<noteq> [])
        \<and> (\<forall>err t. fin = Broken err t \<longrightarrow> t = sofar @ concat (map delta_content ys)
             \<and> os_attempts os' = os_attempts os
                 @ [\<lparr>att_deployment = dep_name (os_deployment os), att_outcome = Interrupted,
                     att_latency = 0, att_error = Some err\<rparr>]))"

lemma settle_stream_billed:
  assumes "\<not> os_settled os" and "settle_stream R sofar os g = (os', g')"
  shows "billed R (os_deployment os) (os_prompt_estimate os) sofar os' (gw_counters g) (gw_counters g')
         \<and> gw_breakers g' = gw_breakers g \<and> gw_cluster g' = gw_cluster g \<and> gw_world g' = gw_world g
         \<and> os_attempts os' = os_attempts os"
  using assms by (auto simp: settle_stream_def billed_def Let_def count_tokens_def split: if_splits)

lemma brk_of_breakers: "gw_breakers g' = gw_breakers g \<Longrightarrow> brk R n g' = brk R n g"
  by (simp add: brk_def)

lemma brk_failed_shared:
  assumes "gw_cluster g = Some c"
  shows "shared_failure R c n (brk R n g) (gw_world g) (brk R n (snd (brk_failed R n g))) (gw_world (snd (brk_failed R n g)))"
proof -
  obtain opened b' w' where f: "cluster_failure (clk (r_env R)) (redis (r_env R)) c n (brk R n g) (gw_world g) = ((opened, b'), w')"
    by (metis prod.exhaust)
  then have g': "brk R n (snd (brk_failed R n g)) = b'" "gw_world (snd (brk_failed R n g)) = w'"
    using assms by (simp_all add: brk_failed_def)
  have "b' = snd (record_failure (clk (r_env R) (gw_world g)) (clk (r_env R) (gw_world g)) (brk R n g))"
    if "redis_down (redis (r_env R))"
    using cluster_down_is_local[OF that, of "[n]" "clk (r_env R)" c n "brk R n g" "gw_world g"] f by simp (metis snd_conv)
  moreover have "if fst (record_failure (clk (r_env R) (gw_world g)) (clk (r_env R) (gw_world g)) (brk R n g)) \<or> cl_threshold c \<le> m + 1
      then st b' = OPEN \<and> keys w' = opened_keys c n (keys (gw_world g))
      else b' = snd (record_failure (clk (r_env R) (gw_world g)) (clk (r_env R) (gw_world g)) (brk R n g))
        \<and> keys w' = pooled_keys c n (m + 1) (keys (gw_world g))"
    if "redis_ok (redis (r_env R)) keys" "pooled_count (keys (gw_world g)) n = Some m" for keys m
    using cluster_failure_shared[OF that f] by (auto split: if_splits)
  ultimately show ?thesis unfolding g' shared_failure_def Let_def split_beta by blast
qed

lemma brk_succeeded_clears:
  "gw_cluster g \<noteq> None \<Longrightarrow> redis_ok (redis (r_env R)) keys \<Longrightarrow>
     keys (gw_world (brk_succeeded R n g)) (FAILS n) = None \<and> keys (gw_world (brk_succeeded R n g)) (OPEN_KEY n) = None"
  using redis_keys[of "redis (r_env R)" keys]
  by (auto simp: brk_succeeded_def cluster_success_def split_beta restrict_map_def)

lemma same_keys_trans: "same_keys R a b \<Longrightarrow> same_keys R b c \<Longrightarrow> same_keys R a c"
  by (simp add: same_keys_def)

lemma pull_next_keys: "pull_next (r_env R) tmo es w = (r, es', w') \<Longrightarrow> same_keys R w' w"
  by (cases "(r_env R, tmo, es, w)" rule: pull_next.cases) (auto simp: same_keys_def split: if_splits)

lemma verdict_earlier:
  assumes "verdict R n fin g1 g'" and "gw_breakers g1 = gw_breakers g" "gw_cluster g1 = gw_cluster g" "same_keys R (gw_world g1) (gw_world g)"
  shows "verdict R n fin g g'"
proof (cases fin)
  case (Broken err t)
  then show ?thesis using assms brk_of_breakers[OF assms(2), of R] same_keys_trans[OF _ assms(4)]
    by (cases "gw_cluster g") (auto simp: verdict_def)
qed (use assms in \<open>auto simp: verdict_def\<close>)

lemma relayed_completed:
  assumes "\<not> os_settled os" and "settle_stream R sofar os (brk_succeeded R (dep_name (os_deployment os)) g1) = (os1, g3)"
    and "gw_counters g1 = gw_counters g" "gw_cluster g1 = gw_cluster g"
  shows "relayed R sofar os g ([], Completed, os1, g3)"
  using settle_stream_billed[OF assms(1,2)] brk_of_breakers[of g3 "brk_succeeded R (dep_name (os_deployment os)) g1" R]
    brk_succeeded_closes[of R "dep_name (os_deployment os)" g1] brk_succeeded_clears[of g1 R] assms(3,4)
  by (auto simp: relayed_def verdict_def)

lemma relayed_broken:
  assumes "\<not> os_settled os" and "settle_stream R sofar os g1 = (os1, g2)"
    and "record_interruption R err os1 g2 = (os2, g3)"
    and "gw_counters g1 = gw_counters g" "gw_breakers g1 = gw_breakers g" "gw_cluster g1 = gw_cluster g"
    and "same_keys R (gw_world g1) (gw_world g)"
  shows "relayed R sofar os g ([], Broken err sofar, os2, g3)"
proof -
  note b = settle_stream_billed[OF assms(1,2)]
  have d: "os_deployment os1 = os_deployment os" using b by (simp add: billed_def)
  have same: "brk R n g2 = brk R n g" for n using b assms(5) by (simp add: brk_def)
  have g3: "g3 = snd (brk_failed R (dep_name (os_deployment os)) g2)"
    using assms(3) d by (simp add: record_interruption_def Let_def split_beta)
  have clk: "time_now R g3 = time_now R g2" if "gw_cluster g = None"
    using that b assms(6) by (simp add: g3 brk_failed_def time_now_def split_beta Let_def)
  have "verdict R (dep_name (os_deployment os)) (Broken err sofar) g g3"
    using brk_failed_local(1)[of g2 R "dep_name (os_deployment os)"] brk_failed_shared[of g2 _ R "dep_name (os_deployment os)"]
      b same assms(6,7) clk
    by (cases "gw_cluster g") (auto simp: verdict_def g3[symmetric])
  moreover have "gw_counters g3 = gw_counters g2" by (simp add: g3)
  ultimately show ?thesis
    using b assms(3,4) d
    by (auto simp: relayed_def billed_def record_interruption_def Let_def split_beta)
qed

lemma relayed_later:
  assumes "relayed R (sofar @ delta_content x) os1 g1 (ys, fin, os', g')" and "delta_content x \<noteq> []"
    and "os_deployment os1 = os_deployment os" "os_prompt_estimate os1 = os_prompt_estimate os"
    "os_attempts os1 = os_attempts os"
    and "gw_counters g1 = gw_counters g" "gw_breakers g1 = gw_breakers g" "gw_cluster g1 = gw_cluster g"
    and "same_keys R (gw_world g1) (gw_world g)"
  shows "relayed R sofar os g (x # ys, fin, os', g')"
  using assms verdict_earlier[OF _ assms(7-9)] by (auto simp: relayed_def)

lemma relayed_silent:
  assumes "relayed R sofar os1 g1 out"
    and "os_deployment os1 = os_deployment os" "os_prompt_estimate os1 = os_prompt_estimate os"
    "os_attempts os1 = os_attempts os"
    and "gw_counters g1 = gw_counters g" "gw_breakers g1 = gw_breakers g" "gw_cluster g1 = gw_cluster g"
    and "same_keys R (gw_world g1) (gw_world g)"
  shows "relayed R sofar os g out"
  using assms verdict_earlier[OF _ assms(6-8)] by (auto simp: relayed_def)

lemma relay_loop_relayed:
  "\<not> os_settled os \<Longrightarrow> relayed R sofar os g (relay_loop R hang sofar words es os g)"
proof (induction R hang sofar words es os g rule: relay_loop.induct)
  case (1 R hang sofar words es os g)
  obtain r es' w where p: "pull_next (r_env R) (timeout_of R (os_deployment os)) es (gw_world g) = (r, es', w)"
    by (cases "pull_next (r_env R) (timeout_of R (os_deployment os)) es (gw_world g)")
  let ?g1 = "g\<lparr>gw_world := w\<rparr>"
  have kept: "same_keys R (gw_world ?g1) (gw_world g)" using pull_next_keys[OF p] by simp
  have broken: "relayed R sofar os g (relay_loop R hang sofar words es os g)"
    if "\<forall>x. r \<noteq> Returned x" "r \<noteq> Stopped"
  proof -
    obtain os1 g2 where s: "settle_stream R sofar os ?g1 = (os1, g2)" by (cases "settle_stream R sofar os ?g1")
    obtain os2 g3 where i: "record_interruption R (relay_error R (os_deployment os) r) os1 g2 = (os2, g3)"
      by (cases "record_interruption R (relay_error R (os_deployment os) r) os1 g2")
    have "relay_loop R hang sofar words es os g = ([], Broken (relay_error R (os_deployment os) r) sofar, os2, g3)"
      using p s i that by (subst relay_loop_unfold) (cases r, simp_all)
    then show ?thesis using relayed_broken[OF "1.prems" s i, of g] kept by simp
  qed
  show ?case
  proof (cases r)
    case Stopped
    obtain os1 g3 where s: "settle_stream R sofar os (brk_succeeded R (dep_name (os_deployment os)) ?g1) = (os1, g3)"
      by (cases "settle_stream R sofar os (brk_succeeded R (dep_name (os_deployment os)) ?g1)")
    then have "relay_loop R hang sofar words es os g = ([], Completed, os1, g3)"
      using p Stopped by (subst relay_loop_unfold) simp
    then show ?thesis using relayed_completed[OF "1.prems" s, of g] by simp
  next
    case (Returned x)
    show ?thesis
    proof (cases "delta_content x = []")
      case True
      have "relayed R sofar (absorb x os) ?g1 (relay_loop R hang sofar words es' (absorb x os) ?g1)"
        by (rule "1.IH"(1)[OF refl p[symmetric] refl refl Returned refl True]) (simp add: "1.prems")
      moreover have "relay_loop R hang sofar words es os g = relay_loop R hang sofar words es' (absorb x os) ?g1"
        using p Returned True by (subst relay_loop_unfold) simp
      ultimately show ?thesis using relayed_silent[of R sofar "absorb x os" ?g1 _ os g] kept by simp
    next
      case False
      let ?sofar = "sofar @ delta_content x" and ?words = "words + int (count_char CHR '' '' (delta_content x))"
      let ?os2 = "estimate R ?words (absorb x os)"
      have prem: "\<not> os_settled ?os2" using "1.prems" by simp
      show ?thesis
      proof (cases "hang = Some 0")
        case True
        obtain os3 g2 where s: "settle_stream R ?sofar ?os2 ?g1 = (os3, g2)" by (cases "settle_stream R ?sofar ?os2 ?g1")
        have "relayed R ?sofar ?os2 ?g1 ([], HungUp ?os2, os3, g2)"
          using settle_stream_billed[OF prem s] by (simp add: relayed_def verdict_def)
        moreover have "relay_loop R hang sofar words es os g = ([x], HungUp ?os2, os3, g2)"
          using p Returned False True s by (subst relay_loop_unfold) simp
        ultimately show ?thesis using relayed_later[of R sofar x ?os2 ?g1 _ _ _ _ os g] False kept by simp
      next
        case nz: False
        let ?rec = "relay_loop R (map_option (\<lambda>n. n - 1) hang) ?sofar ?words es' ?os2 ?g1"
        have "relayed R ?sofar ?os2 ?g1 ?rec"
          by (rule "1.IH"(2)[OF refl p[symmetric] refl refl Returned refl False refl refl refl nz]) (simp add: "1.prems")
        moreover obtain ys fin os3 g2 where rec: "?rec = (ys, fin, os3, g2)" by (cases ?rec)
        moreover have "relay_loop R hang sofar words es os g = (x # ys, fin, os3, g2)"
          using p Returned False nz rec by (subst relay_loop_unfold) simp
        ultimately show ?thesis using relayed_later[of R sofar x ?os2 ?g1 _ _ _ _ os g] False kept by simp
      qed
    qed
  qed (use broken in simp_all)
qed

lemma relay_relayed:
  assumes "\<not> os_settled os"
  shows "relayed R (delta_content (os_first os)) os g (relay R hang os g)"
proof -
  let ?w = "first_words (delta_content (os_first os))"
  have "relayed R (delta_content (os_first os)) (estimate R ?w (absorb (os_first os) os)) g (relay R hang os g)"
    using relay_loop_relayed[of "estimate R ?w (absorb (os_first os) os)"] assms by (simp add: relay_def Let_def)
  then show ?thesis by (rule relayed_silent) (simp_all add: same_keys_def)
qed

text \<open>The deltas with text, in the order they come, up to the first event that is none.\<close>

fun handed :: "stream_events \<Rightarrow> stream_delta list" where
  "handed [] = []"
| "handed ((t, r) # es) =
     (case r of Returned x \<Rightarrow> if delta_content x = [] then handed es else x # handed es | _ \<Rightarrow> [])"

text \<open>One rule for facts about a whole relay: what holds when it ends at an event holds of every run if it
  passes back over a silent delta and over one that is handed on.\<close>

lemma relay_loop_rule [consumes 1, case_names ends silent hangs hands]:
  assumes run: "relay_loop (R :: 'w router) hang sofar words es os g = (ys, fin, os', g')"
    and ends: "\<And>(R :: 'w router) hang sofar words es os g fin os' g'.
      relay_loop R hang sofar words es os g = ([], fin, os', g') \<Longrightarrow> \<forall>seen. fin \<noteq> HungUp seen \<Longrightarrow>
      P R hang sofar words es os [] fin"
    and silent: "\<And>(R :: 'w router) hang sofar words t x es os ys fin. delta_content x = [] \<Longrightarrow>
      P R hang sofar words es (absorb x os) ys fin \<Longrightarrow> P R hang sofar words ((t, Returned x) # es) os ys fin"
    and hangs: "\<And>(R :: 'w router) sofar words t x es os. delta_content x \<noteq> [] \<Longrightarrow>
      P R (Some 0) sofar words ((t, Returned x) # es) os [x]
        (HungUp (estimate R (words + int (count_char CHR '' '' (delta_content x))) (absorb x os)))"
    and hands: "\<And>(R :: 'w router) hang sofar words t x es os ys fin. delta_content x \<noteq> [] \<Longrightarrow> hang \<noteq> Some 0 \<Longrightarrow>
      P R (map_option (\<lambda>n. n - 1) hang) (sofar @ delta_content x) (words + int (count_char CHR '' '' (delta_content x))) es
        (estimate R (words + int (count_char CHR '' '' (delta_content x))) (absorb x os)) ys fin \<Longrightarrow>
      P R hang sofar words ((t, Returned x) # es) os (x # ys) fin"
  shows "P R hang sofar words es os ys fin"
  using run
proof (induction R hang sofar words es os g arbitrary: ys fin os' g' rule: relay_loop.induct)
  case (1 R hang sofar words es os g)
  obtain r es' w where p: "pull_next (r_env R) (timeout_of R (os_deployment os)) es (gw_world g) = (r, es', w)"
    by (cases "pull_next (r_env R) (timeout_of R (os_deployment os)) es (gw_world g)")
  note run = "1.prems"[unfolded relay_loop_unfold[of R hang sofar words es os g] Let_def p prod.case]
  show ?case
  proof (cases "\<exists>x. r = Returned x")
    case False
    have "ys = [] \<and> (\<forall>seen. fin \<noteq> HungUp seen)" using run False by (cases r) (auto simp: split_beta split: prod.splits)
    then show ?thesis using ends "1.prems" by blast
  next
    case True
    then obtain x where r: "r = Returned x" by blast
    then obtain t where es: "es = (t, Returned x) # es'"
      using p by (cases "(r_env R, timeout_of R (os_deployment os), es, gw_world g)" rule: pull_next.cases) (auto split: if_splits)
    note ih = "1.IH"(1)[OF refl p[symmetric] refl refl r refl]
      "1.IH"(2)[OF refl p[symmetric] refl refl r refl _ refl refl refl]
    consider "delta_content x = []" | "delta_content x \<noteq> []" "hang = Some 0" | "delta_content x \<noteq> []" "hang \<noteq> Some 0" by blast
    then show ?thesis
    proof cases
      case 1
      then show ?thesis using run r ih(1) es by (auto intro: silent)
    next
      case 2
      then show ?thesis using run r es hangs by (auto simp: split_beta)
    next
      case 3
      then obtain zs oz gz where "relay_loop R (map_option (\<lambda>n. n - 1) hang) (sofar @ delta_content x)
          (words + int (count_char CHR '' '' (delta_content x))) es'
          (estimate R (words + int (count_char CHR '' '' (delta_content x))) (absorb x os)) (g\<lparr>gw_world := w\<rparr>)
          = (zs, fin, oz, gz)" and "ys = x # zs"
        using run r by (auto split: prod.splits)
      then show ?thesis using 3 ih(2)[OF 3(1,2)] es by (auto intro: hands)
    qed
  qed
qed

text \<open>How far a relay gets before a client that hangs up, and the stream object the hang-up finds: the
  running estimate, unless the provider has already reported.\<close>

lemma relay_loop_hang:
  "relay_loop R hang sofar words es os g = (ys, fin, os', g') \<Longrightarrow>
     (case hang of None \<Rightarrow> \<forall>seen. fin \<noteq> HungUp seen
      | Some n \<Rightarrow> length ys \<le> Suc n \<and> (\<forall>seen. fin = HungUp seen \<longrightarrow> length ys = Suc n))"
  by (induction rule: relay_loop_rule) (auto split: option.splits)

lemma relay_loop_seen:
  "relay_loop R hang sofar words es os g = (ys, fin, os', g') \<Longrightarrow> fin = HungUp seen \<Longrightarrow>
     os_deployment seen = os_deployment os \<and>
     (\<not> os_reported seen \<longrightarrow>
        os_usage seen = \<lparr>prompt_tokens = os_prompt_estimate os,
                         completion_tokens = words + int (count_char CHR '' '' (concat (map delta_content ys)))\<rparr>
        \<and> os_cost seen = compute_cost (price_map_of (r_env R)) (os_deployment os) (os_usage seen))"
proof (induction rule: relay_loop_rule)
  case (hangs R sofar words t x es os)
  then show ?case by (auto simp: estimate_def Let_def)
qed (auto simp: count_char_def)

lemma relay_loop_in_events:
  "relay_loop R hang sofar words es os g = (ys, fin, os', g') \<Longrightarrow> \<exists>zs. ys @ zs = handed es"
  by (induction rule: relay_loop_rule) auto

section \<open>An answer cut into a stream\<close>

lemma relay_loop_pieces:
  assumes "0 \<le> timeout_of R (os_deployment os)" and "\<forall>p \<in> set ps. p \<noteq> []" and "\<not> os_settled os"
    and "f = \<lparr>delta_content = [], delta_finish = Some (resp_finish resp), delta_usage = Some (resp_usage resp),
              delta_model = Some (resp_model resp)\<rparr>"
  shows "\<exists>os' g'. relay_loop R None sofar words
              (map (\<lambda>p. (0, Returned (delta p (resp_model resp)))) ps @ [(0, Returned f)]) os g
            = (map (\<lambda>p. delta p (resp_model resp)) ps, Completed, os', g')
          \<and> os_reported os' \<and> os_usage os' = resp_usage resp \<and> os_finish os' = resp_finish resp
          \<and> os_deployment os' = os_deployment os"
  using assms(1-3)
proof (induction ps arbitrary: sofar words os g)
  case Nil
  let ?os1 = "absorb f os"
  obtain os2 g3 where s: "settle_stream R sofar ?os1
       (brk_succeeded R (dep_name (os_deployment os)) (g\<lparr>gw_world := sleep (r_env R) 0 (gw_world g)\<rparr>)) = (os2, g3)"
    by (cases "settle_stream R sofar ?os1
       (brk_succeeded R (dep_name (os_deployment os)) (g\<lparr>gw_world := sleep (r_env R) 0 (gw_world g)\<rparr>))")
  have "relay_loop R None sofar words [(0, Returned f)] os g = ([], Completed, os2, g3)"
    using Nil.prems s assms(4) by (subst relay_loop_unfold, simp, subst relay_loop_unfold, simp)
  moreover have "os_reported os2 \<and> os_usage os2 = resp_usage resp \<and> os_finish os2 = resp_finish resp
      \<and> os_deployment os2 = os_deployment os"
    using s Nil.prems assms(4) by (auto simp: settle_stream_def absorb_def Let_def split: if_splits)
  ultimately show ?case by simp
next
  case (Cons p ps)
  let ?w' = "words + int (count_char CHR '' '' p)"
  let ?os1 = "estimate R ?w' (absorb (delta p (resp_model resp)) os)"
  obtain os' g' where ih: "relay_loop R None (sofar @ p) ?w'
              (map (\<lambda>p. (0, Returned (delta p (resp_model resp)))) ps @ [(0, Returned f)]) ?os1
              (g\<lparr>gw_world := sleep (r_env R) 0 (gw_world g)\<rparr>)
            = (map (\<lambda>p. delta p (resp_model resp)) ps, Completed, os', g')"
      "os_reported os'" "os_usage os' = resp_usage resp" "os_finish os' = resp_finish resp"
      "os_deployment os' = os_deployment os"
    using Cons.IH[of ?os1 "sofar @ p" ?w' "g\<lparr>gw_world := sleep (r_env R) 0 (gw_world g)\<rparr>"] Cons.prems by auto
  have "relay_loop R None sofar words
      (map (\<lambda>p. (0, Returned (delta p (resp_model resp)))) (p # ps) @ [(0, Returned f)]) os g
      = (map (\<lambda>p. delta p (resp_model resp)) (p # ps), Completed, os', g')"
    using Cons.prems ih(1) by (subst relay_loop_unfold) (simp add: delta_def)
  with ih(2-5) show ?case by blast
qed

section \<open>Properties\<close>

lemma opened_fields [simp]:
  "\<not> os_settled (opened_from req first es synth d ats)" "os_deployment (opened_from req first es synth d ats) = d"
  "os_prompt_estimate (opened_from req first es synth d ats) = prompt_words req"
  "os_first (opened_from req first es synth d ats) = first" "os_rest (opened_from req first es synth d ats) = es"
  "os_attempts (opened_from req first es synth d ats) = ats"
  by (simp_all add: opened_from_def)

lemma router_open_stream_opened:
  assumes "router_open_stream R req config g = (Inr os, g1)"
  obtains first es synth d ats where "os = opened_from req first es synth d ats"
  using assms by (auto simp: router_open_stream_def Let_def split_beta split: sum.splits)

lemma route_request_counters:
  assumes "\<And>d ats g. gw_counters (snd (snd (trial d ats g))) = gw_counters g"
  shows "gw_counters (snd (route_request R trial config req g)) = gw_counters g"
  using walk_counters[where trial = trial, OF assms]
  by (simp add: route_request_def split_beta Let_def prepare_chain_counters split: option.splits)

lemma opened_relayed:
  assumes "router_open_stream R req config g = (Inr os, g1)"
  shows "relayed R (delta_content (os_first os)) os g2 (relay R hang os g2)"
proof -
  obtain first es synth d ats where "os = opened_from req first es synth d ats"
    using router_open_stream_opened[OF assms] by blast
  then show ?thesis using relay_relayed[of os R g2 hang] by simp
qed

lemma open_stream_counters:
  assumes "router_open_stream R req config g = (r, g1)"
  shows "gw_counters g1 = gw_counters g"
  using assms route_request_counters[where trial = "open_with_retries R req" and R = R and config = config and req = req and g = g,
      OF open_with_retries_counters]
  by (auto simp: router_open_stream_def split_beta Let_def split: sum.splits)

lemma hung_up_keeps_breakers:
  assumes "router_open_stream R req config g = (Inr os, g1)" and "relay R hang os g2 = (ys, HungUp seen, os', g3)"
  shows "gw_breakers g3 = gw_breakers g2"
  using opened_relayed[OF assms(1), of g2 hang] assms(2) by (simp add: relayed_def verdict_def)

text \<open>Opening a stream falls back strictly in chain order before the first token, exactly as a complete
  call does: every deployment before the one that produced a token was skipped or failed each of its
  tries, and the stream carries all those attempts, the last being the only success.\<close>

theorem stream_falls_back_in_order:
  assumes "dict_get config (req_model req) = Some chain" and "\<forall>d \<in> set chain. valid_deployment d"
  shows "case fst (router_open_stream R req config g) of
           Inr os \<Rightarrow> reached Success chain [] (os_deployment os) (os_attempts os)
         | Inl (ClientRequestError m ats) \<Rightarrow> \<exists>d. reached ClientError chain [] d ats
         | Inl (AllProvidersFailed a ats) \<Rightarrow> a = req_model req \<and> all_gave_up chain [] ats
         | Inl (UnknownModel m) \<Rightarrow> True
         | Inl (SyncError e) \<Rightarrow> gw_cluster g \<noteq> None"
proof -
  obtain e g1 where p: "prepare_chain R chain g = (e, g1)" by (cases "prepare_chain R chain g")
  have sync: "e = None" if "gw_cluster g = None"
    using p that by (simp add: prepare_chain_def)
  have "walk_result (req_model req) chain [] (fst (walk_chain R (open_with_retries R req) (req_model req) chain [] g1))"
    by (rule stream_trial.walk_in_order) (use assms(2) in \<open>auto simp: valid_deployment_def\<close>)
  then show ?thesis
    using assms(1) p sync
    by (cases "walk_chain R (open_with_retries R req) (req_model req) chain [] g1"; cases e)
      (auto simp: router_open_stream_def route_request_def walk_result_def Let_def
        split: sum.splits route_error.splits)
qed

definition dying_stream :: stream_events where
  "dying_stream = [(0, Returned (delta ''one'' ''m'')), (0, Returned (delta '' two'' ''m'')),
                   (0, ProviderError ''died'' True (Some 503))]"

definition stream_router :: "keyspace router" where
  "stream_router = ex_router\<lparr>r_env := ex_env\<lparr>adapters := adapters ex_env @
     [(''dying'', \<lparr>adapter_complete = (\<lambda>d r t w. (Returned ex_response, w)),
                  adapter_stream = Some (\<lambda>d r w. (dying_stream, w))\<rparr>)]\<rparr>\<rparr>"

lemmas stream_eval = router_open_stream_def route_request_def prepare_chain_def open_with_retries_def
  open_once_def stream_router_def dying_stream_def retry_eval ex_defs eval_nat_numeral

lemma stream_falls_back_in_order_witness:
  "\<exists>os. fst (router_open_stream stream_router ex_request
            [(''r'', [ex_deployment ''a'' ''bad'' 0, ex_deployment ''b'' ''dying'' 0])] ex_gateway) = Inr os
     \<and> os_rest os = tl dying_stream
     \<and> reached Success [ex_deployment ''a'' ''bad'' 0, ex_deployment ''b'' ''dying'' 0] []
         (os_deployment os) (os_attempts os)"
proof -
  let ?ds = "[ex_deployment ''a'' ''bad'' 0, ex_deployment ''b'' ''dying'' 0]"
  have chain: "dict_get [(''r'', ?ds)] (req_model ex_request) = Some ?ds"
    by (simp add: ex_request_def)
  have valid: "\<forall>d \<in> set ?ds. valid_deployment d"
    by (simp add: ex_deployment_def valid_deployment_def)
  obtain os where os: "fst (router_open_stream stream_router ex_request [(''r'', ?ds)] ex_gateway) = Inr os"
      "os_rest os = tl dying_stream"
    by (simp add: stream_eval opened_from_def)
  then show ?thesis
    using stream_falls_back_in_order[OF chain valid, where R = stream_router and g = ex_gateway] by auto
qed

text \<open>What the provider reported: the usage of the first delta or of one that came after it.\<close>

lemma settle_stream_reported:
  "os_reported (fst (settle_stream R sofar os g)) = os_reported os"
  "os_reported os \<Longrightarrow> os_usage (fst (settle_stream R sofar os g)) = os_usage os"
  by (simp_all add: settle_stream_def Let_def)

lemma record_interruption_reported:
  "os_reported (fst (record_interruption R err os g)) = os_reported os"
  "os_usage (fst (record_interruption R err os g)) = os_usage os"
  by (simp_all add: record_interruption_def Let_def split_beta)

lemma absorb_reported:
  "os_reported (absorb x os) \<Longrightarrow> (case delta_usage x of Some u \<Rightarrow> os_usage (absorb x os) = u | None \<Rightarrow> os_reported os \<and> os_usage (absorb x os) = os_usage os)"
  by (auto simp: absorb_def Let_def split: option.splits if_splits)

lemma estimate_reported: "os_reported os \<Longrightarrow> estimate R n os = os"
  by (simp add: estimate_def)

lemma relay_loop_reported:
  "relay_loop R hang sofar words es os g = (ys, fin, os', g') \<Longrightarrow> os_reported os' \<Longrightarrow>
     (os_reported os \<and> os_usage os' = os_usage os) \<or> (\<exists>t x. (t, Returned x) \<in> set es \<and> delta_usage x = Some (os_usage os'))"
proof (induction R hang sofar words es os g arbitrary: ys fin os' g' rule: relay_loop.induct)
  case (1 R hang sofar words es os g)
  obtain r es' w where p: "pull_next (r_env R) (timeout_of R (os_deployment os)) es (gw_world g) = (r, es', w)"
    by (cases "pull_next (r_env R) (timeout_of R (os_deployment os)) es (gw_world g)")
  note run = "1.prems"(1)[unfolded relay_loop_unfold[of R hang sofar words es os g] Let_def p prod.case]
  show ?case
  proof (cases "\<exists>x. r = Returned x")
    case False
    then have "os_reported os' = os_reported os \<and> (os_reported os \<longrightarrow> os_usage os' = os_usage os)"
      using run
      by (cases r) (auto simp: split_beta prod_eq_iff settle_stream_reported record_interruption_reported)
    with "1.prems"(2) show ?thesis by simp
  next
    case True
    then obtain x where r: "r = Returned x" by blast
    then obtain t where es: "es = (t, Returned x) # es'"
      using p by (cases "(r_env R, timeout_of R (os_deployment os), es, gw_world g)" rule: pull_next.cases) (auto split: if_splits)
    let ?os1 = "absorb x os" and ?words = "words + int (count_char CHR '' '' (delta_content x))"
    have base: "(os_reported os \<and> os_usage os' = os_usage os) \<or> delta_usage x = Some (os_usage os')"
      if "os_reported ?os1 \<and> os_usage os' = os_usage ?os1"
      using absorb_reported[of x os] that by (auto split: option.splits)
    have est: "os_reported (estimate R ?words ?os1) \<and> os_usage os' = os_usage (estimate R ?words ?os1) \<Longrightarrow>
        os_reported ?os1 \<and> os_usage os' = os_usage ?os1"
      by (simp add: estimate_reported)
    note ih = "1.IH"(1)[OF refl p[symmetric] refl refl r refl]
      "1.IH"(2)[OF refl p[symmetric] refl refl r refl _ refl refl refl]
    consider "delta_content x = []" | "delta_content x \<noteq> []" "hang = Some 0" | "delta_content x \<noteq> []" "hang \<noteq> Some 0" by blast
    then show ?thesis
    proof cases
      case 1
      then show ?thesis using run r ih(1) es base "1.prems"(2) by fastforce
    next
      case 2
      then have "settle_stream R (sofar @ delta_content x) (estimate R ?words ?os1) (g\<lparr>gw_world := w\<rparr>) = (os', g')"
        using run r by (auto split: prod.splits)
      then have "os_reported (estimate R ?words ?os1)" "os_usage os' = os_usage (estimate R ?words ?os1)"
        using settle_stream_reported[where R = R and sofar = "sofar @ delta_content x" and os = "estimate R ?words ?os1" and g = "g\<lparr>gw_world := w\<rparr>"] "1.prems"(2) by auto
      then show ?thesis using est base es by auto
    next
      case 3
      then obtain zs where "relay_loop R (map_option (\<lambda>n. n - 1) hang) (sofar @ delta_content x)
          ?words es' (estimate R ?words ?os1) (g\<lparr>gw_world := w\<rparr>) = (zs, fin, os', g')"
        using run r by (auto split: prod.splits)
      from ih(2)[OF 3(1,2) this "1.prems"(2)] est base es show ?thesis by fastforce
    qed
  qed
qed



text \<open>C14: A stream gives its deployment one verdict, and only when it has ended. It counts as a success only
  when it ran out, which also clears the shared failures and the shared open circuit; a stream that breaks
  after its first token is a failure of the deployment, carries exactly the text the client already has and is
  never retried. The failure is the local breaker's when breakers are not shared or Redis is out; when they
  are shared it is pooled, or opens the circuit for every replica when it is one too many. A client
  that hangs up, which happens only where it chose to, changes no breaker. The client is never handed an
  empty delta.\<close>

theorem stream_gives_one_verdict:
  assumes "router_open_stream R req config g = (Inr os, g1)" and "relay R hang os g2 = (ys, fin, os', g3)"
    and "name = dep_name (os_deployment os)"
  shows "(case fin of
            Completed \<Rightarrow> st (brk R name g3) = CLOSED \<and> consecutive_failures (brk R name g3) = 0
              \<and> (\<forall>keys. gw_cluster g2 \<noteq> None \<and> redis_ok (redis (r_env R)) keys \<longrightarrow>
                   keys (gw_world g3) (FAILS name) = None \<and> keys (gw_world g3) (OPEN_KEY name) = None)
          | Broken err sofar \<Rightarrow>
              sofar = concat (map delta_content (os_first os # ys))
              \<and> att_outcome (last (os_attempts os')) = Interrupted \<and> att_error (last (os_attempts os')) = Some err
              \<and> (case gw_cluster g2 of
                   None \<Rightarrow> brk R name g3 = snd (record_failure (time_now R g3) (time_now R g3) (brk R name g2))
                 | Some c \<Rightarrow> \<exists>w. same_keys R w (gw_world g2) \<and> shared_failure R c name (brk R name g2) w (brk R name g3) (gw_world g3))
          | HungUp seen \<Rightarrow> gw_breakers g3 = gw_breakers g2 \<and> hang = Some (length ys - 1))
         \<and> (\<forall>y \<in> set ys. delta_content y \<noteq> [])"
proof -
  obtain first es synth d ats where os: "os = opened_from req first es synth d ats"
    using router_open_stream_opened[OF assms(1)] by blast
  have rel: "relayed R (delta_content first) os g2 (ys, fin, os', g3)"
    using opened_relayed[OF assms(1), of g2 hang] assms(2) os by simp
  have "hang = Some (length ys - 1)" if "fin = HungUp seen" for seen
    using assms(2) relay_loop_hang[of R hang] that by (fastforce simp: relay_def Let_def split: option.splits)
  then show ?thesis using rel os assms(3) by (auto simp: relayed_def verdict_def split: stream_end.splits option.splits)
qed

lemma stream_gives_one_verdict_witness:
  "\<exists>os g1 ys err t os' g3.
     router_open_stream stream_router ex_request [(''r'', [ex_deployment ''b'' ''dying'' 0])] ex_gateway = (Inr os, g1)
     \<and> relay stream_router None os (ex_gateway\<lparr>gw_cluster := Some (new_cluster 3 30 60 1 5)\<rparr>) = (ys, Broken err t, os', g3)
     \<and> gw_world g3 (FAILS ''b'') = Some (RStr (Num 1), Some 60) \<and> st (brk stream_router ''b'' g3) = CLOSED"
proof -
  let ?c = "new_cluster 3 30 60 1 5"
  let ?g2 = "ex_gateway\<lparr>gw_cluster := Some ?c\<rparr>"
  obtain os g1 where o1: "router_open_stream stream_router ex_request [(''r'', [ex_deployment ''b'' ''dying'' 0])] ex_gateway
      = (Inr os, g1)" and os: "os = opened_from ex_request (delta ''one'' ''m'') (tl dying_stream) False
          (ex_deployment ''b'' ''dying'' 0) (os_attempts os)"
    by (simp add: stream_eval opened_from_def)
  obtain ys fin os' g3 where r: "relay stream_router None os ?g2 = (ys, fin, os', g3)"
    by (cases "relay stream_router None os ?g2")
  have "\<exists>err t. fin = Broken err t"
    using r by (subst (asm) os)
      (auto simp: relay_def dying_stream_def relay_loop_unfold delta_def Let_def absorb_def estimate_def
        stream_router_def ex_defs timeout_of_def effective_timeout_def opened_from_def split_beta split: if_splits)
  then obtain err t where fin: "fin = Broken err t" by blast
  have name: "''b'' = dep_name (os_deployment os)" by (subst os) (simp add: ex_deployment_def)
  from stream_gives_one_verdict[OF o1 r name] fin
  obtain w where w: "same_keys stream_router w (gw_world ?g2)"
      "shared_failure stream_router ?c ''b'' (brk stream_router ''b'' ?g2) w (brk stream_router ''b'' g3) (gw_world g3)"
    by auto
  have env: "redis (r_env stream_router) = doc" "\<And>t x. sleep (r_env stream_router) t x = x" "gw_world ?g2 = Map.empty"
    by (simp_all add: stream_router_def ex_defs)
  have "w = Map.empty" using w(1) env(2,3) by (auto simp: same_keys_def dest: spec[of _ id])
  moreover have "\<not> fst (record_failure u u (brk stream_router ''b'' ?g2))"
      "st (snd (record_failure u u (brk stream_router ''b'' ?g2))) = CLOSED" for u
    by (simp_all add: brk_def stream_router_def ex_defs record_failure_def read_state_def Let_def)
  ultimately have "gw_world g3 = pooled_keys ?c ''b'' 1 Map.empty \<and> st (brk stream_router ''b'' g3) = CLOSED"
    using w(2) redis_ok_doc unfolding shared_failure_def env(1)
    by (auto simp: Let_def split_beta pooled_count_def new_cluster_def dest: spec[of _ id] spec[of _ 0])
  then show ?thesis using o1 r fin by (simp add: pooled_keys_def new_cluster_def py_int_def)
qed

text \<open>C37: An adapter that cannot stream still gives its whole answer, as a stream: the relay always completes,
  the deltas put together are the answer, none is longer than the piece size, and the stream reports
  the usage, finish reason and so the cost of the complete call.\<close>

theorem whole_answer_streams_whole:
  assumes "chunk_completion resp k = (first, es)" and "0 < k" and "0 \<le> timeout_of R d"
  shows "\<exists>ys os' g'. relay R None (opened_from req first es True d ats) g = (ys, Completed, os', g')
           \<and> concat (map delta_content (first # ys)) = resp_content resp
           \<and> (\<forall>y \<in> set (first # ys). length (delta_content y) \<le> k)
           \<and> os_usage os' = resp_usage resp \<and> \<not> os_usage_estimated os' \<and> os_finish os' = resp_finish resp
           \<and> os_cost os' = compute_cost (price_map_of (r_env R)) d (resp_usage resp)"
proof -
  let ?c = "resp_content resp"
  define ps where "ps = (if pieces k ?c = [] then [[]] else pieces k ?c)"
  have ps: "ps \<noteq> []" "concat ps = ?c" "\<forall>p \<in> set (tl ps). p \<noteq> []" "\<forall>p \<in> set ps. length p \<le> k"
    using assms(2) concat_pieces[of k ?c] pieces_bounds[of _ k ?c]
    by (auto simp: ps_def dest: in_set_tl)
  let ?f = "\<lparr>delta_content = [], delta_finish = Some (resp_finish resp), delta_usage = Some (resp_usage resp),
              delta_model = Some (resp_model resp)\<rparr>"
  have first: "first = delta (hd ps) (resp_model resp)"
      and es: "es = map (\<lambda>p. (0, Returned (delta p (resp_model resp)))) (tl ps) @ [(0, Returned ?f)]"
    using assms(1) by (auto simp: chunk_completion_def Let_def ps_def)
  let ?os = "opened_from req first es True d ats"
  let ?w = "first_words (delta_content first)"
  obtain os' g' where run: "relay R None ?os g = (map (\<lambda>p. delta p (resp_model resp)) (tl ps), Completed, os', g')"
      and rep: "os_reported os'" "os_usage os' = resp_usage resp" "os_finish os' = resp_finish resp"
    using relay_loop_pieces[of R "estimate R ?w (absorb first ?os)" "tl ps" ?f resp "delta_content first" ?w g]
      assms(3) ps(3) by (auto simp: relay_def Let_def es)
  have "relayed R (delta_content first) ?os g (map (\<lambda>p. delta p (resp_model resp)) (tl ps), Completed, os', g')"
    using relay_relayed[of ?os R g None] run by simp
  then have "os_cost os' = compute_cost (price_map_of (r_env R)) d (resp_usage resp) \<and> \<not> os_usage_estimated os'"
    using rep by (simp add: relayed_def billed_def)
  moreover have "concat (map delta_content (first # map (\<lambda>p. delta p (resp_model resp)) (tl ps))) = ?c"
    using ps(1,2) by (cases ps) (simp_all add: first delta_def comp_def)
  moreover have "\<forall>y \<in> set (first # map (\<lambda>p. delta p (resp_model resp)) (tl ps)). length (delta_content y) \<le> k"
    using ps(1,4) by (cases ps) (simp_all add: first delta_def)
  ultimately show ?thesis using run rep by blast
qed

lemma whole_answer_streams_whole_witness:
  "\<exists>first es ys os' g'. chunk_completion ex_response 3 = (first, es) \<and> length es = 3
     \<and> relay ex_router None (opened_from ex_request first es True (ex_deployment ''b'' ''good'' 0) []) ex_gateway
         = (ys, Completed, os', g')
     \<and> concat (map delta_content (first # ys)) = ''hi there''"
proof -
  obtain first es where c: "chunk_completion ex_response 3 = (first, es)" by (cases "chunk_completion ex_response 3")
  moreover have "length es = 3"
    using c by (auto simp: chunk_completion_def ex_response_def pieces.simps Let_def)
  moreover have "0 \<le> timeout_of ex_router (ex_deployment ''b'' ''good'' 0)"
    by (simp add: timeout_of_def effective_timeout_def ex_defs)
  ultimately show ?thesis
    using whole_answer_streams_whole[OF c, where R = ex_router and d = "ex_deployment ''b'' ''good'' 0"
        and req = ex_request and ats = "[]" and g = ex_gateway]
    by (auto simp: ex_response_def)
qed

section \<open>A probe nobody reports on\<close>

text \<open>When the stream was the probe of a half-open breaker and the client hangs up, no verdict reaches the
  breaker, so the probe stays taken: with local breakers the deployment is refused at every later
  time, and only a restart or an answer of an older request frees it.\<close>

lemma hangup_leaves_the_probe_taken:
  assumes "router_open_stream R req config g = (Inr os, g1)" and "relay R hang os g2 = (ys, HungUp seen, os', g3)"
    and "st (brk R (dep_name (os_deployment os)) g2) = HALF_OPEN"
    and "probe_in_flight (brk R (dep_name (os_deployment os)) g2)"
  shows "\<not> fst (allow_request t (brk R (dep_name (os_deployment os)) g3))
         \<and> brk R (dep_name (os_deployment os)) (snd (brk_allow R (dep_name (os_deployment os)) g3))
           = brk R (dep_name (os_deployment os)) g3"
proof -
  have "gw_breakers g3 = gw_breakers g2"
    using hung_up_keeps_breakers[OF assms(1,2)] .
  then show ?thesis
    using assms(3,4) brk_of_breakers[of g3 g2 R]
    by (simp add: allow_request_def read_state_def brk_allow_def Let_def)
qed

end
