(* ===== verification/Rollout.thy ===== *)
theory Rollout
  imports Providers
begin

text \<open>
  Canary rollouts of the route table (\<open>app/gateway/rollout.py\<close>): choosing a table for a request,
  pooling outcomes in Redis, and the automatic roll-back. One \<open>manager\<close> is one replica: the cached
  pair of tables with the time it was read. \<open>rollout_env\<close> adds to the environment what the code takes
  from libraries: parsing a route table, pydantic's JSON dump of one, its fingerprint, the wall
  clock's text and Python's percent format. Counters of the metrics module are not kept.

  An operation that lets an exception of Redis through has \<open>None\<close> as its outer result. The cached
  \<open>CanaryState\<close> is one mutable object: \<open>set_weight\<close> and \<open>roll_back\<close> change it before they write,
  so it stays changed in the cache when the write raises.
\<close>

section \<open>State\<close>

definition STABLE_KEY :: string where "STABLE_KEY = ''rollout:stable''"
definition CANARY_KEY :: string where "CANARY_KEY = ''rollout:canary''"
definition STATS_KEY :: string where "STATS_KEY = ''rollout:stats''"

datatype variant_name = Stable | Canary

record variant =
  var_name :: variant_name
  var_version :: string

record canary_state =
  can_version :: string
  can_weight :: int
  can_note :: "string option"
  can_created :: string
  can_rolled_back :: "string option"
  can_reason :: "string option"

definition active :: "canary_state \<Rightarrow> bool" where
  "active c \<longleftrightarrow> can_weight c > 0 \<and> can_rolled_back c = None"

record cached =
  ca_stable :: "(string \<times> routes) option"
  ca_canary :: "(canary_state \<times> routes) option"
  ca_fetched :: "seconds option"  \<comment> \<open>\<open>None\<close> is \<open>float("-inf")\<close>\<close>

record manager =
  m_fallback :: "string \<times> routes"
  m_min_requests :: int
  m_max_error_rate :: real
  m_refresh :: seconds
  m_cache :: cached

record 'w rollout_env =
  ro_env :: "'w env"
  ro_parse :: "string \<Rightarrow> value_error + routes"
  ro_dump :: "routes \<Rightarrow> string"
  fingerprint :: "routes \<Rightarrow> string"
  stamp :: "'w \<Rightarrow> string"
  percent :: "real \<Rightarrow> string"

definition no_cache :: "seconds option \<Rightarrow> cached" where
  "no_cache t = \<lparr>ca_stable = None, ca_canary = None, ca_fetched = t\<rparr>"

definition new_manager :: "'w rollout_env \<Rightarrow> routes \<Rightarrow> int \<Rightarrow> real \<Rightarrow> seconds \<Rightarrow> manager" where
  "new_manager E fallback min_requests max_rate refresh =
     \<lparr>m_fallback = (fingerprint E fallback, fallback), m_min_requests = min_requests,
      m_max_error_rate = max_rate, m_refresh = refresh, m_cache = no_cache None\<rparr>"

section \<open>What is stored\<close>

definition opt_json :: "string option \<Rightarrow> json" where
  "opt_json x = (case x of None \<Rightarrow> JNull | Some s \<Rightarrow> JStr s)"

text \<open>\<open>{**vars(state), "config": ...}\<close>\<close>

definition canary_json :: "canary_state \<Rightarrow> string \<Rightarrow> json" where
  "canary_json c config = JObj
     [(''version'', JStr (can_version c)), (''weight'', JNum (can_weight c)), (''note'', opt_json (can_note c)),
      (''created_at'', JStr (can_created c)), (''rolled_back_at'', opt_json (can_rolled_back c)),
      (''rollback_reason'', opt_json (can_reason c)), (''config'', JStr config)]"

definition stable_json :: "string \<Rightarrow> string \<Rightarrow> string \<Rightarrow> json" where
  "stable_json version config promoted =
     JObj [(''version'', JStr version), (''config'', JStr config), (''promoted_at'', JStr promoted)]"

fun json_str :: "json option \<Rightarrow> string option" where
  "json_str (Some (JStr s)) = Some s"
| "json_str _ = None"

fun json_int :: "json option \<Rightarrow> int option" where
  "json_int (Some (JNum n)) = Some n"
| "json_int _ = None"

fun json_opt :: "json option \<Rightarrow> string option option" where
  "json_opt (Some (JStr s)) = Some (Some s)"
| "json_opt (Some JNull) = Some None"
| "json_opt None = Some None"
| "json_opt _ = None"

definition parse_stable :: "'w rollout_env \<Rightarrow> json \<Rightarrow> (string \<times> routes) option" where
  "parse_stable E j =
     (case (json_str (json_get j ''version''), json_str (json_get j ''config'')) of
        (Some v, Some text) \<Rightarrow>
          (case routes_from_text (ro_parse E) text of Inl e \<Rightarrow> None | Inr c \<Rightarrow> Some (v, c))
      | _ \<Rightarrow> None)"

definition parse_canary :: "'w rollout_env \<Rightarrow> json \<Rightarrow> (canary_state \<times> routes) option" where
  "parse_canary E j =
     (case (json_str (json_get j ''config''), json_str (json_get j ''version''), json_int (json_get j ''weight''),
            json_opt (json_get j ''note''), json_str (json_get j ''created_at''),
            json_opt (json_get j ''rolled_back_at''), json_opt (json_get j ''rollback_reason'')) of
        (Some text, Some v, Some w, Some n, Some c, Some rb, Some rr) \<Rightarrow>
          (case routes_from_text (ro_parse E) text of
             Inl e \<Rightarrow> None
           | Inr config \<Rightarrow>
               Some (\<lparr>can_version = v, can_weight = w, can_note = n, can_created = c,
                      can_rolled_back = rb, can_reason = rr\<rparr>, config))
      | _ \<Rightarrow> None)"

text \<open>\<open>if raw: stored = json.loads(raw); ...\<close>: an absent key is no entry, and what cannot be read is an
  exception (outer \<open>None\<close>).\<close>

definition read_entry :: "(json \<Rightarrow> 'a option) \<Rightarrow> bulk option \<Rightarrow> 'a option option" where
  "read_entry parse raw =
     (case raw of
        None \<Rightarrow> Some None
      | Some b \<Rightarrow>
          if b = Txt [] then Some None
          else (case bulk_json b of None \<Rightarrow> None | Some j \<Rightarrow> map_option Some (parse j)))"

section \<open>Reading\<close>

definition load :: "'w rollout_env \<Rightarrow> manager \<Rightarrow> 'w \<Rightarrow> manager \<times> 'w" where
  "load E m w =
     (let now = clk (ro_env E) w in
      if (case ca_fetched (m_cache m) of None \<Rightarrow> False | Some t \<Rightarrow> now - t < m_refresh m) then (m, w)
      else
        (let (r, w1) = redis (ro_env E) (MGET [STABLE_KEY, CANARY_KEY]) w;
             cache = (case r of
                        Bulks [s, c] \<Rightarrow>
                          (case (read_entry (parse_stable E) s, read_entry (parse_canary E) c) of
                             (Some sta, Some ca) \<Rightarrow> \<lparr>ca_stable = sta, ca_canary = ca, ca_fetched = Some now\<rparr>
                           | _ \<Rightarrow> no_cache (Some now))
                      | _ \<Rightarrow> no_cache (Some now))
         in (m\<lparr>m_cache := cache\<rparr>, w1)))"

definition stable :: "manager \<Rightarrow> string \<times> routes" where
  "stable m = (case ca_stable (m_cache m) of Some s \<Rightarrow> s | None \<Rightarrow> m_fallback m)"

text \<open>The random number is drawn only when there is an active canary.\<close>

definition rollout_select :: "'w rollout_env \<Rightarrow> manager \<Rightarrow> 'w \<Rightarrow> (routes \<times> variant) \<times> manager \<times> 'w" where
  "rollout_select E m w =
     (let (m1, w1) = load E m w;
          (sv, sc) = stable m1;
          on_stable = (sc, \<lparr>var_name = Stable, var_version = sv\<rparr>)
      in case ca_canary (m_cache m1) of
           None \<Rightarrow> (on_stable, m1, w1)
         | Some (c, config) \<Rightarrow>
             if active c then
               (let (u, w2) = rng (ro_env E) w1 in
                (if u * 100 < of_int (can_weight c)
                 then (config, \<lparr>var_name = Canary, var_version = can_version c\<rparr>) else on_stable, m1, w2))
             else (on_stable, m1, w1))"

section \<open>Writing\<close>

definition invalidate :: "manager \<Rightarrow> manager" where
  "invalidate m = m\<lparr>m_cache := (m_cache m)\<lparr>ca_fetched := None\<rparr>\<rparr>"

definition write_canary ::
  "'w rollout_env \<Rightarrow> canary_state \<Rightarrow> string \<Rightarrow> manager \<Rightarrow> 'w \<Rightarrow> unit option \<times> manager \<times> 'w" where
  "write_canary E c text m w =
     (let (r, w1) = redis (ro_env E) (SET CANARY_KEY (Json (canary_json c text))) w in
      if r = Raised then (None, m, w1) else (Some (), invalidate m, w1))"

text \<open>\<open>config_text or config.model_dump_json()\<close> with no text given\<close>

definition rewrite_canary ::
  "'w rollout_env \<Rightarrow> canary_state \<Rightarrow> routes \<Rightarrow> manager \<Rightarrow> 'w \<Rightarrow> canary_state option option \<times> manager \<times> 'w" where
  "rewrite_canary E c config m w =
     (let m1 = m\<lparr>m_cache := (m_cache m)\<lparr>ca_canary := Some (c, config)\<rparr>\<rparr>;
          (r, m2, w1) = write_canary E c (ro_dump E config) m1 w
      in (map_option (\<lambda>_. Some c) r, m2, w1))"

definition set_weight ::
  "'w rollout_env \<Rightarrow> int \<Rightarrow> manager \<Rightarrow> 'w \<Rightarrow> canary_state option option \<times> manager \<times> 'w" where
  "set_weight E weight m w =
     (let (m1, w1) = load E m w in
      case ca_canary (m_cache m1) of
        None \<Rightarrow> (Some None, m1, w1)
      | Some (c, config) \<Rightarrow>
          rewrite_canary E (c\<lparr>can_weight := weight,
                              can_rolled_back := (if weight \<noteq> 0 then None else can_rolled_back c)\<rparr>) config m1 w1)"

definition roll_back ::
  "'w rollout_env \<Rightarrow> string \<Rightarrow> manager \<Rightarrow> 'w \<Rightarrow> canary_state option option \<times> manager \<times> 'w" where
  "roll_back E reason m w =
     (let (m1, w1) = load E m w in
      case ca_canary (m_cache m1) of
        None \<Rightarrow> (Some None, m1, w1)
      | Some (c, config) \<Rightarrow>
          rewrite_canary E (c\<lparr>can_weight := 0, can_rolled_back := Some (stamp E w1), can_reason := Some reason\<rparr>)
            config m1 w1)"

definition requests_of :: "string \<Rightarrow> string" where "requests_of v = v @ '':requests''"
definition errors_of :: "string \<Rightarrow> string" where "errors_of v = v @ '':errors''"

text \<open>\<open>int(v or 0)\<close>\<close>

definition count_field :: "bulk option \<Rightarrow> int option" where
  "count_field v = (case v of None \<Rightarrow> Some 0 | Some b \<Rightarrow> if b = Txt [] then Some 0 else bulk_int b)"

definition rollout_stats :: "'w rollout_env \<Rightarrow> string \<Rightarrow> 'w \<Rightarrow> (int \<times> int) option \<times> 'w" where
  "rollout_stats E version w =
     (let (r, w1) = redis (ro_env E) (HMGET STATS_KEY [requests_of version, errors_of version]) w in
      (case r of
         Bulks [a, b] \<Rightarrow>
           (case (count_field a, count_field b) of (Some n, Some k) \<Rightarrow> Some (n, k) | _ \<Rightarrow> None)
       | _ \<Rightarrow> None, w1))"

definition maybe_roll_back :: "'w rollout_env \<Rightarrow> string \<Rightarrow> manager \<Rightarrow> 'w \<Rightarrow> unit option \<times> manager \<times> 'w" where
  "maybe_roll_back E version m w =
     (let (m1, w1) = load E m w in
      case ca_canary (m_cache m1) of
        None \<Rightarrow> (Some (), m1, w1)
      | Some (c, config) \<Rightarrow>
          if can_version c \<noteq> version \<or> \<not> active c then (Some (), m1, w1)
          else
            (let (s, w2) = rollout_stats E version w1 in
             case s of
               None \<Rightarrow> (None, m1, w2)
             | Some (requests, errors) \<Rightarrow>
                 if requests < m_min_requests m1 then (Some (), m1, w2)
                 else if requests = 0 then (None, m1, w2)  \<comment> \<open>\<open>ZeroDivisionError\<close>\<close>
                 else if of_int errors / of_int requests \<le> m_max_error_rate m1 then (Some (), m1, w2)
                 else
                   (let reason = ''error rate '' @ percent E (of_int errors / of_int requests) @ '' over ''
                          @ show_int requests @ '' requests, above the '' @ percent E (m_max_error_rate m1)
                          @ '' the canary is allowed'';
                        (r, m2, w3) = roll_back E reason m1 w2
                    in (map_option (\<lambda>_. ()) r, m2, w3))))"

definition rollout_record :: "'w rollout_env \<Rightarrow> variant \<Rightarrow> bool \<Rightarrow> manager \<Rightarrow> 'w \<Rightarrow> unit option \<times> manager \<times> 'w" where
  "rollout_record E v ok m w =
     (let (r, w1) = pipeline (redis (ro_env E))
            (HINCRBY STATS_KEY (requests_of (var_version v)) 1
               # (if ok then [] else [HINCRBY STATS_KEY (errors_of (var_version v)) 1])) w
      in if r = None then (Some (), m, w1)
         else if var_name v = Canary \<and> \<not> ok then maybe_roll_back E (var_version v) m w1
         else (Some (), m, w1))"

text \<open>\<open>publish\<close> raises on a table that does not parse before anything is stored.\<close>

definition publish ::
  "'w rollout_env \<Rightarrow> string \<Rightarrow> int \<Rightarrow> string option \<Rightarrow> manager \<Rightarrow> 'w
     \<Rightarrow> (value_error + canary_state) option \<times> manager \<times> 'w" where
  "publish E text weight note m w =
     (case routes_from_text (ro_parse E) text of
        Inl e \<Rightarrow> (Some (Inl e), m, w)
      | Inr config \<Rightarrow>
          (let c = \<lparr>can_version = fingerprint E config, can_weight = weight, can_note = note,
                    can_created = stamp E w, can_rolled_back = None, can_reason = None\<rparr>;
               (r, m1, w1) = write_canary E c (if text = [] then ro_dump E config else text) m w
           in if r = None then (None, m1, w1)
              else
                (let (d, w2) = redis (ro_env E)
                       (HDEL STATS_KEY [requests_of (can_version c), errors_of (can_version c)]) w1
                 in (if d = Raised then None else Some (Inr c), m1, w2))))"

definition promote :: "'w rollout_env \<Rightarrow> manager \<Rightarrow> 'w \<Rightarrow> (string \<times> routes) option option \<times> manager \<times> 'w" where
  "promote E m w =
     (let (m1, w1) = load E m w in
      case ca_canary (m_cache m1) of
        None \<Rightarrow> (Some None, m1, w1)
      | Some (c, config) \<Rightarrow>
          (let (r, w2) = redis (ro_env E)
                 (SET STABLE_KEY (Json (stable_json (can_version c) (ro_dump E config) (stamp E w1)))) w1
           in if r = Raised then (None, m1, w2)
              else
                (let (d, w3) = redis (ro_env E) (DEL [CANARY_KEY]) w2 in
                 if d = Raised then (None, m1, w3)
                 else (Some (Some (can_version c, config)), invalidate m1, w3))))"

definition discard :: "'w rollout_env \<Rightarrow> manager \<Rightarrow> 'w \<Rightarrow> bool option \<times> manager \<times> 'w" where
  "discard E m w =
     (let (r, w1) = redis (ro_env E) (DEL [CANARY_KEY]) w in
      case r of Integer n \<Rightarrow> (Some (n \<noteq> 0), invalidate m, w1) | _ \<Rightarrow> (None, m, w1))"

section \<open>What a replica reads\<close>

text \<open>The cache a read at time \<open>now\<close> builds from the stored keys.\<close>

definition stored_cache :: "'w rollout_env \<Rightarrow> keyspace \<Rightarrow> seconds \<Rightarrow> cached" where
  "stored_cache E ks now =
     (case (read_entry (parse_stable E) (get_doc ks STABLE_KEY), read_entry (parse_canary E) (get_doc ks CANARY_KEY)) of
        (Some sta, Some ca) \<Rightarrow> \<lparr>ca_stable = sta, ca_canary = ca, ca_fetched = Some now\<rparr>
      | _ \<Rightarrow> no_cache (Some now))"

text \<open>A replica reads the keys again when it has none of them, and when what it has is older than the window.\<close>

definition reload_due :: "'w rollout_env \<Rightarrow> manager \<Rightarrow> 'w \<Rightarrow> bool" where
  "reload_due E m w \<longleftrightarrow>
     (case ca_fetched (m_cache m) of None \<Rightarrow> True | Some t \<Rightarrow> m_refresh m \<le> clk (ro_env E) w - t)"

lemma never_read_due [simp]: "ca_fetched (m_cache m) = None \<Longrightarrow> reload_due E m w"
  by (simp add: reload_due_def)

lemma load_fresh: "\<not> reload_due E m w \<Longrightarrow> load E m w = (m, w)"
  by (auto simp: reload_due_def load_def split: option.splits)

lemma load_due:
  assumes "redis_ok (redis (ro_env E)) keys" and "reload_due E m w"
  shows "fst (load E m w) = m\<lparr>m_cache := stored_cache E (keys w) (clk (ro_env E) w)\<rparr>"
    and "keys (snd (load E m w)) = keys w"
  using assms(2) redis_reply[OF assms(1), of "MGET [STABLE_KEY, CANARY_KEY]" w]
    redis_keys[OF assms(1), of "MGET [STABLE_KEY, CANARY_KEY]" w]
  by (auto simp: load_def Let_def split_beta stored_cache_def reload_due_def split: option.splits)

lemma load_due_eq:
  assumes "redis_ok (redis (ro_env E)) keys" and "reload_due E m w" and "keys w = ks"
  obtains w1 where "load E m w = (m\<lparr>m_cache := stored_cache E ks (clk (ro_env E) w)\<rparr>, w1)" "keys w1 = ks"
  using load_due[OF assms(1,2)] assms(3) by (cases "load E m w") auto

lemma load_down:
  assumes "redis_down (redis (ro_env E))" and "reload_due E m w"
  shows "fst (load E m w) = m\<lparr>m_cache := no_cache (Some (clk (ro_env E) w))\<rparr>"
  using assms by (auto simp: load_def redis_down_def reload_due_def Let_def split_beta split: option.splits)

lemma json_opt_json [simp]: "json_opt (Some (opt_json x)) = Some x"
  by (cases x) (simp_all add: opt_json_def)

lemma parse_canary_json [simp]:
  "parse_canary E (canary_json c text) =
     (case routes_from_text (ro_parse E) text of Inl e \<Rightarrow> None | Inr config \<Rightarrow> Some (c, config))"
  by (cases c) (simp add: parse_canary_def canary_json_def split: sum.splits)

lemma parse_stable_json [simp]:
  "parse_stable E (stable_json v text t) =
     (case routes_from_text (ro_parse E) text of Inl e \<Rightarrow> None | Inr config \<Rightarrow> Some (v, config))"
  by (simp add: parse_stable_def stable_json_def split: sum.splits)

text \<open>What the keys hold: the promoted table, if there is one, and the canary \<open>c\<close> with the table \<open>config\<close>.\<close>

definition holds_stable :: "'w rollout_env \<Rightarrow> keyspace \<Rightarrow> (string \<times> routes) option \<Rightarrow> bool" where
  "holds_stable E ks sta \<longleftrightarrow> read_entry (parse_stable E) (get_doc ks STABLE_KEY) = Some sta"

definition holds_canary :: "'w rollout_env \<Rightarrow> keyspace \<Rightarrow> (string \<times> routes) option \<Rightarrow> canary_state \<Rightarrow> routes \<Rightarrow> bool" where
  "holds_canary E ks sta c config \<longleftrightarrow>
     (\<exists>text. get_doc ks CANARY_KEY = Some (Json (canary_json c text)) \<and> routes_from_text (ro_parse E) text = Inr config)
     \<and> holds_stable E ks sta"

text \<open>The table that serves beside the canary: the promoted one, or the start-up table.\<close>

definition in_force :: "manager \<Rightarrow> (string \<times> routes) option \<Rightarrow> string \<times> routes" where
  "in_force m sta = (case sta of None \<Rightarrow> m_fallback m | Some s \<Rightarrow> s)"

text \<open>The choice between the two, by the draw \<open>u\<close>.\<close>

definition chosen :: "string \<times> routes \<Rightarrow> (canary_state \<times> routes) option \<Rightarrow> real \<Rightarrow> routes \<times> variant" where
  "chosen s ca u =
     (case ca of
        Some (c, config) \<Rightarrow>
          if 0 < can_weight c \<and> can_rolled_back c = None \<and> u * 100 < of_int (can_weight c)
          then (config, \<lparr>var_name = Canary, var_version = can_version c\<rparr>)
          else (snd s, \<lparr>var_name = Stable, var_version = fst s\<rparr>)
      | None \<Rightarrow> (snd s, \<lparr>var_name = Stable, var_version = fst s\<rparr>))"

lemma in_force_cached [simp]: "in_force (m\<lparr>m_cache := x\<rparr>) sta = in_force m sta"
  by (simp add: in_force_def split: option.split)

lemma stored_canary:
  "holds_canary E ks sta c config \<Longrightarrow>
     stored_cache E ks now = \<lparr>ca_stable = sta, ca_canary = Some (c, config), ca_fetched = Some now\<rparr>"
  by (auto simp: holds_canary_def holds_stable_def stored_cache_def read_entry_def[of "parse_canary E"])

lemma select_chosen:
  assumes "load E m w = (m1, w1)"
  shows "fst (rollout_select E m w)
    = chosen (in_force m1 (ca_stable (m_cache m1))) (ca_canary (m_cache m1)) (fst (rng (ro_env E) w1))"
  by (auto simp: rollout_select_def assms chosen_def in_force_def stable_def active_def split_beta Let_def split: option.splits)

text \<open>A replica that knows an active canary of version \<open>v\<close>: the one that has just served a request from it does.\<close>

definition watches :: "manager \<Rightarrow> string \<Rightarrow> bool" where
  "watches m v \<longleftrightarrow> (\<exists>c config. ca_canary (m_cache m) = Some (c, config) \<and> can_version c = v \<and> active c)"

lemma selected_watches:
  assumes "rollout_select E m w = ((table, \<lparr>var_name = Canary, var_version = v\<rparr>), m1, w1)"
  shows "watches m1 v"
  using assms by (auto simp: rollout_select_def watches_def Let_def split_beta split: option.splits if_splits)

lemma load_watches:
  assumes "redis_ok (redis (ro_env E)) keys" and "holds_canary E (keys w) sta c config" and "active c"
    and "watches m (can_version c) \<or> ca_fetched (m_cache m) = None"
  obtains m1 w1 where "load E m w = (m1, w1)" "keys w1 = keys w" "watches m1 (can_version c)"
    "m_min_requests m1 = m_min_requests m" "m_max_error_rate m1 = m_max_error_rate m"
proof (cases "reload_due E m w")
  case True
  from load_due_eq[OF assms(1) True refl] stored_canary[OF assms(2)] assms(3) that show thesis
    by (fastforce simp: watches_def)
next
  case False
  with assms(4) load_fresh[OF False] that show thesis by auto
qed

text \<open>The keys hold no canary that takes traffic.\<close>

definition canary_silent :: "'w rollout_env \<Rightarrow> keyspace \<Rightarrow> bool" where
  "canary_silent E ks \<longleftrightarrow> (\<forall>now c config. ca_canary (stored_cache E ks now) = Some (c, config) \<longrightarrow> \<not> active c)"

lemma silent_stored:
  assumes "get_doc ks CANARY_KEY = Some (Json (canary_json c text))" and "\<not> active c"
  shows "canary_silent E ks"
  using assms by (auto simp: canary_silent_def stored_cache_def read_entry_def no_cache_def
      split: option.splits sum.splits)

lemma silent_select:
  assumes "redis_ok (redis (ro_env E)) keys" and "reload_due E m w" and "canary_silent E (keys w)"
  shows "var_name (snd (fst (rollout_select E m w))) = Stable"
proof -
  obtain w1 where l: "load E m w = (m\<lparr>m_cache := stored_cache E (keys w) (clk (ro_env E) w)\<rparr>, w1)"
    using load_due_eq[OF assms(1,2) refl] by blast
  show ?thesis
    using assms(3) by (auto simp: rollout_select_def l canary_silent_def Let_def split_beta split: option.splits)
qed

section \<open>Pooled outcomes\<close>

definition counted :: "(string \<times> bulk) list \<Rightarrow> string \<Rightarrow> int \<Rightarrow> bool" where
  "counted h f n \<longleftrightarrow> (dict_get h f = None \<and> n = 0) \<or> dict_get h f = Some (Num n)"

lemma hincrby_counts:
  assumes "hash_at ks k = Some h" and "counted h f n"
  shows "\<exists>ks'. doc (HINCRBY k f d) ks = (Integer (n + d), ks') \<and> hash_at ks' k = Some (dict_set f (Num (n + d)) h)
           \<and> (\<forall>x. x \<noteq> k \<longrightarrow> ks' x = ks x)"
  using assms by (auto simp: counted_def put_val_def hash_at_def)

lemma fields_distinct [simp]: "requests_of v \<noteq> errors_of v" "errors_of v \<noteq> requests_of v"
  by (simp_all add: requests_of_def errors_of_def)

lemma counted_set: "counted (dict_set f (Num m) h) f' n \<longleftrightarrow> (if f' = f then n = m else counted h f' n)"
  by (auto simp: counted_def dict_get_set)

lemma record_counts:
  assumes "redis_ok exec keys" and "hash_at (keys w) STATS_KEY = Some h"
    and "counted h (requests_of v) n" and "counted h (errors_of v) k"
    and "pipeline exec (HINCRBY STATS_KEY (requests_of v) 1 # (if ok then [] else [HINCRBY STATS_KEY (errors_of v) 1])) w
         = (r, w1)"
  shows "r \<noteq> None \<and> (\<forall>x. x \<noteq> STATS_KEY \<longrightarrow> keys w1 x = keys w x)
         \<and> (\<exists>h1. hash_at (keys w1) STATS_KEY = Some h1 \<and> counted h1 (requests_of v) (n + 1)
              \<and> counted h1 (errors_of v) (k + (if ok then 0 else 1)))"
proof -
  obtain ks1 where k1: "doc (HINCRBY STATS_KEY (requests_of v) 1) (keys w) = (Integer (n + 1), ks1)"
      "hash_at ks1 STATS_KEY = Some (dict_set (requests_of v) (Num (n + 1)) h)" "\<forall>x. x \<noteq> STATS_KEY \<longrightarrow> ks1 x = keys w x"
    using hincrby_counts[OF assms(2,3)] by blast
  have c: "counted (dict_set (requests_of v) (Num (n + 1)) h) (errors_of v) k"
    using assms(4) by (simp add: counted_set)
  obtain ks2 where k2: "doc (HINCRBY STATS_KEY (errors_of v) 1) ks1 = (Integer (k + 1), ks2)"
      "hash_at ks2 STATS_KEY = Some (dict_set (errors_of v) (Num (k + 1)) (dict_set (requests_of v) (Num (n + 1)) h))"
      "\<forall>x. x \<noteq> STATS_KEY \<longrightarrow> ks2 x = ks1 x"
    using hincrby_counts[OF k1(2) c] by blast
  have r: "r = fst (pipeline doc (HINCRBY STATS_KEY (requests_of v) 1
             # (if ok then [] else [HINCRBY STATS_KEY (errors_of v) 1])) (keys w))"
      "keys w1 = snd (pipeline doc (HINCRBY STATS_KEY (requests_of v) 1
             # (if ok then [] else [HINCRBY STATS_KEY (errors_of v) 1])) (keys w))"
    using redis_pipeline[OF assms(1)] assms(5) by (metis fst_conv, metis snd_conv)
  show ?thesis
    using r k1 k2 c by (cases ok) (auto simp: pipeline_def counted_set simp del: doc.simps)
qed

lemma rollout_stats_counts:
  assumes "redis_ok (redis (ro_env E)) keys" and "hash_at (keys w) STATS_KEY = Some h"
    and "counted h (requests_of v) n" and "counted h (errors_of v) k"
  shows "fst (rollout_stats E v w) = Some (n, k)" and "keys (snd (rollout_stats E v w)) = keys w"
  using assms(2-4) redis_reply[OF assms(1), of "HMGET STATS_KEY [requests_of v, errors_of v]" w]
    redis_keys[OF assms(1), of "HMGET STATS_KEY [requests_of v, errors_of v]" w]
  by (auto simp: rollout_stats_def split_beta Let_def counted_def count_field_def)

lemma keys_distinct [simp]:
  "STABLE_KEY \<noteq> CANARY_KEY" "STATS_KEY \<noteq> CANARY_KEY" "CANARY_KEY \<noteq> STATS_KEY"
  "CANARY_KEY \<noteq> STABLE_KEY" "STABLE_KEY \<noteq> STATS_KEY" "STATS_KEY \<noteq> STABLE_KEY"
  by (simp_all add: STABLE_KEY_def CANARY_KEY_def STATS_KEY_def)

lemma holds_canary_cong:
  "ks' CANARY_KEY = ks CANARY_KEY \<Longrightarrow> ks' STABLE_KEY = ks STABLE_KEY \<Longrightarrow> holds_canary E ks' sta c config = holds_canary E ks sta c config"
  by (simp add: holds_canary_def holds_stable_def get_doc_def)

lemma write_canary_stores:
  assumes "redis_ok (redis (ro_env E)) keys"
  shows "fst (write_canary E c text m w) = Some ()"
    and "fst (snd (write_canary E c text m w)) = invalidate m"
    and "keys (snd (snd (write_canary E c text m w))) = (keys w)(CANARY_KEY \<mapsto> (RStr (Json (canary_json c text)), None))"
  using redis_reply[OF assms, of "SET CANARY_KEY (Json (canary_json c text))" w]
    redis_keys[OF assms, of "SET CANARY_KEY (Json (canary_json c text))" w]
  by (simp_all add: write_canary_def split_beta)

lemma load_again:
  assumes "redis_ok (redis (ro_env E)) keys" and "keys w = ks" and "m_cache m = stored_cache E ks t"
  obtains t' w1 where "load E m w = (m\<lparr>m_cache := stored_cache E ks t'\<rparr>, w1)" "keys w1 = ks"
proof (cases "reload_due E m w")
  case True
  from load_due_eq[OF assms(1) True assms(2)] that show thesis by blast
next
  case False
  from load_fresh[OF False] that[of t w] assms(2,3) show thesis by (cases m) simp
qed

lemma roll_back_silences:
  assumes "redis_ok (redis (ro_env E)) keys" and "holds_canary E (keys w) sta c config" and "active c"
    and "watches m (can_version c)" and "roll_back E reason m w = (r, m', w')"
  shows "\<exists>c' text. r = Some (Some c') \<and> get_doc (keys w') CANARY_KEY = Some (Json (canary_json c' text))
           \<and> \<not> active c' \<and> can_version c' = can_version c \<and> can_reason c' = Some reason \<and> ca_fetched (m_cache m') = None"
proof -
  obtain m1 w1 where l: "load E m w = (m1, w1)" "watches m1 (can_version c)"
    using load_watches[OF assms(1-3)] assms(4) by blast
  then obtain c0 config0 where c0: "ca_canary (m_cache m1) = Some (c0, config0)" "can_version c0 = can_version c"
    by (auto simp: watches_def)
  let ?c = "c0\<lparr>can_weight := 0, can_rolled_back := Some (stamp E w1), can_reason := Some reason\<rparr>"
  let ?m = "m1\<lparr>m_cache := (m_cache m1)\<lparr>ca_canary := Some (?c, config0)\<rparr>\<rparr>"
  have r: "r = map_option (\<lambda>_. Some ?c) (fst (write_canary E ?c (ro_dump E config0) ?m w1))"
      "w' = snd (snd (write_canary E ?c (ro_dump E config0) ?m w1))"
      "m' = fst (snd (write_canary E ?c (ro_dump E config0) ?m w1))"
    using assms(5) c0 l by (auto simp: roll_back_def rewrite_canary_def split_beta Let_def)
  show ?thesis
    unfolding r write_canary_stores[OF assms(1)]
    by (intro exI[of _ ?c] exI[of _ "ro_dump E config0"]) (simp add: get_doc_def active_def invalidate_def c0(2))
qed

definition judged_bad :: "manager \<Rightarrow> int \<Rightarrow> int \<Rightarrow> bool" where
  "judged_bad m requests errors \<longleftrightarrow>
     m_min_requests m \<le> requests \<and> of_int errors / of_int requests > m_max_error_rate m"

lemma maybe_roll_back_judges:
  assumes "redis_ok (redis (ro_env E)) keys"
    and "holds_canary E (keys w) sta c config" and "active c"
    and "watches m (can_version c) \<or> ca_fetched (m_cache m) = None"
    and "hash_at (keys w) STATS_KEY = Some h" "counted h (requests_of (can_version c)) n"
    "counted h (errors_of (can_version c)) k" "0 < n"
    and "maybe_roll_back E (can_version c) m w = (r, m', w')"
  shows "r = Some () \<and>
     (if judged_bad m n k
      then \<exists>c' text reason. get_doc (keys w') CANARY_KEY = Some (Json (canary_json c' text))
             \<and> \<not> active c' \<and> can_version c' = can_version c \<and> can_reason c' = Some reason \<and> ca_fetched (m_cache m') = None
      else keys w' = keys w)"
proof -
  obtain m1 w1 where l: "load E m w = (m1, w1)" "keys w1 = keys w" "watches m1 (can_version c)"
      "m_min_requests m1 = m_min_requests m" "m_max_error_rate m1 = m_max_error_rate m"
    using load_watches[OF assms(1-4)] by blast
  then obtain c0 config0 where c0: "ca_canary (m_cache m1) = Some (c0, config0)" "can_version c0 = can_version c" "active c0"
    by (auto simp: watches_def)
  obtain w2 where s: "rollout_stats E (can_version c) w1 = (Some (n, k), w2)" "keys w2 = keys w"
    using rollout_stats_counts[OF assms(1), of w1 h "can_version c" n k] assms(5-7) l(2)
    by (cases "rollout_stats E (can_version c) w1") auto
  show ?thesis
  proof (cases "judged_bad m n k")
    case False
    then show ?thesis
      using assms(8,9) l s c0 by (auto simp: maybe_roll_back_def judged_bad_def split: if_splits)
  next
    case True
    define reason where "reason = ''error rate '' @ percent E (of_int k / of_int n) @ '' over ''
                          @ show_int n @ '' requests, above the '' @ percent E (m_max_error_rate m)
                          @ '' the canary is allowed''"
    obtain r2 m2 w3 where rb: "roll_back E reason m1 w2 = (r2, m2, w3)" by (cases "roll_back E reason m1 w2")
    have "r = map_option (\<lambda>_. ()) r2 \<and> m' = m2 \<and> w' = w3"
      using assms(8,9) l s c0 True rb
      by (auto simp: maybe_roll_back_def judged_bad_def reason_def Let_def)
    then show ?thesis
      using roll_back_silences[OF assms(1) _ assms(3) l(3) rb, of sta config] assms(2) s(2) True by auto
  qed
qed

section \<open>Properties\<close>

text \<open>C33: A published canary takes its share and no more: on any replica whose cached pair is older than
  the refresh window, or that has none, a request goes to it exactly when the weight is positive and the
  replica's draw falls below it, and otherwise to the table in force, which is the promoted one if there
  is one and the start-up table if not; the counters of its version start at nought (the key of the
  counters is a hash or absent). Within the window a replica chooses from the pair it has, without asking
  Redis; and when Redis cannot be read, a replica that is due serves everything from its start-up table.\<close>

theorem canary_takes_its_share:
  assumes "redis_ok (redis (ro_env E)) keys" and "hash_at (keys w) STATS_KEY = Some h"
    and "holds_stable E (keys w) sta" and "text \<noteq> []" and "routes_from_text (ro_parse E) text = Inr config"
    and "publish E text weight note m w = (r, m1, w1)"
    and "reload_due E m2 w2" and "keys w2 = keys w1"
  shows "\<exists>c. r = Some (Inr c) \<and> can_version c = fingerprint E config \<and> fst (rollout_stats E (can_version c) w1) = Some (0, 0)
           \<and> fst (rollout_select E m2 w2) =
               (if 0 < weight \<and> fst (rng (ro_env E) (snd (load E m2 w2))) * 100 < of_int weight
                then (config, \<lparr>var_name = Canary, var_version = fingerprint E config\<rparr>)
                else (snd (in_force m2 sta), \<lparr>var_name = Stable, var_version = fst (in_force m2 sta)\<rparr>))
           \<and> (\<not> reload_due E' m3 w3 \<longrightarrow>
                fst (rollout_select E' m3 w3)
                  = chosen (in_force m3 (ca_stable (m_cache m3))) (ca_canary (m_cache m3)) (fst (rng (ro_env E') w3)))
           \<and> (redis_down (redis (ro_env E')) \<longrightarrow> reload_due E' m3 w3 \<longrightarrow>
                fst (rollout_select E' m3 w3)
                  = (snd (m_fallback m3), \<lparr>var_name = Stable, var_version = fst (m_fallback m3)\<rparr>))"
proof -
  define c where "c = \<lparr>can_version = fingerprint E config, can_weight = weight, can_note = note,
                    can_created = stamp E w, can_rolled_back = None, can_reason = None\<rparr>"
  let ?wc = "snd (snd (write_canary E c text m w))"
  let ?del = "HDEL STATS_KEY [requests_of (can_version c), errors_of (can_version c)]"
  note wr = write_canary_stores[OF assms(1), of c "text" m w]
  have h: "hash_at (keys ?wc) STATS_KEY = Some h"
    using assms(2) by (simp add: wr(3) hash_at_def)
  have rep: "fst (redis (ro_env E) ?del ?wc) \<noteq> Raised"
    using h redis_reply[OF assms(1), of ?del ?wc] by simp
  have ks1: "keys w1 = snd (doc ?del (keys ?wc))" and r: "r = Some (Inr c)"
    using assms(4-6) wr rep redis_keys[OF assms(1), of ?del ?wc]
    by (auto simp: publish_def c_def[symmetric] split_beta Let_def)
  define h1 where "h1 = filter (\<lambda>(f, v). f \<notin> set [requests_of (can_version c), errors_of (can_version c)]) h"
  have gone: "dict_get (filter (\<lambda>(f, v). f \<notin> set fs) h) x = None" if "x \<in> set fs" for fs x
    using that by (induction h) auto
  have stats: "counted h1 (requests_of (can_version c)) 0" "counted h1 (errors_of (can_version c)) 0"
    using gone[of "requests_of (can_version c)" "[requests_of (can_version c), errors_of (can_version c)]"]
      gone[of "errors_of (can_version c)" "[requests_of (can_version c), errors_of (can_version c)]"]
    unfolding h1_def counted_def by (meson list.set_intros)+
  have h1: "hash_at (keys w1) STATS_KEY = Some h1"
    using h by (auto simp: ks1 h1_def hash_at_def put_val_def)
  have "keys w1 CANARY_KEY = keys ?wc CANARY_KEY" "keys w1 STABLE_KEY = keys ?wc STABLE_KEY"
    using h by (auto simp: ks1 put_val_def)
  then have "holds_canary E (keys w1) sta c config"
    using assms(3,5) by (auto simp: holds_canary_def holds_stable_def get_doc_def wr(3))
  note cache = stored_canary[OF this]
  obtain w2' where l: "load E m2 w2 = (m2\<lparr>m_cache := stored_cache E (keys w1) (clk (ro_env E) w2)\<rparr>, w2')"
    by (rule load_due_eq[OF assms(1,7,8)])
  have sel: "fst (rollout_select E m2 w2) =
               (if 0 < weight \<and> fst (rng (ro_env E) (snd (load E m2 w2))) * 100 < of_int weight
                then (config, \<lparr>var_name = Canary, var_version = fingerprint E config\<rparr>)
                else (snd (in_force m2 sta), \<lparr>var_name = Stable, var_version = fst (in_force m2 sta)\<rparr>))"
    unfolding select_chosen[OF l] by (simp add: cache chosen_def c_def l)
  have down: "fst (rollout_select E' m3 w3)
                  = (snd (m_fallback m3), \<lparr>var_name = Stable, var_version = fst (m_fallback m3)\<rparr>)"
    if "redis_down (redis (ro_env E'))" "reload_due E' m3 w3"
    using load_down[OF that] by (simp add: rollout_select_def stable_def no_cache_def split_beta Let_def)
  show ?thesis
    using r rollout_stats_counts(1)[OF assms(1) h1 stats] sel down select_chosen[OF load_fresh] by (auto simp: c_def)
qed

text \<open>C7: A bad canary rolls itself back for every replica. When a canary request fails on a replica that knows
  the canary (as the one that served the request from it does) or has read nothing yet, while Redis still
  holds the canary active, and the pooled counts then show at least \<open>min_requests\<close> requests with an error
  rate above \<open>max_error_rate\<close>, the stored canary is deactivated with its reason, and neither the recording
  replica from then on nor any replica once its refresh window has run out sends it a request, whatever
  it draws; when the counts do not show that, the canary stays stored as it was.\<close>

theorem bad_canary_rolls_itself_back:
  assumes "redis_ok (redis (ro_env E)) keys" and "watches m (can_version c) \<or> ca_fetched (m_cache m) = None"
    and "holds_canary E (keys w) sta c config" and "active c"
    and "hash_at (keys w) STATS_KEY = Some h" "counted h (requests_of (can_version c)) n"
    "counted h (errors_of (can_version c)) k" "0 \<le> n"
    and "rollout_record E \<lparr>var_name = Canary, var_version = can_version c\<rparr> False m w = (r, m', w')"
    and "m2 = m' \<or> reload_due E m2 w2" and "keys w2 = keys w'"
  shows "r = Some () \<and>
     (if judged_bad m (n + 1) (k + 1)
      then var_name (snd (fst (rollout_select E m2 w2))) = Stable
           \<and> (\<exists>c' text reason. get_doc (keys w') CANARY_KEY = Some (Json (canary_json c' text))
                \<and> can_version c' = can_version c \<and> \<not> active c' \<and> can_reason c' = Some reason)
      else holds_canary E (keys w') sta c config)"
proof -
  let ?v = "can_version c"
  obtain p w1 where p: "pipeline (redis (ro_env E))
        (HINCRBY STATS_KEY (requests_of ?v) 1 # (if False then [] else [HINCRBY STATS_KEY (errors_of ?v) 1])) w = (p, w1)"
    by (cases "pipeline (redis (ro_env E))
        (HINCRBY STATS_KEY (requests_of ?v) 1 # (if False then [] else [HINCRBY STATS_KEY (errors_of ?v) 1])) w")
  from record_counts[OF assms(1,5-7) p] obtain h1 where h1: "p \<noteq> None" "\<forall>x. x \<noteq> STATS_KEY \<longrightarrow> keys w1 x = keys w x"
      "hash_at (keys w1) STATS_KEY = Some h1" "counted h1 (requests_of ?v) (n + 1)" "counted h1 (errors_of ?v) (k + 1)"
    by auto
  have holds: "holds_canary E (keys w1) sta c config"
    using assms(3) h1(2) holds_canary_cong[of "keys w1" "keys w" E sta c config] by simp
  have mr: "maybe_roll_back E ?v m w1 = (r, m', w')"
    using assms(9) p h1(1) by (cases p) (auto simp: rollout_record_def)
  note j = maybe_roll_back_judges[OF assms(1) holds assms(4,2) h1(3-5) _ mr]
  show ?thesis
  proof (cases "judged_bad m (n + 1) (k + 1)")
    case False
    then show ?thesis using j assms(8) holds holds_canary_cong[of "keys w'" "keys w1" E sta c config] by simp
  next
    case True
    then obtain c' yaml reason where c': "get_doc (keys w') CANARY_KEY = Some (Json (canary_json c' yaml))"
        "\<not> active c'" "can_version c' = can_version c" "can_reason c' = Some reason" "r = Some ()"
        "ca_fetched (m_cache m') = None"
      using j assms(8) by auto
    have "canary_silent E (keys w2)"
      using silent_stored[of "keys w'" c' yaml E] c' assms(11) by simp
    moreover have "reload_due E m2 w2" using assms(10) c'(6) by auto
    ultimately show ?thesis using silent_select[OF assms(1)] c' True by auto
  qed
qed

text \<open>A concrete rollout: every text parses to one fixed table, the draw is 0.\<close>

definition ex_table :: routes where
  "ex_table = [(''r'', [\<lparr>dep_name = ''d'', dep_provider = ''mock'', dep_model = ''m'', dep_api_base = None,
     dep_timeout = None, max_retries = 0, dep_pricing = None, self_hosted = False, dep_options = []\<rparr>])]"

definition ex_rollout :: "keyspace rollout_env" where
  "ex_rollout = \<lparr>ro_env = doc_env, ro_parse = (\<lambda>_. Inr ex_table), ro_dump = (\<lambda>_. ''{}''), fingerprint = (\<lambda>_. ''f1''),
                 stamp = (\<lambda>_. ''now''), percent = (\<lambda>_. ''50%'')\<rparr>"

definition ex_manager :: manager where
  "ex_manager = new_manager ex_rollout [] 2 (1/10) 1"

lemmas rollout_ex = ex_rollout_def ex_manager_def new_manager_def no_cache_def doc_env_def

lemma ex_table_parses: "routes_from_text (ro_parse ex_rollout) t = Inr ex_table"
  by (simp add: routes_from_text_def ex_rollout_def ex_table_def validate_routes_def)

text \<open>Another replica, whose pair was read one window ago, when there was neither table: it reads again. The
  canary is published beside a table that was promoted before.\<close>

definition ex_stale :: manager where
  "ex_stale = ex_manager\<lparr>m_cache := no_cache (Some (- 1))\<rparr>"

definition ex_promoted :: keyspace where
  "ex_promoted = [STABLE_KEY \<mapsto> (RStr (Json (stable_json ''v0'' ''y'' ''t'')), None)]"

lemma ex_stale_due: "reload_due ex_rollout ex_stale ks"
  by (simp add: reload_due_def ex_stale_def rollout_ex)

lemma canary_takes_its_share_witness:
  "\<exists>c m1 ks. publish ex_rollout ''yaml'' 10 None ex_manager ex_promoted = (Some (Inr c), m1, ks)
     \<and> fst (rollout_select ex_rollout ex_stale ks) = (ex_table, \<lparr>var_name = Canary, var_version = ''f1''\<rparr>)
     \<and> fst (rollout_select ex_rollout (ex_stale\<lparr>m_cache := no_cache (Some 0)\<rparr>) ks)
         = ([], \<lparr>var_name = Stable, var_version = ''f1''\<rparr>)"
proof -
  obtain r m1 ks where p: "publish ex_rollout ''yaml'' 10 None ex_manager ex_promoted = (r, m1, ks)"
    by (cases "publish ex_rollout ''yaml'' 10 None ex_manager ex_promoted")
  have ok: "redis_ok (redis (ro_env ex_rollout)) id" by (simp add: rollout_ex)
  have h: "hash_at (id ex_promoted) STATS_KEY = Some []"
    by (simp add: hash_at_def ex_promoted_def)
  have sta: "holds_stable ex_rollout (id ex_promoted) (Some (''v0'', ex_table))"
    by (simp add: holds_stable_def ex_promoted_def get_doc_def read_entry_def ex_table_parses)
  have draw: "fst (rng (ro_env ex_rollout) x) = 0" for x by (simp add: rollout_ex)
  have fp: "fingerprint ex_rollout x = ''f1''" for x by (simp add: rollout_ex)
  have fresh: "\<not> reload_due ex_rollout (ex_stale\<lparr>m_cache := no_cache (Some 0)\<rparr>) ks"
    by (simp add: reload_due_def ex_stale_def rollout_ex)
  from canary_takes_its_share[OF ok h sta _ ex_table_parses p ex_stale_due, where ?w2.0 = ks and E' = ex_rollout
      and ?m3.0 = "ex_stale\<lparr>m_cache := no_cache (Some 0)\<rparr>" and ?w3.0 = ks] p fresh
  show ?thesis by (auto simp: draw fp chosen_def in_force_def no_cache_def ex_stale_def ex_manager_def new_manager_def)
qed

text \<open>A request served by the canary fails; the replica that served it recorded it, and another one, whose
  pair is a window old, no longer sends the canary a request.\<close>

lemma bad_canary_rolls_itself_back_witness:
  "\<exists>table m ks r m' ks'. rollout_select ex_rollout ex_manager
       [CANARY_KEY \<mapsto> (RStr (Json (canary_json \<lparr>can_version = ''f1'', can_weight = 50, can_note = None,
          can_created = ''t'', can_rolled_back = None, can_reason = None\<rparr> ''y'')), None),
        STATS_KEY \<mapsto> (RHash [(''f1:requests'', Num 5)], None)] = ((table, \<lparr>var_name = Canary, var_version = ''f1''\<rparr>), m, ks)
     \<and> ca_fetched (m_cache m) \<noteq> None
     \<and> rollout_record ex_rollout \<lparr>var_name = Canary, var_version = ''f1''\<rparr> False m ks = (r, m', ks')
     \<and> var_name (snd (fst (rollout_select ex_rollout ex_stale ks'))) = Stable"
proof -
  define c where "c = \<lparr>can_version = ''f1'', can_weight = 50, can_note = None,
          can_created = ''t'', can_rolled_back = None, can_reason = None\<rparr>"
  let ?w = "[CANARY_KEY \<mapsto> (RStr (Json (canary_json c ''y'')), None),
        STATS_KEY \<mapsto> (RHash [(''f1:requests'', Num 5)], None)] :: keyspace"
  have ok: "redis_ok (redis (ro_env ex_rollout)) id" by (simp add: rollout_ex)
  have holds: "holds_canary ex_rollout (id ?w) None c ex_table"
    by (simp add: holds_canary_def holds_stable_def read_entry_def get_doc_def, intro exI[of _ "''y''"]) (simp add: ex_table_parses)
  obtain m where l: "load ex_rollout ex_manager ?w = (m, ?w)" "m_cache m = stored_cache ex_rollout ?w 0"
      "m_min_requests m = 2" "m_max_error_rate m = 1 / 10"
  proof -
    obtain w1 where "load ex_rollout ex_manager ?w = (ex_manager\<lparr>m_cache := stored_cache ex_rollout ?w (clk (ro_env ex_rollout) ?w)\<rparr>, w1)"
        "id w1 = ?w"
      by (rule load_due_eq[OF ok, of ex_manager ?w ?w]) (simp_all add: rollout_ex)
    with that show thesis by (simp add: rollout_ex)
  qed
  have sel: "rollout_select ex_rollout ex_manager ?w = ((ex_table, \<lparr>var_name = Canary, var_version = ''f1''\<rparr>), m, ?w)"
    using l stored_canary[OF holds] by (simp add: rollout_select_def stable_def rollout_ex active_def c_def)
  obtain r m' ks where p: "rollout_record ex_rollout \<lparr>var_name = Canary, var_version = can_version c\<rparr> False m ?w = (r, m', ks)"
    by (cases "rollout_record ex_rollout \<lparr>var_name = Canary, var_version = can_version c\<rparr> False m ?w")
  have knows: "watches m (can_version c)" using selected_watches[OF sel] by (simp add: c_def)
  have act: "active c" by (simp add: active_def c_def)
  have h: "hash_at (id ?w) STATS_KEY = Some [(''f1:requests'', Num 5)]" by (simp add: hash_at_def)
  have n: "counted [(''f1:requests'', Num 5)] (requests_of (can_version c)) 5"
       and k: "counted [(''f1:requests'', Num 5)] (errors_of (can_version c)) 0"
    by (simp_all add: counted_def requests_of_def errors_of_def c_def)
  have "judged_bad m 6 1" using l by (simp add: judged_bad_def)
  moreover have "ca_fetched (m_cache m) \<noteq> None" using l(2) stored_canary[OF holds] by simp
  ultimately show ?thesis
    using bad_canary_rolls_itself_back[OF ok _ holds act h n k _ p, of ex_stale ks] knows ex_stale_due[of ks] p sel
    by (auto simp: c_def)
qed

end
