(* ===== verification/Semantic_Cache.thy ===== *)
theory Semantic_Cache
  imports Redis Route_Table
begin

text \<open>
  The semantic response cache (\<open>app/cache/semantic_cache.py\<close>). The embedder, the SHA-256 digest of a
  namespace's material (\<open>digest\<close>, 32 hex characters of it), the wall clock and \<open>uuid4\<close> are parameters;
  vectors are exact. A call ends with a value, with \<open>OverloadedError\<close> (the embedder's gate sheds), or
  with another exception. The index is an interface (locale \<open>vector_index\<close>): the brute-force index is
  modelled and meets it on the documented server, the RediSearch index asks a module of the server
  that is a parameter.
\<close>

section \<open>Keys and namespaces\<close>

datatype 'a cache_call = Done 'a | Saturated | CacheFailed

record 'w cache_env =
  cx :: "'w redis"
  embed :: "string \<Rightarrow> 'w \<Rightarrow> real list cache_call \<times> 'w"
  digest :: "json \<Rightarrow> string"
  wall :: "'w \<Rightarrow> seconds"
  new_id :: "'w \<Rightarrow> string \<times> 'w"

record semantic_cache =
  threshold :: real
  ttl :: int
  max_entries :: int

definition new_cache :: "real \<Rightarrow> int \<Rightarrow> int \<Rightarrow> value_error + semantic_cache" where
  "new_cache t s n =
     (if \<not> (0 < t \<and> t \<le> 1) then Inl (ValueError ''threshold must be in (0, 1]'')
      else Inr \<lparr>threshold = t, ttl = s, max_entries = n\<rparr>)"

definition entry_key :: "string \<Rightarrow> string \<Rightarrow> string" where
  "entry_key ns i = ''semcache:e:'' @ ns @ '':'' @ i"

definition zset_key :: "string \<Rightarrow> string" where "zset_key ns = ''semcache:z:'' @ ns"
definition tenant_key :: "string \<Rightarrow> string" where "tenant_key t = ''semcache:t:'' @ t"

fun role_text :: "role \<Rightarrow> string" where
  "role_text System = ''system''"
| "role_text User = ''user''"
| "role_text Assistant = ''assistant''"
| "role_text ToolRole = ''tool''"

definition message_json :: "chat_message \<Rightarrow> json" where
  "message_json m = JObj [(''content'', JStr (msg_content m)), (''role'', JStr (role_text (msg_role m)))]"

text \<open>What the namespace hashes, with sorted keys; the messages are never empty.\<close>

definition namespace_material :: "string \<Rightarrow> chat_request \<Rightarrow> json" where
  "namespace_material tenant r = JObj
     [(''context'', JArr (map message_json (butlast (messages r)))),
      (''last_role'', JStr (role_text (msg_role (last (messages r))))),
      (''max_tokens'', (case max_tokens r of None \<Rightarrow> JNull | Some n \<Rightarrow> JNum n)),
      (''route'', JStr (req_model r)),
      (''temperature'', (case temperature r of None \<Rightarrow> JNull | Some t \<Rightarrow> JReal t)),
      (''tenant'', JStr tenant)]"

definition namespace_for :: "'w cache_env \<Rightarrow> string \<Rightarrow> chat_request \<Rightarrow> string" where
  "namespace_for E tenant r = digest E (namespace_material tenant r)"

section \<open>The brute-force index\<close>

definition dot :: "real list \<Rightarrow> real list \<Rightarrow> real" where
  "dot u v = sum_list (map2 (*) u v)"

text \<open>\<open>np.argmax\<close>: the first of the largest.\<close>

fun best_of :: "('a \<times> real) list \<Rightarrow> ('a \<times> real) option" where
  "best_of [] = None"
| "best_of ((a, x) # xs) =
     (case best_of xs of None \<Rightarrow> Some (a, x) | Some (b, y) \<Rightarrow> if y > x then Some (b, y) else Some (a, x))"

fun vec_reply :: "reply \<Rightarrow> real list option option" where
  "vec_reply NilReply = Some None"
| "vec_reply (Bulk (Vec v)) = Some (Some v)"
| "vec_reply _ = None"

definition live_of :: "string list \<Rightarrow> 'v option list \<Rightarrow> (string \<times> 'v) list" where
  "live_of ids raw = concat (map (\<lambda>(i, x). case x of None \<Rightarrow> [] | Some v \<Rightarrow> [(i, v)]) (zip ids raw))"

definition expired_of :: "string list \<Rightarrow> 'v option list \<Rightarrow> string list" where
  "expired_of ids raw = concat (map (\<lambda>(i, x). case x of None \<Rightarrow> [i] | Some v \<Rightarrow> []) (zip ids raw))"

definition brute_nearest ::
  "'w redis \<Rightarrow> int \<Rightarrow> string \<Rightarrow> real list \<Rightarrow> 'w \<Rightarrow> (string \<times> real) option cache_call \<times> 'w" where
  "brute_nearest exec cap ns vec w =
     (case exec (ZREVRANGE (zset_key ns) 0 (cap - 1)) w of
        (Bulks bs, w1) \<Rightarrow>
          (case text_ids bs of
             None \<Rightarrow> (CacheFailed, w1)
           | Some ids \<Rightarrow>
               if ids = [] then (Done None, w1)
               else
                 (let (rs, w2) = pipeline exec (map (\<lambda>i. HGET (entry_key ns i) ''vec'') ids) w1 in
                  case Option.bind rs (\<lambda>l. all_some (map vec_reply l)) of
                    None \<Rightarrow> (CacheFailed, w2)
                  | Some raw \<Rightarrow>
                      (let live = live_of ids raw;
                           expired = expired_of ids raw;
                           (z, w3) = (if expired = [] then (OK, w2) else exec (ZREM (zset_key ns) expired) w2)
                       in if z = Raised then (CacheFailed, w3)
                          else (Done (map_option (\<lambda>(i, s). (entry_key ns i, s)) (best_of (map (\<lambda>(i, v). (i, dot v vec)) live))),
                                w3))))
      | (r, w1) \<Rightarrow> (CacheFailed, w1))"

text \<open>\<open>knn\<close> stands for the KNN 1 query: the documents found, with their cosine distance.\<close>

definition redisearch_nearest ::
  "(string \<Rightarrow> real list \<Rightarrow> 'w \<Rightarrow> (string \<times> real) list option \<times> 'w) \<Rightarrow> string \<Rightarrow> real list \<Rightarrow> 'w
     \<Rightarrow> (string \<times> real) option cache_call \<times> 'w" where
  "redisearch_nearest knn ns vec w =
     (let (r, w1) = knn ns vec w in
      (case r of
         None \<Rightarrow> CacheFailed
       | Some docs \<Rightarrow> Done (case docs of [] \<Rightarrow> None | (k, far) # _ \<Rightarrow> Some (k, 1 - far)), w1))"

section \<open>Completions\<close>

record cached_completion =
  cc_content :: string
  cc_model :: string
  cc_finish :: string
  cc_prompt :: int
  cc_completion :: int
  cc_deployment :: string
  cc_cost :: real

definition completion_json :: "cached_completion \<Rightarrow> json" where
  "completion_json c = JObj
     [(''content'', JStr (cc_content c)), (''model'', JStr (cc_model c)), (''finish_reason'', JStr (cc_finish c)),
      (''prompt_tokens'', JNum (cc_prompt c)), (''completion_tokens'', JNum (cc_completion c)),
      (''deployment'', JStr (cc_deployment c)), (''cost_usd'', JReal (cc_cost c))]"

definition parse_completion :: "json \<Rightarrow> cached_completion option" where
  "parse_completion j =
     (case (json_get j ''content'', json_get j ''model'', json_get j ''finish_reason'', json_get j ''prompt_tokens'',
            json_get j ''completion_tokens'', json_get j ''deployment'', json_get j ''cost_usd'') of
        (Some (JStr c), Some (JStr m), Some (JStr f), Some (JNum p), Some (JNum q), Some (JStr d), Some (JReal x)) \<Rightarrow>
          Some \<lparr>cc_content = c, cc_model = m, cc_finish = f, cc_prompt = p, cc_completion = q,
                cc_deployment = d, cc_cost = x\<rparr>
      | _ \<Rightarrow> None)"

record cache_hit =
  hit_completion :: cached_completion
  hit_similarity :: real

section \<open>Lookup and store\<close>

type_synonym 'w nearest = "string \<Rightarrow> real list \<Rightarrow> 'w \<Rightarrow> (string \<times> real) option cache_call \<times> 'w"

definition final_text :: "chat_request \<Rightarrow> string" where
  "final_text r = msg_content (last (messages r))"

definition cache_lookup ::
  "'w cache_env \<Rightarrow> 'w nearest \<Rightarrow> semantic_cache \<Rightarrow> string \<Rightarrow> chat_request \<Rightarrow> 'w \<Rightarrow> cache_hit option cache_call \<times> 'w" where
  "cache_lookup E nearest c tenant r w =
     (let ns = namespace_for E tenant r; (v, w1) = embed E (final_text r) w in
      case v of
        Saturated \<Rightarrow> (Saturated, w1)
      | CacheFailed \<Rightarrow> (CacheFailed, w1)
      | Done vec \<Rightarrow>
          (let (found, w2) = nearest ns vec w1 in
           case found of
             Saturated \<Rightarrow> (Saturated, w2)
           | CacheFailed \<Rightarrow> (CacheFailed, w2)
           | Done None \<Rightarrow> (Done None, w2)
           | Done (Some (key, similarity)) \<Rightarrow>
               if similarity < threshold c then (Done None, w2)
               else
                 (let (p, w3) = cx E (HGET key ''payload'') w2 in
                  (case p of
                     NilReply \<Rightarrow> Done None
                   | Bulk b \<Rightarrow>
                       (case Option.bind (bulk_json b) parse_completion of
                          None \<Rightarrow> CacheFailed
                        | Some x \<Rightarrow> Done (Some \<lparr>hit_completion = x, hit_similarity = py_round 4 similarity\<rparr>))
                   | _ \<Rightarrow> CacheFailed, w3))))"

definition store_cmds ::
  "semantic_cache \<Rightarrow> string \<Rightarrow> string \<Rightarrow> string \<Rightarrow> real list \<Rightarrow> cached_completion \<Rightarrow> seconds \<Rightarrow> cmd list" where
  "store_cmds c tenant ns i vec x now =
     [HSET (entry_key ns i) [(''ns'', Txt ns), (''vec'', Vec vec), (''payload'', Json (completion_json x)),
                             (''created'', Flt now)],
      EXPIRE (entry_key ns i) (ttl c),
      ZADD (zset_key ns) i now,
      ZREMUPTO (zset_key ns) (now - of_int (ttl c)),
      ZRANGE (zset_key ns) 0 (- (max_entries c + 1)),
      ZREMRANK (zset_key ns) 0 (- (max_entries c + 1)),
      EXPIRE (zset_key ns) (ttl c),
      SADD (tenant_key tenant) ns,
      EXPIRE (tenant_key tenant) (ttl c)]"

definition cache_store ::
  "'w cache_env \<Rightarrow> semantic_cache \<Rightarrow> string \<Rightarrow> chat_request \<Rightarrow> cached_completion \<Rightarrow> 'w \<Rightarrow> unit cache_call \<times> 'w" where
  "cache_store E c tenant r x w =
     (let ns = namespace_for E tenant r; (v, w1) = embed E (final_text r) w in
      case v of
        Saturated \<Rightarrow> (Saturated, w1)
      | CacheFailed \<Rightarrow> (CacheFailed, w1)
      | Done vec \<Rightarrow>
          (let (i, w2) = new_id E w1;
               (rs, w3) = pipeline (cx E) (store_cmds c tenant ns i vec x (wall E w2)) w2
           in case rs of
                None \<Rightarrow> (CacheFailed, w3)
              | Some l \<Rightarrow>
                  (case l ! 4 of
                     Bulks bs \<Rightarrow>
                       (case text_ids bs of
                          None \<Rightarrow> (CacheFailed, w3)
                        | Some evicted \<Rightarrow>
                            if evicted = [] then (Done (), w3)
                            else (let (d, w4) = cx E (DEL (map (entry_key ns) evicted)) w3
                                  in (if d = Raised then CacheFailed else Done (), w4)))
                   | _ \<Rightarrow> (CacheFailed, w3))))"

section \<open>Purging\<close>

text \<open>The deletes go in batches of 500.\<close>

fun delete_batches :: "'w redis \<Rightarrow> string list list \<Rightarrow> 'w \<Rightarrow> int option \<times> 'w" where
  "delete_batches exec [] w = (Some 0, w)"
| "delete_batches exec (b # bs) w =
     (let (r, w1) = exec (DEL b) w in
      case r of
        Integer n \<Rightarrow> (let (m, w2) = delete_batches exec bs w1 in (map_option (\<lambda>k. n + k) m, w2))
      | _ \<Rightarrow> (None, w1))"

definition delete_matching :: "'w redis \<Rightarrow> string \<Rightarrow> 'w \<Rightarrow> int option \<times> 'w" where
  "delete_matching exec p w =
     (case exec (SCAN p) w of
        (Members ks, w1) \<Rightarrow> delete_batches exec (pieces 500 (sorted_list_of_set ks)) w1
      | (r, w1) \<Rightarrow> (None, w1))"

fun purge_namespaces :: "'w redis \<Rightarrow> string list \<Rightarrow> 'w \<Rightarrow> int option \<times> 'w" where
  "purge_namespaces exec [] w = (Some 0, w)"
| "purge_namespaces exec (ns # rest) w =
     (let (n, w1) = delete_matching exec (''semcache:e:'' @ ns @ '':'') w in
      case n of
        None \<Rightarrow> (None, w1)
      | Some k \<Rightarrow>
          (let (d, w2) = exec (DEL [zset_key ns]) w1 in
           if d = Raised then (None, w2)
           else (let (m, w3) = purge_namespaces exec rest w2 in (map_option (\<lambda>j. k + j) m, w3))))"

definition purge_tenant :: "'w redis \<Rightarrow> string \<Rightarrow> 'w \<Rightarrow> int option \<times> 'w" where
  "purge_tenant exec tenant w =
     (case exec (SMEMBERS (tenant_key tenant)) w of
        (Members s, w1) \<Rightarrow>
          (let (n, w2) = purge_namespaces exec (sorted_list_of_set s) w1 in
           case n of
             None \<Rightarrow> (None, w2)
           | Some k \<Rightarrow> (let (d, w3) = exec (DEL [tenant_key tenant]) w2 in (if d = Raised then None else Some k, w3)))
      | (r, w1) \<Rightarrow> (None, w1))"

definition purge_all :: "'w redis \<Rightarrow> 'w \<Rightarrow> int option \<times> 'w" where
  "purge_all exec w =
     (let (n, w1) = delete_matching exec ''semcache:e:'' w in
      if n = None then (None, w1)
      else
        (let (z, w2) = delete_matching exec ''semcache:z:'' w1 in
         if z = None then (None, w2)
         else (let (t, w3) = delete_matching exec ''semcache:t:'' w2 in (if t = None then None else n, w3))))"

section \<open>The contract of an index, and the lookup that relies on it\<close>

text \<open>An index answers with an entry of the namespace it was asked for, with the product of the two
  vectors, and leaves the entries alone.\<close>

locale vector_index =
  fixes nearest :: "'w nearest" and keys :: "'w \<Rightarrow> keyspace"
  assumes nearest_sound: "nearest ns v w = (Done (Some (key, sim)), w') \<Longrightarrow>
      \<exists>i h u. key = entry_key ns i \<and> hash_at (keys w) key = Some h \<and> dict_get h ''vec'' = Some (Vec u) \<and> sim = dot u v"
    and nearest_keeps: "nearest ns v w = (r, w') \<Longrightarrow> keys w' (entry_key ns' i) = keys w (entry_key ns' i)"
begin

lemma lookup_found:
  assumes "redis_ok (cx E) keys" and "\<And>s w. keys (snd (embed E s w)) = keys w"
    and "cache_lookup E nearest c tenant r w = (Done (Some hit), w')"
  shows "\<exists>vec i h u. fst (embed E (final_text r) w) = Done vec
           \<and> hash_at (keys w) (entry_key (namespace_for E tenant r) i) = Some h
           \<and> dict_get h ''vec'' = Some (Vec u) \<and> threshold c \<le> dot u vec \<and> hit_similarity hit = py_round 4 (dot u vec)
           \<and> Option.bind (Option.bind (dict_get h ''payload'') bulk_json) parse_completion = Some (hit_completion hit)"
proof -
  let ?ns = "namespace_for E tenant r"
  obtain vec w1 where v: "embed E (final_text r) w = (Done vec, w1)"
    using assms(3) by (cases "embed E (final_text r) w"; cases "fst (embed E (final_text r) w)") (auto simp: cache_lookup_def)
  obtain key sim w2 where n: "nearest ?ns vec w1 = (Done (Some (key, sim)), w2)" and th: "threshold c \<le> sim"
    using assms(3) v by (auto simp: cache_lookup_def Let_def split_beta prod_eq_iff
        split: cache_call.splits option.splits if_splits)
  obtain i h u where e: "key = entry_key ?ns i" "hash_at (keys w1) key = Some h" "dict_get h ''vec'' = Some (Vec u)"
      "sim = dot u vec"
    using nearest_sound[OF n] by blast
  have w1: "keys w1 = keys w" using assms(2)[of "final_text r" w] v by simp
  have h2: "hash_at (keys w2) key = Some h" using nearest_keeps[OF n, of ?ns i] e(1,2) by (simp add: hash_at_def)
  obtain p w3 where p: "cx E (HGET key ''payload'') w2 = (p, w3)" by (cases "cx E (HGET key ''payload'') w2")
  have pd: "p = (case dict_get h ''payload'' of None \<Rightarrow> NilReply | Some b \<Rightarrow> Bulk b)"
    using redis_reply[OF assms(1), of "HGET key ''payload''" w2] p h2 by simp
  obtain b where b: "dict_get h ''payload'' = Some b"
    using assms(3) v n th p pd by (cases "dict_get h ''payload''") (auto simp: cache_lookup_def)
  obtain x where x: "Option.bind (bulk_json b) parse_completion = Some x"
    using assms(3) v n th p pd b by (cases "Option.bind (bulk_json b) parse_completion") (auto simp: cache_lookup_def)
  have hit: "hit = \<lparr>hit_completion = x, hit_similarity = py_round 4 sim\<rparr>"
    using assms(3) v n th p pd b x by (simp add: cache_lookup_def)
  show ?thesis
    by (intro exI[of _ vec] exI[of _ i] exI[of _ h] exI[of _ u]) (use v e th w1 b x hit in simp)
qed

lemma lookup_keeps:
  assumes "redis_ok (cx E) keys" and "\<And>s w. keys (snd (embed E s w)) = keys w"
    and "cache_lookup E nearest c tenant r w = (res, w')"
  shows "keys w' (entry_key ns i) = keys w (entry_key ns i)"
proof -
  obtain v w1 where v: "embed E (final_text r) w = (v, w1)" by (cases "embed E (final_text r) w")
  then have w1: "keys w1 = keys w" using assms(2)[of "final_text r" w] by simp
  show ?thesis
  proof (cases v)
    case (Done vec)
    obtain f w2 where n: "nearest (namespace_for E tenant r) vec w1 = (f, w2)"
      by (cases "nearest (namespace_for E tenant r) vec w1")
    have "keys w' = keys w2"
      using assms(3) v Done n redis_keys[OF assms(1), of "HGET k ''payload''" for k]
      by (auto simp: cache_lookup_def Let_def split_beta split: cache_call.splits option.splits if_splits)
    then show ?thesis using nearest_keeps[OF n] w1 by simp
  qed (use assms(3) v w1 in \<open>auto simp: cache_lookup_def\<close>)
qed

end

section \<open>The brute-force index keeps the contract\<close>

lemma best_of_in: "best_of xs = Some p \<Longrightarrow> p \<in> set xs"
  by (induction xs arbitrary: p rule: best_of.induct) (auto split: option.splits if_splits)

lemma other_keys [simp]:
  "zset_key ns \<noteq> entry_key ns' i" "entry_key ns' i \<noteq> zset_key ns" "tenant_key t \<noteq> entry_key ns' i"
  "entry_key ns' i \<noteq> tenant_key t" "tenant_key t \<noteq> zset_key ns" "zset_key ns \<noteq> tenant_key t"
  by (simp_all add: zset_key_def entry_key_def tenant_key_def)

lemma put_zset_other [simp]: "k' \<noteq> k \<Longrightarrow> put_zset k z ks k' = ks k'"
  by (simp add: put_zset_def)

lemma zrem_keeps: "k \<noteq> z \<Longrightarrow> snd (doc (ZREM z ms) ks) k = ks k"
  by (simp split: option.splits)

lemma vec_reply_hget:
  "vec_reply (fst (doc (HGET k ''vec'') ks)) = Some (Some v) \<Longrightarrow>
     \<exists>h. hash_at ks k = Some h \<and> dict_get h ''vec'' = Some (Vec v)"
  by (auto split: option.splits elim!: vec_reply.elims)

lemma hget_reads:
  "send_all doc (map (\<lambda>i. HGET (key i) f) ids) ks = (map (\<lambda>i. fst (doc (HGET (key i) f) ks)) ids, ks)"
  by (induction ids) (simp_all add: split_beta)

text \<open>The steps of a search: the members, their vectors, and at most one removal.\<close>

lemma brute_nearest_cases:
  assumes "redis_ok exec keys" and "brute_nearest exec cap ns v w = (r, w')"
  shows "(\<exists>x ms. keys x = keys w \<and> (w' = x \<or> w' = snd (exec (ZREM (zset_key ns) ms) x)))
     \<and> (\<forall>key sim. r = Done (Some (key, sim)) \<longrightarrow>
          (\<exists>ids raw. all_some (map (\<lambda>i. vec_reply (fst (doc (HGET (entry_key ns i) ''vec'') (keys w)))) ids) = Some raw
             \<and> map_option (\<lambda>(i, s). (entry_key ns i, s))
                 (best_of (map (\<lambda>(i, u). (i, dot u v)) (live_of ids raw))) = Some (key, sim)))"
proof -
  obtain rep w1 where z: "exec (ZREVRANGE (zset_key ns) 0 (cap - 1)) w = (rep, w1)"
    by (cases "exec (ZREVRANGE (zset_key ns) 0 (cap - 1)) w")
  then have w1: "keys w1 = keys w" using redis_keys[OF assms(1), of "ZREVRANGE (zset_key ns) 0 (cap - 1)" w] by simp
  consider (ids) bs ids where "rep = Bulks bs" "text_ids bs = Some ids" "ids \<noteq> []"
    | (other) "w' = w1" "r \<in> {CacheFailed, Done None}"
    using assms(2) z by (cases rep) (auto simp: brute_nearest_def split: option.splits if_splits)
  then show ?thesis
  proof cases
    case other
    then show ?thesis using w1 by auto
  next
    case ids
    let ?cs = "map (\<lambda>i. HGET (entry_key ns i) ''vec'') ids"
    obtain rs w2 where p: "pipeline exec ?cs w1 = (rs, w2)" by (cases "pipeline exec ?cs w1")
    have w2: "keys w2 = keys w"
      using redis_pipeline(2)[OF assms(1), of ?cs w1] p w1
      by (simp add: pipeline_def hget_reads split_beta del: redis_pipeline)
    have rs: "rs = Some l \<Longrightarrow> l = map (\<lambda>i. fst (doc (HGET (entry_key ns i) ''vec'') (keys w))) ids" for l
      using redis_pipeline(1)[OF assms(1), of ?cs w1] p w1
      by (auto simp: pipeline_def hget_reads simp del: doc.simps split: if_splits)
    have "\<exists>ms. w' = w2 \<or> w' = snd (exec (ZREM (zset_key ns) ms) w2)"
      using assms(2) z ids p
      by (auto simp: brute_nearest_def Let_def split_beta split: option.splits if_splits)
    moreover have "\<exists>raw. all_some (map (\<lambda>i. vec_reply (fst (doc (HGET (entry_key ns i) ''vec'') (keys w)))) ids) = Some raw
             \<and> map_option (\<lambda>(i, s). (entry_key ns i, s))
                 (best_of (map (\<lambda>(i, u). (i, dot u v)) (live_of ids raw))) = Some (key, sim)"
      if found: "r = Done (Some (key, sim))" for key sim
    proof -
      obtain l raw where l: "rs = Some l" "all_some (map vec_reply l) = Some raw"
        using assms(2) z ids p found
        by (cases rs; cases "all_some (map vec_reply (the rs))") (auto simp: brute_nearest_def)
      have "map_option (\<lambda>(i, s). (entry_key ns i, s))
                 (best_of (map (\<lambda>(i, u). (i, dot u v)) (live_of ids raw))) = Some (key, sim)"
        using assms(2) z ids p found l by (auto simp: brute_nearest_def Let_def split_beta split: if_splits)
      then show ?thesis using l(2) rs[OF l(1)] by (auto simp: comp_def simp del: doc.simps)
    qed
    ultimately show ?thesis using w2 by blast
  qed
qed

lemma live_in: "(i, u) \<in> set (live_of ids raw) \<Longrightarrow> (i, Some u) \<in> set (zip ids raw)"
  by (auto simp: live_of_def split: option.splits)

lemma all_some_map: "all_some (map f ids) = Some raw \<Longrightarrow> (i, x) \<in> set (zip ids raw) \<Longrightarrow> f i = Some x"
  by (auto simp: all_some_def set_zip in_set_conv_nth split: if_splits) (metis nth_mem option.exhaust_sel image_eqI list.set_map)

lemma brute_vector_index:
  assumes "redis_ok exec keys"
  shows "vector_index (brute_nearest exec cap) keys"
proof
  fix ns v w r w' ns' i
  assume n: "brute_nearest exec cap ns v w = (r, w')"
  have "keys (snd (exec (ZREM (zset_key ns) ms) x)) (entry_key ns' i) = keys x (entry_key ns' i)" for ms x
    using redis_keys[OF assms, of "ZREM (zset_key ns) ms" x] zrem_keeps[of "entry_key ns' i" "zset_key ns"] by simp
  then show "keys w' (entry_key ns' i) = keys w (entry_key ns' i)"
    using conjunct1[OF brute_nearest_cases[OF assms n]] by auto
next
  fix ns v w key sim w'
  assume n: "brute_nearest exec cap ns v w = (Done (Some (key, sim)), w')"
  obtain ids raw where a: "all_some (map (\<lambda>i. vec_reply (fst (doc (HGET (entry_key ns i) ''vec'') (keys w)))) ids) = Some raw"
      "map_option (\<lambda>(i, s). (entry_key ns i, s))
         (best_of (map (\<lambda>(i, u). (i, dot u v)) (live_of ids raw))) = Some (key, sim)"
    using conjunct2[OF brute_nearest_cases[OF assms n]] by blast
  then obtain i where b: "best_of (map (\<lambda>(i, u). (i, dot u v)) (live_of ids raw)) = Some (i, sim)"
      "key = entry_key ns i" by (auto split: prod.splits)
  obtain u where u: "(i, u) \<in> set (live_of ids raw)" "sim = dot u v"
    using best_of_in[OF b(1)] by auto
  have "vec_reply (fst (doc (HGET (entry_key ns i) ''vec'') (keys w))) = Some (Some u)"
    by (rule all_some_map[OF a(1) live_in[OF u(1)]])
  then show "\<exists>i h u. key = entry_key ns i \<and> hash_at (keys w) key = Some h \<and> dict_get h ''vec'' = Some (Vec u) \<and> sim = dot u v"
    using vec_reply_hget b(2) u(2) by blast
qed

interpretation brute_index: vector_index "brute_nearest doc cap" id for cap
  by (rule brute_vector_index[OF redis_ok_doc])

text \<open>The RediSearch index meets it too, given that the module answers with an entry of the namespace and
  its cosine distance and changes nothing.\<close>

definition knn_ok :: "(string \<Rightarrow> real list \<Rightarrow> 'w \<Rightarrow> (string \<times> real) list option \<times> 'w) \<Rightarrow> ('w \<Rightarrow> keyspace) \<Rightarrow> bool" where
  "knn_ok knn keys \<longleftrightarrow>
     (\<forall>ns v w. keys (snd (knn ns v w)) = keys w
        \<and> (\<forall>docs. fst (knn ns v w) = Some docs \<longrightarrow> (\<forall>(k, far) \<in> set docs. \<exists>i h u. k = entry_key ns i
             \<and> hash_at (keys w) k = Some h \<and> dict_get h ''vec'' = Some (Vec u) \<and> far = 1 - dot u v)))"

lemma redisearch_vector_index:
  assumes "knn_ok knn keys"
  shows "vector_index (redisearch_nearest knn) keys"
proof
  fix ns v w key sim w'
  assume "redisearch_nearest knn ns v w = (Done (Some (key, sim)), w')"
  then obtain rest far where "fst (knn ns v w) = Some ((key, far) # rest)" "sim = 1 - far"
    by (auto simp: redisearch_nearest_def split_beta split: option.splits list.splits)
  then show "\<exists>i h u. key = entry_key ns i \<and> hash_at (keys w) key = Some h \<and> dict_get h ''vec'' = Some (Vec u) \<and> sim = dot u v"
    using assms unfolding knn_ok_def by (force dest!: spec[of _ ns] spec[of _ v] spec[of _ w])
next
  fix ns v w r w' ns' i
  assume "redisearch_nearest knn ns v w = (r, w')"
  then show "keys w' (entry_key ns' i) = keys w (entry_key ns' i)"
    using assms by (auto simp: redisearch_nearest_def knn_ok_def split_beta)
qed

section \<open>Where the entries come from\<close>

text \<open>Every entry of \<open>ks'\<close> was there before, with the same fields.\<close>

definition kept :: "keyspace \<Rightarrow> keyspace \<Rightarrow> bool" where
  "kept ks ks' \<longleftrightarrow> (\<forall>ns i v t'. ks' (entry_key ns i) = Some (v, t') \<longrightarrow> (\<exists>t. ks (entry_key ns i) = Some (v, t)))"

lemma kept_refl: "kept ks ks"
  by (auto simp: kept_def)

lemma kept_trans: "kept a b \<Longrightarrow> kept b c \<Longrightarrow> kept a c"
  by (fastforce simp: kept_def)

lemma kept_elapse: "kept ks (elapse d ks)"
  by (auto simp: kept_def elapse_def split: option.splits prod.splits if_splits)

lemma kept_del: "kept ks (snd (doc (DEL l) ks))"
  by (auto simp: kept_def restrict_map_def split: if_splits)

lemma kept_exec: "redis_ok exec keys \<Longrightarrow> kept (keys w) (keys (snd (exec (DEL l) w)))"
  using redis_keys[of exec keys "DEL l" w] kept_del[of "keys w" l] by simp

lemma kept_delete_batches:
  assumes "redis_ok exec keys"
  shows "kept (keys w) (keys (snd (delete_batches exec bs w)))"
proof (induction bs arbitrary: w)
  case (Cons b bs)
  show ?case
    using kept_exec[OF assms, of w b] kept_trans[OF kept_exec[OF assms, of w b] Cons[of "snd (exec (DEL b) w)"]]
    by (auto simp: split_beta split: reply.splits)
qed (simp add: kept_refl)

lemma kept_delete_matching:
  assumes "redis_ok exec keys"
  shows "kept (keys w) (keys (snd (delete_matching exec p w)))"
proof -
  have "keys (snd (exec (SCAN p) w)) = keys w" using redis_keys[OF assms, of "SCAN p" w] by simp
  then show ?thesis
    using kept_delete_batches[OF assms, of "snd (exec (SCAN p) w)"] kept_refl
    by (auto simp: delete_matching_def split_beta split: reply.splits)
qed

lemma kept_purge_namespaces:
  assumes "redis_ok exec keys"
  shows "kept (keys w) (keys (snd (purge_namespaces exec nss w)))"
proof (induction nss arbitrary: w)
  case (Cons ns nss)
  let ?p = "''semcache:e:'' @ ns @ '':''"
  let ?w1 = "snd (delete_matching exec ?p w)" let ?w2 = "snd (exec (DEL [zset_key ns]) ?w1)"
  note k1 = kept_delete_matching[OF assms, of w ?p]
  note k2 = kept_trans[OF k1 kept_exec[OF assms, of ?w1 "[zset_key ns]"]]
  note k3 = kept_trans[OF k2 Cons[of ?w2]]
  have "snd (purge_namespaces exec (ns # nss) w) \<in> {?w1, ?w2, snd (purge_namespaces exec nss ?w2)}"
    by (auto simp: split_beta Let_def split: option.splits)
  then show ?case using k1 k2 k3 by auto
qed (simp add: kept_refl)

lemma kept_purge_tenant:
  assumes "redis_ok exec keys"
  shows "kept (keys w) (keys (snd (purge_tenant exec tenant w)))"
proof -
  let ?w1 = "snd (exec (SMEMBERS (tenant_key tenant)) w)"
  have w1: "keys ?w1 = keys w" using redis_keys[OF assms, of "SMEMBERS (tenant_key tenant)" w] by simp
  have "snd (purge_tenant exec tenant w) \<in> {?w1} \<union> {w2. \<exists>s. w2 = snd (purge_namespaces exec s ?w1)
      \<or> w2 = snd (exec (DEL [tenant_key tenant]) (snd (purge_namespaces exec s ?w1)))}"
    by (auto simp: purge_tenant_def split_beta Let_def split: reply.splits option.splits)
  then show ?thesis
    using kept_purge_namespaces[OF assms, of ?w1] kept_exec[OF assms] kept_trans kept_refl w1 by fastforce
qed

text \<open>What one store does to the entries: it may write its own and may evict some.\<close>

lemma send_frame: "\<forall>c \<in> set cs. \<forall>ks. snd (doc c ks) k = ks k \<Longrightarrow> snd (send_all doc cs ks) k = ks k"
  by (induction cs arbitrary: ks) (simp_all add: split_beta)

lemma store_cmds_entries:
  assumes "snd (send_all doc (store_cmds c tenant ns i vec x now) ks) (entry_key ns' i') = Some (RHash h, t)"
  shows "(\<exists>t'. ks (entry_key ns' i') = Some (RHash h, t'))
     \<or> (entry_key ns' i' = entry_key ns i \<and> dict_get h ''vec'' = Some (Vec vec)
        \<and> dict_get h ''payload'' = Some (Json (completion_json x)))"
proof -
  let ?e = "entry_key ns i" and ?k = "entry_key ns' i'"
  define fs where "fs = [(''ns'', Txt ns), (''vec'', Vec vec), (''payload'', Json (completion_json x)), (''created'', Flt now)]"
  define tail where "tail = drop 2 (store_cmds c tenant ns i vec x now)"
  have cmds: "store_cmds c tenant ns i vec x now = HSET ?e fs # EXPIRE ?e (ttl c) # tail"
    by (simp add: store_cmds_def tail_def fs_def)
  have "\<forall>cmd \<in> set tail. \<forall>ks. snd (doc cmd ks) ?k = ks ?k"
    by (auto simp: tail_def store_cmds_def put_val_def split: option.splits)
  note tl = send_frame[OF this]
  define ks1 where "ks1 = snd (doc (HSET ?e fs) ks)"
  have last: "snd (doc (EXPIRE ?e (ttl c)) ks1) ?k = Some (RHash h, t)"
    using assms tl unfolding cmds by (simp add: split_beta ks1_def del: doc.simps)
  then have "\<exists>t'. ks1 ?k = Some (RHash h, t')" by (auto split: option.splits if_splits)
  then obtain t' where t': "ks1 ?k = Some (RHash h, t')" by blast
  show ?thesis
  proof (cases "?k = ?e")
    case False
    then have "ks1 ?k = ks ?k" by (auto simp: ks1_def put_val_def split: option.splits)
    then have "ks ?k = Some (RHash h, t')" using t' by (rule trans[OF sym])
    then show ?thesis by blast
  next
    case True
    show ?thesis
    proof (cases "hash_at ks ?e")
      case None
      then show ?thesis using t' by (simp add: ks1_def)
    next
      case (Some h0)
      then have "h = fold (\<lambda>(f, v). dict_set f v) fs h0"
        using t' True by (simp add: ks1_def put_val_def)
      then show ?thesis using True by (simp add: fs_def dict_get_set)
    qed
  qed
qed

type_synonym past_store = "string \<times> chat_request \<times> cached_completion \<times> real list"

inductive cache_history ::
  "'w cache_env \<Rightarrow> semantic_cache \<Rightarrow> ('w \<Rightarrow> keyspace) \<Rightarrow> past_store list \<Rightarrow> 'w \<Rightarrow> bool"
  for E c keys where
  fresh: "keys w = Map.empty \<Longrightarrow> cache_history E c keys [] w"
| stored: "cache_history E c keys H w \<Longrightarrow> fst (embed E (final_text r) w) = Done vec
    \<Longrightarrow> cache_store E c tenant r x w = (res, w') \<Longrightarrow> cache_history E c keys ((tenant, r, x, vec) # H) w'"
| not_stored: "cache_history E c keys H w \<Longrightarrow> fst (embed E (final_text r) w) \<in> {Saturated, CacheFailed}
    \<Longrightarrow> cache_store E c tenant r x w = (res, w') \<Longrightarrow> cache_history E c keys H w'"
| looked_up: "cache_history E c keys H w
    \<Longrightarrow> cache_lookup E (brute_nearest (cx E) (max_entries c)) c tenant r w = (hit, w') \<Longrightarrow> cache_history E c keys H w'"
| waited: "cache_history E c keys H w \<Longrightarrow> keys w' = elapse d (keys w) \<Longrightarrow> cache_history E c keys H w'"
| purged: "cache_history E c keys H w \<Longrightarrow> purge_tenant (cx E) tenant w = (n, w') \<Longrightarrow> cache_history E c keys H w'"

text \<open>Every entry is one of the stores of the history.\<close>

definition entries_from :: "'w cache_env \<Rightarrow> past_store list \<Rightarrow> keyspace \<Rightarrow> bool" where
  "entries_from E H ks \<longleftrightarrow>
     (\<forall>ns i h t. ks (entry_key ns i) = Some (RHash h, t) \<longrightarrow>
        (\<exists>(tenant, r, x, vec) \<in> set H. \<exists>j. entry_key ns i = entry_key (namespace_for E tenant r) j
            \<and> dict_get h ''vec'' = Some (Vec vec) \<and> dict_get h ''payload'' = Some (Json (completion_json x))))"

lemma entries_kept: "entries_from E H ks \<Longrightarrow> kept ks ks' \<Longrightarrow> entries_from E H ks'"
  unfolding entries_from_def kept_def by blast

lemma cache_store_entries:
  assumes "redis_ok (cx E) keys" and "\<And>s w. keys (snd (embed E s w)) = keys w"
    and "\<And>w. keys (snd (new_id E w)) = keys w"
    and "cache_store E c tenant r x w = (res, w')" and "entries_from E H (keys w)"
  shows "case fst (embed E (final_text r) w) of
      Done vec \<Rightarrow> entries_from E ((tenant, r, x, vec) # H) (keys w')
    | _ \<Rightarrow> entries_from E H (keys w')"
proof -
  obtain v w1 where v: "embed E (final_text r) w = (v, w1)" by (cases "embed E (final_text r) w")
  then have w1: "keys w1 = keys w" using assms(2)[of "final_text r" w] by simp
  show ?thesis
  proof (cases v)
    case (Done vec)
    let ?ns = "namespace_for E tenant r"
    obtain i w2 where i: "new_id E w1 = (i, w2)" by (cases "new_id E w1")
    then have w2: "keys w2 = keys w" using assms(3)[of w1] w1 by simp
    let ?cs = "store_cmds c tenant ?ns i vec x (wall E w2)"
    obtain rs w3 where p: "pipeline (cx E) ?cs w2 = (rs, w3)" by (cases "pipeline (cx E) ?cs w2")
    have w3: "keys w3 = snd (send_all doc ?cs (keys w))"
      using redis_pipeline(2)[OF assms(1), of ?cs w2] p w2 by (simp add: pipeline_def split_beta)
    have e3: "entries_from E ((tenant, r, x, vec) # H) (keys w3)"
      unfolding entries_from_def w3
    proof (intro allI impI)
      fix ns i' h t
      assume "snd (send_all doc ?cs (keys w)) (entry_key ns i') = Some (RHash h, t)"
      from store_cmds_entries[OF this] show "\<exists>(tenant', r', x', vec') \<in> set ((tenant, r, x, vec) # H).
          \<exists>j. entry_key ns i' = entry_key (namespace_for E tenant' r') j
            \<and> dict_get h ''vec'' = Some (Vec vec') \<and> dict_get h ''payload'' = Some (Json (completion_json x'))"
      proof (elim disjE exE conjE)
        fix t' assume "keys w (entry_key ns i') = Some (RHash h, t')"
        then have "\<exists>(tenant', r', x', vec') \<in> set H. \<exists>j. entry_key ns i' = entry_key (namespace_for E tenant' r') j
            \<and> dict_get h ''vec'' = Some (Vec vec') \<and> dict_get h ''payload'' = Some (Json (completion_json x'))"
          using assms(5) unfolding entries_from_def by blast
        then show ?thesis by auto
      next
        assume "entry_key ns i' = entry_key ?ns i" "dict_get h ''vec'' = Some (Vec vec)"
          "dict_get h ''payload'' = Some (Json (completion_json x))"
        then show ?thesis by (intro bexI[of _ "(tenant, r, x, vec)"]) auto
      qed
    qed
    have "w' = w3 \<or> (\<exists>l. w' = snd (cx E (DEL l) w3))"
    proof (cases rs)
      case None
      then show ?thesis using assms(4) v Done i p by (simp add: cache_store_def)
    next
      case (Some l)
      have eq: "cache_store E c tenant r x w =
         (case l ! 4 of
            Bulks bs \<Rightarrow>
              (case text_ids bs of
                 None \<Rightarrow> (CacheFailed, w3)
               | Some evicted \<Rightarrow>
                   if evicted = [] then (Done (), w3)
                   else (let (d, w4) = cx E (DEL (map (entry_key ?ns) evicted)) w3
                         in (if d = Raised then CacheFailed else Done (), w4)))
          | _ \<Rightarrow> (CacheFailed, w3))"
        using v Done i p Some by (simp add: cache_store_def del: One_nat_def)
      show ?thesis
        using assms(4) unfolding eq
        by (cases "l ! 4") (auto simp: split_beta split: option.splits if_splits)
    qed
    then have "entries_from E ((tenant, r, x, vec) # H) (keys w')"
      using e3 entries_kept[OF e3 kept_exec[OF assms(1), of w3]] by auto
    then show ?thesis using v Done by simp
  qed (use assms(4,5) v w1 in \<open>auto simp: cache_store_def\<close>)
qed

lemma history_entries:
  assumes "redis_ok (cx E) keys" and "\<And>s w. keys (snd (embed E s w)) = keys w"
    and "\<And>w. keys (snd (new_id E w)) = keys w"
  shows "cache_history E c keys H w \<Longrightarrow> entries_from E H (keys w)"
proof (induction rule: cache_history.induct)
  case (fresh w)
  then show ?case by (simp add: entries_from_def)
next
  case (stored H w r vec tenant x res w')
  then show ?case using cache_store_entries[OF assms stored.hyps(3) stored.IH] by simp
next
  case (not_stored H w r tenant x res w')
  then show ?case using cache_store_entries[OF assms not_stored.hyps(3) not_stored.IH] by auto
next
  case (looked_up H w tenant r hit w')
  have "keys w' (entry_key ns i) = keys w (entry_key ns i)" for ns i
    by (rule vector_index.lookup_keeps[OF brute_vector_index[OF assms(1)] assms(1,2) looked_up.hyps(2)])
  then have "kept (keys w) (keys w')" by (auto simp: kept_def)
  then show ?case by (rule entries_kept[OF looked_up.IH])
next
  case (waited H w w' d)
  then show ?case using entries_kept[OF waited.IH kept_elapse] by simp
next
  case (purged H w tenant n w')
  then show ?case using entries_kept[OF purged.IH kept_purge_tenant[OF assms(1), of w tenant]] by simp
qed

section \<open>Properties\<close>

lemma entry_key_same_length:
  "length ns = length ns' \<Longrightarrow> entry_key ns i = entry_key ns' j \<Longrightarrow> ns = ns'"
  by (simp add: entry_key_def)

lemma role_text_inj: "role_text a = role_text b \<longleftrightarrow> a = b"
  by (cases a; cases b) simp_all

lemma message_json_inj: "message_json m = message_json m' \<Longrightarrow> m = m'"
  by (cases m; cases m') (simp add: message_json_def role_text_inj)

lemma map_message_json_inj: "map message_json xs = map message_json ys \<Longrightarrow> xs = ys"
  by (simp add: inj_map_eq_map[OF injI[OF message_json_inj]])

lemma namespace_material_inj:
  assumes "namespace_material t r = namespace_material t' r'"
  shows "t = t' \<and> req_model r = req_model r' \<and> temperature r = temperature r' \<and> max_tokens r = max_tokens r'
         \<and> butlast (messages r) = butlast (messages r') \<and> msg_role (last (messages r)) = msg_role (last (messages r'))"
  using assms map_message_json_inj[of "butlast (messages r)" "butlast (messages r')"]
  by (auto simp: namespace_material_def role_text_inj split: option.splits)

lemma parse_completion_json [simp]: "parse_completion (completion_json x) = Some x"
  by (cases x) (simp add: parse_completion_def completion_json_def)

text \<open>No store of the history shares the digest of this request's context without being the same context.\<close>

definition no_collision :: "'w cache_env \<Rightarrow> past_store list \<Rightarrow> string \<Rightarrow> chat_request \<Rightarrow> bool" where
  "no_collision E H tenant r \<longleftrightarrow>
     (\<forall>(t', r', x, v) \<in> set H. length (namespace_for E t' r') = length (namespace_for E tenant r)
        \<and> (namespace_for E t' r' = namespace_for E tenant r \<longrightarrow>
             namespace_material t' r' = namespace_material tenant r))"

text \<open>C3: The semantic cache answers a request only with what was stored for the same tenant, route,
  temperature, token limit and earlier conversation, and only when the two final messages are as
  similar as the threshold demands. It holds after any sequence of stores, lookups, expiries and
  purges, as long as the digest separates the contexts involved.\<close>

theorem cache_answers_only_its_own_context:
  assumes "redis_ok (cx E) keys" and "\<forall>s w. keys (snd (embed E s w)) = keys w"
    and "\<forall>w. keys (snd (new_id E w)) = keys w"
    and "cache_history E c keys H w" and "no_collision E H tenant r"
    and "cache_lookup E (brute_nearest (cx E) (max_entries c)) c tenant r w = (Done (Some hit), w')"
  shows "\<exists>r' vec' vec. (tenant, r', hit_completion hit, vec') \<in> set H
           \<and> req_model r' = req_model r \<and> temperature r' = temperature r \<and> max_tokens r' = max_tokens r
           \<and> butlast (messages r') = butlast (messages r)
           \<and> msg_role (last (messages r')) = msg_role (last (messages r))
           \<and> fst (embed E (final_text r) w) = Done vec \<and> threshold c \<le> dot vec' vec
           \<and> hit_similarity hit = py_round 4 (dot vec' vec)"
proof -
  let ?ns = "namespace_for E tenant r"
  have e: "keys (snd (embed E s w)) = keys w" and n: "keys (snd (new_id E w)) = keys w" for s w
    using assms(2,3) by auto
  obtain vec i h u where l: "fst (embed E (final_text r) w) = Done vec" "hash_at (keys w) (entry_key ?ns i) = Some h"
      "dict_get h ''vec'' = Some (Vec u)" "threshold c \<le> dot u vec" "hit_similarity hit = py_round 4 (dot u vec)"
      "Option.bind (Option.bind (dict_get h ''payload'') bulk_json) parse_completion = Some (hit_completion hit)"
    using vector_index.lookup_found[OF brute_vector_index[OF assms(1)] assms(1) e assms(6)] by blast
  obtain t where "keys w (entry_key ?ns i) = Some (RHash h, t)"
    using l(2,3) by (cases "keys w (entry_key ?ns i)") (auto simp: hash_at_def split: rval.splits)
  then obtain tenant' r' x vec' j where s: "(tenant', r', x, vec') \<in> set H"
      "entry_key ?ns i = entry_key (namespace_for E tenant' r') j"
      "dict_get h ''vec'' = Some (Vec vec')" "dict_get h ''payload'' = Some (Json (completion_json x))"
    using history_entries[OF assms(1) e n assms(4)] unfolding entries_from_def by blast
  have col: "length (namespace_for E tenant' r') = length ?ns"
      "namespace_for E tenant' r' = ?ns \<longrightarrow> namespace_material tenant' r' = namespace_material tenant r"
    using assms(5) s(1) unfolding no_collision_def by fastforce+
  have "namespace_for E tenant' r' = ?ns"
    by (rule entry_key_same_length[OF col(1) s(2)[symmetric]])
  then have m: "namespace_material tenant' r' = namespace_material tenant r" using col(2) by simp
  have "x = hit_completion hit" "vec' = u" using l(3,6) s(3,4) by simp_all
  then show ?thesis
    using namespace_material_inj[OF m] s(1) l(1,4,5)
    by (intro exI[of _ r'] exI[of _ vec'] exI[of _ vec]) simp
qed

text \<open>A cache over the documented server: every text has the same vector, and the digest is the tenant.\<close>

definition ex_cache_env :: "keyspace cache_env" where
  "ex_cache_env = \<lparr>cx = doc, embed = (\<lambda>s w. (Done [1], w)),
      digest = (\<lambda>j. case json_get j ''tenant'' of Some (JStr t) \<Rightarrow> t | _ \<Rightarrow> []), wall = (\<lambda>_. 100), new_id = (\<lambda>w. (''i'', w))\<rparr>"

definition ex_cache :: semantic_cache where
  "ex_cache = \<lparr>threshold = 9/10, ttl = 60, max_entries = 2\<rparr>"

definition ex_ask :: chat_request where
  "ex_ask = \<lparr>req_model = ''r'', messages = [\<lparr>msg_role = User, msg_content = ''hello''\<rparr>],
             temperature = None, max_tokens = None, streamed = False, use_cache = True\<rparr>"

definition ex_answer :: cached_completion where
  "ex_answer = \<lparr>cc_content = ''hi'', cc_model = ''m'', cc_finish = ''stop'', cc_prompt = 1, cc_completion = 1,
                cc_deployment = ''d'', cc_cost = 0\<rparr>"

lemma cache_answers_only_its_own_context_witness:
  "\<exists>ks hit ks'. cache_store ex_cache_env ex_cache ''t'' ex_ask ex_answer Map.empty = (Done (), ks)
     \<and> cache_lookup ex_cache_env (brute_nearest doc 2) ex_cache ''t'' ex_ask ks = (Done (Some hit), ks')
     \<and> hit_completion hit = ex_answer \<and> hit_similarity hit = py_round 4 1"
proof -
  obtain ks where s: "cache_store ex_cache_env ex_cache ''t'' ex_ask ex_answer Map.empty = (Done (), ks)"
      and k: "ks (entry_key ''t'' ''i'') = Some (RHash [(''ns'', Txt ''t''), (''vec'', Vec [1]),
           (''payload'', Json (completion_json ex_answer)), (''created'', Flt 100)], Some 60)"
        "ks (zset_key ''t'') = Some (RZset [(''i'', 100)], Some 60)"
    by (simp add: cache_store_def store_cmds_def ex_cache_env_def ex_cache_def namespace_for_def
        namespace_material_def pipeline_def hash_at_def zset_at_def set_at_def put_val_def ttl_at_def put_zset_def zput_def
        members_def list_range_def rank_drop_def rank_range_def Let_def)
  obtain hit ks' where l: "cache_lookup ex_cache_env (brute_nearest doc 2) ex_cache ''t'' ex_ask ks = (Done (Some hit), ks')"
    using k by (simp add: cache_lookup_def brute_nearest_def ex_cache_env_def ex_cache_def namespace_for_def
        namespace_material_def zset_at_def hash_at_def members_def list_range_def pipeline_def all_some_def live_of_def
        expired_of_def dot_def Let_def)
  have hist: "cache_history ex_cache_env ex_cache id [(''t'', ex_ask, ex_answer, [1])] ks"
    by (rule cache_history.stored[OF cache_history.fresh _ s]) (simp_all add: ex_cache_env_def)
  have c: "cx ex_cache_env = doc" "max_entries ex_cache = 2" by (simp_all add: ex_cache_env_def ex_cache_def)
  have "\<exists>r' vec' vec. (''t'', r', hit_completion hit, vec') \<in> set [(''t'', ex_ask, ex_answer, [1])]
      \<and> req_model r' = req_model ex_ask \<and> temperature r' = temperature ex_ask \<and> max_tokens r' = max_tokens ex_ask
      \<and> butlast (messages r') = butlast (messages ex_ask)
      \<and> msg_role (last (messages r')) = msg_role (last (messages ex_ask))
      \<and> fst (embed ex_cache_env (final_text ex_ask) ks) = Done vec \<and> threshold ex_cache \<le> dot vec' vec
      \<and> hit_similarity hit = py_round 4 (dot vec' vec)"
    by (rule cache_answers_only_its_own_context[OF _ _ _ hist])
      (use l in \<open>simp_all add: c no_collision_def, simp_all add: ex_cache_env_def\<close>)
  then have "hit_completion hit = ex_answer \<and> hit_similarity hit = py_round 4 1"
    by (auto simp: ex_cache_env_def dot_def)
  then show ?thesis using s l by blast
qed

end
