(* ===== verification/Metering.thy ===== *)
theory Metering
  imports Redis
begin

text \<open>
  Usage metering (\<open>app/core/metering.py\<close>) and the usage report built on it (\<open>app/api/account.py\<close>). A
  day is its ordinal; \<open>isoformat\<close> stands for \<open>date.isoformat\<close>, of which only injectivity is used. One
  \<open>event\<close> is one call of \<open>record\<close>. \<open>DailyUsage(date=d, **row)\<close> is \<open>daily_row\<close>: pydantic parses the
  fields that are there, keeps the defaults for the others and raises (\<open>None\<close>) on text that is no
  number.
\<close>

section \<open>Days and events\<close>

record daily_usage =
  du_date :: int
  requests :: int
  cache_hits :: int
  du_prompt :: int
  du_completion :: int
  cost_usd :: real
  cost_saved_usd :: real
  self_hosted_requests :: int
  self_hosted_cost_usd :: real

definition no_usage_on :: "int \<Rightarrow> daily_usage" where
  "no_usage_on d = \<lparr>du_date = d, requests = 0, cache_hits = 0, du_prompt = 0, du_completion = 0, cost_usd = 0,
                    cost_saved_usd = 0, self_hosted_requests = 0, self_hosted_cost_usd = 0\<rparr>"

definition provider_requests :: "daily_usage \<Rightarrow> int" where
  "provider_requests u = max 0 (requests u - cache_hits u - self_hosted_requests u)"

definition provider_cost_usd :: "daily_usage \<Rightarrow> real" where
  "provider_cost_usd u = py_round 8 (max 0 (cost_usd u - self_hosted_cost_usd u))"

record event =
  ev_prompt :: int
  ev_completion :: int
  ev_cost :: real
  ev_cached :: bool
  ev_saved :: real
  ev_self :: bool

definition usage_key :: "(int \<Rightarrow> string) \<Rightarrow> string \<Rightarrow> int \<Rightarrow> string" where
  "usage_key isoformat key d = ''usage:'' @ key @ '':'' @ isoformat d"

section \<open>Recording and reading\<close>

definition record_cmds :: "string \<Rightarrow> int \<Rightarrow> event \<Rightarrow> cmd list" where
  "record_cmds k retention_days e =
     HINCRBY k ''requests'' 1 #
     (if ev_cached e
      then [HINCRBY k ''cache_hits'' 1, HINCRBYFLOAT k ''cost_saved_usd'' (ev_saved e)]
      else [HINCRBY k ''prompt_tokens'' (ev_prompt e), HINCRBY k ''completion_tokens'' (ev_completion e),
            HINCRBYFLOAT k ''cost_usd'' (ev_cost e)]
           @ (if ev_self e
              then [HINCRBY k ''self_hosted_requests'' 1, HINCRBYFLOAT k ''self_hosted_cost_usd'' (ev_cost e)] else []))
     @ [EXPIRE k (retention_days * 86400)]"

definition meter_record ::
  "'w redis \<Rightarrow> (int \<Rightarrow> string) \<Rightarrow> int \<Rightarrow> string \<Rightarrow> int \<Rightarrow> event \<Rightarrow> 'w \<Rightarrow> unit option \<times> 'w" where
  "meter_record exec isoformat retention_days key today e w =
     (let (r, w') = pipeline exec (record_cmds (usage_key isoformat key today) retention_days e) w
      in (map_option (\<lambda>_. ()) r, w'))"

definition int_field :: "(string \<times> bulk) list \<Rightarrow> string \<Rightarrow> int option" where
  "int_field h f = (case dict_get h f of None \<Rightarrow> Some 0 | Some b \<Rightarrow> bulk_int b)"

fun bulk_real :: "bulk \<Rightarrow> real option" where
  "bulk_real (Flt x) = Some x"
| "bulk_real (Num n) = Some (of_int n)"
| "bulk_real _ = None"

definition float_field :: "(string \<times> bulk) list \<Rightarrow> string \<Rightarrow> real option" where
  "float_field h f = (case dict_get h f of None \<Rightarrow> Some 0 | Some b \<Rightarrow> bulk_real b)"

definition daily_row :: "int \<Rightarrow> (string \<times> bulk) list \<Rightarrow> daily_usage option" where
  "daily_row d h =
     (case (int_field h ''requests'', int_field h ''cache_hits'', int_field h ''prompt_tokens'',
            int_field h ''completion_tokens'', float_field h ''cost_usd'', float_field h ''cost_saved_usd'',
            int_field h ''self_hosted_requests'', float_field h ''self_hosted_cost_usd'') of
        (Some r, Some c, Some p, Some o1, Some x, Some s, Some sr, Some sx) \<Rightarrow>
          Some \<lparr>du_date = d, requests = r, cache_hits = c, du_prompt = p, du_completion = o1, cost_usd = x,
                cost_saved_usd = s, self_hosted_requests = sr, self_hosted_cost_usd = sx\<rparr>
      | _ \<Rightarrow> None)"

fun read_row :: "int \<Rightarrow> reply \<Rightarrow> daily_usage option" where
  "read_row d (Hash h) = daily_row d h"
| "read_row d _ = None"

definition meter_daily ::
  "'w redis \<Rightarrow> (int \<Rightarrow> string) \<Rightarrow> string \<Rightarrow> nat \<Rightarrow> int \<Rightarrow> 'w \<Rightarrow> daily_usage list option \<times> 'w" where
  "meter_daily exec isoformat key days today w =
     (let dates = map (\<lambda>i. today - int i) (rev [0..<days]);
          (r, w') = pipeline exec (map (\<lambda>d. HGETALL (usage_key isoformat key d)) dates) w
      in (case r of None \<Rightarrow> None | Some rows \<Rightarrow> all_some (map2 read_row dates rows), w'))"

section \<open>The usage report\<close>

record cost_per_1k =
  cache_hit :: real
  provider_call :: real
  self_hosted_call :: real
  blended :: real
  kinds :: "(string \<times> int) list"

definition per_1k :: "real \<Rightarrow> int \<Rightarrow> real" where
  "per_1k cost n = (if n \<noteq> 0 then py_round 6 (cost / of_int n * 1000) else 0)"

definition cost_per_1k_of :: "daily_usage \<Rightarrow> cost_per_1k" where
  "cost_per_1k_of t =
     \<lparr>cache_hit = 0, provider_call = per_1k (provider_cost_usd t) (provider_requests t),
      self_hosted_call = per_1k (self_hosted_cost_usd t) (self_hosted_requests t),
      blended = per_1k (cost_usd t) (requests t),
      kinds = [(''cache_hit'', cache_hits t), (''provider_call'', provider_requests t),
               (''self_hosted'', self_hosted_requests t)]\<rparr>"

definition usage_totals :: "daily_usage list \<Rightarrow> daily_usage" where
  "usage_totals rows =
     \<lparr>du_date = du_date (last rows), requests = sum_list (map requests rows),
      cache_hits = sum_list (map cache_hits rows), du_prompt = sum_list (map du_prompt rows),
      du_completion = sum_list (map du_completion rows), cost_usd = py_round 8 (sum_list (map cost_usd rows)),
      cost_saved_usd = py_round 8 (sum_list (map cost_saved_usd rows)),
      self_hosted_requests = sum_list (map self_hosted_requests rows),
      self_hosted_cost_usd = py_round 8 (sum_list (map self_hosted_cost_usd rows))\<rparr>"

definition usage_report ::
  "'w redis \<Rightarrow> (int \<Rightarrow> string) \<Rightarrow> string \<Rightarrow> nat \<Rightarrow> int \<Rightarrow> 'w
     \<Rightarrow> (daily_usage list \<times> daily_usage \<times> cost_per_1k) option \<times> 'w" where
  "usage_report exec isoformat key days today w =
     (let (r, w') = meter_daily exec isoformat key days today w in
      (map_option (\<lambda>rows. let t = usage_totals rows in (rows, t, cost_per_1k_of t)) r, w'))"

section \<open>One event\<close>

definition usage_at :: "keyspace \<Rightarrow> string \<Rightarrow> int \<Rightarrow> daily_usage \<Rightarrow> bool" where
  "usage_at ks k d u \<longleftrightarrow> (\<exists>h. hash_at ks k = Some h \<and> daily_row d h = Some u)"

definition add_event :: "event \<Rightarrow> daily_usage \<Rightarrow> daily_usage" where
  "add_event e u =
     (let v = u\<lparr>requests := requests u + 1\<rparr> in
      if ev_cached e then v\<lparr>cache_hits := cache_hits v + 1, cost_saved_usd := cost_saved_usd v + ev_saved e\<rparr>
      else
        (let x = v\<lparr>du_prompt := du_prompt v + ev_prompt e, du_completion := du_completion v + ev_completion e,
                   cost_usd := cost_usd v + ev_cost e\<rparr> in
         if ev_self e
         then x\<lparr>self_hosted_requests := self_hosted_requests x + 1,
                self_hosted_cost_usd := self_hosted_cost_usd x + ev_cost e\<rparr>
         else x))"

lemma field_set:
  "int_field (dict_set f v h) f' = (if f' = f then bulk_int v else int_field h f')"
  "float_field (dict_set f v h) f' = (if f' = f then bulk_real v else float_field h f')"
  by (simp_all add: int_field_def float_field_def dict_get_set)

text \<open>A command that adds to one field of the hash of a day, with its effect on the row.\<close>

definition bumps :: "string \<Rightarrow> cmd \<Rightarrow> (daily_usage \<Rightarrow> daily_usage) \<Rightarrow> bool" where
  "bumps k c f \<longleftrightarrow> (\<forall>ks d u. usage_at ks k d u \<longrightarrow>
     fst (doc c ks) \<noteq> Raised \<and> usage_at (snd (doc c ks)) k d (f u)
     \<and> snd (doc c ks) k \<noteq> None \<and> (\<forall>x. x \<noteq> k \<longrightarrow> snd (doc c ks) x = ks x))"

lemma hash_at_put_same: "hash_at (put_val k (RHash h) ks) k = Some h"
  by (simp add: hash_at_def put_val_def)

lemma bumps_int:
  assumes "\<And>d h u n. daily_row d h = Some u \<Longrightarrow>
      \<exists>m. int_field h g = Some m \<and> daily_row d (dict_set g (Num (m + n)) h) = Some (f n u)"
  shows "bumps k (HINCRBY k g n) (f n)"
  unfolding bumps_def
proof (intro allI impI)
  fix ks d u
  assume "usage_at ks k d u"
  then obtain h where h: "hash_at ks k = Some h" "daily_row d h = Some u" by (auto simp: usage_at_def)
  obtain m where m: "int_field h g = Some m" "daily_row d (dict_set g (Num (m + n)) h) = Some (f n u)"
    using assms[OF h(2)] by blast
  have "doc (HINCRBY k g n) ks = (Integer (m + n), put_val k (RHash (dict_set g (Num (m + n)) h)) ks)"
    using h(1) m(1) by (auto simp: int_field_def split: option.splits bulk.splits elim: bulk_int.elims)
  then show "fst (doc (HINCRBY k g n) ks) \<noteq> Raised \<and> usage_at (snd (doc (HINCRBY k g n) ks)) k d (f n u)
     \<and> snd (doc (HINCRBY k g n) ks) k \<noteq> None \<and> (\<forall>x. x \<noteq> k \<longrightarrow> snd (doc (HINCRBY k g n) ks) x = ks x)"
    using m(2) by (simp add: usage_at_def hash_at_put_same) (simp add: put_val_def)
qed

lemma bumps_float:
  assumes "\<And>d h u n. daily_row d h = Some u \<Longrightarrow>
      \<exists>m. float_field h g = Some m \<and> daily_row d (dict_set g (Flt (m + n)) h) = Some (f n u)"
  shows "bumps k (HINCRBYFLOAT k g n) (f n)"
  unfolding bumps_def
proof (intro allI impI)
  fix ks d u
  assume "usage_at ks k d u"
  then obtain h where h: "hash_at ks k = Some h" "daily_row d h = Some u" by (auto simp: usage_at_def)
  obtain m where m: "float_field h g = Some m" "daily_row d (dict_set g (Flt (m + n)) h) = Some (f n u)"
    using assms[OF h(2)] by blast
  have "doc (HINCRBYFLOAT k g n) ks = (Bulk (Flt (m + n)), put_val k (RHash (dict_set g (Flt (m + n)) h)) ks)"
    using h(1) m(1) by (auto simp: float_field_def split: option.splits bulk.splits elim: bulk_real.elims)
  then show "fst (doc (HINCRBYFLOAT k g n) ks) \<noteq> Raised \<and> usage_at (snd (doc (HINCRBYFLOAT k g n) ks)) k d (f n u)
     \<and> snd (doc (HINCRBYFLOAT k g n) ks) k \<noteq> None \<and> (\<forall>x. x \<noteq> k \<longrightarrow> snd (doc (HINCRBYFLOAT k g n) ks) x = ks x)"
    using m(2) by (simp add: usage_at_def hash_at_put_same) (simp add: put_val_def)
qed

lemma bump_fields:
  "bumps k (HINCRBY k ''requests'' n) (\<lambda>u. u\<lparr>requests := requests u + n\<rparr>)"
  "bumps k (HINCRBY k ''cache_hits'' n) (\<lambda>u. u\<lparr>cache_hits := cache_hits u + n\<rparr>)"
  "bumps k (HINCRBY k ''prompt_tokens'' n) (\<lambda>u. u\<lparr>du_prompt := du_prompt u + n\<rparr>)"
  "bumps k (HINCRBY k ''completion_tokens'' n) (\<lambda>u. u\<lparr>du_completion := du_completion u + n\<rparr>)"
  "bumps k (HINCRBY k ''self_hosted_requests'' n) (\<lambda>u. u\<lparr>self_hosted_requests := self_hosted_requests u + n\<rparr>)"
  by (rule bumps_int; auto simp: daily_row_def field_set split: option.splits)+

lemma bump_costs:
  "bumps k (HINCRBYFLOAT k ''cost_usd'' x) (\<lambda>u. u\<lparr>cost_usd := cost_usd u + x\<rparr>)"
  "bumps k (HINCRBYFLOAT k ''cost_saved_usd'' x) (\<lambda>u. u\<lparr>cost_saved_usd := cost_saved_usd u + x\<rparr>)"
  "bumps k (HINCRBYFLOAT k ''self_hosted_cost_usd'' x) (\<lambda>u. u\<lparr>self_hosted_cost_usd := self_hosted_cost_usd u + x\<rparr>)"
  by (rule bumps_float; auto simp: daily_row_def field_set split: option.splits)+

lemma send_bumps:
  "list_all2 (bumps k) cs fs \<Longrightarrow> usage_at ks k d u \<Longrightarrow>
     Raised \<notin> set (fst (send_all doc cs ks)) \<and> usage_at (snd (send_all doc cs ks)) k d (fold (\<lambda>f. f) fs u)
     \<and> (cs \<noteq> [] \<longrightarrow> snd (send_all doc cs ks) k \<noteq> None) \<and> (\<forall>x. x \<noteq> k \<longrightarrow> snd (send_all doc cs ks) x = ks x)"
proof (induction cs fs arbitrary: ks u rule: list_all2_induct)
  case (Cons c cs f fs)
  from Cons.hyps(1) Cons.prems have c: "fst (doc c ks) \<noteq> Raised" "usage_at (snd (doc c ks)) k d (f u)"
      "snd (doc c ks) k \<noteq> None" "\<forall>x. x \<noteq> k \<longrightarrow> snd (doc c ks) x = ks x"
    by (simp_all add: bumps_def)
  from Cons.IH[OF c(2)] c Cons.hyps(1) show ?case
    by (cases cs) (auto simp: split_beta simp del: doc.simps)
qed simp

lemma send_all_append:
  "send_all exec (cs @ ds) w =
     (let (rs, w1) = send_all exec cs w; (qs, w2) = send_all exec ds w1 in (rs @ qs, w2))"
  by (induction cs arbitrary: w) (simp_all add: split_beta)

lemma expire_keeps:
  assumes "usage_at ks k d u" and "ks k \<noteq> None" and "0 < s"
  shows "fst (doc (EXPIRE k s) ks) \<noteq> Raised \<and> usage_at (snd (doc (EXPIRE k s) ks)) k d u
         \<and> (\<forall>x. x \<noteq> k \<longrightarrow> snd (doc (EXPIRE k s) ks) x = ks x)"
  using assms by (auto simp: usage_at_def hash_at_def split: option.splits rval.splits)

definition adders :: "event \<Rightarrow> (daily_usage \<Rightarrow> daily_usage) list" where
  "adders e =
     (\<lambda>u. u\<lparr>requests := requests u + 1\<rparr>) #
     (if ev_cached e
      then [\<lambda>u. u\<lparr>cache_hits := cache_hits u + 1\<rparr>, \<lambda>u. u\<lparr>cost_saved_usd := cost_saved_usd u + ev_saved e\<rparr>]
      else [\<lambda>u. u\<lparr>du_prompt := du_prompt u + ev_prompt e\<rparr>, \<lambda>u. u\<lparr>du_completion := du_completion u + ev_completion e\<rparr>,
            \<lambda>u. u\<lparr>cost_usd := cost_usd u + ev_cost e\<rparr>]
           @ (if ev_self e
              then [\<lambda>u. u\<lparr>self_hosted_requests := self_hosted_requests u + 1\<rparr>,
                    \<lambda>u. u\<lparr>self_hosted_cost_usd := self_hosted_cost_usd u + ev_cost e\<rparr>] else []))"

lemma fold_adders: "fold (\<lambda>f. f) (adders e) u = add_event e u"
  by (simp add: adders_def add_event_def Let_def)

text \<open>The rows of a key at time \<open>now\<close> (in seconds, with day \<open>d\<close> from \<open>86400 * d\<close> on): the hash of a day
  reads as its row for as long as the retention runs from the day's beginning, and lives that long.\<close>

definition day_of :: "seconds \<Rightarrow> int" where "day_of t = \<lfloor>t / 86400\<rfloor>"

definition rows_kept ::
  "(int \<Rightarrow> string) \<Rightarrow> string \<Rightarrow> int \<Rightarrow> seconds \<Rightarrow> keyspace \<Rightarrow> (int \<Rightarrow> daily_usage) \<Rightarrow> bool" where
  "rows_kept isoformat key retention now ks U \<longleftrightarrow>
     (\<forall>d. now < 86400 * of_int (d + retention) \<longrightarrow>
        usage_at ks (usage_key isoformat key d) d (U d)
      \<and> (ks (usage_key isoformat key d) = None
         \<or> (\<exists>v left. ks (usage_key isoformat key d) = Some (v, Some left) \<and> 86400 * of_int (d + retention) \<le> now + left)))"

lemma day_of_bounds: "86400 * of_int (day_of t) \<le> t" "t < 86400 * of_int (day_of t + 1)"
proof -
  have "of_int (day_of t) \<le> t / 86400" unfolding day_of_def by (rule of_int_floor_le)
  then show "86400 * of_int (day_of t) \<le> t" by simp
  have "t / 86400 < of_int (day_of t) + 1" unfolding day_of_def by linarith
  then show "t < 86400 * of_int (day_of t + 1)" by simp
qed

lemma usage_key_inj: "inj isoformat \<Longrightarrow> usage_key isoformat key d = usage_key isoformat key d' \<longleftrightarrow> d = d'"
  by (auto simp: usage_key_def dest: injD)

lemma usage_at_same: "map_option fst (ks' k) = map_option fst (ks k) \<Longrightarrow> usage_at ks' k d u = usage_at ks k d u"
  by (cases "ks k"; cases "ks' k") (auto simp: usage_at_def hash_at_def split: option.splits rval.splits)

lemma record_day:
  assumes "usage_at ks k d u" and "0 < retention"
  shows "\<exists>rs ks' v. pipeline doc (record_cmds k retention e) ks = (Some rs, ks') \<and> usage_at ks' k d (add_event e u)
     \<and> ks' k = Some (v, Some (86400 * of_int retention)) \<and> (\<forall>x. x \<noteq> k \<longrightarrow> ks' x = ks x)"
proof -
  define cs0 where "cs0 = butlast (record_cmds k retention e)"
  have cs: "record_cmds k retention e = cs0 @ [EXPIRE k (retention * 86400)]" "cs0 \<noteq> []"
    by (simp_all add: record_cmds_def cs0_def)
  have "list_all2 (bumps k) cs0 (adders e)"
    by (simp add: cs0_def record_cmds_def adders_def bump_fields bump_costs)
  from send_bumps[OF this assms(1)] cs(2) have b: "Raised \<notin> set (fst (send_all doc cs0 ks))"
      "usage_at (snd (send_all doc cs0 ks)) k d (add_event e u)" "snd (send_all doc cs0 ks) k \<noteq> None"
      "\<forall>x. x \<noteq> k \<longrightarrow> snd (send_all doc cs0 ks) x = ks x"
    by (auto simp: fold_adders)
  obtain rs ks0 where s0: "send_all doc cs0 ks = (rs, ks0)" by fastforce
  then obtain v t where v: "ks0 k = Some (v, t)" using b(3) by auto
  define ks' where "ks' = ks0(k \<mapsto> (v, Some (86400 * of_int retention)))"
  have e: "doc (EXPIRE k (retention * 86400)) ks0 = (Integer 1, ks')"
    using v assms(2) by (simp add: ks'_def mult.commute)
  have "usage_at ks' k d (add_event e u)" using b(2) s0 v usage_at_same[of ks' k ks0] by (simp add: ks'_def)
  moreover have "pipeline doc (record_cmds k retention e) ks = (Some (rs @ [Integer 1]), ks')"
    using b(1) s0 e by (simp add: cs(1) pipeline_def send_all_append del: doc.simps)
  ultimately show ?thesis using b(4) s0 by (auto simp: ks'_def)
qed

lemma record_adds:
  assumes "inj isoformat" and "0 < retention" and "rows_kept isoformat key retention now ks U"
  shows "\<exists>ks'. meter_record doc isoformat retention key (day_of now) e ks = (Some (), ks')
     \<and> rows_kept isoformat key retention now ks' (U(day_of now := add_event e (U (day_of now))))"
proof -
  let ?d = "day_of now" and ?k = "usage_key isoformat key"
  have open_day: "now < 86400 * of_int (?d + retention)"
  proof -
    have "now < 86400 * of_int (?d + 1)" by (rule day_of_bounds(2))
    also have "\<dots> \<le> 86400 * of_int (?d + retention)" using assms(2) by simp
    finally show ?thesis .
  qed
  then have "usage_at ks (?k ?d) ?d (U ?d)" using assms(3) by (simp add: rows_kept_def)
  from record_day[OF this assms(2), of e] obtain rs ks' v where r:
      "pipeline doc (record_cmds (?k ?d) retention e) ks = (Some rs, ks')" "usage_at ks' (?k ?d) ?d (add_event e (U ?d))"
      "ks' (?k ?d) = Some (v, Some (86400 * of_int retention))" "\<forall>x. x \<noteq> ?k ?d \<longrightarrow> ks' x = ks x"
    by blast
  have "rows_kept isoformat key retention now ks' (U(?d := add_event e (U ?d)))"
    unfolding rows_kept_def
  proof (intro allI impI)
    fix d assume d: "now < 86400 * of_int (d + retention)"
    show "usage_at ks' (?k d) d ((U(?d := add_event e (U ?d))) d) \<and>
      (ks' (?k d) = None \<or> (\<exists>v left. ks' (?k d) = Some (v, Some left) \<and> 86400 * of_int (d + retention) \<le> now + left))"
    proof (cases "d = ?d")
      case True
      then show ?thesis using r(2,3) day_of_bounds(1)[of now] by (simp add: algebra_simps)
    next
      case False
      then have "ks' (?k d) = ks (?k d)" using r(4) usage_key_inj[OF assms(1), of key d ?d] by simp
      then show ?thesis using False assms(3) d usage_at_same[of ks' "?k d" ks] by (simp add: rows_kept_def)
    qed
  qed
  then show ?thesis using r(1) by (simp add: meter_record_def)
qed

lemma elapse_keeps:
  assumes "rows_kept isoformat key retention now ks U" and "now \<le> later"
  shows "rows_kept isoformat key retention later (elapse (later - now) ks) U"
  unfolding rows_kept_def
proof (intro allI impI)
  fix d assume d: "later < 86400 * of_int (d + retention)"
  let ?k = "usage_key isoformat key d"
  have u: "usage_at ks ?k d (U d)"
      "ks ?k = None \<or> (\<exists>v left. ks ?k = Some (v, Some left) \<and> 86400 * of_int (d + retention) \<le> now + left)"
    using assms d by (auto simp: rows_kept_def)
  from u(2) show "usage_at (elapse (later - now) ks) ?k d (U d) \<and> (elapse (later - now) ks ?k = None
     \<or> (\<exists>v left. elapse (later - now) ks ?k = Some (v, Some left) \<and> 86400 * of_int (d + retention) \<le> later + left))"
  proof (elim disjE exE conjE)
    assume "ks ?k = None"
    then have "elapse (later - now) ks ?k = None" by (simp add: elapse_def)
    then show ?thesis using u(1) \<open>ks ?k = None\<close> usage_at_same[of "elapse (later - now) ks" ?k ks] by simp
  next
    fix v left assume v: "ks ?k = Some (v, Some left)" "86400 * of_int (d + retention) \<le> now + left"
    then have "elapse (later - now) ks ?k = Some (v, Some (left - (later - now)))" using d by (simp add: elapse_def)
    then show ?thesis using u(1) v usage_at_same[of "elapse (later - now) ks" ?k ks] by simp
  qed
qed

text \<open>Several events, each at its time, while the keys age between them.\<close>

primrec meter_run ::
  "(int \<Rightarrow> string) \<Rightarrow> int \<Rightarrow> string \<Rightarrow> (seconds \<times> event) list \<Rightarrow> seconds \<Rightarrow> keyspace \<Rightarrow> keyspace" where
  "meter_run isoformat retention key [] now ks = ks"
| "meter_run isoformat retention key (x # xs) now ks =
     meter_run isoformat retention key xs (fst x)
       (snd (meter_record doc isoformat retention key (day_of (fst x)) (snd x) (elapse (fst x - now) ks)))"

definition on_day :: "(seconds \<times> event) list \<Rightarrow> int \<Rightarrow> event list" where
  "on_day xs d = map snd (filter (\<lambda>x. day_of (fst x) = d) xs)"

lemma meter_run_rows:
  assumes "inj isoformat" and "0 < retention"
  shows "rows_kept isoformat key retention now ks U \<Longrightarrow> sorted (now # map fst xs) \<Longrightarrow>
    rows_kept isoformat key retention (last (now # map fst xs)) (meter_run isoformat retention key xs now ks)
      (\<lambda>d. fold add_event (on_day xs d) (U d))"
proof (induction xs arbitrary: now ks U)
  case Nil
  then show ?case by (simp add: on_day_def)
next
  case (Cons x xs)
  have "rows_kept isoformat key retention (fst x) (elapse (fst x - now) ks) U"
    using Cons.prems by (intro elapse_keeps) simp_all
  from record_adds[OF assms this, of "snd x"] obtain ks' where m:
      "meter_record doc isoformat retention key (day_of (fst x)) (snd x) (elapse (fst x - now) ks) = (Some (), ks')"
      "rows_kept isoformat key retention (fst x) ks' (U(day_of (fst x) := add_event (snd x) (U (day_of (fst x)))))"
    by blast
  have "sorted (fst x # map fst xs)" using Cons.prems(2) by simp
  note ih = Cons.IH[OF m(2) this]
  have "(\<lambda>d. fold add_event (on_day xs d) ((U(day_of (fst x) := add_event (snd x) (U (day_of (fst x))))) d))
      = (\<lambda>d. fold add_event (on_day (x # xs) d) (U d))"
    by (auto simp: on_day_def fun_eq_iff)
  then show ?case using ih m(1) by simp
qed

lemma meter_daily_rows:
  assumes "redis_ok exec keys" and "\<forall>i < days. usage_at (keys w) (usage_key isoformat key (today - int i)) (today - int i) (U (today - int i))"
  shows "fst (meter_daily exec isoformat key days today w) = Some (map U (map (\<lambda>i. today - int i) (rev [0..<days])))"
proof -
  define ds where "ds = map (\<lambda>i. today - int i) (rev [0..<days])"
  define get where "get = (\<lambda>d. HGETALL (usage_key isoformat key d))"
  have row: "read_row d (fst (doc (get d) (keys w))) = Some (U d)" "fst (doc (get d) (keys w)) \<noteq> Raised"
      "snd (doc (get d) (keys w)) = keys w" if "d \<in> set ds" for d
    using assms(2) that by (auto simp: usage_at_def get_def ds_def)
  have "fst (pipeline doc (map get ds) (keys w)) = Some (map (\<lambda>c. fst (doc c (keys w))) (map get ds))"
    by (rule pipeline_reads) (use row(2,3) in auto)
  then have "fst (pipeline exec (map get ds) w) = Some (map (\<lambda>d. fst (doc (get d) (keys w))) ds)"
    using redis_pipeline(1)[OF assms(1), of "map get ds" w] by (simp only: map_map comp_def)
  moreover have "map2 read_row es (map (\<lambda>d. fst (doc (get d) (keys w))) es) = map (Some \<circ> U) es" if "set es \<subseteq> set ds" for es
    using that by (induction es) (simp_all add: row(1) del: doc.simps)
  moreover have "all_some (map (Some \<circ> U) ds) = Some (map U ds)"
    by (auto simp: all_some_def comp_def)
  ultimately show ?thesis
    unfolding meter_daily_def Let_def split_beta ds_def[symmetric] get_def[symmetric] by simp
qed

section \<open>Counting the events of a window\<close>

definition event_kind :: "event \<Rightarrow> nat" where
  "event_kind e = (if ev_cached e then 0 else if ev_self e then 1 else 2)"

lemma fold_events:
  "requests (fold add_event es u) = requests u + int (length es)
   \<and> cache_hits (fold add_event es u) = cache_hits u + int (length (filter (\<lambda>e. event_kind e = 0) es))
   \<and> self_hosted_requests (fold add_event es u)
       = self_hosted_requests u + int (length (filter (\<lambda>e. event_kind e = 1) es))
   \<and> cost_usd (fold add_event es u) = cost_usd u + sum_list (map ev_cost (filter (\<lambda>e. \<not> ev_cached e) es))"
  by (induction es arbitrary: u) (auto simp: add_event_def event_kind_def Let_def)

lemma length_kinds:
  "length es = length (filter (\<lambda>e. event_kind e = 0) es) + length (filter (\<lambda>e. event_kind e = 1) es)
     + length (filter (\<lambda>e. event_kind e = 2) es)"
  by (induction es) (auto simp: event_kind_def)

definition in_window :: "int list \<Rightarrow> (seconds \<times> event) list \<Rightarrow> event list" where
  "in_window ds xs = map snd (filter (\<lambda>x. day_of (fst x) \<in> set ds) xs)"

lemma in_window_count:
  "distinct ds \<Longrightarrow> sum_list (map (\<lambda>d. length (filter P (on_day xs d))) ds) = length (filter P (in_window ds xs))"
proof (induction ds)
  case (Cons d ds)
  have "length (filter P (in_window (d # ds) xs)) = length (filter P (on_day xs d)) + length (filter P (in_window ds xs))"
    using Cons.prems by (induction xs) (auto simp: in_window_def on_day_def)
  then show ?case using Cons by simp
qed (simp add: in_window_def)

lemma in_window_sum:
  fixes f :: "event \<Rightarrow> real"
  shows "distinct ds \<Longrightarrow> sum_list (map (\<lambda>d. sum_list (map f (filter P (on_day xs d)))) ds)
      = sum_list (map f (filter P (in_window ds xs)))"
proof (induction ds)
  case (Cons d ds)
  have "sum_list (map f (filter P (in_window (d # ds) xs)))
      = sum_list (map f (filter P (on_day xs d))) + sum_list (map f (filter P (in_window ds xs)))"
    using Cons.prems by (induction xs) (auto simp: in_window_def on_day_def)
  then show ?case using Cons by simp
qed (simp add: in_window_def)

lemma sum_list_int: "sum_list (map (\<lambda>d. int (f d)) ds) = int (sum_list (map f ds))"
  by (induction ds) simp_all

section \<open>Properties\<close>

text \<open>C32: The usage report accounts for every request of its window, once. Events are recorded at their times,
  on the day the time falls on, while the keys age and expire in between; a report over at most as many days as
  the retention (the default is 90, and 90 days is the most a caller may ask for), made at any later time, has
  for each day the sum of that day's events; the totals count exactly the events of the window; cache hits,
  self-hosted and paid requests are the three parts of that count (the clamp of \<open>provider_requests\<close> never hides
  any); and the blended cost per 1000 is the rounded total cost of the calls that were made, over all requests.\<close>

theorem usage_report_accounts_for_every_request:
  assumes "inj isoformat" and "0 < retention" and "int days \<le> retention"
    and "\<forall>d. ks (usage_key isoformat key d) = None"
    and "sorted (begun # map fst xs @ [now])"
    and "window = map (\<lambda>i. day_of now - int i) (rev [0..<days])"
    and "es = in_window window xs"
  shows "\<exists>rows t c. fst (usage_report doc isoformat key days (day_of now)
                (elapse (now - last (begun # map fst xs)) (meter_run isoformat retention key xs begun ks)))
             = Some (rows, t, c)
           \<and> rows = map (\<lambda>d. fold add_event (on_day xs d) (no_usage_on d)) window
           \<and> requests t = int (length es)
           \<and> map snd (kinds c) = map (\<lambda>k. int (length (filter (\<lambda>e. event_kind e = k) es))) [0, 2, 1]
           \<and> sum_list (map snd (kinds c)) = requests t
           \<and> cost_usd t = py_round 8 (sum_list (map ev_cost (filter (\<lambda>e. \<not> ev_cached e) es)))
           \<and> blended c = per_1k (cost_usd t) (int (length es))"
proof -
  let ?last = "last (begun # map fst xs)"
  let ?ks = "elapse (now - ?last) (meter_run isoformat retention key xs begun ks)"
  let ?U = "\<lambda>d. fold add_event (on_day xs d) (no_usage_on d)"
  have times: "sorted (begun # map fst xs)" "?last \<le> now"
    using assms(5) last_in_set[of "begun # map fst xs"] by (auto simp: sorted_append)
  have "rows_kept isoformat key retention begun ks no_usage_on"
    using assms(4) by (simp add: rows_kept_def usage_at_def hash_at_def daily_row_def int_field_def float_field_def no_usage_on_def)
  from elapse_keeps[OF meter_run_rows[OF assms(1,2) this times(1)] times(2)]
  have kept: "rows_kept isoformat key retention now ?ks ?U" .
  have "usage_at ?ks (usage_key isoformat key (day_of now - int i)) (day_of now - int i) (?U (day_of now - int i))" if "i < days" for i
  proof -
    have "day_of now + 1 \<le> day_of now - int i + retention" using that assms(3) by simp
    then have "86400 * of_int (day_of now + 1) \<le> (86400 * of_int (day_of now - int i + retention) :: real)"
      by (simp only: mult_le_cancel_left_pos zero_less_numeral of_int_le_iff)
    then have "now < 86400 * of_int (day_of now - int i + retention)" using day_of_bounds(2)[of now] by linarith
    then show ?thesis using kept unfolding rows_kept_def by blast
  qed
  then have d: "fst (meter_daily doc isoformat key days (day_of now) ?ks) = Some (map ?U window)"
    using meter_daily_rows[OF redis_ok_doc, of days ?ks isoformat key "day_of now" ?U] unfolding assms(6) id_def by blast
  define t where "t = usage_totals (map ?U window)"
  have dist: "distinct window" unfolding assms(6) by (auto simp: distinct_map inj_on_def)
  have z: "requests (no_usage_on x) = 0" "cache_hits (no_usage_on x) = 0" "self_hosted_requests (no_usage_on x) = 0"
      "cost_usd (no_usage_on x) = 0" for x
    by (simp_all add: no_usage_on_def)
  note count = in_window_count[OF dist, of _ xs, folded assms(7)]
  have req: "requests t = int (length es)"
    using count[of "\<lambda>_. True"] by (simp add: t_def usage_totals_def fold_events z comp_def sum_list_int)
  have kinds: "cache_hits t = int (length (filter (\<lambda>e. event_kind e = 0) es))"
      "self_hosted_requests t = int (length (filter (\<lambda>e. event_kind e = 1) es))"
    by (simp_all add: t_def usage_totals_def fold_events z comp_def sum_list_int count)
  have prov: "provider_requests t = int (length (filter (\<lambda>e. event_kind e = 2) es))"
    using length_kinds[of es] by (simp add: provider_requests_def req kinds)
  have cost: "cost_usd t = py_round 8 (sum_list (map ev_cost (filter (\<lambda>e. \<not> ev_cached e) es)))"
    using in_window_sum[OF dist, of ev_cost "\<lambda>e. \<not> ev_cached e" xs, folded assms(7)]
    by (simp add: t_def usage_totals_def fold_events z comp_def)
  show ?thesis
    using d req kinds prov cost length_kinds[of es]
    by (simp add: usage_report_def split_beta Let_def t_def[symmetric] cost_per_1k_of_def)
qed

text \<open>Three events on the days 2, 6 and 7, a retention of two days, and a report of two days near the end of
  day 7: the first event's row is gone, the other two are counted.\<close>

lemma usage_report_accounts_for_every_request_witness:
  "\<exists>ks rows t c. ks = meter_run (\<lambda>d. replicate (nat d) CHR ''d'' @ replicate (nat (- d)) CHR ''m'') 2 ''k''
           [(2 * 86400, \<lparr>ev_prompt = 1, ev_completion = 1, ev_cost = 1, ev_cached = False, ev_saved = 0, ev_self = True\<rparr>),
            (6 * 86400, \<lparr>ev_prompt = 0, ev_completion = 0, ev_cost = 0, ev_cached = True, ev_saved = 1, ev_self = False\<rparr>),
            (7 * 86400, \<lparr>ev_prompt = 3, ev_completion = 4, ev_cost = 2, ev_cached = False, ev_saved = 0, ev_self = False\<rparr>)]
           0 Map.empty
     \<and> fst (usage_report doc (\<lambda>d. replicate (nat d) CHR ''d'' @ replicate (nat (- d)) CHR ''m'') ''k'' 2 7 (elapse 86399 ks)) = Some (rows, t, c)
     \<and> requests t = 2 \<and> map snd (kinds c) = [1, 1, 0]"
proof -
  let ?f = "\<lambda>d. replicate (nat d) CHR ''d'' @ replicate (nat (- d)) CHR ''m''"
  have f: "int (length (filter (\<lambda>c. c = CHR ''d'') (?f d))) - int (length (filter (\<lambda>c. c = CHR ''m'') (?f d))) = d" for d
    by simp
  have inj: "inj ?f" by (rule injI) (metis f)
  let ?now = "8 * 86400 - 1 :: seconds"
  have days: "day_of ?now = 7" "day_of (2 * 86400) = 2" "day_of (6 * 86400) = 6" "day_of (7 * 86400) = 7"
    unfolding day_of_def by (simp_all add: floor_eq_iff)
  have win: "[6, 7] = map (\<lambda>i. day_of ?now - int i) (rev [0..<2])" unfolding days by (simp add: eval_nat_numeral)
  let ?xs = "[(2 * 86400, \<lparr>ev_prompt = 1, ev_completion = 1, ev_cost = 1, ev_cached = False, ev_saved = 0, ev_self = True\<rparr>),
            (6 * 86400, \<lparr>ev_prompt = 0, ev_completion = 0, ev_cost = 0, ev_cached = True, ev_saved = 1, ev_self = False\<rparr>),
            (7 * 86400, \<lparr>ev_prompt = 3, ev_completion = 4, ev_cost = 2, ev_cached = False, ev_saved = 0, ev_self = False\<rparr>)]
          :: (seconds \<times> event) list"
  let ?es = "in_window [6, 7] ?xs"
  have es: "length ?es = 2" "map (\<lambda>k. int (length (filter (\<lambda>e. event_kind e = k) ?es))) [0, 2, 1] = [1, 1, 0]"
    by (simp_all add: in_window_def event_kind_def days[simplified])
  have times: "sorted (0 # map fst ?xs @ [?now])" by simp
  have gap: "?now - last (0 # map fst ?xs) = 86399" by simp
  obtain rows t c where r: "fst (usage_report doc ?f ''k'' 2 7 (elapse 86399 (meter_run ?f 2 ''k'' ?xs 0 Map.empty))) = Some (rows, t, c)"
      "requests t = int (length ?es)" "map snd (kinds c) = map (\<lambda>k. int (length (filter (\<lambda>e. event_kind e = k) ?es))) [0, 2, 1]"
    using usage_report_accounts_for_every_request[OF inj _ _ _ times win refl, of 2 Map.empty "''k''", unfolded gap days(1)] by force
  show ?thesis using r es by (metis of_nat_numeral)
qed

end
