(* ===== verification/Rate_Limit.thy ===== *)
theory Rate_Limit
  imports Redis
begin

text \<open>
  The token bucket of \<open>app/core/rate_limit.py\<close>. The Lua script runs on the server in one step, so it is
  modelled as the commands it calls, one after another with nothing in between; \<open>hit\<close> sends it. Lua
  and Python floats are reals here. The clock of the API and of the server run together: between two
  hits the keys age by the time that passes (\<open>elapse\<close>).

  What the script implements is a single number, the level of the bucket (\<open>level\<close>): it rises with time
  up to the capacity and drops by the cost of what is let through. That the key expires and is
  created anew does not show (\<open>level_elapse\<close>).
\<close>

section \<open>The script and its caller\<close>

record decision =
  allowed :: bool
  remaining :: int
  retry_after_seconds :: int
  limit :: int

definition RATE_KEY :: "string \<Rightarrow> string" where "RATE_KEY key = ''ratelimit:'' @ key"

text \<open>\<open>tonumber\<close> of a reply of \<open>HMGET\<close>: nil for an absent field and for text that is no number.\<close>

definition lua_number :: "bulk option \<Rightarrow> real option" where
  "lua_number b =
     (case b of Some (Num n) \<Rightarrow> Some (of_int n) | Some (Flt x) \<Rightarrow> Some x | _ \<Rightarrow> None)"

definition refill :: "real \<Rightarrow> real \<Rightarrow> seconds \<Rightarrow> real \<Rightarrow> seconds \<Rightarrow> real" where
  "refill capacity rate now tokens ts = min capacity (tokens + max 0 (now - ts) * rate)"

definition take_tokens :: "real \<Rightarrow> real \<Rightarrow> real \<Rightarrow> bool \<times> real \<times> real" where
  "take_tokens rate cost tokens =
     (if tokens \<ge> cost then (True, tokens - cost, 0) else (False, tokens, (cost - tokens) / rate))"

definition token_bucket ::
  "'w redis \<Rightarrow> string \<Rightarrow> real \<Rightarrow> real \<Rightarrow> seconds \<Rightarrow> real \<Rightarrow> 'w \<Rightarrow> (bool \<times> real \<times> real) option \<times> 'w" where
  "token_bucket exec key capacity rate now cost w =
     (case exec (HMGET key [''tokens'', ''ts'']) w of
        (Bulks [a, b], w1) \<Rightarrow>
          (let state = (case lua_number a of
                          None \<Rightarrow> Some (capacity, now)
                        | Some tokens \<Rightarrow> map_option (\<lambda>ts. (tokens, ts)) (lua_number b))
           in case state of
                None \<Rightarrow> (None, w1)
              | Some (tokens, ts) \<Rightarrow>
                  (let (ok, left, wait) = take_tokens rate cost (refill capacity rate now tokens ts);
                       (r2, w2) = exec (HSET key [(''tokens'', Flt left), (''ts'', Flt now)]) w1
                   in if r2 = Raised then (None, w2)
                      else
                        (let (r3, w3) = exec (EXPIRE key (\<lceil>capacity / rate\<rceil> + 60)) w2
                         in (if r3 = Raised then None else Some (ok, left, wait), w3))))
      | (r, w1) \<Rightarrow> (None, w1))"

definition hit ::
  "'w redis \<Rightarrow> seconds \<Rightarrow> string \<Rightarrow> int \<Rightarrow> real \<Rightarrow> int \<Rightarrow> 'w \<Rightarrow> decision option \<times> 'w" where
  "hit exec now key capacity rate cost w =
     (let (r, w') = token_bucket exec (RATE_KEY key) (of_int capacity) rate now (of_int cost) w in
      (map_option (\<lambda>(ok, tokens, wait).
          \<lparr>allowed = ok, remaining = \<lfloor>tokens\<rfloor>, retry_after_seconds = \<lceil>wait\<rceil>, limit = capacity\<rparr>) r, w'))"

section \<open>The level of a bucket\<close>

text \<open>A bucket is well formed at a time: absent, or a tally not above the capacity with a deadline that
  leaves time to fill up.\<close>

definition bucket_ok :: "real \<Rightarrow> real \<Rightarrow> string \<Rightarrow> seconds \<Rightarrow> keyspace \<Rightarrow> bool" where
  "bucket_ok capacity rate key now ks \<longleftrightarrow>
     (case ks key of
        None \<Rightarrow> True
      | Some (RHash h, Some ttl) \<Rightarrow>
          (case (dict_get h ''tokens'', dict_get h ''ts'') of
             (Some (Flt tokens), Some (Flt ts)) \<Rightarrow>
               0 \<le> tokens \<and> tokens \<le> capacity \<and> ts \<le> now \<and> capacity / rate \<le> ttl + (now - ts)
           | _ \<Rightarrow> False)
      | _ \<Rightarrow> False)"

definition level :: "real \<Rightarrow> real \<Rightarrow> string \<Rightarrow> seconds \<Rightarrow> keyspace \<Rightarrow> real" where
  "level capacity rate key now ks =
     (case ks key of
        Some (RHash h, t) \<Rightarrow>
          (case (dict_get h ''tokens'', dict_get h ''ts'') of
             (Some (Flt tokens), Some (Flt ts)) \<Rightarrow> refill capacity rate now tokens ts
           | _ \<Rightarrow> capacity)
      | _ \<Rightarrow> capacity)"

lemma bucket_cases:
  assumes "bucket_ok capacity rate key now ks"
  obtains "ks key = None"
  | h ttl tokens ts where "ks key = Some (RHash h, Some ttl)" "dict_get h ''tokens'' = Some (Flt tokens)"
      "dict_get h ''ts'' = Some (Flt ts)" "0 \<le> tokens" "tokens \<le> capacity" "ts \<le> now"
      "capacity / rate \<le> ttl + (now - ts)"
proof (cases "ks key")
  case (Some p)
  then obtain v t where p: "ks key = Some (v, t)" by (cases p) auto
  then obtain h where v: "v = RHash h" using assms by (cases v) (auto simp: bucket_ok_def)
  obtain ttl where t: "t = Some ttl" using assms p v by (cases t) (auto simp: bucket_ok_def)
  obtain x where x: "dict_get h ''tokens'' = Some x"
    using assms p v t by (cases "dict_get h ''tokens''") (auto simp: bucket_ok_def)
  obtain tokens where tk: "x = Flt tokens" using assms p v t x by (cases x) (auto simp: bucket_ok_def)
  obtain y where y: "dict_get h ''ts'' = Some y"
    using assms p v t x tk by (cases "dict_get h ''ts''") (auto simp: bucket_ok_def)
  obtain ts where ts: "y = Flt ts" using assms p v t x tk y by (cases y) (auto simp: bucket_ok_def)
  show thesis
    by (rule that(2)[of h ttl tokens ts]) (use assms p v t x tk y ts in \<open>auto simp: bucket_ok_def\<close>)
qed (rule that(1))

lemma level_bounds:
  assumes "bucket_ok capacity rate key now ks" and "0 < rate" and "0 \<le> capacity"
  shows "0 \<le> level capacity rate key now ks \<and> level capacity rate key now ks \<le> capacity"
  by (rule bucket_cases[OF assms(1)]) (use assms(2,3) in \<open>auto simp: level_def refill_def\<close>)

lemma level_elapse:
  assumes "bucket_ok capacity rate key now ks" and "0 < rate" and "0 \<le> capacity" and "0 \<le> d"
  shows "bucket_ok capacity rate key (now + d) (elapse d ks)"
    and "level capacity rate key (now + d) (elapse d ks)
           = min capacity (level capacity rate key now ks + d * rate)"
proof -
  consider (gone) "ks key = None"
    | (there) h ttl tokens ts where "ks key = Some (RHash h, Some ttl)" "dict_get h ''tokens'' = Some (Flt tokens)"
      "dict_get h ''ts'' = Some (Flt ts)" "0 \<le> tokens" "tokens \<le> capacity" "ts \<le> now"
      "capacity / rate \<le> ttl + (now - ts)"
    by (rule bucket_cases[OF assms(1)])
  then have "bucket_ok capacity rate key (now + d) (elapse d ks)
      \<and> level capacity rate key (now + d) (elapse d ks) = min capacity (level capacity rate key now ks + d * rate)"
  proof cases
    case gone
    then show ?thesis using assms(2-4) by (auto simp: bucket_ok_def level_def elapse_def)
  next
    case there
    have full: "capacity \<le> tokens + (now + d - ts) * rate" if "ttl \<le> d"
    proof -
      have "capacity / rate \<le> now + d - ts" using there(7) that by simp
      then have "capacity \<le> (now + d - ts) * rate" using assms(2) by (simp add: divide_le_eq)
      then show ?thesis using there(4) by simp
    qed
    have "min capacity (min capacity A + x) = min capacity (A + x)" if "0 \<le> x" for A x :: real
      using that by (simp add: min_def)
    from this[of "d * rate" "tokens + (now - ts) * rate"]
    have lvl: "min capacity (refill capacity rate now tokens ts + d * rate) = refill capacity rate (now + d) tokens ts"
      using there(6) assms(2,4) by (simp add: refill_def algebra_simps)
    show ?thesis
    proof (cases "ttl \<le> d")
      case True
      then show ?thesis
        using there full lvl assms(4) by (simp add: bucket_ok_def level_def elapse_def refill_def)
    next
      case False
      then show ?thesis
        using there lvl assms(4) by (simp add: bucket_ok_def level_def elapse_def)
    qed
  qed
  then show "bucket_ok capacity rate key (now + d) (elapse d ks)"
    and "level capacity rate key (now + d) (elapse d ks) = min capacity (level capacity rate key now ks + d * rate)"
    by auto
qed

text \<open>The script takes from the level.\<close>

lemma token_bucket_level:
  assumes "bucket_ok capacity rate key now ks" and "0 < rate" and "0 \<le> capacity" and "0 \<le> cost"
    and "token_bucket doc key capacity rate now cost ks = (r, ks')"
  shows "r = Some (take_tokens rate cost (level capacity rate key now ks))"
    and "bucket_ok capacity rate key now ks'"
    and "level capacity rate key now ks' = fst (snd (take_tokens rate cost (level capacity rate key now ks)))"
proof -
  let ?l = "level capacity rate key now ks"
  have life: "0 < \<lceil>capacity / rate\<rceil> + 60" "capacity / rate \<le> of_int (\<lceil>capacity / rate\<rceil> + 60)"
    using divide_nonneg_pos[OF assms(3,2)] le_of_int_ceiling[of "capacity / rate"] by linarith+
  obtain ok left wait where t: "take_tokens rate cost ?l = (ok, left, wait)"
    by (cases "take_tokens rate cost ?l")
  have left: "0 \<le> left" "left \<le> capacity"
    using t level_bounds[OF assms(1-3)] assms(4) by (auto simp: take_tokens_def split: if_splits)
  have "r = Some (ok, left, wait) \<and> (\<exists>h. ks' key = Some (RHash h, Some (of_int (\<lceil>capacity / rate\<rceil> + 60)))
           \<and> dict_get h ''tokens'' = Some (Flt left) \<and> dict_get h ''ts'' = Some (Flt now))"
  proof (rule bucket_cases[OF assms(1)])
    assume "ks key = None"
    moreover then have "?l = capacity" "refill capacity rate now capacity now = capacity"
      by (simp_all add: level_def refill_def)
    ultimately show ?thesis
      using assms(5) t life
      by (auto simp: token_bucket_def hash_at_def lua_number_def put_val_def ttl_at_def dict_get_set Let_def)
  next
    fix h ttl tokens ts
    assume h: "ks key = Some (RHash h, Some ttl)" "dict_get h ''tokens'' = Some (Flt tokens)"
        "dict_get h ''ts'' = Some (Flt ts)"
    then have "?l = refill capacity rate now tokens ts" by (simp add: level_def)
    then show ?thesis
      using assms(5) t h life
      by (auto simp: token_bucket_def hash_at_def lua_number_def put_val_def ttl_at_def dict_get_set Let_def)
  qed
  then show "r = Some (take_tokens rate cost ?l)" "bucket_ok capacity rate key now ks'"
      "level capacity rate key now ks' = fst (snd (take_tokens rate cost ?l))"
    using t left life by (auto simp: bucket_ok_def level_def refill_def)
qed

section \<open>Properties\<close>

text \<open>A run of requests for one key: each arrives some time after the one before it.\<close>

fun bucket_run :: "string \<Rightarrow> int \<Rightarrow> real \<Rightarrow> seconds \<Rightarrow> seconds list \<Rightarrow> keyspace \<Rightarrow> decision option list" where
  "bucket_run key capacity rate now [] ks = []"
| "bucket_run key capacity rate now (d # ds) ks =
     (let (r, ks') = hit doc (now + d) key capacity rate 1 (elapse d ks)
      in r # bucket_run key capacity rate (now + d) ds ks')"

definition let_through :: "decision option list \<Rightarrow> nat" where
  "let_through rs = length (filter (\<lambda>r. case r of Some d \<Rightarrow> allowed d | None \<Rightarrow> False) rs)"

lemma hit_level:
  assumes "bucket_ok (of_int capacity) rate (RATE_KEY key) now ks" and "0 < rate" and "0 \<le> capacity" and "0 \<le> cost"
    and "hit doc now key capacity rate cost ks = (r, ks')"
    and "level (of_int capacity) rate (RATE_KEY key) now ks = l"
  shows "r = Some (if of_int cost \<le> l then \<lparr>allowed = True, remaining = \<lfloor>l - of_int cost\<rfloor>, retry_after_seconds = 0, limit = capacity\<rparr>
                   else \<lparr>allowed = False, remaining = \<lfloor>l\<rfloor>, retry_after_seconds = \<lceil>(of_int cost - l) / rate\<rceil>, limit = capacity\<rparr>)"
    and "bucket_ok (of_int capacity) rate (RATE_KEY key) now ks'"
    and "level (of_int capacity) rate (RATE_KEY key) now ks' = (if of_int cost \<le> l then l - of_int cost else l)"
proof -
  obtain x where t: "token_bucket doc (RATE_KEY key) (of_int capacity) rate now (of_int cost) ks = (x, ks')"
    using assms(5) by (auto simp: hit_def split_beta prod_eq_iff)
  have nn: "0 \<le> real_of_int capacity" "0 \<le> real_of_int cost" using assms(3,4) by simp_all
  note lv = token_bucket_level[OF assms(1,2) nn t, unfolded assms(6)]
  show "r = Some (if of_int cost \<le> l then \<lparr>allowed = True, remaining = \<lfloor>l - of_int cost\<rfloor>, retry_after_seconds = 0, limit = capacity\<rparr>
                   else \<lparr>allowed = False, remaining = \<lfloor>l\<rfloor>, retry_after_seconds = \<lceil>(of_int cost - l) / rate\<rceil>, limit = capacity\<rparr>)"
    and "bucket_ok (of_int capacity) rate (RATE_KEY key) now ks'"
    and "level (of_int capacity) rate (RATE_KEY key) now ks' = (if of_int cost \<le> l then l - of_int cost else l)"
    using assms(5) t lv by (auto simp: hit_def take_tokens_def)
qed

lemma bucket_run_bounded:
  assumes "0 < rate" and "0 \<le> capacity"
  shows "bucket_ok (of_int capacity) rate (RATE_KEY key) now ks \<Longrightarrow> \<forall>d \<in> set ds. 0 \<le> d \<Longrightarrow>
    real (let_through (bucket_run key capacity rate now ds ks))
      \<le> level (of_int capacity) rate (RATE_KEY key) now ks + rate * sum_list ds"
proof (induction ds arbitrary: now ks)
  case Nil
  then show ?case using level_bounds[OF Nil(1) assms(1)] assms(2) by (simp add: let_through_def)
next
  case (Cons d ds)
  have cap: "0 \<le> real_of_int capacity" and d: "0 \<le> d" using assms(2) Cons.prems(2) by simp_all
  note el = level_elapse[OF Cons.prems(1) assms(1) cap d]
  obtain r ks' where h: "hit doc (now + d) key capacity rate 1 (elapse d ks) = (r, ks')"
    by (cases "hit doc (now + d) key capacity rate 1 (elapse d ks)")
  note hl = hit_level[OF el(1) assms(1,2) _ h el(2)]
  have ih: "real (let_through (bucket_run key capacity rate (now + d) ds ks'))
      \<le> level (of_int capacity) rate (RATE_KEY key) (now + d) ks' + rate * sum_list ds"
    by (rule Cons.IH[OF hl(2)]) (use Cons.prems(2) in simp_all)
  have "real (let_through (bucket_run key capacity rate now (d # ds) ks))
      = (if allowed (the r) then 1 else 0) + real (let_through (bucket_run key capacity rate (now + d) ds ks'))"
    using h hl(1) by (simp add: let_through_def)
  also have "\<dots> \<le> level (of_int capacity) rate (RATE_KEY key) now ks + d * rate + rate * sum_list ds"
    using ih hl(1,3) by (auto split: if_splits)
  finally show ?case by (simp add: algebra_simps)
qed

text \<open>C8: Over any run of requests for a key, however they are spread, the limiter lets through at most the
  capacity plus what is refilled over the time the run takes; the bucket expiring and being created
  anew on the server never adds a request.\<close>

theorem bucket_bounds_every_window:
  assumes "0 < rate" and "0 < capacity" and "\<forall>d \<in> set ds. 0 \<le> d"
    and "bucket_ok (of_int capacity) rate (RATE_KEY key) now ks"
  shows "real (let_through (bucket_run key capacity rate now ds ks)) \<le> of_int capacity + rate * sum_list ds"
  using bucket_run_bounded[OF assms(1) _ assms(4,3)] level_bounds[OF assms(4,1)] assms(2) by simp

lemma bucket_bounds_every_window_witness:
  "let_through (bucket_run ''k'' 2 1 0 [0, 0, 0, 0, 1/2] Map.empty) \<le> 2"
proof -
  have "real (let_through (bucket_run ''k'' 2 1 0 [0, 0, 0, 0, 1/2] Map.empty)) \<le> 2 + 1/2"
    using bucket_bounds_every_window[of 1 2 "[0, 0, 0, 0, 1/2]" "''k''" 0 Map.empty] by (simp add: bucket_ok_def)
  then show ?thesis by linarith
qed

text \<open>The limiter tells the truth about waiting. After a refusal a request is let through once the
  advertised number of seconds has passed without other requests, and none is before the exact
  waiting time is over; a request costing more than the capacity is never let through.\<close>

theorem retry_after_is_honest:
  assumes "0 < rate" and "0 < capacity" and "0 \<le> cost"
    and "bucket_ok (of_int capacity) rate (RATE_KEY key) now ks"
    and "hit doc now key capacity rate cost ks = (r, ks')" and "0 \<le> d"
    and "hit doc (now + d) key capacity rate cost (elapse d ks') = (r', ks'')"
  shows "\<exists>dec dec'. r = Some dec \<and> r' = Some dec'
           \<and> (\<not> allowed dec \<longrightarrow> cost \<le> capacity \<longrightarrow> of_int (retry_after_seconds dec) \<le> d \<longrightarrow> allowed dec')
           \<and> (\<not> allowed dec \<longrightarrow> d < (of_int cost - level (of_int capacity) rate (RATE_KEY key) now ks) / rate
                \<longrightarrow> \<not> allowed dec')
           \<and> (capacity < cost \<longrightarrow> \<not> allowed dec \<and> \<not> allowed dec')"
proof -
  let ?l = "level (of_int capacity) rate (RATE_KEY key) now ks"
  have cap: "0 \<le> capacity" "0 \<le> real_of_int capacity" using assms(2) by simp_all
  note h1 = hit_level[OF assms(4,1) cap(1) assms(3,5) refl]
  note el = level_elapse[OF h1(2) assms(1) cap(2) assms(6)]
  note h2 = hit_level[OF el(1) assms(1) cap(1) assms(3,7) el(2)]
  have lb: "?l \<le> of_int capacity" using level_bounds[OF assms(4,1) cap(2)] by simp
  have wait: "(of_int cost - ?l) / rate \<le> d \<longleftrightarrow> of_int cost \<le> ?l + d * rate"
    using assms(1) by (simp add: divide_le_eq algebra_simps)
  have "(of_int cost - ?l) / rate \<le> d" if "of_int \<lceil>(of_int cost - ?l) / rate\<rceil> \<le> d"
    using that by linarith
  then show ?thesis using h1(1,3) h2(1) lb wait by (auto split: if_splits)
qed

lemma retry_after_is_honest_witness:
  "\<exists>ks dec dec' ks'. hit doc 10 ''k'' 1 (1/2) 1 [RATE_KEY ''k'' \<mapsto> (RHash [(''tokens'', Flt (1/4)), (''ts'', Flt 10)], Some 62)]
         = (Some dec, ks) \<and> \<not> allowed dec \<and> retry_after_seconds dec = 2
     \<and> hit doc (10 + 2) ''k'' 1 (1/2) 1 (elapse 2 ks) = (Some dec', ks') \<and> allowed dec'"
proof -
  let ?w = "[RATE_KEY ''k'' \<mapsto> (RHash [(''tokens'', Flt (1/4)), (''ts'', Flt 10)], Some 62)] :: keyspace"
  have ok: "bucket_ok (of_int 1) (1/2) (RATE_KEY ''k'') 10 ?w" by (simp add: bucket_ok_def)
  have l: "level (of_int 1) (1/2) (RATE_KEY ''k'') 10 ?w = 1/4" by (simp add: level_def refill_def)
  obtain r ks where r: "hit doc 10 ''k'' 1 (1/2) 1 ?w = (r, ks)" by (cases "hit doc 10 ''k'' 1 (1/2) 1 ?w")
  obtain r' ks' where r': "hit doc (10 + 2) ''k'' 1 (1/2) 1 (elapse 2 ks) = (r', ks')"
    by (cases "hit doc (10 + 2) ''k'' 1 (1/2) 1 (elapse 2 ks)")
  have "r = Some \<lparr>allowed = False, remaining = 0, retry_after_seconds = 2, limit = 1\<rparr>"
    using hit_level(1)[OF ok _ _ _ r l] by (simp add: ceiling_unique floor_unique)
  then show ?thesis using r r' retry_after_is_honest[OF _ _ _ ok r _ r'] by auto
qed

section \<open>Clocks that disagree\<close>

text \<open>The script stores its caller's time even when it is earlier than the stored one. Two replicas whose
  clocks differ by at least the time one token takes, and that take turns, therefore let a request
  through on every turn of the fast one: the limit no longer limits.\<close>

fun skewed_run :: "string \<Rightarrow> real \<Rightarrow> seconds \<Rightarrow> seconds \<Rightarrow> nat \<Rightarrow> keyspace \<Rightarrow> decision option list" where
  "skewed_run key rate fast slow 0 ks = []"
| "skewed_run key rate fast slow (Suc n) ks =
     (let (r1, ks1) = hit doc fast key 1 rate 1 ks; (r2, ks2) = hit doc slow key 1 rate 1 ks1
      in r1 # r2 # skewed_run key rate fast slow n ks2)"

definition tally :: "string \<Rightarrow> real \<Rightarrow> seconds \<Rightarrow> keyspace \<Rightarrow> bool" where
  "tally key tokens ts ks \<longleftrightarrow>
     (\<exists>h t. ks key = Some (RHash h, t) \<and> dict_get h ''tokens'' = Some (Flt tokens) \<and> dict_get h ''ts'' = Some (Flt ts))"

lemma hit_tally:
  assumes "tally (RATE_KEY key) tokens ts ks" and "0 < rate"
    and "take_tokens rate 1 (refill 1 rate now tokens ts) = (ok, left, wait)"
  shows "\<exists>ks'. hit doc now key 1 rate 1 ks
            = (Some \<lparr>allowed = ok, remaining = \<lfloor>left\<rfloor>, retry_after_seconds = \<lceil>wait\<rceil>, limit = 1\<rparr>, ks')
          \<and> tally (RATE_KEY key) left now ks'"
proof -
  have "0 < \<lceil>1 / rate\<rceil> + 60" using assms(2) le_of_int_ceiling[of "1 / rate"]
    by (smt (verit) divide_pos_pos of_int_0_less_iff of_int_add)
  then show ?thesis
    using assms by (auto simp: tally_def hit_def token_bucket_def hash_at_def lua_number_def put_val_def
        ttl_at_def dict_get_set Let_def)
qed

lemma skewed_clocks_defeat_the_limit:
  assumes "0 < rate" and "1 \<le> (fast - slow) * rate"
  shows "tally (RATE_KEY key) 0 slow ks \<Longrightarrow> n \<le> let_through (skewed_run key rate fast slow n ks)"
proof (induction n arbitrary: ks)
  case (Suc n)
  have pos: "slow < fast" using assms by (smt (verit) mult_nonneg_nonneg mult_le_0_iff)
  have "take_tokens rate 1 (refill 1 rate fast 0 slow) = (True, 0, 0)"
    using assms(2) pos by (simp add: take_tokens_def refill_def)
  from hit_tally[OF Suc.prems assms(1) this] obtain ks1 where h1:
    "hit doc fast key 1 rate 1 ks = (Some \<lparr>allowed = True, remaining = \<lfloor>0 :: real\<rfloor>, retry_after_seconds = \<lceil>0 :: real\<rceil>, limit = 1\<rparr>, ks1)"
    "tally (RATE_KEY key) 0 fast ks1" by blast
  have "take_tokens rate 1 (refill 1 rate slow 0 fast) = (False, 0, 1 / rate)"
    using pos by (simp add: take_tokens_def refill_def)
  from hit_tally[OF h1(2) assms(1) this] obtain ks2 r2 where
    "hit doc slow key 1 rate 1 ks1 = (Some r2, ks2)" "\<not> allowed r2" "tally (RATE_KEY key) 0 slow ks2" by auto
  then show ?case using Suc.IH[of ks2] h1(1) by (simp add: let_through_def)
qed (simp add: let_through_def)

end
