(* ===== verification/Security.thy ===== *)
theory Security
  imports Rate_Limit Text
begin

text \<open>
  API keys, tokens and the request dependencies that use them (\<open>app/core/security.py\<close>,
  \<open>app/api/deps.py\<close>, the token exchange of \<open>app/api/account.py\<close>). SHA-256 (\<open>hash_key\<close>) and PyJWT are
  parameters: nothing is assumed of the hash, and decoding a token with the secret
  it was encoded with gives its claims until they expire (\<open>jwt_ok\<close>). \<open>secrets\<close> supplies the two random
  parts of a key as arguments. An exception of Redis or pydantic that the code lets through is an
  outer \<open>None\<close>.
\<close>

section \<open>Records\<close>

record api_key =
  key_id :: string
  tenant_id :: string
  key_name :: string
  created_at :: string
  rl_capacity :: "int option"
  rl_refill :: "real option"

text \<open>\<open>Field(gt=0)\<close>\<close>

definition valid_api_key :: "api_key \<Rightarrow> bool" where
  "valid_api_key r \<longleftrightarrow>
     (case rl_capacity r of None \<Rightarrow> True | Some n \<Rightarrow> 0 < n) \<and> (case rl_refill r of None \<Rightarrow> True | Some x \<Rightarrow> 0 < x)"

record principal =
  p_key_id :: string
  p_tenant_id :: string
  p_capacity :: "int option"
  p_refill :: "real option"

definition principal_from :: "api_key \<Rightarrow> principal" where
  "principal_from r = \<lparr>p_key_id = key_id r, p_tenant_id = tenant_id r, p_capacity = rl_capacity r, p_refill = rl_refill r\<rparr>"

datatype credential_error = InvalidCredentials string

definition key_json :: "api_key \<Rightarrow> json" where
  "key_json r = JObj
     [(''key_id'', JStr (key_id r)), (''tenant_id'', JStr (tenant_id r)), (''name'', JStr (key_name r)),
      (''created_at'', JStr (created_at r)),
      (''rate_limit_capacity'', (case rl_capacity r of None \<Rightarrow> JNull | Some n \<Rightarrow> JNum n)),
      (''rate_limit_refill_per_sec'', (case rl_refill r of None \<Rightarrow> JNull | Some x \<Rightarrow> JReal x))]"

fun str_of :: "json option \<Rightarrow> string option" where
  "str_of (Some (JStr s)) = Some s"
| "str_of _ = None"

fun opt_num :: "json option \<Rightarrow> int option option" where
  "opt_num (Some (JNum n)) = Some (Some n)"
| "opt_num (Some JNull) = Some None"
| "opt_num None = Some None"
| "opt_num _ = None"

fun opt_real :: "json option \<Rightarrow> real option option" where
  "opt_real (Some (JReal x)) = Some (Some x)"
| "opt_real (Some (JNum n)) = Some (Some (of_int n))"
| "opt_real (Some JNull) = Some None"
| "opt_real None = Some None"
| "opt_real _ = None"

text \<open>\<open>model_validate_json\<close>\<close>

definition parse_key :: "json \<Rightarrow> api_key option" where
  "parse_key j =
     (case (str_of (json_get j ''key_id''), str_of (json_get j ''tenant_id''), str_of (json_get j ''name''),
            str_of (json_get j ''created_at''), opt_num (json_get j ''rate_limit_capacity''),
            opt_real (json_get j ''rate_limit_refill_per_sec'')) of
        (Some k, Some t, Some n, Some c, Some cap, Some ref) \<Rightarrow>
          (let r = \<lparr>key_id = k, tenant_id = t, key_name = n, created_at = c, rl_capacity = cap, rl_refill = ref\<rparr>
           in if valid_api_key r then Some r else None)
      | _ \<Rightarrow> None)"

section \<open>The key store\<close>

definition KEY_PREFIX :: string where "KEY_PREFIX = ''ng_''"
definition KEY_HASHES :: string where "KEY_HASHES = ''apikey_hashes''"
definition record_key :: "string \<Rightarrow> string" where "record_key k = ''apikey:'' @ k"
definition hash_index_key :: "string \<Rightarrow> string" where "hash_index_key h = ''apikey_hash:'' @ h"
definition tenant_index_key :: "string \<Rightarrow> string" where "tenant_index_key t = ''tenant_keys:'' @ t"

definition starts_with :: "string \<Rightarrow> string \<Rightarrow> bool" where
  "starts_with p s \<longleftrightarrow> take (length p) s = p"

definition key_create ::
  "'w redis \<Rightarrow> (string \<Rightarrow> string) \<Rightarrow> string \<Rightarrow> string \<Rightarrow> string \<Rightarrow> string \<Rightarrow> string \<Rightarrow> int option \<Rightarrow> real option \<Rightarrow> 'w
     \<Rightarrow> (string \<times> api_key) option \<times> 'w" where
  "key_create exec hash_key rand_id rand_secret stamp tenant name capacity refill_rate w =
     (let raw = KEY_PREFIX @ rand_id @ ''_'' @ rand_secret;
          r = \<lparr>key_id = rand_id, tenant_id = tenant, key_name = name, created_at = stamp,
               rl_capacity = capacity, rl_refill = refill_rate\<rparr>
      in if \<not> valid_api_key r then (None, w)
         else
           (let (rs, w') = pipeline exec
                  [SET (record_key rand_id) (Json (key_json r)), SET (hash_index_key (hash_key raw)) (Txt rand_id),
                   HSET KEY_HASHES [(rand_id, Txt (hash_key raw))], SADD (tenant_index_key tenant) rand_id] w
            in (map_option (\<lambda>_. (raw, r)) rs, w')))"

text \<open>\<open>ApiKeyRecord.model_validate_json(raw) if raw else None\<close>\<close>

definition key_get :: "'w redis \<Rightarrow> string \<Rightarrow> 'w \<Rightarrow> api_key option option \<times> 'w" where
  "key_get exec k w =
     (let (r, w') = exec (GET (record_key k)) w in
      (case r of
         NilReply \<Rightarrow> Some None
       | Bulk b \<Rightarrow>
           if b = Txt [] then Some None
           else (case bulk_json b of None \<Rightarrow> None | Some j \<Rightarrow> map_option Some (parse_key j))
       | _ \<Rightarrow> None, w'))"

definition key_verify ::
  "'w redis \<Rightarrow> (string \<Rightarrow> string) \<Rightarrow> string \<Rightarrow> 'w \<Rightarrow> (credential_error + api_key) option \<times> 'w" where
  "key_verify exec hash_key raw w =
     (if \<not> starts_with KEY_PREFIX raw then (Some (Inl (InvalidCredentials ''malformed API key'')), w)
      else
        (let (r, w1) = exec (GET (hash_index_key (hash_key raw))) w in
         case r of
           NilReply \<Rightarrow> (Some (Inl (InvalidCredentials ''unknown or revoked API key'')), w1)
         | Bulk (Txt k) \<Rightarrow>
             (let (x, w2) = key_get exec k w1 in
              (case x of
                 None \<Rightarrow> None
               | Some None \<Rightarrow> Some (Inl (InvalidCredentials ''unknown or revoked API key''))
               | Some (Some rec) \<Rightarrow> Some (Inr rec), w2))
         | _ \<Rightarrow> (None, w1)))"

fun get_each :: "'w redis \<Rightarrow> string list \<Rightarrow> 'w \<Rightarrow> api_key list option \<times> 'w" where
  "get_each exec [] w = (Some [], w)"
| "get_each exec (k # ks) w =
     (let (x, w1) = key_get exec k w in
      case x of
        None \<Rightarrow> (None, w1)
      | Some r \<Rightarrow>
          (let (rest, w2) = get_each exec ks w1 in
           (map_option (\<lambda>rs. (case r of None \<Rightarrow> rs | Some rec \<Rightarrow> rec # rs)) rest, w2)))"

definition list_for_tenant :: "'w redis \<Rightarrow> string \<Rightarrow> 'w \<Rightarrow> api_key list option \<times> 'w" where
  "list_for_tenant exec tenant w =
     (let (r, w1) = exec (SMEMBERS (tenant_index_key tenant)) w in
      case r of Members s \<Rightarrow> get_each exec (sorted_list_of_set s) w1 | _ \<Rightarrow> (None, w1))"

definition key_revoke :: "'w redis \<Rightarrow> string \<Rightarrow> 'w \<Rightarrow> bool option \<times> 'w" where
  "key_revoke exec k w =
     (let (x, w1) = key_get exec k w in
      case x of
        None \<Rightarrow> (None, w1)
      | Some None \<Rightarrow> (Some False, w1)
      | Some (Some rec) \<Rightarrow>
          (let (h, w2) = exec (HGET KEY_HASHES k) w1 in
           if h = Raised then (None, w2)
           else
             (let index = (case h of Bulk (Txt s) \<Rightarrow> if s = [] then [] else [DEL [hash_index_key s]] | _ \<Rightarrow> []);
                  (rs, w3) = pipeline exec
                    (DEL [record_key k] # index @ [HDEL KEY_HASHES [k], SREM (tenant_index_key (tenant_id rec)) k]) w2
              in (map_option (\<lambda>_. True) rs, w3))))"

section \<open>Tokens\<close>

record claims =
  sub :: string
  claim_tenant :: string
  iat :: int
  exp_at :: int
  iss :: string

datatype decoded = Claims claims | Expired | Invalid

record jwt =
  encode :: "claims \<Rightarrow> string \<Rightarrow> string"
  decode :: "string \<Rightarrow> string \<Rightarrow> string \<Rightarrow> seconds \<Rightarrow> decoded"  \<comment> \<open>token, secret, issuer, now\<close>

text \<open>The library decodes the token of the claims \<open>c\<close>.\<close>

definition jwt_ok :: "jwt \<Rightarrow> claims \<Rightarrow> string \<Rightarrow> bool" where
  "jwt_ok J c s \<longleftrightarrow>
     (\<forall>i now. decode J (encode J c s) s i now =
        (if of_int (exp_at c) \<le> now then Expired else if iss c = i then Claims c else Invalid))"

record token_service =
  jwt_lib :: jwt
  secret :: string
  ttl_seconds :: int

definition token_claims :: "token_service \<Rightarrow> api_key \<Rightarrow> seconds \<Rightarrow> claims" where
  "token_claims T r now =
     (let t = \<lfloor>now\<rfloor> in
      \<lparr>sub = key_id r, claim_tenant = tenant_id r, iat = t, exp_at = t + ttl_seconds T, iss = ''nexusgate''\<rparr>)"

definition token_issue :: "token_service \<Rightarrow> api_key \<Rightarrow> seconds \<Rightarrow> string" where
  "token_issue T r now = encode (jwt_lib T) (token_claims T r now) (secret T)"

definition token_decode :: "token_service \<Rightarrow> string \<Rightarrow> seconds \<Rightarrow> credential_error + claims" where
  "token_decode T tok now =
     (case decode (jwt_lib T) tok (secret T) ''nexusgate'' now of
        Claims c \<Rightarrow> Inr c
      | Expired \<Rightarrow> Inl (InvalidCredentials ''token expired'')
      | Invalid \<Rightarrow> Inl (InvalidCredentials ''invalid token''))"

section \<open>Request dependencies\<close>

record headers =
  x_api_key :: "string option"
  authorization :: "string option"

text \<open>\<open>auth.partition(" ")\<close>\<close>

definition partition_blank :: "string \<Rightarrow> string \<times> string" where
  "partition_blank s = (takeWhile (\<lambda>c. c \<noteq> CHR '' '') s, drop 1 (dropWhile (\<lambda>c. c \<noteq> CHR '' '') s))"

text \<open>\<open>_credentials\<close>: the API key, the JWT\<close>

definition credentials :: "headers \<Rightarrow> string option \<times> string option" where
  "credentials h =
     (case x_api_key h of
        Some (c # cs) \<Rightarrow> (Some (c # cs), None)
      | _ \<Rightarrow>
        (let (scheme, value) = partition_blank (case authorization h of None \<Rightarrow> [] | Some s \<Rightarrow> s) in
         if lower scheme \<noteq> ''bearer'' \<or> strip value = [] then (None, None)
         else if starts_with KEY_PREFIX (strip value) then (Some (strip value), None)
         else (None, Some (strip value))))"

datatype http_error = Unauthorized string | TooManyRequests int int int | Forbidden string

definition authenticate ::
  "'w redis \<Rightarrow> (string \<Rightarrow> string) \<Rightarrow> token_service \<Rightarrow> ('w \<Rightarrow> seconds) \<Rightarrow> headers \<Rightarrow> 'w
     \<Rightarrow> (http_error + principal) option \<times> 'w" where
  "authenticate exec hash_key T wall h w =
     (case credentials h of
        (Some raw, j) \<Rightarrow>
          (let (r, w1) = key_verify exec hash_key raw w in
           (map_option (\<lambda>x. case x of Inl (InvalidCredentials m) \<Rightarrow> Inl (Unauthorized m) | Inr rec \<Rightarrow> Inr (principal_from rec)) r, w1))
      | (None, Some tok) \<Rightarrow>
          (case token_decode T tok (wall w) of
             Inl (InvalidCredentials m) \<Rightarrow> (Some (Inl (Unauthorized m)), w)
           | Inr c \<Rightarrow>
               (let (r, w1) = key_get exec (sub c) w in
                (map_option (\<lambda>x. case x of None \<Rightarrow> Inl (Unauthorized ''API key behind this token was revoked'')
                                  | Some rec \<Rightarrow> Inr (principal_from rec)) r, w1)))
      | (None, None) \<Rightarrow>
          (Some (Inl (Unauthorized ''missing credentials: send X-API-Key or Authorization: Bearer'')), w))"

definition authenticate_api_key ::
  "'w redis \<Rightarrow> (string \<Rightarrow> string) \<Rightarrow> headers \<Rightarrow> 'w \<Rightarrow> (http_error + principal) option \<times> 'w" where
  "authenticate_api_key exec hash_key h w =
     (case fst (credentials h) of
        None \<Rightarrow> (Some (Inl (Unauthorized ''an API key is required to obtain a token'')), w)
      | Some raw \<Rightarrow>
          (let (r, w1) = key_verify exec hash_key raw w in
           (map_option (\<lambda>x. case x of Inl (InvalidCredentials m) \<Rightarrow> Inl (Unauthorized m) | Inr rec \<Rightarrow> Inr (principal_from rec)) r, w1)))"

text \<open>\<open>issue_token\<close>: exchange an API key for a JWT; \<open>services.tokens.issue(None)\<close> would raise.\<close>

definition issue_token ::
  "'w redis \<Rightarrow> (string \<Rightarrow> string) \<Rightarrow> token_service \<Rightarrow> ('w \<Rightarrow> seconds) \<Rightarrow> headers \<Rightarrow> 'w
     \<Rightarrow> (http_error + string \<times> int) option \<times> 'w" where
  "issue_token exec hash_key T wall h w =
     (let (p, w1) = authenticate_api_key exec hash_key h w in
      case p of
        None \<Rightarrow> (None, w1)
      | Some (Inl e) \<Rightarrow> (Some (Inl e), w1)
      | Some (Inr pr) \<Rightarrow>
          (let (r, w2) = key_get exec (p_key_id pr) w1 in
           (case r of Some (Some rec) \<Rightarrow> Some (Inr (token_issue T rec (wall w2), ttl_seconds T)) | _ \<Rightarrow> None, w2)))"

text \<open>\<open>rate_limited\<close>; Python's \<open>or\<close> also replaces a limit of 0. The counter of refusals is not kept.\<close>

definition int_or :: "int option \<Rightarrow> int \<Rightarrow> int" where
  "int_or x dflt = (case x of None \<Rightarrow> dflt | Some n \<Rightarrow> if n = 0 then dflt else n)"

definition real_or :: "real option \<Rightarrow> real \<Rightarrow> real" where
  "real_or x dflt = (case x of None \<Rightarrow> dflt | Some n \<Rightarrow> if n = 0 then dflt else n)"

definition rate_limited ::
  "'w redis \<Rightarrow> ('w \<Rightarrow> seconds) \<Rightarrow> int \<Rightarrow> real \<Rightarrow> principal \<Rightarrow> 'w \<Rightarrow> (http_error + principal) option \<times> 'w" where
  "rate_limited exec wall capacity refill_rate p w =
     (let (r, w1) = hit exec (wall w) (p_key_id p) (int_or (p_capacity p) capacity) (real_or (p_refill p) refill_rate) 1 w in
      (map_option (\<lambda>d. if allowed d then Inr p
                       else Inl (TooManyRequests (limit d) (remaining d) (max 1 (retry_after_seconds d)))) r, w1))"

definition require_admin :: "string \<Rightarrow> string option \<Rightarrow> http_error option" where
  "require_admin expected tok = (if tok = Some expected then None else Some (Forbidden ''admin token required''))"

section \<open>Lemmas\<close>

lemma store_keys [simp]:
  "record_key a = record_key b \<longleftrightarrow> a = b" "hash_index_key a = hash_index_key b \<longleftrightarrow> a = b"
  "record_key a \<noteq> hash_index_key b" "hash_index_key b \<noteq> record_key a" "record_key a \<noteq> KEY_HASHES"
  "KEY_HASHES \<noteq> record_key a" "hash_index_key a \<noteq> KEY_HASHES" "KEY_HASHES \<noteq> hash_index_key a"
  "tenant_index_key a \<noteq> record_key b" "record_key b \<noteq> tenant_index_key a" "tenant_index_key a \<noteq> hash_index_key b"
  "hash_index_key b \<noteq> tenant_index_key a" "tenant_index_key a \<noteq> KEY_HASHES" "KEY_HASHES \<noteq> tenant_index_key a"
  by (simp_all add: record_key_def hash_index_key_def KEY_HASHES_def tenant_index_key_def)

lemma parse_key_json: "valid_api_key r \<Longrightarrow> parse_key (key_json r) = Some r"
  by (cases r; cases "rl_capacity r"; cases "rl_refill r") (simp_all add: parse_key_def key_json_def Let_def)

lemma key_get_doc:
  assumes "redis_ok exec keys"
  shows "fst (key_get exec k w) = fst (key_get doc k (keys w))" and "keys (snd (key_get exec k w)) = keys w"
  using redis_reply[OF assms, of "GET (record_key k)" w] redis_keys[OF assms, of "GET (record_key k)" w]
  by (simp_all add: key_get_def split_beta)

lemma key_get_stored:
  "ks (record_key k) = Some (RStr (Json (key_json r)), t) \<Longrightarrow> valid_api_key r \<Longrightarrow> key_get doc k ks = (Some (Some r), ks)"
  by (simp add: key_get_def parse_key_json)

lemma key_get_absent: "ks (record_key k) = None \<Longrightarrow> key_get doc k ks = (Some None, ks)"
  by (simp add: key_get_def)

lemma key_get_doc_keys: "snd (key_get doc k ks) = ks"
  by (simp add: key_get_def)

lemma key_verify_doc:
  assumes "redis_ok exec keys"
  shows "fst (key_verify exec hash_key raw w) = fst (key_verify doc hash_key raw (keys w))"
    and "keys (snd (key_verify exec hash_key raw w)) = keys w"
proof -
  let ?c = "GET (hash_index_key (hash_key raw))"
  obtain r w1 where e: "exec ?c w = (r, w1)" by (cases "exec ?c w")
  then have d: "doc ?c (keys w) = (r, keys w)" "keys w1 = keys w"
    using redis_reply[OF assms, of ?c w] redis_keys[OF assms, of ?c w] by simp_all
  show "fst (key_verify exec hash_key raw w) = fst (key_verify doc hash_key raw (keys w))"
    and "keys (snd (key_verify exec hash_key raw w)) = keys w"
    using key_get_doc[OF assms, where w = w1] d(2) unfolding key_verify_def e d(1)
    by (auto simp: split_beta key_get_doc_keys split: reply.splits bulk.splits)
qed

lemma raw_key_prefix: "starts_with KEY_PREFIX (KEY_PREFIX @ s)"
  by (simp add: starts_with_def)

text \<open>The store holds the key \<open>r\<close> under \<open>raw\<close>.\<close>

definition key_stored :: "(string \<Rightarrow> string) \<Rightarrow> keyspace \<Rightarrow> string \<Rightarrow> api_key \<Rightarrow> bool" where
  "key_stored hash_key ks raw r \<longleftrightarrow>
     ks (record_key (key_id r)) = Some (RStr (Json (key_json r)), None)
     \<and> ks (hash_index_key (hash_key raw)) = Some (RStr (Txt (key_id r)), None)
     \<and> (\<exists>h. hash_at ks KEY_HASHES = Some h \<and> dict_get h (key_id r) = Some (Txt (hash_key raw)))
     \<and> set_at ks (tenant_index_key (tenant_id r)) \<noteq> None \<and> valid_api_key r"

lemma key_create_stores:
  assumes "redis_ok exec keys" and "hash_at (keys w) KEY_HASHES \<noteq> None"
    and "set_at (keys w) (tenant_index_key tenant) \<noteq> None"
    and "key_create exec hash_key rand_id rand_secret stamp tenant name capacity refill_rate w = (Some (raw, r), w1)"
  shows "key_stored hash_key (keys w1) raw r \<and> key_id r = rand_id \<and> tenant_id r = tenant \<and> starts_with KEY_PREFIX raw"
proof -
  let ?cs = "[SET (record_key rand_id) (Json (key_json r)), SET (hash_index_key (hash_key raw)) (Txt rand_id),
                   HSET KEY_HASHES [(rand_id, Txt (hash_key raw))], SADD (tenant_index_key tenant) rand_id]"
  define raw0 where "raw0 = KEY_PREFIX @ rand_id @ ''_'' @ rand_secret"
  define r0 where "r0 = \<lparr>key_id = rand_id, tenant_id = tenant, key_name = name, created_at = stamp,
               rl_capacity = capacity, rl_refill = refill_rate\<rparr>"
  obtain rs w0 where p0: "pipeline exec [SET (record_key rand_id) (Json (key_json r0)), SET (hash_index_key (hash_key raw0)) (Txt rand_id),
                   HSET KEY_HASHES [(rand_id, Txt (hash_key raw0))], SADD (tenant_index_key tenant) rand_id] w = (rs, w0)"
    by (cases "pipeline exec [SET (record_key rand_id) (Json (key_json r0)), SET (hash_index_key (hash_key raw0)) (Txt rand_id),
                   HSET KEY_HASHES [(rand_id, Txt (hash_key raw0))], SADD (tenant_index_key tenant) rand_id] w")
  have e: "valid_api_key r0 \<and> map_option (\<lambda>_. (raw0, r0)) rs = Some (raw, r) \<and> w0 = w1"
    using assms(4) p0 unfolding key_create_def Let_def raw0_def[symmetric] r0_def[symmetric]
    by (simp split: if_splits)
  then have p: "pipeline exec ?cs w = (rs, w1)" and r: "key_id r = rand_id" "tenant_id r = tenant"
      "valid_api_key r" "raw = KEY_PREFIX @ rand_id @ ''_'' @ rand_secret"
    using p0 by (auto simp: raw0_def r0_def)
  have w1: "keys w1 = snd (pipeline doc ?cs (keys w))"
    using redis_pipeline(2)[OF assms(1), of ?cs w] p by simp
  obtain h where h: "hash_at (keys w) KEY_HASHES = Some h" using assms(2) by auto
  obtain s where s: "set_at (keys w) (tenant_index_key tenant) = Some s" using assms(3) by auto
  have "hash_at ((keys w)(record_key rand_id := x, hash_index_key (hash_key raw) := y)) KEY_HASHES = Some h" for x y
    using h by (simp add: redis_simps)
  moreover have "set_at (put_val KEY_HASHES z ((keys w)(record_key rand_id := x, hash_index_key (hash_key raw) := y)))
      (tenant_index_key tenant) = Some s" for x y z
    using s by (simp add: redis_simps)
  ultimately show ?thesis
    using r raw_key_prefix
    by (simp add: key_stored_def w1 pipeline_def split_beta redis_simps dict_get_set)
qed

lemma stored_verifies:
  "key_stored hash_key ks raw r \<Longrightarrow> starts_with KEY_PREFIX raw \<Longrightarrow> key_verify doc hash_key raw ks = (Some (Inr r), ks)"
  by (simp add: key_verify_def key_stored_def key_get_stored)

lemma key_revoke_removes:
  assumes "redis_ok exec keys" and "key_stored hash_key (keys w) raw r" and "key_revoke exec (key_id r) w = (x, w')"
  shows "x = Some True \<and> keys w' (record_key (key_id r)) = None
         \<and> keys w' (hash_index_key (hash_key raw)) \<in> {None, Some (RStr (Txt (key_id r)), None)}
         \<and> (\<forall>k. k \<noteq> key_id r \<longrightarrow> keys w' (record_key k) = keys w (record_key k))
         \<and> (\<forall>i. i \<noteq> hash_key raw \<longrightarrow> keys w' (hash_index_key i) = keys w (hash_index_key i))"
proof -
  obtain w1 where g: "key_get exec (key_id r) w = (Some (Some r), w1)" "keys w1 = keys w"
    using key_get_doc[OF assms(1), of "key_id r" w] assms(2) key_get_stored[of "keys w" "key_id r" r None]
    by (cases "key_get exec (key_id r) w") (auto simp: key_stored_def)
  obtain h where h: "hash_at (keys w) KEY_HASHES = Some h" "dict_get h (key_id r) = Some (Txt (hash_key raw))"
    using assms(2) by (auto simp: key_stored_def)
  obtain w2 where hg: "exec (HGET KEY_HASHES (key_id r)) w1 = (Bulk (Txt (hash_key raw)), w2)" "keys w2 = keys w"
    using redis_rules(1,2)[OF assms(1), of "HGET KEY_HASHES (key_id r)" w1] g(2) h
    by (cases "exec (HGET KEY_HASHES (key_id r)) w1") auto
  define cs where "cs = DEL [record_key (key_id r)] # (if hash_key raw = [] then [] else [DEL [hash_index_key (hash_key raw)]])
      @ [HDEL KEY_HASHES [key_id r], SREM (tenant_index_key (tenant_id r)) (key_id r)]"
  obtain rs w3 where p: "pipeline exec cs w2 = (rs, w3)" by (cases "pipeline exec cs w2")
  have eq: "x = map_option (\<lambda>_. True) rs" "w' = w3"
    using assms(3) g(1) hg(1) p by (simp_all add: key_revoke_def cs_def)
  have d: "rs = fst (pipeline doc cs (keys w))" "keys w3 = snd (pipeline doc cs (keys w))"
    using redis_pipeline[OF assms(1), of cs w2] p hg(2) by simp_all
  obtain s where s: "set_at (keys w) (tenant_index_key (tenant_id r)) = Some s" using assms(2) by (auto simp: key_stored_def)
  have at: "hash_at ks KEY_HASHES = Some h \<and> set_at ks (tenant_index_key (tenant_id r)) = Some s"
    if "ks = keys w |` (- {record_key (key_id r)}) \<or> ks = (keys w |` (- {record_key (key_id r)})) |` (- {hash_index_key (hash_key raw)})"
    for ks
    using that h(1) s by (auto simp: hash_at_def set_at_def restrict_map_def)
  have present: "ks KEY_HASHES \<noteq> None" if "hash_at ks KEY_HASHES = Some h" for ks
    using that h(2) by (cases "ks KEY_HASHES") (auto simp: hash_at_def)
  note a1 = at[OF disjI1[OF refl]] and a2 = at[OF disjI2[OF refl]]
  show ?thesis
    using a1 a2 present[OF conjunct1[OF a1]] present[OF conjunct1[OF a2]] assms(2)[unfolded key_stored_def]
    unfolding eq d cs_def
    by (auto simp: pipeline_def split_beta redis_simps)
qed

section \<open>Properties\<close>

text \<open>C9: A key works from the moment it is created until the moment it is revoked, and no longer. The raw
  key returned by \<open>create\<close> verifies to its own record; once it is revoked neither the key nor any JWT
  that was issued for it authenticates, expired or not; and no other key with another hash is affected.\<close>

theorem revocation_is_immediate:
  assumes "redis_ok exec keys" and "jwt_ok (jwt_lib T) (token_claims T r t) (secret T)"
    and "hash_at (keys w) KEY_HASHES \<noteq> None" and "set_at (keys w) (tenant_index_key tenant) \<noteq> None"
    and "key_create exec hash_key rand_id rand_secret stamp tenant name capacity refill_rate w = (Some (raw, r), w1)"
    and "keys w2 = keys w1" and "key_revoke exec rand_id w2 = (x, w3)"
    and "credentials h = (None, Some (token_issue T r t))" and "credentials h' = (Some raw, None)"
  shows "fst (key_verify exec hash_key raw w2) = Some (Inr r)
         \<and> fst (authenticate exec hash_key T wall h' w2) = Some (Inr (principal_from r))
         \<and> x = Some True
         \<and> fst (authenticate exec hash_key T wall h' w3) = Some (Inl (Unauthorized ''unknown or revoked API key''))
         \<and> (\<exists>m. fst (authenticate exec hash_key T wall h w3) = Some (Inl (Unauthorized m)))
         \<and> (\<forall>raw2 k2 d. hash_key raw2 \<noteq> hash_key raw \<longrightarrow> keys w2 (hash_index_key (hash_key raw2)) = Some (RStr (Txt k2), d)
              \<longrightarrow> k2 \<noteq> rand_id
              \<longrightarrow> fst (key_verify exec hash_key raw2 w3) = fst (key_verify exec hash_key raw2 w2))"
proof -
  note c = key_create_stores[OF assms(1,3,4,5)]
  have st: "key_stored hash_key (keys w2) raw r" using c assms(6) by simp
  have v: "fst (key_verify exec hash_key raw w2) = Some (Inr r)"
    using key_verify_doc(1)[OF assms(1)] stored_verifies[OF st] c by simp
  have rv: "x = Some True" "keys w3 (record_key rand_id) = None"
      "\<forall>k. k \<noteq> rand_id \<longrightarrow> keys w3 (record_key k) = keys w2 (record_key k)"
      "\<forall>i. i \<noteq> hash_key raw \<longrightarrow> keys w3 (hash_index_key i) = keys w2 (hash_index_key i)"
      "keys w3 (hash_index_key (hash_key raw)) \<in> {None, Some (RStr (Txt rand_id), None)}"
    using key_revoke_removes[OF assms(1) st, of x w3] assms(7) c by auto
  have dead: "fst (key_verify exec hash_key raw w3) = Some (Inl (InvalidCredentials ''unknown or revoked API key''))"
    using rv(5) key_verify_doc(1)[OF assms(1), of hash_key raw w3] c rv(2) key_get_absent[of "keys w3" rand_id]
    by (auto simp: key_verify_def)
  have tok: "\<exists>m. fst (authenticate exec hash_key T wall h w3) = Some (Inl (Unauthorized m))"
    using assms(2,8) c rv(2) key_get_doc(1)[OF assms(1), of rand_id w3] key_get_absent[of "keys w3" rand_id]
    by (auto simp: authenticate_def token_decode_def token_issue_def token_claims_def jwt_ok_def Let_def split_beta)
  have other: "fst (key_verify exec hash_key raw2 w3) = fst (key_verify exec hash_key raw2 w2)"
    if "hash_key raw2 \<noteq> hash_key raw" "keys w2 (hash_index_key (hash_key raw2)) = Some (RStr (Txt k2), d)" "k2 \<noteq> rand_id" for raw2 k2 d
  proof -
    have same: "keys w3 (hash_index_key (hash_key raw2)) = keys w2 (hash_index_key (hash_key raw2))"
        "keys w3 (record_key k2) = keys w2 (record_key k2)"
      using rv(3,4) that(1,3) by auto
    then have "fst (key_get doc k2 (keys w3)) = fst (key_get doc k2 (keys w2))"
      by (simp add: key_get_def)
    then show ?thesis
      using same that(2) unfolding key_verify_doc(1)[OF assms(1)]
      by (simp add: key_verify_def split_beta)
  qed
  show ?thesis
    using v rv(1) dead tok other assms(9) by (auto simp: authenticate_def split_beta)
qed

text \<open>A token library for one token, the identity as the hash.\<close>

definition one_token :: token_service where
  "one_token = \<lparr>jwt_lib = \<lparr>encode = (\<lambda>c s. ''jwt''), decode = (\<lambda>tok s i now.
      if 100 \<le> now then Expired
      else if ''nexusgate'' = i then Claims \<lparr>sub = ''id'', claim_tenant = ''t'', iat = 0, exp_at = 100, iss = ''nexusgate''\<rparr>
      else Invalid)\<rparr>, secret = ''s'', ttl_seconds = 100\<rparr>"

lemma revocation_is_immediate_witness:
  "\<exists>raw r ks ks'. key_create doc id ''id'' ''x'' ''now'' ''t'' ''name'' None None Map.empty = (Some (raw, r), ks)
     \<and> fst (key_verify doc id raw ks) = Some (Inr r)
     \<and> key_revoke doc ''id'' ks = (Some True, ks')
     \<and> (\<exists>m. fst (authenticate doc id one_token (\<lambda>_. 0) \<lparr>x_api_key = None, authorization = Some ''bearer jwt''\<rparr> ks')
              = Some (Inl (Unauthorized m)))"
proof -
  obtain raw r ks where c: "key_create doc id ''id'' ''x'' ''now'' ''t'' ''name'' None None Map.empty = (Some (raw, r), ks)"
    by (simp add: key_create_def valid_api_key_def pipeline_def hash_at_def set_at_def split_beta redis_simps Let_def)
  have raw: "raw = ''ng_id_x''" and r: "key_id r = ''id''" "tenant_id r = ''t''"
    using c by (auto simp: key_create_def valid_api_key_def KEY_PREFIX_def split_beta Let_def)
  obtain x ks' where v: "key_revoke doc ''id'' ks = (x, ks')" by (cases "key_revoke doc ''id'' ks")
  have ok: "jwt_ok (jwt_lib one_token) (token_claims one_token r 0) (secret one_token)"
    using r by (simp add: jwt_ok_def one_token_def token_claims_def)
  have tok: "token_issue one_token r 0 = ''jwt''" by (simp add: token_issue_def one_token_def)
  have h: "credentials \<lparr>x_api_key = None, authorization = Some ''bearer jwt''\<rparr> = (None, Some (token_issue one_token r 0))"
    by (simp add: tok credentials_def partition_blank_def lower_def lower_char_def strip_def lstrip_def rstrip_def
        is_space_def starts_with_def KEY_PREFIX_def Let_def)
  have h': "credentials \<lparr>x_api_key = Some ''ng_id_x'', authorization = None\<rparr> = (Some raw, None)"
    by (simp add: credentials_def raw)
  note p = revocation_is_immediate[OF redis_ok_doc ok _ _ c _ v h h', where wall = "\<lambda>_. 0"]
  have e: "hash_at (id Map.empty) KEY_HASHES \<noteq> None" "set_at (id Map.empty) (tenant_index_key ''t'') \<noteq> None"
    by (simp_all add: hash_at_def set_at_def)
  show ?thesis using p[OF e refl] c v by auto
qed

end
