(* ===== verification/Chat_Service.thy ===== *)
theory Chat_Service
  imports Router_Stream Rollout Semantic_Cache Metering Security
begin

text \<open>
  Chat orchestration (\<open>app/gateway/service.py\<close>): choosing a route table, the semantic cache, the
  router, metering and the verdict on the variant, for whole answers and for streams. The state is the
  router's with the rollout manager's. \<open>Inl Unavailable\<close> is an exception of Redis that the service lets
  through; the tracer and the log lines are not kept, and the metrics only as far as the router keeps
  them. A client may hang up at any chunk of a stream: \<open>hang = Some n\<close> means at the chunk after the
  first \<open>n\<close>. The task that meters an abandoned stream is run at once.
\<close>

section \<open>The service\<close>

record 'w chat_service =
  cs_router :: "'w router"
  cs_cache :: "('w cache_env \<times> 'w nearest \<times> semantic_cache) option"
  cs_rollout :: "'w rollout_env option"
  cs_redis :: "'w redis"
  cs_isoformat :: "int \<Rightarrow> string"
  cs_retention :: int
  cs_today :: "'w \<Rightarrow> int"
  cs_perf :: "'w \<Rightarrow> seconds"
  cs_uuid :: "'w \<Rightarrow> string \<times> 'w"

record 'w chat_state =
  gw :: "'w gateway"
  mgr :: "manager option"

definition world :: "'w chat_state \<Rightarrow> 'w" where "world s = gw_world (gw s)"

definition set_world :: "'w \<Rightarrow> 'w chat_state \<Rightarrow> 'w chat_state" where
  "set_world w s = s\<lparr>gw := (gw s)\<lparr>gw_world := w\<rparr>\<rparr>"

datatype chat_error = RouteFailed route_error | Unavailable

record gateway_meta =
  gm_deployment :: "string option"
  gm_cached :: bool
  gm_variant :: "variant_name option"
  gm_similarity :: "real option"
  gm_cost :: real
  gm_latency :: real
  gm_attempts :: "attempt list"

record chat_response =
  cr_model :: string
  cr_content :: string
  cr_finish :: string
  cr_usage :: usage
  cr_meta :: gateway_meta

definition ms_since :: "'w chat_service \<Rightarrow> seconds \<Rightarrow> 'w chat_state \<Rightarrow> real" where
  "ms_since C start s = py_round 2 ((cs_perf C (world s) - start) * 1000)"

text \<open>The manager in the state is the one of the service's rollout, if there is one.\<close>

definition chat_select :: "'w chat_service \<Rightarrow> 'w chat_state \<Rightarrow> (routes \<times> variant option) \<times> 'w chat_state" where
  "chat_select C s =
     (case (cs_rollout C, mgr s) of
        (Some E, Some m) \<Rightarrow>
          (let ((config, v), m1, w) = rollout_select E m (world s) in ((config, Some v), set_world w (s\<lparr>mgr := Some m1\<rparr>)))
      | _ \<Rightarrow> ((r_config (cs_router C), None), s))"

definition record_variant :: "'w chat_service \<Rightarrow> variant option \<Rightarrow> bool \<Rightarrow> 'w chat_state \<Rightarrow> unit option \<times> 'w chat_state" where
  "record_variant C v ok s =
     (case (cs_rollout C, mgr s, v) of
        (Some E, Some m, Some x) \<Rightarrow>
          (let (r, m1, w) = rollout_record E x ok m (world s) in (r, set_world w (s\<lparr>mgr := Some m1\<rparr>)))
      | _ \<Rightarrow> (Some (), s))"

definition meter :: "'w chat_service \<Rightarrow> principal \<Rightarrow> event \<Rightarrow> 'w chat_state \<Rightarrow> unit option \<times> 'w chat_state" where
  "meter C p e s =
     (let (r, w) = meter_record (cs_redis C) (cs_isoformat C) (cs_retention C) (p_key_id p) (cs_today C (world s)) e (world s)
      in (r, set_world w s))"

text \<open>\<open>_lookup\<close> and \<open>_store\<close>: a cache that fails or is saturated is as good as none.\<close>

definition chat_lookup :: "'w chat_service \<Rightarrow> principal \<Rightarrow> chat_request \<Rightarrow> 'w chat_state \<Rightarrow> cache_hit option \<times> 'w chat_state" where
  "chat_lookup C p req s =
     (case cs_cache C of
        Some (E, nearest, c) \<Rightarrow>
          if use_cache req then
            (let (r, w) = cache_lookup E nearest c (p_tenant_id p) req (world s)
             in (case r of Done h \<Rightarrow> h | _ \<Rightarrow> None, set_world w s))
          else (None, s)
      | None \<Rightarrow> (None, s))"

definition chat_store ::
  "'w chat_service \<Rightarrow> principal \<Rightarrow> chat_request \<Rightarrow> cached_completion \<Rightarrow> 'w chat_state \<Rightarrow> 'w chat_state" where
  "chat_store C p req x s =
     (case cs_cache C of
        Some (E, nearest, c) \<Rightarrow>
          if use_cache req then set_world (snd (cache_store E c (p_tenant_id p) req x (world s))) s else s
      | None \<Rightarrow> s)"

section \<open>Whole answers\<close>

definition hit_event :: "cache_hit \<Rightarrow> event" where
  "hit_event h = \<lparr>ev_prompt = 0, ev_completion = 0, ev_cost = 0, ev_cached = True,
                  ev_saved = cc_cost (hit_completion h), ev_self = False\<rparr>"

definition call_event :: "deployment \<Rightarrow> usage \<Rightarrow> real \<Rightarrow> event" where
  "call_event d u cost = \<lparr>ev_prompt = prompt_tokens u, ev_completion = completion_tokens u, ev_cost = cost,
                          ev_cached = False, ev_saved = 0, ev_self = self_hosted d\<rparr>"

definition hit_usage :: "cache_hit \<Rightarrow> usage" where
  "hit_usage h = \<lparr>prompt_tokens = cc_prompt (hit_completion h), completion_tokens = cc_completion (hit_completion h)\<rparr>"

definition hit_meta :: "cache_hit \<Rightarrow> real \<Rightarrow> gateway_meta" where
  "hit_meta h ms = \<lparr>gm_deployment = None, gm_cached = True, gm_variant = None, gm_similarity = Some (hit_similarity h),
                    gm_cost = 0, gm_latency = ms, gm_attempts = []\<rparr>"

definition answer_hit ::
  "'w chat_service \<Rightarrow> principal \<Rightarrow> cache_hit \<Rightarrow> seconds \<Rightarrow> 'w chat_state \<Rightarrow> (chat_error + chat_response) \<times> 'w chat_state" where
  "answer_hit C p h start s =
     (let (r, s1) = meter C p (hit_event h) s; x = hit_completion h in
      if r = None then (Inl Unavailable, s1)
      else (Inr \<lparr>cr_model = cc_model x, cr_content = cc_content x, cr_finish = cc_finish x, cr_usage = hit_usage h,
                 cr_meta = hit_meta h (ms_since C start s1)\<rparr>, s1))"

definition cached_of :: "provider_response \<Rightarrow> string \<Rightarrow> real \<Rightarrow> cached_completion" where
  "cached_of resp dep cost =
     \<lparr>cc_content = resp_content resp, cc_model = resp_model resp, cc_finish = resp_finish resp,
      cc_prompt = prompt_tokens (resp_usage resp), cc_completion = completion_tokens (resp_usage resp),
      cc_deployment = dep, cc_cost = cost\<rparr>"

definition answer_call ::
  "'w chat_service \<Rightarrow> principal \<Rightarrow> chat_request \<Rightarrow> routes \<Rightarrow> seconds \<Rightarrow> 'w chat_state
     \<Rightarrow> (chat_error + chat_response) \<times> 'w chat_state" where
  "answer_call C p req config start s =
     (let (r, g1) = router_complete (cs_router C) req config (gw s); s1 = s\<lparr>gw := g1\<rparr> in
      case r of
        Inl e \<Rightarrow> (Inl (RouteFailed e), s1)
      | Inr rr \<Rightarrow>
          (let resp = rr_response rr; d = rr_deployment rr;
               s2 = chat_store C p req (cached_of resp (dep_name d) (rr_cost rr)) s1;
               (m, s3) = meter C p (call_event d (resp_usage resp) (rr_cost rr)) s2
           in if m = None then (Inl Unavailable, s3)
              else (Inr \<lparr>cr_model = resp_model resp, cr_content = resp_content resp, cr_finish = resp_finish resp,
                         cr_usage = resp_usage resp,
                         cr_meta = \<lparr>gm_deployment = Some (dep_name d), gm_cached = False, gm_variant = None,
                                    gm_similarity = None, gm_cost = rr_cost rr, gm_latency = ms_since C start s3,
                                    gm_attempts = rr_attempts rr\<rparr>\<rparr>, s3)))"

definition complete_inner ::
  "'w chat_service \<Rightarrow> principal \<Rightarrow> chat_request \<Rightarrow> routes \<Rightarrow> 'w chat_state \<Rightarrow> (chat_error + chat_response) \<times> 'w chat_state" where
  "complete_inner C p req config s =
     (let start = cs_perf C (world s); (h, s1) = chat_lookup C p req s in
      case h of
        Some found \<Rightarrow> answer_hit C p found start s1
      | None \<Rightarrow> answer_call C p req config start s1)"

definition chat_complete ::
  "'w chat_service \<Rightarrow> principal \<Rightarrow> chat_request \<Rightarrow> 'w chat_state \<Rightarrow> (chat_error + chat_response) \<times> 'w chat_state" where
  "chat_complete C p req s =
     (let ((config, v), s1) = chat_select C s in
      if dict_get config (req_model req) = None then (Inl (RouteFailed (UnknownModel (req_model req))), s1)
      else
        (let (r, s2) = complete_inner C p req config s1 in
         case r of
           Inl e \<Rightarrow> (let (x, s3) = record_variant C v False s2 in (Inl (if x = None then Unavailable else e), s3))
         | Inr resp \<Rightarrow>
             (let (x, s3) = record_variant C v True s2 in
              (if x = None then Inl Unavailable
               else Inr (case v of None \<Rightarrow> resp
                         | Some y \<Rightarrow> resp\<lparr>cr_meta := (cr_meta resp)\<lparr>gm_variant := Some (var_name y)\<rparr>\<rparr>), s3))))"


section \<open>Streams\<close>

record stream_meta = gateway_meta +
  sm_ttft :: "real option"
  sm_synthesized :: bool
  sm_estimated :: bool
  sm_interrupted :: "string option"

record chat_chunk =
  ck_id :: string
  ck_model :: string
  ck_role :: bool
  ck_content :: "string option"
  ck_finish :: "string option"
  ck_usage :: "usage option"
  ck_meta :: "stream_meta option"

definition text_chunk :: "string \<Rightarrow> string \<Rightarrow> bool \<Rightarrow> string \<Rightarrow> chat_chunk" where
  "text_chunk i m r x = \<lparr>ck_id = i, ck_model = m, ck_role = r, ck_content = Some x, ck_finish = None,
                         ck_usage = None, ck_meta = None\<rparr>"

definition last_chunk :: "string \<Rightarrow> string \<Rightarrow> string \<Rightarrow> usage \<Rightarrow> stream_meta \<Rightarrow> chat_chunk" where
  "last_chunk i m f u meta = \<lparr>ck_id = i, ck_model = m, ck_role = False, ck_content = None, ck_finish = Some f,
                              ck_usage = Some u, ck_meta = Some meta\<rparr>"

definition split_text :: "string \<Rightarrow> nat \<Rightarrow> string list" where
  "split_text x k = (if pieces k x = [] then [[]] else pieces k x)"

text \<open>How a stream ends for its client: with the last chunk, by hanging up, with an exception before the
  first chunk, or with one after it.\<close>

datatype chat_end = Finished | Left | Refused chat_error | CutOff

definition replay_chunks :: "string \<Rightarrow> cache_hit \<Rightarrow> real \<Rightarrow> chat_chunk list" where
  "replay_chunks i h ms =
     (let x = hit_completion h; ps = split_text (cc_content x) 24 in
      text_chunk i (cc_model x) True (hd ps) # map (text_chunk i (cc_model x) False) (tl ps)
        @ [last_chunk i (cc_model x) (cc_finish x) (hit_usage h)
             (gateway_meta.extend (hit_meta h ms)
                (stream_meta.fields None False False None))])"

definition stream_hit ::
  "'w chat_service \<Rightarrow> principal \<Rightarrow> cache_hit \<Rightarrow> variant option \<Rightarrow> seconds \<Rightarrow> nat option \<Rightarrow> 'w chat_state
     \<Rightarrow> chat_chunk list \<times> chat_end \<times> 'w chat_state" where
  "stream_hit C p h v start hang s =
     (let (m, s1) = meter C p (hit_event h) s in
      if m = None then ([], Refused Unavailable, s1)
      else
        (let (i, w) = cs_uuid C (world s1); s2 = set_world w s1; cs = replay_chunks i h (ms_since C start s2) in
         case hang of
           Some n \<Rightarrow>
             if n < length cs then (take (Suc n) cs, Left, s2)
             else (let (x, s3) = record_variant C v True s2 in (cs, if x = None then CutOff else Finished, s3))
         | None \<Rightarrow> (let (x, s3) = record_variant C v True s2 in (cs, if x = None then CutOff else Finished, s3))))"

text \<open>\<open>opened.model\<close> as each piece goes out: the last model a delta named, also one without text.\<close>

fun shown_models :: "string \<Rightarrow> stream_events \<Rightarrow> string list" where
  "shown_models m [] = []"
| "shown_models m ((t, r) # es) =
     (case r of
        Returned x \<Rightarrow>
          (let m1 = or_str (delta_model x) m in
           if delta_content x = [] then shown_models m1 es else m1 # shown_models m1 es)
      | _ \<Rightarrow> [])"

definition relay_chunks :: "string \<Rightarrow> open_stream \<Rightarrow> stream_delta list \<Rightarrow> chat_chunk list" where
  "relay_chunks i os ys =
     text_chunk i (os_model os) True (delta_content (os_first os))
       # map2 (\<lambda>y m. text_chunk i m False (delta_content y)) ys (shown_models (os_model os) (os_rest os))"

definition stream_text :: "open_stream \<Rightarrow> stream_delta list \<Rightarrow> string" where
  "stream_text os ys = concat (map delta_content (os_first os # ys))"

definition stream_completion :: "open_stream \<Rightarrow> string \<Rightarrow> cached_completion" where
  "stream_completion os x =
     \<lparr>cc_content = x, cc_model = os_model os, cc_finish = os_finish os, cc_prompt = prompt_tokens (os_usage os),
      cc_completion = completion_tokens (os_usage os), cc_deployment = dep_name (os_deployment os), cc_cost = os_cost os\<rparr>"

definition opened_event :: "open_stream \<Rightarrow> event" where
  "opened_event os = call_event (os_deployment os) (os_usage os) (os_cost os)"

definition finish_stream ::
  "'w chat_service \<Rightarrow> principal \<Rightarrow> chat_request \<Rightarrow> open_stream \<Rightarrow> variant option \<Rightarrow> seconds \<Rightarrow> string \<Rightarrow> string option
     \<Rightarrow> 'w chat_state \<Rightarrow> stream_meta option \<times> 'w chat_state" where
  "finish_stream C p req os v start x interrupted s =
     (let s1 = (if interrupted = None then chat_store C p req (stream_completion os x) s else s);
          (m, s2) = meter C p (opened_event os) s1
      in if m = None then (None, s2)
         else
           (let (r, s3) = record_variant C v (interrupted = None) s2 in
            if r = None then (None, s3)
            else (Some \<lparr>gm_deployment = Some (dep_name (os_deployment os)), gm_cached = False,
                        gm_variant = map_option var_name v, gm_similarity = None, gm_cost = os_cost os,
                        gm_latency = ms_since C start s3, gm_attempts = os_attempts os,
                        sm_ttft = Some (py_round 2 (os_ttft os)), sm_synthesized = os_synthesized os,
                        sm_estimated = os_usage_estimated os, sm_interrupted = interrupted\<rparr>, s3)))"

definition meter_later :: "'w chat_service \<Rightarrow> principal \<Rightarrow> open_stream \<Rightarrow> 'w chat_state \<Rightarrow> 'w chat_state" where
  "meter_later C p os s = (if total_tokens (os_usage os) = 0 then s else snd (meter C p (opened_event os) s))"

text \<open>From an opened stream on.\<close>

definition stream_opened ::
  "'w chat_service \<Rightarrow> principal \<Rightarrow> chat_request \<Rightarrow> open_stream \<Rightarrow> variant option \<Rightarrow> seconds \<Rightarrow> nat option \<Rightarrow> 'w chat_state
     \<Rightarrow> chat_chunk list \<times> chat_end \<times> 'w chat_state" where
  "stream_opened C p req os v start hang s =
     (let (i, w) = cs_uuid C (world s); s1 = set_world w s;
          (ys, fin, os', g) = drain (cs_router C) hang os (gw s1); s2 = s1\<lparr>gw := g\<rparr>;
          cs = relay_chunks i os ys
      in case fin of
           HungUp seen \<Rightarrow> (cs, Left, meter_later C p seen s2)
         | _ \<Rightarrow>
             (let interrupted = (case fin of Broken err t \<Rightarrow> Some err | _ \<Rightarrow> None);
                  (meta, s3) = finish_stream C p req os' v start (stream_text os ys) interrupted s2
              in case meta of
                   None \<Rightarrow> (cs, CutOff, s3)
                 | Some x \<Rightarrow>
                     (cs @ [last_chunk i (os_model os') (if interrupted = None then os_finish os' else ''error'')
                              (os_usage os') x], Finished, s3)))"

definition chat_stream ::
  "'w chat_service \<Rightarrow> principal \<Rightarrow> chat_request \<Rightarrow> nat option \<Rightarrow> 'w chat_state
     \<Rightarrow> chat_chunk list \<times> chat_end \<times> 'w chat_state" where
  "chat_stream C p req hang s =
     (let ((config, v), s1) = chat_select C s in
      if dict_get config (req_model req) = None then ([], Refused (RouteFailed (UnknownModel (req_model req))), s1)
      else
        (let start = cs_perf C (world s1); (h, s2) = chat_lookup C p req s1 in
         case h of
           Some found \<Rightarrow> stream_hit C p found v start hang s2
         | None \<Rightarrow>
             (let (r, g) = router_open_stream (cs_router C) req config (gw s2); s3 = s2\<lparr>gw := g\<rparr> in
              case r of
                Inl e \<Rightarrow>
                  (let (x, s4) = record_variant C v False s3
                   in ([], Refused (if x = None then Unavailable else RouteFailed e), s4))
              | Inr os \<Rightarrow> stream_opened C p req os v start hang s3)))"


section \<open>The endpoints\<close>

text \<open>The headers of a whole answer, and the events of a stream; \<open>dump\<close> is pydantic's JSON of a chunk, which also
  holds the second it was made in.\<close>

definition chat_headers :: "chat_response \<Rightarrow> (string \<times> string) list" where
  "chat_headers r =
     (''X-NexusGate-Cache'', if gm_cached (cr_meta r) then ''hit'' else ''miss'')
     # (case gm_deployment (cr_meta r) of
          None \<Rightarrow> []
        | Some d \<Rightarrow> if d = [] then [] else [(''X-NexusGate-Deployment'', d)])"

definition sse :: "('c \<Rightarrow> string) \<Rightarrow> 'c \<Rightarrow> string" where
  "sse dump c = ''data: '' @ dump c @ [CHR 0x0A, CHR 0x0A]"

text \<open>The first chunk is pulled before there is a response, so an exception up to it is an error answer.\<close>

definition stream_completions :: "('c \<Rightarrow> string) \<Rightarrow> 'c list \<times> chat_end \<Rightarrow> chat_error + string list" where
  "stream_completions dump out =
     (case out of
        (cs, Refused e) \<Rightarrow> Inl e
      | (cs, fin) \<Rightarrow> Inr (map (sse dump) cs @ (if fin = Finished then [''data: [DONE]'' @ [CHR 0x0A, CHR 0x0A]] else [])))"

definition list_models :: "routes \<Rightarrow> string list" where
  "list_models config = map fst config"

section \<open>A cache that does not answer\<close>

lemma set_world_same [simp]: "set_world (world s) s = s"
  by (simp add: set_world_def world_def)

lemma world_set [simp]: "world (set_world w s) = w" "gw_counters (gw (set_world w s)) = gw_counters (gw s)"
  "gw_breakers (gw (set_world w s)) = gw_breakers (gw s)" "mgr (set_world w s) = mgr s"
  by (simp_all add: set_world_def world_def)

definition cache_is_out :: "'w chat_service \<Rightarrow> bool" where
  "cache_is_out C \<longleftrightarrow>
     (case cs_cache C of None \<Rightarrow> True | Some (E, nearest, c) \<Rightarrow> \<forall>x w. embed E x w \<in> {(Saturated, w), (CacheFailed, w)})"

lemma out_cache_calls:
  assumes "\<forall>x w. embed E x w \<in> {(Saturated, w), (CacheFailed, w)}"
  shows "cache_lookup E nearest c t req w \<in> {(Saturated, w), (CacheFailed, w)}"
    and "snd (cache_store E c t req x w) = w"
  using spec[OF spec[OF assms], of "final_text req" w] by (auto simp: cache_lookup_def cache_store_def Let_def)

lemma out_lookup:
  assumes "cache_is_out C"
  shows "chat_lookup C p req s = (None, s)"
proof (cases "cs_cache C")
  case None
  then show ?thesis by (simp add: chat_lookup_def)
next
  case (Some x)
  then obtain E nearest c where x: "cs_cache C = Some (E, nearest, c)" by (cases x) auto
  then have "\<forall>x w. embed E x w \<in> {(Saturated, w), (CacheFailed, w)}" using assms by (simp add: cache_is_out_def)
  from out_cache_calls(1)[OF this, of nearest c "p_tenant_id p" req "world s"] show ?thesis
    using x by (auto simp: chat_lookup_def)
qed

lemma out_store: "cache_is_out C \<Longrightarrow> chat_store C p req x s = s"
  by (auto simp: cache_is_out_def chat_store_def out_cache_calls(2) split: option.splits)

lemma no_cache_is_out: "cache_is_out (C\<lparr>cs_cache := None\<rparr>)"
  by (simp add: cache_is_out_def)

lemma other_parts_ignore_the_cache:
  "chat_select (C\<lparr>cs_cache := x\<rparr>) = chat_select C" "record_variant (C\<lparr>cs_cache := x\<rparr>) = record_variant C"
  "meter (C\<lparr>cs_cache := x\<rparr>) = meter C" "ms_since (C\<lparr>cs_cache := x\<rparr>) = ms_since C"
  "meter_later (C\<lparr>cs_cache := x\<rparr>) = meter_later C"
  by (intro ext; simp add: chat_select_def record_variant_def meter_def ms_since_def meter_later_def split: option.split)+

lemma fields_beside_the_cache:
  "cs_router (C\<lparr>cs_cache := x\<rparr>) = cs_router C" "cs_perf (C\<lparr>cs_cache := x\<rparr>) = cs_perf C" "cs_uuid (C\<lparr>cs_cache := x\<rparr>) = cs_uuid C"
  by simp_all

lemma same_without_the_cache:
  assumes "cache_is_out C"
  shows "complete_inner C = complete_inner (C\<lparr>cs_cache := None\<rparr>)" "stream_hit C = stream_hit (C\<lparr>cs_cache := None\<rparr>)"
    and "finish_stream C = finish_stream (C\<lparr>cs_cache := None\<rparr>)"
    and "chat_lookup C = chat_lookup (C\<lparr>cs_cache := None\<rparr>)"
  using out_lookup[OF assms] out_store[OF assms] out_lookup[OF no_cache_is_out[of C]] out_store[OF no_cache_is_out[of C]]
  by (intro ext; simp add: complete_inner_def answer_call_def stream_hit_def finish_stream_def other_parts_ignore_the_cache
      cong: prod.case_cong sum.case_cong option.case_cong cong del: if_weak_cong)+



section \<open>What is counted and what the client is told\<close>

lemma counters_kept [simp]:
  "gw_counters (gw (snd (chat_select C s))) = gw_counters (gw s)"
  "gw_counters (gw (snd (record_variant C v ok s))) = gw_counters (gw s)"
  "gw_counters (gw (snd (meter C p e s))) = gw_counters (gw s)"
  "gw_counters (gw (snd (chat_lookup C p req s))) = gw_counters (gw s)"
  "gw_counters (gw (chat_store C p req x s)) = gw_counters (gw s)"
  "gw_counters (gw (meter_later C p os s)) = gw_counters (gw s)"
  by (auto simp: chat_select_def record_variant_def meter_def chat_lookup_def chat_store_def meter_later_def split_beta
      set_world_def Let_def split: option.splits)

lemma breakers_kept [simp]:
  "gw_breakers (gw (snd (chat_select C s))) = gw_breakers (gw s)"
  "gw_breakers (gw (snd (record_variant C v ok s))) = gw_breakers (gw s)"
  "gw_breakers (gw (snd (meter C p e s))) = gw_breakers (gw s)"
  "gw_breakers (gw (snd (chat_lookup C p req s))) = gw_breakers (gw s)"
  by (auto simp: chat_select_def record_variant_def meter_def chat_lookup_def split_beta
      set_world_def Let_def split: option.splits)

lemma counters_kept_pair:
  "chat_select C s = (x, s') \<Longrightarrow> gw_counters (gw s') = gw_counters (gw s) \<and> gw_breakers (gw s') = gw_breakers (gw s)"
  "record_variant C v ok s = (y, s') \<Longrightarrow> gw_counters (gw s') = gw_counters (gw s) \<and> gw_breakers (gw s') = gw_breakers (gw s)"
  "meter C p e s = (z, s') \<Longrightarrow> gw_counters (gw s') = gw_counters (gw s) \<and> gw_breakers (gw s') = gw_breakers (gw s)"
  "chat_lookup C p req s = (h, s') \<Longrightarrow> gw_counters (gw s') = gw_counters (gw s) \<and> gw_breakers (gw s') = gw_breakers (gw s)"
  by (metis counters_kept breakers_kept snd_conv)+

lemma router_complete_counters:
  assumes "router_complete R req config g = (Inr rr, g1)"
  shows "gw_counters g1 = gw_counters g
    @ [\<lparr>m_deployment = dep_name (rr_deployment rr), m_usage = resp_usage (rr_response rr), m_cost = rr_cost rr\<rparr>]"
proof -
  have "gw_counters (snd (route_request R (call_with_retries R req) config req g)) = gw_counters g"
    by (rule route_request_counters) (rule call_with_retries_counters)
  then show ?thesis
    using assms by (auto simp: router_complete_def count_tokens_def split_beta Let_def split: sum.splits)
qed

definition chunk_text :: "chat_chunk \<Rightarrow> string" where
  "chunk_text c = (case ck_content c of None \<Rightarrow> [] | Some x \<Rightarrow> x)"

definition streamed_text :: "chat_chunk list \<Rightarrow> string" where
  "streamed_text cs = concat (map chunk_text cs)"

lemma chunk_texts [simp]:
  "chunk_text (text_chunk i m r x) = x" "chunk_text (last_chunk i m f u meta) = []"
  "ck_usage (last_chunk i m f u meta) = Some u" "ck_meta (last_chunk i m f u meta) = Some meta"
  "ck_finish (last_chunk i m f u meta) = Some f" "ck_model (last_chunk i m f u meta) = m"
  "ck_model (text_chunk i m r x) = m"
  by (simp_all add: chunk_text_def text_chunk_def last_chunk_def)

lemma shown_models_length: "length (shown_models m es) = length (handed es)"
  by (induction es arbitrary: m rule: handed.induct) (auto simp: Let_def split: call.splits)

lemma relay_chunks_text:
  assumes "ys @ zs = handed (os_rest os)"
  shows "streamed_text (relay_chunks i os ys) = stream_text os ys"
proof -
  have "map chunk_text (map2 (\<lambda>y m. text_chunk i m False (delta_content y)) ys ms) = map delta_content ys"
    if "length ys \<le> length ms" for ms
    using that
  proof (induction ys arbitrary: ms)
    case (Cons y ys)
    then show ?case by (cases ms) auto
  qed simp
  from this[of "shown_models (os_model os) (os_rest os)"] show ?thesis
    using arg_cong[OF assms, of length]
    by (simp add: streamed_text_def relay_chunks_def stream_text_def shown_models_length del: map_map)
qed

lemma relay_in_events:
  assumes "relay R hang os g = (ys, fin, os', g')"
  shows "\<exists>zs. ys @ zs = handed (os_rest os)"
  using relay_loop_in_events assms by (fastforce simp: relay_def Let_def)

text \<open>A whole answer is counted once and the client is told what was counted: an answer the cache gave
  names no deployment, costs nothing and leaves the counters and the breakers alone; any other adds
  exactly one entry to the token and cost counters, with the usage and the cost in the answer.\<close>

theorem whole_answer_tells_what_was_counted:
  assumes "chat_complete C p req s = (Inr resp, s')"
  shows "if gm_cached (cr_meta resp)
         then gm_deployment (cr_meta resp) = None \<and> gm_cost (cr_meta resp) = 0
              \<and> gw_counters (gw s') = gw_counters (gw s) \<and> gw_breakers (gw s') = gw_breakers (gw s)
         else \<exists>d. gm_deployment (cr_meta resp) = Some d
              \<and> gw_counters (gw s') = gw_counters (gw s)
                  @ [\<lparr>m_deployment = d, m_usage = cr_usage resp, m_cost = gm_cost (cr_meta resp)\<rparr>]"
proof -
  obtain config v s1 where sel: "chat_select C s = ((config, v), s1)" by (cases "chat_select C s") auto
  obtain r s2 where inner: "complete_inner C p req config s1 = (r, s2)" by (cases "complete_inner C p req config s1")
  from assms sel inner obtain r0 where r: "r = Inr r0" and s': "s' = snd (record_variant C v True s2)"
      and meta: "cr_usage resp = cr_usage r0" "gm_cached (cr_meta resp) = gm_cached (cr_meta r0)"
        "gm_deployment (cr_meta resp) = gm_deployment (cr_meta r0)" "gm_cost (cr_meta resp) = gm_cost (cr_meta r0)"
    by (auto simp: chat_complete_def Let_def split_beta split: if_splits sum.splits option.splits)
  obtain h s3 where look: "chat_lookup C p req s1 = (h, s3)" by (cases "chat_lookup C p req s1")
  note kept = counters_kept_pair(1)[OF sel] counters_kept_pair(4)[OF look]
  show ?thesis
  proof (cases h)
    case (Some f)
    then show ?thesis
      using inner look r kept meta s'
      by (auto simp: complete_inner_def answer_hit_def hit_meta_def Let_def split_beta split: if_splits)
  next
    case None
    then have "answer_call C p req config (cs_perf C (world s1)) s3 = (Inr r0, s2)"
      using inner look r by (simp add: complete_inner_def Let_def)
    then obtain rr g1 where rr: "router_complete (cs_router C) req config (gw s3) = (Inr rr, g1)"
        and "gw_counters (gw s2) = gw_counters g1"
        and "cr_usage r0 = resp_usage (rr_response rr)" "gm_cached (cr_meta r0) = False"
          "gm_deployment (cr_meta r0) = Some (dep_name (rr_deployment rr))" "gm_cost (cr_meta r0) = rr_cost rr"
      by (auto simp: answer_call_def Let_def split_beta prod_eq_iff split: sum.splits if_splits)
    then show ?thesis using router_complete_counters[OF rr] kept meta s' by simp
  qed
qed


text \<open>A request the cache does not answer, up to the opened stream.\<close>

definition opens ::
  "'w chat_service \<Rightarrow> principal \<Rightarrow> chat_request \<Rightarrow> 'w chat_state \<Rightarrow> open_stream \<Rightarrow> variant option \<Rightarrow> seconds \<Rightarrow> 'w chat_state \<Rightarrow> bool" where
  "opens C p req s os v start s' \<longleftrightarrow>
     (\<exists>config s1 s2 g. chat_select C s = ((config, v), s1) \<and> dict_get config (req_model req) \<noteq> None
        \<and> chat_lookup C p req s1 = (None, s2) \<and> start = cs_perf C (world s1)
        \<and> router_open_stream (cs_router C) req config (gw s2) = (Inr os, g) \<and> s' = s2\<lparr>gw := g\<rparr>)"

lemma opens_stream: "opens C p req s os v start s' \<Longrightarrow> chat_stream C p req hang s = stream_opened C p req os v start hang s'"
  by (auto simp: opens_def chat_stream_def Let_def)

lemma opens_fields:
  assumes "opens C p req s os v start s'"
  shows "\<not> os_settled os" "os_prompt_estimate os = prompt_words req" "os_usage os = no_usage"
    "gw_counters (gw s') = gw_counters (gw s)"
    "relay (cs_router C) hang os g = (ys, fin, os', g') \<Longrightarrow>
       relayed (cs_router C) (delta_content (os_first os)) os g (ys, fin, os', g')"
proof -
  obtain config s1 s2 g1 where p: "chat_select C s = ((config, v), s1)" "chat_lookup C p req s1 = (None, s2)"
      "router_open_stream (cs_router C) req config (gw s2) = (Inr os, g1)" "s' = s2\<lparr>gw := g1\<rparr>"
    using assms by (auto simp: opens_def)
  obtain first es synth d ats where "os = opened_from req first es synth d ats"
    using router_open_stream_opened[OF p(3)] by blast
  then show "\<not> os_settled os" "os_prompt_estimate os = prompt_words req" "os_usage os = no_usage"
    by (simp_all add: opened_from_def)
  show "gw_counters (gw s') = gw_counters (gw s)"
    using open_stream_counters[OF p(3)] counters_kept_pair(1)[OF p(1)] counters_kept_pair(4)[OF p(2)] p(4) by simp
  show "relayed (cs_router C) (delta_content (os_first os)) os g (ys, fin, os', g')"
    if "relay (cs_router C) hang os g = (ys, fin, os', g')"
    using opened_relayed[OF p(3), of g hang] that by simp
qed

lemma finish_stream_counters [simp]:
  "gw_counters (gw (snd (finish_stream C p req os v start x i s))) = gw_counters (gw s)"
  by (simp add: finish_stream_def Let_def split_beta)

lemma stream_opened_finished:
  assumes op: "opens C p req s0 os v start s" and "stream_opened C p req os v start hang s = (cs, Finished, s')"
  shows "\<exists>m u d. ck_meta (last cs) = Some m \<and> ck_usage (last cs) = Some u \<and> \<not> gm_cached m
     \<and> gm_deployment m = Some d
     \<and> gw_counters (gw s') = gw_counters (gw s0) @ [\<lparr>m_deployment = d, m_usage = u, m_cost = gm_cost m\<rparr>]
     \<and> (sm_estimated m \<longrightarrow> u = \<lparr>prompt_tokens = prompt_words req, completion_tokens = word_count (streamed_text cs)\<rparr>)
     \<and> (sm_interrupted m \<noteq> None \<longrightarrow> ck_finish (last cs) = Some ''error'')"
proof -
  obtain i w where i: "cs_uuid C (world s) = (i, w)" by (cases "cs_uuid C (world s)")
  let ?s1 = "set_world w s"
  obtain ys fin os' g where d: "drain (cs_router C) hang os (gw ?s1) = (ys, fin, os', g)"
    by (cases "drain (cs_router C) hang os (gw ?s1)")
  define int where "int = (case fin of Broken err t \<Rightarrow> Some err | _ \<Rightarrow> None)"
  obtain meta s3 where f: "finish_stream C p req os' v start (stream_text os ys) int (?s1\<lparr>gw := g\<rparr>) = (meta, s3)"
    by (cases "finish_stream C p req os' v start (stream_text os ys) int (?s1\<lparr>gw := g\<rparr>)")
  from assms(2) i d f obtain x where x: "meta = Some x" "s' = s3"
      "cs = relay_chunks i os ys @ [last_chunk i (os_model os') (if int = None then os_finish os' else ''error'') (os_usage os') x]"
      and "\<And>seen. fin \<noteq> HungUp seen"
    by (auto simp: stream_opened_def Let_def int_def split: stream_end.splits option.splits)
  then have r: "relay (cs_router C) (map_option (\<lambda>n. n - 1) hang) os (gw ?s1) = (ys, fin, os', g)"
    using d by (auto simp: drain_def split: if_splits)
  from opens_fields(5)[OF op r] have b: "billed (cs_router C) (os_deployment os) (prompt_words req) (stream_text os ys) os'
      (gw_counters (gw s)) (gw_counters g)"
    using opens_fields(2)[OF op] by (simp add: relayed_def stream_text_def)
  have m: "gm_deployment x = Some (dep_name (os_deployment os'))" "gm_cost x = os_cost os'" "\<not> gm_cached x"
      "sm_estimated x = os_usage_estimated os'" "sm_interrupted x = int"
    using f x(1) by (auto simp: finish_stream_def Let_def split_beta split: if_splits)
  have "gw_counters (gw s') = gw_counters g"
    using finish_stream_counters[of C p req os' v start "stream_text os ys" int "?s1\<lparr>gw := g\<rparr>"] f x(2) by simp
  moreover have "streamed_text cs = stream_text os ys"
    using relay_chunks_text[of ys _ os i] relay_in_events[OF r] x(3) by (auto simp: streamed_text_def)
  ultimately show ?thesis using b m x(3) opens_fields(4)[OF op] by (auto simp: billed_def)
qed


lemma stream_hit_finished:
  assumes "stream_hit C p h v start hang s = (cs, Finished, s')"
  shows "\<exists>m. ck_meta (last cs) = Some m \<and> ck_usage (last cs) = Some (hit_usage h) \<and> gm_cached m \<and> gm_cost m = 0
    \<and> gw_counters (gw s') = gw_counters (gw s) \<and> gw_breakers (gw s') = gw_breakers (gw s)"
proof -
  obtain r s1 where m: "meter C p (hit_event h) s = (r, s1)" by (cases "meter C p (hit_event h) s")
  obtain i w where i: "cs_uuid C (world s1) = (i, w)" by (cases "cs_uuid C (world s1)")
  let ?cs = "replay_chunks i h (ms_since C start (set_world w s1))"
  obtain x s3 where v: "record_variant C v True (set_world w s1) = (x, s3)" by (cases "record_variant C v True (set_world w s1)")
  have "cs = ?cs" "s' = s3"
    using assms m i v by (auto simp: stream_hit_def Let_def split: if_splits option.splits)
  then show ?thesis
    using counters_kept_pair(3)[OF m] counters_kept_pair(2)[OF v]
    by (auto simp: replay_chunks_def Let_def hit_meta_def gateway_meta.defs stream_meta.defs)
qed

text \<open>A stream that reaches its last chunk is a replay from the cache or a stream a provider opened.\<close>

lemma finished_stream:
  assumes "chat_stream C p req hang s = (cs, Finished, s')"
  obtains (replay) f v start s2 where "stream_hit C p f v start hang s2 = (cs, Finished, s')"
      "gw_counters (gw s2) = gw_counters (gw s)" "gw_breakers (gw s2) = gw_breakers (gw s)"
  | (stream) os v start s2 where "opens C p req s os v start s2" "stream_opened C p req os v start hang s2 = (cs, Finished, s')"
proof -
  obtain config v s1 where sel: "chat_select C s = ((config, v), s1)" by (cases "chat_select C s") auto
  have known: "dict_get config (req_model req) \<noteq> None"
    using assms sel by (auto simp: chat_stream_def split: if_splits)
  obtain h s2 where look: "chat_lookup C p req s1 = (h, s2)" by (cases "chat_lookup C p req s1")
  note kept = counters_kept_pair(1)[OF sel] counters_kept_pair(4)[OF look]
  show ?thesis
  proof (cases h)
    case (Some f)
    then have "stream_hit C p f v (cs_perf C (world s1)) hang s2 = (cs, Finished, s')"
      using assms sel look known by (simp add: chat_stream_def Let_def split: if_splits)
    from replay[OF this] kept show ?thesis by simp
  next
    case None
    obtain r g where o1: "router_open_stream (cs_router C) req config (gw s2) = (r, g)"
      by (cases "router_open_stream (cs_router C) req config (gw s2)")
    then obtain os where os: "r = Inr os"
      using assms sel look None known by (cases r) (auto simp: chat_stream_def Let_def split_beta split: if_splits)
    have op: "opens C p req s os v (cs_perf C (world s1)) (s2\<lparr>gw := g\<rparr>)"
      using sel known look None o1 os by (auto simp: opens_def)
    from assms opens_stream[OF op, of hang] stream[OF op] show ?thesis by auto
  qed
qed

text \<open>C30: A stream that reaches its last chunk is counted once and that chunk tells the client what was
  counted, its own text included: when the provider reported no usage, the tokens are the words of
  the prompt and of the text of the chunks sent. A stream that broke says so in its finish reason. A
  replay from the cache counts nothing and costs nothing.\<close>

theorem last_chunk_tells_what_was_counted:
  assumes "chat_stream C p req hang s = (cs, Finished, s')"
  shows "\<exists>m u. ck_meta (last cs) = Some m \<and> ck_usage (last cs) = Some u \<and>
     (if gm_cached m
      then gm_cost m = 0 \<and> gw_counters (gw s') = gw_counters (gw s) \<and> gw_breakers (gw s') = gw_breakers (gw s)
      else \<exists>d. gm_deployment m = Some d
        \<and> gw_counters (gw s') = gw_counters (gw s) @ [\<lparr>m_deployment = d, m_usage = u, m_cost = gm_cost m\<rparr>]
        \<and> (sm_estimated m \<longrightarrow> u = \<lparr>prompt_tokens = prompt_words req, completion_tokens = word_count (streamed_text cs)\<rparr>)
        \<and> (sm_interrupted m \<noteq> None \<longrightarrow> ck_finish (last cs) = Some ''error''))"
  using assms
proof (cases rule: finished_stream)
  case (replay f v start s2)
  with stream_hit_finished[OF replay(1)] show ?thesis by auto
next
  case (stream os v start s2)
  from stream_opened_finished[OF stream] show ?thesis by fastforce
qed

text \<open>A cache hit streams the answer it would have given whole: the pieces put together are the content,
  under the same model, with the same usage and finish reason and no cost, and it is metered in the
  same way; no provider is called.\<close>

theorem a_cached_answer_streams_the_same:
  assumes "cs_rollout C = None" and "dict_get (r_config (cs_router C)) (req_model req) \<noteq> None"
    and "chat_lookup C p req s = (Some h, s1)" and "meter C p (hit_event h) s1 = (Some (), s2)"
  shows "\<exists>resp cs w m. chat_complete C p req s = (Inr resp, s2) \<and> chat_stream C p req None s = (cs, Finished, set_world w s2)
     \<and> cr_content resp = cc_content (hit_completion h) \<and> streamed_text cs = cr_content resp
     \<and> (\<forall>c \<in> set cs. ck_model c = cr_model resp \<and> length (chunk_text c) \<le> 24)
     \<and> ck_usage (last cs) = Some (cr_usage resp) \<and> ck_finish (last cs) = Some (cr_finish resp)
     \<and> ck_meta (last cs) = Some m \<and> gm_cost m = gm_cost (cr_meta resp) \<and> gm_cached m"
proof -
  let ?x = "hit_completion h"
  have sel: "chat_select C s = ((r_config (cs_router C), None), s)" using assms(1) by (simp add: chat_select_def)
  have rec: "record_variant C None ok s' = (Some (), s')" for ok s' by (simp add: record_variant_def split: option.splits)
  obtain i w where i: "cs_uuid C (world s2) = (i, w)" by (cases "cs_uuid C (world s2)")
  define ps where "ps = split_text (cc_content ?x) 24"
  have ps: "ps \<noteq> []" "concat ps = cc_content ?x" "\<forall>q \<in> set ps. length q \<le> 24"
    using concat_pieces[of 24 "cc_content ?x"] pieces_bounds[of _ 24 "cc_content ?x"]
    by (auto simp: ps_def split_text_def)
  let ?ms = "ms_since C (cs_perf C (world s)) (set_world w s2)"
  let ?cs = "replay_chunks i h ?ms"
  have str: "chat_stream C p req None s = (?cs, Finished, set_world w s2)"
    using sel assms(2-4) i by (auto simp: chat_stream_def stream_hit_def Let_def rec)
  have joined: "streamed_text ?cs = cc_content ?x"
    using ps(1,2) by (cases ps) (simp_all add: replay_chunks_def streamed_text_def Let_def ps_def[symmetric] comp_def)
  have small: "\<forall>c \<in> set ?cs. ck_model c = cc_model ?x \<and> length (chunk_text c) \<le> 24"
    using ps(1,3) by (cases ps) (auto simp: replay_chunks_def Let_def ps_def[symmetric])
  have final: "last ?cs = last_chunk i (cc_model ?x) (cc_finish ?x) (hit_usage h)
      (gateway_meta.extend (hit_meta h ?ms) (stream_meta.fields None False False None))"
    by (simp add: replay_chunks_def Let_def)
  have whole: "chat_complete C p req s = (Inr \<lparr>cr_model = cc_model ?x, cr_content = cc_content ?x, cr_finish = cc_finish ?x,
      cr_usage = hit_usage h, cr_meta = hit_meta h (ms_since C (cs_perf C (world s)) s2)\<rparr>, s2)"
    using sel assms(2-4) by (auto simp: chat_complete_def complete_inner_def answer_hit_def Let_def rec)
  have meta: "gm_cost (gateway_meta.extend (hit_meta h ?ms) (stream_meta.fields None False False None)) = 0"
      "gm_cached (gateway_meta.extend (hit_meta h ?ms) (stream_meta.fields None False False None))"
    by (simp_all add: hit_meta_def gateway_meta.defs stream_meta.defs)
  show ?thesis
    using whole str joined small final meta by (fastforce simp: hit_meta_def)
qed


text \<open>A client that hangs up on the very first chunk is never billed: the rest of the stream is not
  started, so nothing prices the stream, and the usage the abandoned request is metered by is still
  zero; after the chunk the service touches nothing but the world its chunk id came from.\<close>

theorem hanging_up_on_the_first_chunk_is_free:
  assumes "opens C p req s os v start s1"
  shows "\<exists>c. chat_stream C p req (Some 0) s = ([c], Left, set_world (snd (cs_uuid C (world s1))) s1)
     \<and> chunk_text c = delta_content (os_first os) \<and> gw_counters (gw s1) = gw_counters (gw s)"
  using opens_stream[OF assms, of "Some 0"] opens_fields(3,4)[OF assms]
  by (simp add: stream_opened_def drain_def split_beta Let_def relay_chunks_def meter_later_def no_usage_def total_tokens_def)

text \<open>A client that hangs up later is metered, once, from the running estimate the hang-up finds (the
  words of the prompt, and of the text sent counted by its blanks, at the deployment's price) unless
  the provider had already reported its usage; and the router counts the stream once, when it is closed.\<close>

theorem an_abandoned_stream_is_metered_from_the_estimate:
  assumes op: "opens C p req s os v start s1" and "chat_stream C p req (Some (Suc n)) s = (cs, Left, s')"
  shows "\<exists>seen u cost s2. length cs = n + 2 \<and> s' = meter_later C p seen s2 \<and> os_deployment seen = os_deployment os
     \<and> (\<not> os_reported seen \<longrightarrow>
          os_usage seen = \<lparr>prompt_tokens = prompt_words req,
            completion_tokens = int (count_char CHR '' '' (streamed_text cs)) + (if delta_content (os_first os) = [] then 0 else 1)\<rparr>
          \<and> os_cost seen = compute_cost (price_map_of (r_env (cs_router C))) (os_deployment os) (os_usage seen))
     \<and> gw_counters (gw s') = gw_counters (gw s) @ [\<lparr>m_deployment = dep_name (os_deployment os), m_usage = u, m_cost = cost\<rparr>]"
proof -
  obtain i w where i: "cs_uuid C (world s1) = (i, w)" by (cases "cs_uuid C (world s1)")
  let ?s1 = "set_world w s1"
  obtain ys fin os' g where r: "relay (cs_router C) (Some n) os (gw ?s1) = (ys, fin, os', g)"
    by (cases "relay (cs_router C) (Some n) os (gw ?s1)")
  from assms(2) opens_stream[OF op, of "Some (Suc n)"] i r obtain seen where
      fin: "fin = HungUp seen" "cs = relay_chunks i os ys" "s' = meter_later C p seen (?s1\<lparr>gw := g\<rparr>)"
    by (auto simp: stream_opened_def drain_def Let_def split_beta split: stream_end.splits option.splits)
  let ?os1 = "estimate (cs_router C) (first_words (delta_content (os_first os))) (absorb (os_first os) os)"
  have loop: "relay_loop (cs_router C) (Some n) (delta_content (os_first os)) (first_words (delta_content (os_first os)))
      (os_rest os) ?os1 (gw ?s1) = (ys, HungUp seen, os', g)"
    using r fin(1) by (simp add: relay_def Let_def)
  obtain zs where zs: "ys @ zs = handed (os_rest os)" using relay_in_events[OF r] by blast
  have "length ys = Suc n" using relay_loop_hang[OF loop] by simp
  then have "length cs = n + 2"
    using arg_cong[OF zs, of length] fin(2) by (simp add: relay_chunks_def shown_models_length)
  moreover have "streamed_text cs = stream_text os ys" using relay_chunks_text[OF zs] fin(2) by simp
  moreover have "gw_counters (gw s') = gw_counters g" using fin(3) by simp
  moreover have "relayed (cs_router C) (delta_content (os_first os)) os (gw ?s1) (ys, HungUp seen, os', g)"
    using opens_fields(5)[OF op r] fin(1) by simp
  ultimately show ?thesis
    using relay_loop_seen[OF loop refl] opens_fields(2,4)[OF op] fin(3)
    by (fastforce simp: relayed_def billed_def first_words_def stream_text_def count_char_def)
qed

section \<open>A small service\<close>

definition ex_service :: "keyspace chat_service" where
  "ex_service = \<lparr>cs_router = stream_router\<lparr>r_config :=
       [(''r'', [ex_deployment ''b'' ''dying'' 0]), (''g'', [ex_deployment ''b'' ''good'' 0])]\<rparr>, cs_cache = None,
     cs_rollout = None, cs_redis = doc, cs_isoformat = (\<lambda>d. ''today''), cs_retention = 1, cs_today = (\<lambda>w. 0),
     cs_perf = (\<lambda>w. 0), cs_uuid = (\<lambda>w. (''id'', w))\<rparr>"

definition ex_state :: "keyspace chat_state" where
  "ex_state = \<lparr>gw = ex_gateway, mgr = None\<rparr>"

definition ex_principal :: principal where
  "ex_principal = \<lparr>p_key_id = ''k'', p_tenant_id = ''t'', p_capacity = None, p_refill = None\<rparr>"

lemma ex_opens:
  "\<exists>ats s1. opens ex_service ex_principal ex_request ex_state
     (opened_from ex_request (delta ''one'' ''m'') (tl dying_stream) False (ex_deployment ''b'' ''dying'' 0) ats) None 0 s1"
  by (simp add: opens_def ex_service_def ex_state_def chat_select_def chat_lookup_def stream_eval) blast



lemma ex_meter: "world s = Map.empty \<Longrightarrow> \<exists>w. meter ex_service p e s = (Some (), set_world w s)"
proof -
  let ?cs = "record_cmds (usage_key (\<lambda>d. ''today'') (p_key_id p) 0) 1 e"
  have "fst (pipeline doc ?cs Map.empty) \<noteq> None"
    by (simp add: pipeline_def split_beta record_cmds_def hash_at_def put_val_def ttl_at_def)
  then show "\<exists>w. meter ex_service p e s = (Some (), set_world w s)" if "world s = Map.empty"
    using that by (auto simp: meter_def meter_record_def ex_service_def split_beta)
qed

lemma ex_answers:
  assumes "req_model req = ''g''"
  shows "\<exists>resp s'. chat_complete ex_service ex_principal req ex_state = (Inr resp, s')
     \<and> gm_cached (cr_meta resp) = False \<and> gm_deployment (cr_meta resp) = Some ''b''"
proof -
  obtain rr g1 where rr: "router_complete (cs_router ex_service) req (r_config (cs_router ex_service)) ex_gateway = (Inr rr, g1)"
      "dep_name (rr_deployment rr) = ''b''" "gw_world g1 = Map.empty"
    using assms by (simp add: ex_service_def router_complete_def route_request_def prepare_chain_def stream_router_def retry_eval ex_defs
        count_tokens_def eval_nat_numeral)
  let ?e = "call_event (rr_deployment rr) (resp_usage (rr_response rr)) (rr_cost rr)"
  obtain w where m: "meter ex_service ex_principal ?e (ex_state\<lparr>gw := g1\<rparr>) = (Some (), set_world w (ex_state\<lparr>gw := g1\<rparr>))"
    using ex_meter[of "ex_state\<lparr>gw := g1\<rparr>"] rr(3) by (auto simp: world_def)
  have parts: "cs_rollout ex_service = None" "cs_cache ex_service = None" "gw ex_state = ex_gateway"
      "dict_get (r_config (cs_router ex_service)) ''g'' \<noteq> None"
    by (simp_all add: ex_service_def ex_state_def)
  show ?thesis
    using rr m parts assms
    by (simp add: chat_complete_def chat_select_def complete_inner_def chat_lookup_def answer_call_def chat_store_def
        record_variant_def Let_def)
qed

lemma whole_answer_tells_what_was_counted_witness:
  "\<exists>resp s'. chat_complete ex_service ex_principal (ex_request\<lparr>req_model := ''g''\<rparr>) ex_state = (Inr resp, s')
     \<and> gw_counters (gw s') = [\<lparr>m_deployment = ''b'', m_usage = cr_usage resp, m_cost = gm_cost (cr_meta resp)\<rparr>]"
proof -
  obtain resp s' where "chat_complete ex_service ex_principal (ex_request\<lparr>req_model := ''g''\<rparr>) ex_state = (Inr resp, s')"
      "gm_cached (cr_meta resp) = False" "gm_deployment (cr_meta resp) = Some ''b''"
    using ex_answers[of "ex_request\<lparr>req_model := ''g''\<rparr>"] by auto
  from whole_answer_tells_what_was_counted[OF this(1)] this show ?thesis by (simp add: ex_state_def ex_gateway_def)
qed

lemma hanging_up_on_the_first_chunk_is_free_witness:
  "\<exists>c s1. chat_stream ex_service ex_principal ex_request (Some 0) ex_state = ([c], Left, s1) \<and> chunk_text c = ''one''"
  using ex_opens hanging_up_on_the_first_chunk_is_free[of ex_service ex_principal ex_request ex_state]
  by (fastforce simp: delta_def)


text \<open>The dying stream, run to its break and abandoned at its second chunk.\<close>

lemma ex_relay:
  assumes "os = opened_from ex_request (delta ''one'' ''m'') (tl dying_stream) False (ex_deployment ''b'' ''dying'' 0) ats"
    and "gw_world g = Map.empty" "gw_cluster g = None"
  shows "\<exists>os' g'. relay (cs_router ex_service) None os g
            = ([delta '' two'' ''m''], Broken ''ProviderError: died'' ''one two'', os', g') \<and> gw_world g' = Map.empty"
    and "\<exists>seen os' g'. relay (cs_router ex_service) (Some 0) os g = ([delta '' two'' ''m''], HungUp seen, os', g')"
  using assms(2,3) unfolding assms(1)
  by (auto simp: relay_def ex_service_def dying_stream_def relay_loop.simps delta_def Let_def relay_error_def
      stream_router_def ex_defs timeout_of_def effective_timeout_def opened_from_def split_beta
      record_interruption_def settle_stream_def count_tokens_def brk_failed_def put_brk_def absorb_def estimate_def split: if_splits)

lemma ex_opens_world:
  "\<exists>ats s1. opens ex_service ex_principal ex_request ex_state
     (opened_from ex_request (delta ''one'' ''m'') (tl dying_stream) False (ex_deployment ''b'' ''dying'' 0) ats) None 0 s1
     \<and> world s1 = Map.empty \<and> gw_cluster (gw s1) = None"
  by (simp add: opens_def ex_service_def ex_state_def chat_select_def chat_lookup_def world_def stream_eval) blast

lemma last_chunk_tells_what_was_counted_witness:
  "\<exists>cs s' m. chat_stream ex_service ex_principal ex_request None ex_state = (cs, Finished, s')
     \<and> ck_meta (last cs) = Some m \<and> length (gw_counters (gw s')) = 1 \<and> ck_finish (last cs) = Some ''error''"
proof -
  obtain ats s1 where op: "opens ex_service ex_principal ex_request ex_state
     (opened_from ex_request (delta ''one'' ''m'') (tl dying_stream) False (ex_deployment ''b'' ''dying'' 0) ats) None 0 s1"
     and w: "world s1 = Map.empty" "gw_cluster (gw s1) = None" using ex_opens_world by blast
  let ?os = "opened_from ex_request (delta ''one'' ''m'') (tl dying_stream) False (ex_deployment ''b'' ''dying'' 0) ats"
  obtain os' g' where r: "relay (cs_router ex_service) None ?os (gw s1)
      = ([delta '' two'' ''m''], Broken ''ProviderError: died'' ''one two'', os', g')" "gw_world g' = Map.empty"
    using ex_relay(1)[OF refl, of "gw s1" ats] w by (auto simp: world_def)
  obtain v where m: "meter ex_service ex_principal (opened_event os') (s1\<lparr>gw := g'\<rparr>) = (Some (), set_world v (s1\<lparr>gw := g'\<rparr>))"
    using ex_meter[of "s1\<lparr>gw := g'\<rparr>"] r(2) by (auto simp: world_def)
  have parts: "cs_rollout ex_service = None" "cs_uuid ex_service = (\<lambda>w. (''id'', w))" by (simp_all add: ex_service_def)
  obtain cs s' x where c: "chat_stream ex_service ex_principal ex_request None ex_state = (cs, Finished, s')"
      "ck_meta (last cs) = Some x" "\<not> gm_cached x" "sm_interrupted x \<noteq> None"
    using opens_stream[OF op, of None] r m parts
    by (simp add: stream_opened_def drain_def finish_stream_def record_variant_def Let_def)
  from last_chunk_tells_what_was_counted[OF c(1)] c show ?thesis by (auto simp: ex_state_def ex_gateway_def)
qed

lemma an_abandoned_stream_is_metered_from_the_estimate_witness:
  "\<exists>cs s'. chat_stream ex_service ex_principal ex_request (Some (Suc 0)) ex_state = (cs, Left, s')
     \<and> length cs = 2 \<and> length (gw_counters (gw s')) = 1"
proof -
  obtain ats s1 where op: "opens ex_service ex_principal ex_request ex_state
     (opened_from ex_request (delta ''one'' ''m'') (tl dying_stream) False (ex_deployment ''b'' ''dying'' 0) ats) None 0 s1"
     and w: "world s1 = Map.empty" "gw_cluster (gw s1) = None" using ex_opens_world by blast
  let ?os = "opened_from ex_request (delta ''one'' ''m'') (tl dying_stream) False (ex_deployment ''b'' ''dying'' 0) ats"
  obtain seen os' g' where r: "relay (cs_router ex_service) (Some 0) ?os (gw s1) = ([delta '' two'' ''m''], HungUp seen, os', g')"
    using ex_relay(2)[OF refl, of "gw s1" ats] w by (auto simp: world_def)
  obtain cs s' where c: "chat_stream ex_service ex_principal ex_request (Some (Suc 0)) ex_state = (cs, Left, s')"
    using opens_stream[OF op, of "Some (Suc 0)"] r by (simp add: stream_opened_def drain_def ex_service_def Let_def)
  from an_abandoned_stream_is_metered_from_the_estimate[OF op c] c show ?thesis by (auto simp: ex_state_def ex_gateway_def)
qed

text \<open>A service whose cache holds one answer.\<close>

definition caching_service :: "keyspace chat_service" where
  "caching_service = ex_service\<lparr>cs_cache := Some (ex_cache_env, (\<lambda>ns v w. (Done (Some (''e'', 1)), w)), ex_cache)\<rparr>"

definition warm_state :: "keyspace chat_state" where
  "warm_state = set_world [''e'' \<mapsto> (RHash [(''payload'', Json (completion_json ex_answer))], None)] ex_state"

lemma a_cached_answer_streams_the_same_witness:
  "\<exists>resp cs s2 s3. chat_complete caching_service ex_principal ex_request warm_state = (Inr resp, s2)
     \<and> chat_stream caching_service ex_principal ex_request None warm_state = (cs, Finished, s3) \<and> streamed_text cs = ''hi''"
proof -
  obtain h where h: "chat_lookup caching_service ex_principal ex_request warm_state = (Some h, warm_state)"
      "hit_completion h = ex_answer"
    by (simp add: chat_lookup_def caching_service_def warm_state_def cache_lookup_def ex_cache_env_def ex_cache_def ex_request_def
        hash_at_def completion_json_def parse_completion_def ex_answer_def set_world_def world_def Let_def)
  have "fst (pipeline doc (record_cmds (usage_key (\<lambda>d. ''today'') ''k'' 0) 1 (hit_event h)) (world warm_state)) \<noteq> None"
    by (simp add: pipeline_def split_beta record_cmds_def hash_at_def put_val_def ttl_at_def hit_event_def usage_key_def
        warm_state_def)
  then obtain s2 where "meter caching_service ex_principal (hit_event h) warm_state = (Some (), s2)"
    by (auto simp: meter_def meter_record_def caching_service_def ex_service_def ex_principal_def split_beta)
  from a_cached_answer_streams_the_same[OF _ _ h(1) this] h(2) show ?thesis
    by (auto simp: caching_service_def ex_service_def ex_request_def ex_answer_def)
qed

end
