(* ===== verification/Research_Runs.thy ===== *)
theory Research_Runs
  imports Agents
begin

text \<open>
  What the research agent promises. Every step of the five nodes keeps an invariant and brings the run
  nearer to its end, which makes the graph of \<open>build_graph\<close> an instance of the locales of the engine:
  the run settles within four steps and two for every revision, keeps the bounds of the request, cites
  only passages of the tenant, and its merged passages are the best that its searches found.
\<close>

section \<open>One step\<close>

lemma ask_cases:
  assumes "ask C stp sys u s = (r, s1)"
  shows "\<exists>c. (\<exists>e. r = Inl e \<and> s1 = s\<lparr>rs_chat := c\<rparr>) \<or>
     (\<exists>resp. r = Inr (strip (cr_content resp), cut_note stp resp) \<and> s1 = count_call resp (s\<lparr>rs_chat := c\<rparr>))"
  using assms by (auto simp: ask_def Let_def split: prod.splits sum.splits)

text \<open>Each node names its successors, keeps the request, and counts at most one call.\<close>

definition same_request :: "'w research_state \<Rightarrow> 'w research_state \<Rightarrow> bool" where
  "same_request s s1 \<longleftrightarrow> rs_question s1 = rs_question s \<and> rs_principal s1 = rs_principal s \<and> rs_model s1 = rs_model s
     \<and> rs_top_k s1 = rs_top_k s \<and> rs_max_searches s1 = rs_max_searches s \<and> rs_max_revisions s1 = rs_max_revisions s
     \<and> rs_cache s1 = rs_cache s"

definition untouched :: "'w research_state \<Rightarrow> 'w research_state \<Rightarrow> bool" where
  "untouched s s1 \<longleftrightarrow> same_request s s1 \<and> rs_searches s1 = rs_searches s \<and> rs_passages s1 = rs_passages s
     \<and> rs_draft s1 = rs_draft s \<and> rs_critique s1 = rs_critique s \<and> rs_issues s1 = rs_issues s
     \<and> rs_revisions s1 = rs_revisions s"

lemma ask_counts:
  assumes "ask C stp sys u s = (r, s1)"
  shows "untouched s s1" "rs_calls s1 = (case r of Inl _ \<Rightarrow> rs_calls s | Inr _ \<Rightarrow> rs_calls s + 1)"
  using ask_cases[OF assms] by (auto simp: untouched_def same_request_def count_call_def)

lemma plan_queries_length: "int (length (plan_queries n reply)) \<le> max 0 n"
  by (simp add: plan_queries_def)

lemma plan_with_state:
  "plan_with reply c s = (Inr \<lparr>next_node = ''retrieve'', next_note = Some n\<rparr>, s1) \<Longrightarrow>
     untouched s (s1\<lparr>rs_searches := rs_searches s\<rparr>) \<and> rs_calls s1 = rs_calls s \<and> rs_searches s1 \<noteq> [] \<and>
     int (length (rs_searches s1)) \<le> max 1 (rs_max_searches s)"
  using plan_queries_length[of "rs_max_searches s" reply]
  by (cases "plan_queries (rs_max_searches s) reply = []") (auto simp: plan_with_def goto_node_def Let_def untouched_def same_request_def)

lemma plan_step:
  assumes "plan_node C s = (Inr d, s1)"
  shows "next_node d = ''retrieve'' \<and> untouched s (s1\<lparr>rs_searches := rs_searches s\<rparr>) \<and> rs_calls s1 \<le> rs_calls s + 1
     \<and> rs_searches s1 \<noteq> [] \<and> int (length (rs_searches s1)) \<le> max 1 (rs_max_searches s)"
proof -
  obtain r s0 where r: "ask C ''plan'' (PLAN_SYSTEM (rs_max_searches s)) (rs_question s) s = (r, s0)" by fastforce
  then obtain reply c where p: "plan_with reply c s0 = (Inr d, s1)"
    using assms by (auto simp: plan_node_def split: sum.splits if_splits)
  then obtain n where d: "d = \<lparr>next_node = ''retrieve'', next_note = Some n\<rparr>"
    by (auto simp: plan_with_def goto_node_def Let_def)
  from plan_with_state[OF p[unfolded d]] ask_counts[OF r] show ?thesis
    by (auto simp: d untouched_def same_request_def split: sum.splits)
qed

lemma retrieve_step:
  assumes "retrieve_node R s = (Inr d, s1)"
  shows "next_node d \<in> {''draft'', END} \<and> same_request s s1 \<and> rs_searches s1 = rs_searches s \<and> rs_calls s1 = rs_calls s
     \<and> rs_revisions s1 = rs_revisions s \<and> int (length (rs_passages s1)) \<le> max 0 (rs_top_k s)
     \<and> (next_node d = END \<longleftrightarrow> rs_passages s1 = []) \<and> rs_critique s1 = rs_critique s \<and> (next_node d = END \<longrightarrow> rs_draft s1 = NO_CONTEXT_ANSWER)"
  using assms
  by (auto simp: retrieve_node_def Let_def goto_node_def same_request_def merged_def END_def split: prod.splits sum.splits if_splits)

lemma draft_step:
  assumes "draft_node C s = (Inr d, s1)"
  shows "next_node d = ''critique'' \<and> untouched s (s1\<lparr>rs_draft := rs_draft s\<rparr>) \<and> rs_calls s1 = rs_calls s + 1"
proof -
  obtain r s0 where r: "ask C ''draft'' (DRAFT_SYSTEM (format_context (rs_passages s))) (rs_question s) s = (r, s0)" by fastforce
  from ask_counts[OF r] assms r show ?thesis
    by (auto simp: draft_node_def goto_node_def untouched_def same_request_def split: sum.splits)
qed

lemma critique_step:
  assumes "critique_node C s = (Inr d, s1)"
  shows "(next_node d = ''revise'' \<and> rs_revisions s < rs_max_revisions s \<or> next_node d = END)
     \<and> untouched s (s1\<lparr>rs_critique := rs_critique s, rs_issues := rs_issues s\<rparr>)
     \<and> rs_calls s1 \<le> (if rs_revisions s < rs_max_revisions s then rs_calls s + 1 else rs_calls s)"
proof (cases "rs_max_revisions s \<le> rs_revisions s")
  case True
  then show ?thesis using assms by (auto simp: critique_node_def goto_node_def untouched_def same_request_def)
next
  case False
  obtain r s0 where r: "ask C ''critique'' (CRITIQUE_SYSTEM (format_context (rs_passages s)))
      (CRITIQUE_USER (rs_question s) (rs_draft s)) s = (r, s0)" by fastforce
  note a = ask_counts[OF r]
  show ?thesis
  proof (cases r)
    case (Inl e)
    then show ?thesis using a assms r False
      by (cases "fatal e") (auto simp: critique_node_def goto_node_def untouched_def same_request_def)
  next
    case (Inr x)
    then obtain v c where x: "r = Inr (v, c)" by (cases x) simp
    define s2 where "s2 = s0\<lparr>rs_critique := Some v, rs_issues := issues_of v\<rparr>"
    have n: "critique_node C s = (if approves v then (goto_node END (''approved'' @ c), s2\<lparr>rs_issues := []\<rparr>)
        else if rs_issues s2 = [] then (goto_node END (''no usable review'' @ c), s2)
        else (goto_node ''revise'' (decimal (length (rs_issues s2)) @ '' issue(s)'' @ c), s2))"
      using False r by (simp add: critique_node_def x s2_def Let_def)
    have s1: "rs_calls s1 = rs_calls s0" "untouched s0 (s1\<lparr>rs_critique := rs_critique s0, rs_issues := rs_issues s0\<rparr>)"
        "next_node d = ''revise'' \<or> next_node d = END"
      using assms unfolding n by (auto simp: s2_def untouched_def same_request_def goto_node_def split: if_splits)
    show ?thesis using a s1 False unfolding x by (auto simp: untouched_def same_request_def)
  qed
qed

lemma revise_step:
  assumes "revise_node C s = (Inr d, s1)"
  shows "next_node d = ''critique'' \<and> untouched s (s1\<lparr>rs_revisions := rs_revisions s, rs_draft := rs_draft s\<rparr>)
     \<and> rs_revisions s1 = rs_revisions s + 1 \<and> rs_calls s1 = rs_calls s + 1"
proof -
  obtain r s0 where r: "ask C ''revise'' (REVISE_SYSTEM (format_context (rs_passages s)))
      (REVISE_USER (rs_question s) (rs_draft s) (rs_issues s)) s = (r, s0)" by fastforce
  from ask_counts[OF r] assms r show ?thesis
    by (auto simp: revise_node_def goto_node_def untouched_def same_request_def Let_def split: sum.splits if_splits)
qed


section \<open>The run\<close>

text \<open>What holds of the state when a node is about to run: the request is as it came in, the lists keep
  their bounds, and the calls counted so far are accounted for by the nodes that ran.\<close>

definition stage_ok :: "string \<Rightarrow> 'w research_state \<Rightarrow> bool" where
  "stage_ok n s \<longleftrightarrow>
     n = ''plan'' \<and> rs_calls s \<le> 0 \<and> rs_revisions s = 0
   \<or> n = ''retrieve'' \<and> rs_calls s \<le> 1 \<and> rs_revisions s = 0 \<and> rs_searches s \<noteq> []
   \<or> n = ''draft'' \<and> rs_calls s \<le> 1 \<and> rs_revisions s = 0 \<and> rs_passages s \<noteq> []
   \<or> n = ''critique'' \<and> rs_calls s \<le> 2 + 2 * rs_revisions s \<and> rs_passages s \<noteq> []
   \<or> n = ''revise'' \<and> rs_calls s \<le> 3 + 2 * rs_revisions s \<and> rs_revisions s < rs_max_revisions s \<and> rs_passages s \<noteq> []
   \<or> n = END \<and> rs_calls s \<le> 2 + 2 * rs_max_revisions s \<and> (rs_passages s = [] \<longrightarrow> rs_draft s = NO_CONTEXT_ANSWER)"

definition run_inv :: "principal \<Rightarrow> research_request \<Rightarrow> string \<Rightarrow> 'w research_state \<Rightarrow> bool" where
  "run_inv p q n s \<longleftrightarrow>
     same_request (start_state p q (rs_chat s)) s \<and> 0 \<le> rs_revisions s \<and> rs_revisions s \<le> rs_max_revisions s
   \<and> int (length (rs_passages s)) \<le> max 0 (rs_top_k s) \<and> int (length (rs_searches s)) \<le> max 1 (rs_max_searches s)
   \<and> stage_ok n s"

definition run_rank :: "string \<Rightarrow> 'w research_state \<Rightarrow> nat" where
  "run_rank n s =
     (if n = ''plan'' then 4 + 2 * nat (rs_max_revisions s)
      else if n = ''retrieve'' then 3 + 2 * nat (rs_max_revisions s)
      else if n = ''draft'' then 2 + 2 * nat (rs_max_revisions s)
      else if n = ''critique'' then 1 + 2 * nat (rs_max_revisions s - rs_revisions s)
      else if n = ''revise'' then 2 * nat (rs_max_revisions s - rs_revisions s)
      else 0)"

lemma research_nodes:
  "(n, f) \<in> set (g_nodes (build_graph R C m)) \<longleftrightarrow>
     n = ''plan'' \<and> f = plan_node C \<or> n = ''retrieve'' \<and> f = retrieve_node R \<or> n = ''draft'' \<and> f = draft_node C
   \<or> n = ''critique'' \<and> f = critique_node C \<or> n = ''revise'' \<and> f = revise_node C"
  "map fst (g_nodes (build_graph R C m)) = [''plan'', ''retrieve'', ''draft'', ''critique'', ''revise'']"
  by (simp_all add: build_graph_def)

lemma research_targets:
  "targets (build_graph R C m) ''plan'' = [''retrieve'']" "targets (build_graph R C m) ''retrieve'' = [''draft'', END]"
  "targets (build_graph R C m) ''draft'' = [''critique'']" "targets (build_graph R C m) ''critique'' = [''revise'', END]"
  "targets (build_graph R C m) ''revise'' = [''critique'']"
  by (simp_all add: targets_def build_graph_def)

lemma stage_simps:
  "stage_ok ''plan'' s \<longleftrightarrow> rs_calls s \<le> 0 \<and> rs_revisions s = 0"
  "stage_ok ''retrieve'' s \<longleftrightarrow> rs_calls s \<le> 1 \<and> rs_revisions s = 0 \<and> rs_searches s \<noteq> []"
  "stage_ok ''draft'' s \<longleftrightarrow> rs_calls s \<le> 1 \<and> rs_revisions s = 0 \<and> rs_passages s \<noteq> []"
  "stage_ok ''critique'' s \<longleftrightarrow> rs_calls s \<le> 2 + 2 * rs_revisions s \<and> rs_passages s \<noteq> []"
  "stage_ok ''revise'' s \<longleftrightarrow> rs_calls s \<le> 3 + 2 * rs_revisions s \<and> rs_revisions s < rs_max_revisions s \<and> rs_passages s \<noteq> []"
  "stage_ok END s \<longleftrightarrow> rs_calls s \<le> 2 + 2 * rs_max_revisions s \<and> (rs_passages s = [] \<longrightarrow> rs_draft s = NO_CONTEXT_ANSWER)"
  by (simp_all add: stage_ok_def END_def)

lemma rank_simps:
  "run_rank ''plan'' s = 4 + 2 * nat (rs_max_revisions s)" "run_rank ''retrieve'' s = 3 + 2 * nat (rs_max_revisions s)"
  "run_rank ''draft'' s = 2 + 2 * nat (rs_max_revisions s)" "run_rank ''critique'' s = 1 + 2 * nat (rs_max_revisions s - rs_revisions s)"
  "run_rank ''revise'' s = 2 * nat (rs_max_revisions s - rs_revisions s)" "run_rank END s = 0"
  by (simp_all add: run_rank_def END_def)

lemma same_request_trans:
  "same_request (start_state p q c) s \<Longrightarrow> same_request s s1 \<Longrightarrow> same_request (start_state p q c') s1"
  by (simp add: same_request_def start_state_def)

lemma untouched_request: "untouched s s1 \<Longrightarrow> same_request s s1"
  by (simp add: untouched_def)

lemma same_request_update:
  "same_request s (s1\<lparr>rs_searches := x1\<rparr>) = same_request s s1" "same_request s (s1\<lparr>rs_draft := x2\<rparr>) = same_request s s1"
  "same_request s (s1\<lparr>rs_issues := x3\<rparr>) = same_request s s1" "same_request s (s1\<lparr>rs_critique := x4\<rparr>) = same_request s s1"
  "same_request s (s1\<lparr>rs_revisions := x5\<rparr>) = same_request s s1"
  by (simp_all add: same_request_def)

lemma same_bounds: "same_request s s1 \<Longrightarrow> rs_max_revisions s1 = rs_max_revisions s \<and> rs_top_k s1 = rs_top_k s \<and> rs_max_searches s1 = rs_max_searches s"
  by (simp add: same_request_def)

lemmas run_step_simps = research_targets run_inv_def stage_simps rank_simps untouched_def same_request_update

lemma run_step:
  assumes i: "run_inv p q n s" and f: "dict_get (g_nodes (build_graph R C m)) n = Some f" and d: "f s = (Inr d, s')"
  shows "next_node d \<in> set (targets (build_graph R C m) n) \<and> run_inv p q (next_node d) s' \<and> run_rank (next_node d) s' < run_rank n s"
proof -
  from i have r: "same_request (start_state p q (rs_chat s)) s" by (simp add: run_inv_def)
  have same: "same_request (start_state p q (rs_chat s')) s'" if "same_request s s'" using same_request_trans[OF r that] .
  from map_of_SomeD[OF f, unfolded research_nodes(1)] show ?thesis
  proof (elim disjE conjE)
    assume plan: "n = ''plan''" "f = plan_node C"
    note p = plan_step[OF d[unfolded plan(2)]]
    then have "same_request s s'" by (simp add: untouched_def same_request_update)
    from p same[OF this] same_bounds[OF this] i show ?thesis by (simp add: plan(1) run_step_simps)
  next
    assume retrieve: "n = ''retrieve''" "f = retrieve_node R"
    note p = retrieve_step[OF d[unfolded retrieve(2)]]
    then have "same_request s s'" by simp
    note b = same[OF this] same_bounds[OF this]
    show ?thesis
    proof (cases "next_node d = END")
      case True
      with p b i show ?thesis by (simp add: retrieve(1) run_step_simps)
    next
      case False
      with p b i show ?thesis by (simp add: retrieve(1) run_step_simps)
    qed
  next
    assume draft: "n = ''draft''" "f = draft_node C"
    note p = draft_step[OF d[unfolded draft(2)]]
    then have "same_request s s'" by (simp add: untouched_def same_request_update)
    from p same[OF this] same_bounds[OF this] i show ?thesis by (simp add: draft(1) run_step_simps)
  next
    assume critique: "n = ''critique''" "f = critique_node C"
    note p = critique_step[OF d[unfolded critique(2)]]
    then have "same_request s s'" by (simp add: untouched_def same_request_update)
    note b = same[OF this] same_bounds[OF this]
    show ?thesis
    proof (cases "next_node d = END")
      case True
      with p b i show ?thesis by (simp add: critique(1) run_step_simps split: if_splits)
    next
      case False
      with p b i show ?thesis by (simp add: critique(1) run_step_simps split: if_splits)
    qed
  next
    assume revise: "n = ''revise''" "f = revise_node C"
    note p = revise_step[OF d[unfolded revise(2)]]
    then have "same_request s s'" by (simp add: untouched_def same_request_update)
    from p same[OF this] same_bounds[OF this] i show ?thesis by (simp add: revise(1) run_step_simps) arith
  qed
qed

interpretation agent: settling_graph "run_clock C" "build_graph R C m" "run_inv p q" run_rank
  for R :: "'w retriever" and C m p q
proof
  show "\<exists>f. dict_get (g_nodes (build_graph R C m)) n = Some f" if "run_inv p q n s" "n \<noteq> END" for n s
  proof -
    from that have "n \<in> set (map fst (g_nodes (build_graph R C m)))"
      unfolding research_nodes(2) run_inv_def stage_ok_def by force
    then show ?thesis by (metis list.set_map map_of_eq_None_iff not_None_eq)
  qed
  show "0 < run_rank n s" if "run_inv p q n s" "n \<noteq> END" for n s
  proof -
    from that(1) have "stage_ok n s" by (simp add: run_inv_def)
    with that(2) show ?thesis unfolding stage_ok_def run_rank_def by force
  qed
qed (use run_step in blast)+

lemma start_inv: "0 \<le> rq_max_revisions q \<Longrightarrow> run_inv p q ''plan'' (start_state p q c)"
  by (simp add: run_inv_def stage_ok_def start_state_def same_request_def)

lemma run_ends:
  assumes "0 \<le> rq_max_revisions q" and "run_graph (run_clock C) (build_graph R C m) (start_state p q c) = ((h, sts), s)"
  shows "h = Finished_Run \<and> run_inv p q END s \<or> h = OutOfBudget (budget_error (build_graph R C m)) \<and> (\<exists>n. run_inv p q n s)
     \<or> (\<exists>e. h = NodeRaised e)"
  using agent.run_guarded[OF start_inv[OF assms(1)]] assms(2) by (simp add: run_graph_def build_graph_def)

lemma research_cases:
  assumes "0 \<le> rq_max_revisions q" and "research R C m p q c = (r, c')"
  obtains (failed) e where "r = Inl (StepFailed e)"
    | (answered) s sts n where "r = Inr (research_answer s sts)" "run_inv p q n s"
        "(\<exists>h. run_graph (run_clock C) (build_graph R C m) (start_state p q c) = ((h, sts), s) \<and> (h = Finished_Run \<longrightarrow> n = END))"
proof -
  obtain h sts s where run: "run_graph (run_clock C) (build_graph R C m) (start_state p q c) = ((h, sts), s)" by (metis surj_pair)
  from run_ends[OF assms(1) run] show ?thesis
  proof (elim disjE conjE exE)
    assume "h = Finished_Run" "run_inv p q END s"
    then show ?thesis using that(2)[of s sts END] assms(2) run by (simp add: research_def)
  next
    fix n assume "h = OutOfBudget (budget_error (build_graph R C m))" "run_inv p q n s"
    then show ?thesis using that(2)[of s sts n] assms(2) run by (simp add: research_def)
  next
    fix e assume "h = NodeRaised e"
    then show ?thesis using that(1)[of e] assms(2) run by (simp add: research_def)
  qed
qed

section \<open>Properties\<close>

text \<open>C11: A run settles by itself: with a budget of four steps and two for every revision that was asked for,
  it ends with an answer or with the error of a step and is never stopped. A request asks for at most
  three revisions, so the default budget of 12 is enough for all of them.\<close>

theorem a_run_settles_within_its_budget:
  assumes "valid_research q" and "4 + 2 * rq_max_revisions q \<le> m"
    and "run_graph (run_clock C) (build_graph R C m) (start_state p q c) = ((h, sts), s)"
  shows "(h = Finished_Run \<or> (\<exists>e. h = NodeRaised e)) \<and> int (length sts) \<le> 4 + 2 * rq_max_revisions q \<and> length sts \<le> 10"
proof -
  have M: "0 \<le> rq_max_revisions q" "rq_max_revisions q \<le> 3" using assms(1) by (simp_all add: valid_research_def)
  have r: "int (run_rank ''plan'' (start_state p q c)) = 4 + 2 * rq_max_revisions q"
    using M by (simp add: rank_simps start_state_def)
  have run: "run_from (run_clock C) (build_graph R C m) ''plan'' [] (start_state p q c) = ((h, sts), s)"
    using assms(3) by (simp add: run_graph_def build_graph_def)
  have "(h = Finished_Run \<and> run_inv p q END s \<or> (\<exists>e. h = NodeRaised e)) \<and> length sts \<le> length ([] :: step list) + run_rank ''plan'' (start_state p q c)"
    by (rule agent.run_settles[OF start_inv[OF M(1)] _ run]) (use r assms(2) in \<open>simp add: build_graph_def\<close>)
  then show ?thesis using r M(2) by auto
qed

text \<open>C12: Whatever the model and the retriever answer, the engine never refuses a move of the five nodes: a
  request fails only with the error of a step, and what it answers keeps the bounds of the request, on
  the calls of the language model too.\<close>

theorem a_research_keeps_its_bounds:
  assumes "valid_research q" and "0 \<le> m" and "research R C m p q c = (r, c')"
  shows "(\<exists>e. r = Inl (StepFailed e)) \<or>
     (\<exists>a. r = Inr a \<and> int (length (ra_citations a)) \<le> rq_top_k q \<and> int (length (ra_searches a)) \<le> rq_max_searches q
        \<and> 0 \<le> ra_revisions a \<and> ra_revisions a \<le> rq_max_revisions q \<and> ra_calls a \<le> 2 + 2 * rq_max_revisions q
        \<and> int (length (ra_steps a)) \<le> m)"
proof -
  have q: "0 \<le> rq_max_revisions q" "1 \<le> rq_top_k q" "1 \<le> rq_max_searches q" using assms(1) by (simp_all add: valid_research_def)
  from q(1) assms(3) show ?thesis
  proof (cases rule: research_cases)
    case (answered s sts n)
    have st: "stage_ok n s" "rs_revisions s \<le> rs_max_revisions s" "same_request (start_state p q (rs_chat s)) s" using answered(2) by (simp_all add: run_inv_def)
    then have calls: "rs_calls s \<le> 2 + 2 * rs_max_revisions s" unfolding stage_ok_def by linarith
    obtain h where "run_graph (run_clock C) (build_graph R C m) (start_state p q c) = ((h, sts), s)" using answered(3) by blast
    then have "int (length sts) \<le> m"
      using run_walks[of "build_graph R C m" "''plan''" "[]" "''plan''" "run_clock C" "start_state p q c" h sts s] assms(2)
      by (auto simp: run_graph_def build_graph_def)
    then show ?thesis using answered(1,2) calls q st
      by (auto simp: run_inv_def research_answer_def same_request_def start_state_def numbered_nth)
  qed simp
qed

section \<open>Merging searches\<close>

text \<open>All hits of the searches one after the other, and what \<open>best\<close> keeps of them.\<close>

primrec found_hits :: "'w retriever \<Rightarrow> string \<Rightarrow> int \<Rightarrow> string list \<Rightarrow> 'w \<Rightarrow> retrieved list option" where
  "found_hits R tenant k [] w = Some []"
| "found_hits R tenant k (q # qs) w =
     (case retrieve R tenant q k True w of
        (Ready hits, w1) \<Rightarrow> map_option ((@) hits) (found_hits R tenant k qs w1)
      | _ \<Rightarrow> None)"

definition best_hits_of :: "retrieved list \<Rightarrow> best_hits \<Rightarrow> bool" where
  "best_hits_of hs best \<longleftrightarrow>
     distinct (map fst best) \<and> (\<forall>k b. dict_get best k = Some b \<longrightarrow> hit_key b = k \<and> b \<in> set hs)
   \<and> (\<forall>h \<in> set hs. \<exists>b. dict_get best (hit_key h) = Some b \<and> hit_score h \<le> hit_score b)"

lemma best_hits_set:
  assumes "best_hits_of hs best" and "\<forall>b. dict_get best (hit_key h) = Some b \<longrightarrow> hit_score b \<le> hit_score h"
  shows "best_hits_of (hs @ [h]) (dict_set (hit_key h) h best)"
  using assms by (fastforce simp: best_hits_of_def dict_get_set AList.distinct_update)

lemma best_hits_keep:
  assumes "best_hits_of hs best"
  shows "best_hits_of (hs @ [h]) (keep_best h best)"
proof (cases "dict_get best (hit_key h)")
  case None
  then show ?thesis using best_hits_set[OF assms] by (simp add: keep_best_def)
next
  case (Some b)
  show ?thesis
  proof (cases "hit_score h > hit_score b")
    case True
    then show ?thesis using best_hits_set[OF assms] Some by (simp add: keep_best_def)
  next
    case False
    then show ?thesis using assms Some by (auto simp: keep_best_def best_hits_of_def)
  qed
qed

lemma best_hits_fold: "best_hits_of hs best \<Longrightarrow> best_hits_of (hs @ xs) (fold keep_best xs best)"
proof (induction xs arbitrary: hs best)
  case (Cons x xs)
  from Cons.IH[OF best_hits_keep[OF Cons.prems]] show ?case by simp
qed simp

lemma search_all_best:
  "best_hits_of hs best \<Longrightarrow> search_all R t k qs best w = (Inr best', w') \<Longrightarrow>
     \<exists>xs. found_hits R t k qs w = Some xs \<and> best_hits_of (hs @ xs) best'"
proof (induction qs arbitrary: hs best w)
  case (Cons q qs)
  obtain x w1 where x: "retrieve R t q k True w = (x, w1)" by (cases "retrieve R t q k True w")
  with Cons.prems obtain hits where h: "x = Ready hits" by (cases x) auto
  have "search_all R t k qs (fold keep_best hits best) w1 = (Inr best', w')" using Cons.prems x h by simp
  from Cons.IH[OF best_hits_fold[OF Cons.prems(1)] this] show ?case using x h by auto
qed simp

lemma merged_facts:
  assumes "best_hits_of hs best" and "0 \<le> k"
  shows "int (length (merged k best)) \<le> k" "distinct (map hit_key (merged k best))"
    "sorted_wrt (\<lambda>x y. hit_score y \<le> hit_score x) (merged k best)" "set (merged k best) \<subseteq> set hs"
    "\<And>p h. p \<in> set (merged k best) \<Longrightarrow> h \<in> set hs \<Longrightarrow> hit_key h = hit_key p \<Longrightarrow> hit_score h \<le> hit_score p"
    "\<And>p h. p \<in> set (merged k best) \<Longrightarrow> h \<in> set hs \<Longrightarrow> hit_key h \<notin> hit_key ` set (merged k best) \<Longrightarrow>
       hit_score h \<le> hit_score p \<and> int (length (merged k best)) = k"
proof -
  define all where "all = sort_key (\<lambda>h. - hit_score h) (map snd best)"
  have m: "merged k best = take (nat k) all" by (simp add: merged_def all_def)
  have d: "distinct (map fst best)" using assms(1) by (simp add: best_hits_of_def)
  have all: "x \<in> set all \<longleftrightarrow> dict_get best (hit_key x) = Some x" for x
  proof -
    have "x \<in> set all \<longleftrightarrow> (\<exists>k. (k, x) \<in> set best)" by (force simp: all_def)
    also have "\<dots> \<longleftrightarrow> (\<exists>k. dict_get best k = Some x)" using d by (metis map_of_SomeD map_of_is_SomeI)
    finally show ?thesis using assms(1) unfolding best_hits_of_def by blast
  qed
  have keys: "map hit_key (map snd best) = map fst best"
    using assms(1) d unfolding best_hits_of_def by (auto simp: map_of_is_SomeI)
  then have "mset (map hit_key all) = mset (map fst best)" by (metis all_def mset_map mset_sort)
  then have dist: "distinct (map hit_key all)" using d by (metis mset_eq_imp_distinct_iff)
  have sorted: "sorted_wrt (\<lambda>x y. hit_score y \<le> hit_score x) all"
    using sorted_sort_key[of "\<lambda>h. - hit_score h" "map snd best"] unfolding all_def by (simp add: sorted_wrt_map sorted_map)
  show "int (length (merged k best)) \<le> k" using assms(2) by (simp add: m)
  show "distinct (map hit_key (merged k best))" unfolding m using dist by (metis distinct_take take_map)
  show "sorted_wrt (\<lambda>x y. hit_score y \<le> hit_score x) (merged k best)" unfolding m by (rule sorted_wrt_take[OF sorted])
  have sub: "set (merged k best) \<subseteq> set all" unfolding m by (rule set_take_subset)
  show "set (merged k best) \<subseteq> set hs" using sub all assms(1) unfolding best_hits_of_def by blast
  have top: "\<exists>b. b \<in> set all \<and> hit_key b = hit_key h \<and> hit_score h \<le> hit_score b" if "h \<in> set hs" for h
    using assms(1) that all unfolding best_hits_of_def by metis
  show "hit_score h \<le> hit_score p" if "p \<in> set (merged k best)" "h \<in> set hs" "hit_key h = hit_key p" for p h
    using top[OF that(2)] sub all that(1,3) by (metis option.inject subset_iff)
  show "hit_score h \<le> hit_score p \<and> int (length (merged k best)) = k"
    if c: "p \<in> set (merged k best)" "h \<in> set hs" "hit_key h \<notin> hit_key ` set (merged k best)" for p h
  proof -
    obtain b where b: "b \<in> set all" "hit_key b = hit_key h" "hit_score h \<le> hit_score b" using top[OF c(2)] by blast
    then have "b \<notin> set (take (nat k) all)" using c(3) unfolding m by (metis imageI)
    then have drop: "b \<in> set (drop (nat k) all)" using b(1) by (metis append_take_drop_id Un_iff set_append)
    then have "nat k < length all" by (metis drop_all empty_iff linorder_not_less list.set(1))
    with taken_before[OF sorted c(1)[unfolded m] drop] b(3) assms(2) show ?thesis by (simp add: m)
  qed
qed

section \<open>Properties\<close>

text \<open>C23: The passages of a run are the best of everything its searches found: every chunk once and with its
  highest score, best first, at most \<open>top_k\<close>; a chunk that was found and left out scores no higher than
  any passage, and is left out only because there are \<open>top_k\<close> of them.\<close>

theorem searches_merge_to_the_best_passages:
  assumes "0 \<le> rs_top_k s" and "retrieve_node R s = (Inr d, s')"
  shows "\<exists>hs. found_hits R (p_tenant_id (rs_principal s)) (rs_top_k s) (rs_searches s) (world (rs_chat s)) = Some hs
     \<and> set (rs_passages s') \<subseteq> set hs \<and> int (length (rs_passages s')) \<le> rs_top_k s
     \<and> distinct (map hit_key (rs_passages s')) \<and> sorted_wrt (\<lambda>x y. hit_score y \<le> hit_score x) (rs_passages s')
     \<and> (\<forall>p \<in> set (rs_passages s'). \<forall>h \<in> set hs. hit_key h = hit_key p \<longrightarrow> hit_score h \<le> hit_score p)
     \<and> (\<forall>p \<in> set (rs_passages s'). \<forall>h \<in> set hs. hit_key h \<notin> hit_key ` set (rs_passages s') \<longrightarrow>
          hit_score h \<le> hit_score p \<and> int (length (rs_passages s')) = rs_top_k s)"
proof -
  obtain r w where r: "search_all R (p_tenant_id (rs_principal s)) (rs_top_k s) (rs_searches s) [] (world (rs_chat s)) = (r, w)" by fastforce
  then obtain best where b: "r = Inr best" using assms(2) by (cases r) (simp_all add: retrieve_node_def)
  have p: "rs_passages s' = merged (rs_top_k s) best" using assms(2) r b by (auto simp: retrieve_node_def Let_def split: if_splits)
  have "best_hits_of [] []" by (simp add: best_hits_of_def)
  from search_all_best[OF this r[unfolded b]] obtain hs where
    hs: "found_hits R (p_tenant_id (rs_principal s)) (rs_top_k s) (rs_searches s) (world (rs_chat s)) = Some hs" "best_hits_of hs best" by auto
  with merged_facts[OF hs(2) assms(1)] show ?thesis unfolding p by blast
qed

section \<open>Passages and tenants\<close>

text \<open>Nothing that a run does touches the points of the store: neither the models behind the gates nor the
  chat service write there.\<close>

definition leaves_points :: "'w retriever \<Rightarrow> 'w chat_service \<Rightarrow> ('w \<Rightarrow> points) \<Rightarrow> bool" where
  "leaves_points R C pts \<longleftrightarrow>
     qdrant_reads (qx (rt_store R)) pts \<and> (\<forall>x w. pts (snd (rt_embed R x w)) = pts w)
   \<and> (\<forall>score x ps w. rt_reranker R = Some score \<longrightarrow> pts (snd (score x ps w)) = pts w)
   \<and> (\<forall>p req s. pts (world (snd (chat_complete C p req s))) = pts (world s))"

lemma rerank_hits_world:
  "snd (rerank_hits R score q k hits w) = snd (score q (map (\<lambda>h. for_scoring R (s_text h)) hits) w)"
  by (simp add: rerank_hits_def split_beta)

lemma retrieve_keeps_points:
  assumes "leaves_points R C pts"
  shows "pts (snd (retrieve R t q k b w)) = pts w"
proof -
  have l: "qdrant_reads (qx (rt_store R)) pts" "\<And>x w. pts (snd (rt_embed R x w)) = pts w"
      "\<And>score x ps w. rt_reranker R = Some score \<Longrightarrow> pts (snd (score x ps w)) = pts w"
    using assms by (auto simp: leaves_points_def)
  obtain x w1 where x: "rt_embed R q w = (x, w1)" by (cases "rt_embed R q w")
  then have w1: "pts w1 = pts w" using l(2)[of q w] by simp
  show ?thesis
  proof (cases x)
    case (Ready v)
    define scorer where "scorer = (if b then rt_reranker R else None)"
    obtain hits w2 where h: "find_hits R t q v (if scorer = None then k else max (candidates R) k) w1 = (Some hits, w2)"
        "pts w2 = pts w1"
      by (rule find_hits_ok[OF l(1), of t q v "if scorer = None then k else max (candidates R) k" w1]) blast
    show ?thesis
    proof (cases scorer)
      case None
      then show ?thesis using x Ready h w1 by (simp add: retrieve_def scorer_def[symmetric])
    next
      case (Some score)
      then have "rt_reranker R = Some score" by (simp add: scorer_def split: if_splits)
      then show ?thesis using x Ready h w1 Some l(3)
        by (cases "hits = []") (simp_all add: retrieve_def scorer_def[symmetric] rerank_hits_world)
    qed
  qed (use x w1 in \<open>simp_all add: retrieve_def\<close>)
qed

lemma found_from_tenant:
  assumes l: "leaves_points R C pts"
  shows "found_hits R t k qs w = Some hs \<Longrightarrow> \<forall>h \<in> set hs. of_tenant R (pts w) t (rc_chunk h)"
proof (induction qs arbitrary: w hs)
  case (Cons q qs)
  obtain x w1 where x: "retrieve R t q k True w = (x, w1)" by (cases "retrieve R t q k True w")
  with Cons.prems obtain hits hs1 where h: "x = Ready hits" "found_hits R t k qs w1 = Some hs1" "hs = hits @ hs1"
    by (cases x) auto
  have "pts w1 = pts w" using retrieve_keeps_points[OF l, of t q k True w] x by simp
  moreover have "\<forall>h \<in> set hits. of_tenant R (pts w) t (rc_chunk h)"
    by (rule conjunct2[OF retrieve_from_tenant[of R pts t q k True w hits w1]]) (use l x h(1) in \<open>auto simp: leaves_points_def\<close>)
  ultimately show ?case using Cons.IH[OF h(2)] h(3) by auto
qed simp

lemma search_all_points:
  assumes "leaves_points R C pts"
  shows "pts (snd (search_all R t k qs best w)) = pts w"
proof (induction qs arbitrary: best w)
  case (Cons q qs)
  show ?case using retrieve_keeps_points[OF assms, of t q k True w] Cons.IH
    by (cases "retrieve R t q k True w"; cases "fst (retrieve R t q k True w)") auto
qed simp

lemma ask_points:
  assumes "leaves_points R C pts" and "ask C stp sys u s = (r, s1)"
  shows "pts (world (rs_chat s1)) = pts (world (rs_chat s))" "rs_passages s1 = rs_passages s" "rs_principal s1 = rs_principal s"
proof -
  obtain y c where y: "chat_complete C (rs_principal s) (ask_request s stp sys u) (rs_chat s) = (y, c)" by fastforce
  have c: "pts (world c) = pts (world (rs_chat s))"
    using assms(1) y unfolding leaves_points_def by (metis snd_conv)
  then show "pts (world (rs_chat s1)) = pts (world (rs_chat s))" "rs_passages s1 = rs_passages s" "rs_principal s1 = rs_principal s"
    using assms(2) y by (cases y; auto simp: ask_def count_call_def)+
qed

lemma best_hits_values:
  assumes "best_hits_of hs best" and "x \<in> set (map snd best)"
  shows "x \<in> set hs"
proof -
  from assms(2) obtain k where k: "(k, x) \<in> set best" by auto
  have "distinct (map fst best)" using assms(1) by (simp add: best_hits_of_def)
  from map_of_is_SomeI[OF this k] assms(1) show ?thesis unfolding best_hits_of_def by blast
qed

text \<open>The passages of the state are the tenant's, whatever node comes next.\<close>

definition tenant_inv :: "'w retriever \<Rightarrow> 'w chat_service \<Rightarrow> ('w \<Rightarrow> points) \<Rightarrow> principal \<Rightarrow> points \<Rightarrow> 'w research_state \<Rightarrow> bool" where
  "tenant_inv R C pts p P s \<longleftrightarrow> leaves_points R C pts \<and> rs_principal s = p \<and> pts (world (rs_chat s)) = P
     \<and> (\<forall>h \<in> set (rs_passages s). of_tenant R P (p_tenant_id p) (rc_chunk h))"

lemma asking_keeps_tenant_inv:
  assumes "tenant_inv R C pts p P s" and "ask C stp sys u s = (r, s1)"
  shows "tenant_inv R C pts p P s1"
proof -
  have l: "leaves_points R C pts" using assms(1) by (simp add: tenant_inv_def)
  from ask_points[OF l assms(2)] assms(1) show ?thesis by (simp add: tenant_inv_def)
qed

lemma tenant_inv_update [simp]:
  "tenant_inv R C pts p P (s\<lparr>rs_searches := x1\<rparr>) = tenant_inv R C pts p P s"
  "tenant_inv R C pts p P (s\<lparr>rs_draft := x2\<rparr>) = tenant_inv R C pts p P s"
  "tenant_inv R C pts p P (s\<lparr>rs_critique := x3\<rparr>) = tenant_inv R C pts p P s"
  "tenant_inv R C pts p P (s\<lparr>rs_issues := x4\<rparr>) = tenant_inv R C pts p P s"
  "tenant_inv R C pts p P (s\<lparr>rs_revisions := x5\<rparr>) = tenant_inv R C pts p P s"
  by (simp_all add: tenant_inv_def)

lemma retrieve_keeps_tenant_inv:
  assumes i: "tenant_inv R C pts p P s" and d: "retrieve_node R s = (Inr d, s')"
  shows "tenant_inv R C pts p P s'"
proof -
  have l: "leaves_points R C pts" using i by (simp add: tenant_inv_def)
  obtain r w where r: "search_all R (p_tenant_id (rs_principal s)) (rs_top_k s) (rs_searches s) [] (world (rs_chat s)) = (r, w)" by fastforce
  then obtain best where b: "r = Inr best" using d by (cases r) (simp_all add: retrieve_node_def)
  have s': "rs_passages s' = merged (rs_top_k s) best" "rs_principal s' = rs_principal s" "world (rs_chat s') = w"
    using d r b by (auto simp: retrieve_node_def Let_def split: if_splits)
  have "best_hits_of [] []" by (simp add: best_hits_of_def)
  from search_all_best[OF this r[unfolded b]] obtain hs where
    hs: "found_hits R (p_tenant_id (rs_principal s)) (rs_top_k s) (rs_searches s) (world (rs_chat s)) = Some hs" "best_hits_of hs best" by auto
  have "set (map snd best) \<subseteq> set hs" using best_hits_values[OF hs(2)] by blast
  then have "set (rs_passages s') \<subseteq> set hs" unfolding s'(1) merged_def using set_take_subset[of "nat (rs_top_k s)" "sort_key (\<lambda>h. - hit_score h) (map snd best)"] by auto
  moreover have "pts w = pts (world (rs_chat s))" using search_all_points[OF l, of "p_tenant_id (rs_principal s)" "rs_top_k s" "rs_searches s" "[]" "world (rs_chat s)"] r by simp
  ultimately show ?thesis using found_from_tenant[OF l hs(1)] i s' by (auto simp: tenant_inv_def)
qed

lemma nodes_keep_tenant_inv:
  assumes i: "tenant_inv R C pts p P s" and f: "dict_get (g_nodes (build_graph R C m)) n = Some f" and d: "f s = (Inr d, s')"
  shows "tenant_inv R C pts p P s'"
  using map_of_SomeD[OF f, unfolded research_nodes(1)]
proof (elim disjE conjE)
  assume f: "f = plan_node C"
  obtain r s0 where r: "ask C ''plan'' (PLAN_SYSTEM (rs_max_searches s)) (rs_question s) s = (r, s0)" by fastforce
  then obtain reply c where "plan_with reply c s0 = (Inr d, s')"
    using d f by (auto simp: plan_node_def split: sum.splits if_splits)
  with asking_keeps_tenant_inv[OF i r] show ?thesis by (auto simp: plan_with_def Let_def)
next
  assume "f = retrieve_node R"
  with retrieve_keeps_tenant_inv[OF i] d show ?thesis by simp
next
  assume f: "f = draft_node C"
  obtain r s0 where r: "ask C ''draft'' (DRAFT_SYSTEM (format_context (rs_passages s))) (rs_question s) s = (r, s0)" by fastforce
  with asking_keeps_tenant_inv[OF i r] d f show ?thesis by (cases r) (auto simp: draft_node_def)
next
  assume f: "f = critique_node C"
  obtain r s0 where r: "ask C ''critique'' (CRITIQUE_SYSTEM (format_context (rs_passages s)))
      (CRITIQUE_USER (rs_question s) (rs_draft s)) s = (r, s0)" by fastforce
  show ?thesis
  proof (cases "rs_max_revisions s \<le> rs_revisions s")
    case True
    then show ?thesis using i d f by (simp add: critique_node_def)
  next
    case False
    with asking_keeps_tenant_inv[OF i r] r d f show ?thesis
      by (cases r) (auto simp: critique_node_def Let_def split: if_splits)
  qed
next
  assume f: "f = revise_node C"
  obtain r s0 where r: "ask C ''revise'' (REVISE_SYSTEM (format_context (rs_passages s)))
      (REVISE_USER (rs_question s) (rs_draft s) (rs_issues s)) s = (r, s0)" by fastforce
  with asking_keeps_tenant_inv[OF i r] d f show ?thesis
    by (cases r) (auto simp: revise_node_def Let_def split: if_splits)
qed

interpretation tenant_run: guarded_graph "run_clock C" "build_graph R C m" "\<lambda>n s. run_inv p q n s \<and> tenant_inv R C pts p P s"
  for R :: "'w retriever" and C m p q pts P
proof
  show "\<exists>f. dict_get (g_nodes (build_graph R C m)) n = Some f" if "run_inv p q n s \<and> tenant_inv R C pts p P s" "n \<noteq> END" for n s
    using agent.node_there that by blast
  show "next_node d \<in> set (targets (build_graph R C m) n) \<and> run_inv p q (next_node d) s' \<and> tenant_inv R C pts p P s'"
    if "run_inv p q n s \<and> tenant_inv R C pts p P s" "dict_get (g_nodes (build_graph R C m)) n = Some f" "f s = (Inr d, s')"
    for n s f d s'
    using run_step[of p q n s R C m f d s'] nodes_keep_tenant_inv[of R C pts p P s m n f d s'] that by blast
qed

lemma answered_from_tenant:
  assumes "leaves_points R C pts" and "0 \<le> rq_max_revisions q" and "research R C m p q c = (Inr a, c')"
  obtains s sts where "a = research_answer s sts" "tenant_inv R C pts p (pts (world c)) s" "\<exists>n. run_inv p q n s"
proof -
  obtain h sts s where run: "run_graph (run_clock C) (build_graph R C m) (start_state p q c) = ((h, sts), s)" by (metis surj_pair)
  have "tenant_inv R C pts p (pts (world c)) (start_state p q c)" using assms(1) by (simp add: tenant_inv_def start_state_def)
  with tenant_run.run_guarded[of p q "''plan''" "start_state p q c" R C pts "pts (world c)" m "[]" h sts s] start_inv[OF assms(2)] run
  have "(\<exists>n. run_inv p q n s \<and> tenant_inv R C pts p (pts (world c)) s) \<or> (\<exists>e. h = NodeRaised e)"
    by (auto simp: run_graph_def build_graph_def)
  moreover have "a = research_answer s sts \<and> (\<nexists>e. h = NodeRaised e)"
    using assms(3) run by (cases h) (simp_all add: research_def)
  ultimately show ?thesis using that by blast
qed

section \<open>Properties\<close>

text \<open>C13: The citations of a research answer, numbered from 1, are passages stored for the tenant that asks and for
  nobody else, each of them once.\<close>

theorem a_research_cites_the_tenants_passages:
  assumes "leaves_points R C pts" and "valid_research q" and "research R C m p q c = (Inr a, c')" and "i < length (ra_citations a)"
  shows "cite_n (ra_citations a ! i) = i + 1 \<and> (cited (ra_citations a ! i) \<longleftrightarrow> (\<exists>x. marks (i + 1) x \<and> sublist x (ra_answer a)))
     \<and> (\<exists>y \<in> points_in (pts (world c) (collection (rt_store R))) (p_tenant_id p) (cite_doc (ra_citations a ! i)).
          cite_index (ra_citations a ! i) = pl_index (pt_payload y) \<and> cite_text (ra_citations a ! i) = pl_text (pt_payload y))"
proof -
  have q: "0 \<le> rq_max_revisions q" using assms(2) by (simp add: valid_research_def)
  obtain s sts where a: "a = research_answer s sts" and t: "tenant_inv R C pts p (pts (world c)) s"
    by (rule answered_from_tenant[OF assms(1) q assms(3)]) blast
  have i: "i < length (rs_passages s)" using assms(4) by (simp add: a research_answer_def numbered_nth)
  then have c: "ra_citations a ! i = agent_citation (cited_numbers (rs_draft s)) (i + 1, rs_passages s ! i)"
    by (simp add: a research_answer_def numbered_nth)
  have "of_tenant R (pts (world c)) (p_tenant_id p) (rc_chunk (rs_passages s ! i))" using t i by (auto simp: tenant_inv_def)
  then show ?thesis using cited_iff[of "i + 1" "rs_draft s"] unfolding c of_tenant_def
    by (simp add: agent_citation_def a research_answer_def)
qed

text \<open>What was planned is what is searched: no node after the plan changes the searches.\<close>

lemma nodes_keep_searches:
  assumes "dict_get (g_nodes (build_graph R C m)) n = Some f" and "n \<noteq> ''plan''" and "f s = (Inr d, s')"
  shows "rs_searches s' = rs_searches s \<and> next_node d \<noteq> ''plan''"
  using map_of_SomeD[OF assms(1), unfolded research_nodes(1)] assms(2,3) retrieve_step[of R s d s'] draft_step[of C s d s']
    critique_step[of C s d s'] revise_step[of C s d s']
  by (auto simp: untouched_def END_def)

interpretation planned: guarded_graph "run_clock C" "build_graph R C m" "\<lambda>n s. run_inv p q n s \<and> n \<noteq> ''plan'' \<and> rs_searches s = qs"
  for R :: "'w retriever" and C m p q qs
proof
  show "\<exists>f. dict_get (g_nodes (build_graph R C m)) n = Some f"
    if "run_inv p q n s \<and> n \<noteq> ''plan'' \<and> rs_searches s = qs" "n \<noteq> END" for n and s :: "'w research_state"
    using agent.node_there that by blast
  show "next_node d \<in> set (targets (build_graph R C m) n) \<and> run_inv p q (next_node d) s' \<and> next_node d \<noteq> ''plan'' \<and> rs_searches s' = qs"
    if "run_inv p q n s \<and> n \<noteq> ''plan'' \<and> rs_searches s = qs" "dict_get (g_nodes (build_graph R C m)) n = Some f" "f s = (Inr d, s')"
    for n s f d s'
    using run_step[of p q n s R C m f d s'] nodes_keep_searches[of R C m n f s d s'] that by blast
qed

text \<open>The errors of a call that every later call would meet too.\<close>

definition dooms :: "chat_error \<Rightarrow> bool" where
  "dooms e \<longleftrightarrow> (\<exists>m. e = RouteFailed (UnknownModel m)) \<or> (\<exists>m ats. e = RouteFailed (ClientRequestError m ats))
     \<or> (\<exists>m ats. e = RouteFailed (AllProvidersFailed m ats))"

lemma fatal_dooms: "fatal e = dooms e"
  by (cases e rule: fatal.cases) (simp_all add: dooms_def)

lemma plan_without_reply:
  assumes "ask C ''plan'' (PLAN_SYSTEM (rs_max_searches s)) (rs_question s) s = (Inl e, s1)" and "\<not> dooms e"
  shows "\<exists>msg. plan_node C s = (Inr \<lparr>next_node = ''retrieve'', next_note = msg\<rparr>, s1\<lparr>rs_searches := [rs_question s]\<rparr>)"
  using ask_counts(1)[OF assms(1)] assms
  by (simp add: plan_node_def fatal_dooms plan_with_def plan_queries_def splitlines_def first_seen_def goto_node_def untouched_def same_request_def)

lemma critique_without_reply:
  assumes "ask C ''critique'' (CRITIQUE_SYSTEM (format_context (rs_passages u))) (CRITIQUE_USER (rs_question u) (rs_draft u)) u = (Inl e, u1)"
    and "rs_revisions u < rs_max_revisions u"
  shows "critique_node C u = (if dooms e then (Inl (ChatFailed e), u1) else (goto_node END ''critique unavailable'', u1))"
  using assms by (simp add: critique_node_def fatal_dooms)

lemma run_once:
  assumes "dict_get (g_nodes (build_graph R C m)) n = Some f" and "n \<noteq> END" and "int (length sts) < m" and "f s = (r, s1)"
  shows "run_from (run_clock C) (build_graph R C m) n sts s =
     (case r of
        Inl e \<Rightarrow> ((NodeRaised e, sts), s1)
      | Inr d \<Rightarrow>
          if next_node d \<in> set (targets (build_graph R C m) n)
          then run_from (run_clock C) (build_graph R C m) (next_node d)
                 (sts @ [\<lparr>step_node = n, step_next = next_node d,
                          step_ms = py_round 2 ((run_clock C s1 - run_clock C s) * 1000), step_note = next_note d\<rparr>]) s1
          else ((halt.Forbidden (move_error (build_graph R C m) n (next_node d)), sts), s1))"
proof -
  have b: "g_max_steps (build_graph R C m) = m" by (simp add: build_graph_def)
  show ?thesis
    using assms by (subst run_from.simps) (simp add: round_at_def b split: sum.split)
qed

lemma ends_at_once: "run_from clock G END sts s = ((Finished_Run, sts), s)"
  by (simp add: run_from.simps)

text \<open>C24: Planning and reviewing are advisory. When the call that plans fails, a run whose error is not one of
  the three that doom every later call (an unknown route, a request a provider refused, no provider left) goes on to
  search for the question itself, and any answer it comes to says it searched for that and nothing else; and when
  the call that reviews fails so, the run is finished there, with the draft, the passages and the citations it
  had. Each of the three errors, in either call, ends the request at once with that error.\<close>

theorem planning_and_reviewing_are_advisory:
  fixes R :: "'w retriever" and C :: "'w chat_service" and u :: "'w research_state"
  assumes "valid_research q" and "0 < m" and "rs_revisions u < rs_max_revisions u" and "int (length sts) < m"
    and "ask C ''plan'' (PLAN_SYSTEM (rq_max_searches q)) (rq_question q) (start_state p q c) = (Inl e, s1)"
    and "ask C ''critique'' (CRITIQUE_SYSTEM (format_context (rs_passages u))) (CRITIQUE_USER (rs_question u) (rs_draft u)) u = (Inl e', u1)"
  defines "G \<equiv> build_graph R C m"
  shows "(if (\<exists>x. e = RouteFailed (UnknownModel x)) \<or> (\<exists>x ats. e = RouteFailed (ClientRequestError x ats))
            \<or> (\<exists>x ats. e = RouteFailed (AllProvidersFailed x ats))
          then research R C m p q c = (Inl (StepFailed (ChatFailed e)), rs_chat s1)
          else (\<exists>st. run_graph (run_clock C) G (start_state p q c) = run_from (run_clock C) G ''retrieve'' [st] (s1\<lparr>rs_searches := [rq_question q]\<rparr>))
             \<and> (\<forall>a c'. research R C m p q c = (Inr a, c') \<longrightarrow> ra_searches a = [rq_question q]))
   \<and> (if (\<exists>x. e' = RouteFailed (UnknownModel x)) \<or> (\<exists>x ats. e' = RouteFailed (ClientRequestError x ats))
            \<or> (\<exists>x ats. e' = RouteFailed (AllProvidersFailed x ats))
      then run_from (run_clock C) G ''critique'' sts u = ((NodeRaised (ChatFailed e'), sts), u1)
      else \<exists>st. run_from (run_clock C) G ''critique'' sts u = ((Finished_Run, sts @ [st]), u1)
             \<and> ra_answer (research_answer u1 (sts @ [st])) = rs_draft u
             \<and> ra_citations (research_answer u1 (sts @ [st])) = ra_citations (research_answer u sts))"
  unfolding dooms_def[symmetric]
proof (intro conjI)
  let ?s = "start_state p q c"
  have f: "rs_max_searches ?s = rq_max_searches q" "rs_question ?s = rq_question q" by (simp_all add: start_state_def)
  have nodes: "dict_get (g_nodes (build_graph R C m)) ''plan'' = Some (plan_node C)"
      "dict_get (g_nodes (build_graph R C m)) ''critique'' = Some (critique_node C)" by (simp_all add: build_graph_def)
  have start: "run_graph (run_clock C) G ?s = run_from (run_clock C) G ''plan'' [] ?s" by (simp add: run_graph_def G_def build_graph_def)
  have plan_asked: "ask C ''plan'' (PLAN_SYSTEM (rs_max_searches ?s)) (rs_question ?s) ?s = (Inl e, s1)" using assms(5) f by simp
  note once = run_once[OF nodes(1), where sts = "[]" and s = ?s] run_once[OF nodes(2) _ assms(4)]
  show "if dooms e then research R C m p q c = (Inl (StepFailed (ChatFailed e)), rs_chat s1)
        else (\<exists>st. run_graph (run_clock C) G ?s = run_from (run_clock C) G ''retrieve'' [st] (s1\<lparr>rs_searches := [rq_question q]\<rparr>))
             \<and> (\<forall>a c'. research R C m p q c = (Inr a, c') \<longrightarrow> ra_searches a = [rq_question q])"
  proof (cases "dooms e")
    case True
    then have "plan_node C ?s = (Inl (ChatFailed e), s1)" using plan_asked by (simp add: plan_node_def fatal_dooms)
    then have "run_graph (run_clock C) G ?s = ((NodeRaised (ChatFailed e), []), s1)"
      using once(1) assms(2) start by (simp add: G_def END_def)
    then show ?thesis using True by (simp add: research_def G_def)
  next
    case False
    from plan_without_reply[OF plan_asked False] obtain msg where
        d: "plan_node C ?s = (Inr \<lparr>next_node = ''retrieve'', next_note = msg\<rparr>, s1\<lparr>rs_searches := [rq_question q]\<rparr>)"
      by (auto simp: f)
    then obtain st where st: "run_graph (run_clock C) G ?s = run_from (run_clock C) G ''retrieve'' [st] (s1\<lparr>rs_searches := [rq_question q]\<rparr>)"
      using once(1)[OF _ _ d] assms(2) start by (simp add: G_def END_def research_targets)
    have "run_inv p q ''retrieve'' (s1\<lparr>rs_searches := [rq_question q]\<rparr>)"
      using run_step[OF start_inv nodes(1) d] assms(1) by (simp add: valid_research_def)
    then have i: "run_inv p q ''retrieve'' (s1\<lparr>rs_searches := [rq_question q]\<rparr>) \<and> ''retrieve'' \<noteq> ''plan''
        \<and> rs_searches (s1\<lparr>rs_searches := [rq_question q]\<rparr>) = [rq_question q]" by simp
    have "ra_searches a = [rq_question q]" if a: "research R C m p q c = (Inr a, c')" for a c'
    proof -
      obtain h ss s where run: "run_from (run_clock C) G ''retrieve'' [st] (s1\<lparr>rs_searches := [rq_question q]\<rparr>) = ((h, ss), s)"
        by (metis surj_pair)
      then have "a = research_answer s ss" "h = Finished_Run \<or> (\<exists>b. h = OutOfBudget b)"
        using a st unfolding G_def by (auto simp: research_def split: halt.splits)
      moreover have "rs_searches s = [rq_question q]"
        using planned.run_guarded[OF i run[unfolded G_def]] calculation(2) by auto
      ultimately show ?thesis by (simp add: research_answer_def)
    qed
    then show ?thesis using False st by auto
  qed
  show "if dooms e' then run_from (run_clock C) G ''critique'' sts u = ((NodeRaised (ChatFailed e'), sts), u1)
      else \<exists>st. run_from (run_clock C) G ''critique'' sts u = ((Finished_Run, sts @ [st]), u1)
             \<and> ra_answer (research_answer u1 (sts @ [st])) = rs_draft u
             \<and> ra_citations (research_answer u1 (sts @ [st])) = ra_citations (research_answer u sts)"
  proof (cases "dooms e'")
    case True
    then have "critique_node C u = (Inl (ChatFailed e'), u1)" using critique_without_reply[OF assms(6,3)] by simp
    from once(2)[OF _ this] True show ?thesis by (simp add: G_def END_def)
  next
    case False
    then have "critique_node C u = (goto_node END ''critique unavailable'', u1)" using critique_without_reply[OF assms(6,3)] by simp
    from once(2)[OF _ this] have "\<exists>st. run_from (run_clock C) G ''critique'' sts u = ((Finished_Run, sts @ [st]), u1)"
      by (simp add: G_def END_def[symmetric] goto_node_def research_targets ends_at_once) (simp add: END_def)
    then show ?thesis using False ask_counts(1)[OF assms(6)] by (auto simp: research_answer_def untouched_def)
  qed
qed

section \<open>A small run\<close>

definition ex_research :: research_request where
  "ex_research = \<lparr>rq_question = ''what?'', rq_model = ''g'', rq_top_k = 2, rq_max_searches = 1, rq_max_revisions = 0, rq_cache = False\<rparr>"

lemma ex_research_valid: "valid_research ex_research" by (simp add: valid_research_def ex_research_def)

lemma research_graph_accepted: "make_graph (build_graph R C m) = Inr (build_graph R C m)"
  by (simp add: make_graph_def graph_complaint_def build_graph_def edge_error_def unknown_targets_def END_def)

lemma agent_context: "format_context hits = context_text hits" "DRAFT_SYSTEM = system_prompt"
proof -
  have "(case x of (n, h) \<Rightarrow> ''['' @ decimal n @ ''] ('' @ agent_label h @ '')'' @ [CHR 0x0A] @ s_text (rc_chunk h)) = passage_text x" for x
    by (cases x) (simp add: passage_text_def lines_def agent_label_def passage_label_def)
  then show "format_context hits = context_text hits" unfolding format_context_def context_text_def by (simp cong: map_cong)
qed (simp add: fun_eq_iff DRAFT_SYSTEM_def system_prompt_def)

lemma a_run_settles_within_its_budget_witness:
  "\<exists>h sts s. run_graph (run_clock ex_service) (build_graph ex_retriever ex_service 12) (start_state ex_principal ex_research ex_state) = ((h, sts), s)
     \<and> length sts \<le> 10"
proof -
  obtain h sts s where run: "run_graph (run_clock ex_service) (build_graph ex_retriever ex_service 12) (start_state ex_principal ex_research ex_state) = ((h, sts), s)"
    by (metis surj_pair)
  have "4 + 2 * rq_max_revisions ex_research \<le> 12" by (simp add: ex_research_def)
  from a_run_settles_within_its_budget[OF ex_research_valid this run] run show ?thesis by blast
qed

text \<open>The retriever of the example finds its one point whatever is asked; with a budget of two steps the run is
  stopped before the draft.\<close>

lemma ex_finds: "\<exists>h. \<forall>x w. retrieve ex_retriever ''t'' x 2 True w = (Ready [h], w)"
proof -
  have i: "point_id small_store ''t'' ''d'' 0 = ''t/d/0''" by (simp add: point_id_def small_store_def decimal.simps digit_def) code_simp
  show ?thesis
    using i by (auto simp: retrieve_def find_hits_def hybrid_search_def run_query_def ex_retriever_def new_retriever_def
        small_store_def small_qdrant_def small_points_def point_of_def small_chunk_def unranked_def)
qed

lemma ex_research_answers:
  "\<exists>a c'. research ex_retriever ex_service 2 ex_principal ex_research ex_state = (Inr a, c') \<and> length (ra_citations a) = 1 \<and> ra_calls a = 1"
proof -
  define s where "s = start_state ex_principal ex_research ex_state"
  have f: "rs_principal s = ex_principal" "rs_chat s = ex_state" "rs_top_k s = 2" "rs_calls s = 0" "rs_max_searches s = 1" "rs_question s = ''what?''"
    by (simp_all add: s_def start_state_def ex_research_def)
  obtain h where h: "\<And>x w. retrieve ex_retriever ''t'' x 2 True w = (Ready [h], w)" using ex_finds by blast
  have "req_model (ask_request s ''plan'' x y) = ''g''" for x y by (simp add: ask_request_def s_def start_state_def ex_research_def)
  from ex_answers[OF this] obtain resp c where c: "chat_complete ex_service ex_principal (ask_request s ''plan'' (PLAN_SYSTEM 1) ''what?'') ex_state = (Inr resp, c)" by blast
  then obtain reply cut1 s1 where a: "ask ex_service ''plan'' (PLAN_SYSTEM 1) ''what?'' s = (Inr (reply, cut1), s1)" by (simp add: ask_def f)
  obtain d s2 where d: "plan_node ex_service s = (Inr d, s2)" using a by (auto simp: plan_node_def f plan_with_def goto_node_def Let_def)
  note p = plan_step[OF d]
  have "plan_with reply cut1 s1 = (Inr d, s2)" using a d by (simp add: plan_node_def f)
  then have "rs_calls s2 = rs_calls s1" by (auto simp: plan_with_def Let_def)
  then have p2: "rs_principal s2 = ex_principal" "rs_top_k s2 = 2" "rs_calls s2 = 1"
    using p ask_counts(2)[OF a] f by (auto simp: untouched_def same_request_def)
  have "rs_searches s2 \<noteq> []" "length (rs_searches s2) \<le> 1" using p f by simp_all
  then obtain x where x: "rs_searches s2 = [x]" by (cases "rs_searches s2") auto
  have r: "retrieve_node ex_retriever s2 = (goto_node ''draft'' (decimal 1 @ '' passage(s)''), s2\<lparr>rs_passages := [h]\<rparr>)"
    using p2 x h by (simp add: retrieve_node_def merged_def keep_best_def Let_def ex_principal_def)
  define G where "G = build_graph ex_retriever ex_service 2"
  have G: "g_max_steps G = 2" "dict_get (g_nodes G) ''plan'' = Some (plan_node ex_service)" "dict_get (g_nodes G) ''retrieve'' = Some (retrieve_node ex_retriever)"
      "targets G ''plan'' = [''retrieve'']" "targets G ''retrieve'' = [''draft'', END]" "g_entry G = ''plan''"
    by (simp_all add: G_def build_graph_def targets_def)
  obtain t1 where t1: "round_at (run_clock ex_service) G ''plan'' s = (Inr t1, s2)" "step_next t1 = ''retrieve''"
    using d p by (simp add: round_at_def G)
  obtain t2 where t2: "round_at (run_clock ex_service) G ''retrieve'' s2 = (Inr t2, s2\<lparr>rs_passages := [h]\<rparr>)" "step_next t2 = ''draft''"
    using r by (simp add: round_at_def G goto_node_def)
  have "run_graph (run_clock ex_service) G s = ((OutOfBudget (budget_error G), [t1, t2]), s2\<lparr>rs_passages := [h]\<rparr>)"
    by (simp add: run_graph_def G run_from.simps t1 t2 END_def)
  then show ?thesis using p2 by (simp add: research_def G_def[symmetric] s_def[symmetric] research_answer_def numbered_def)
qed

lemma a_research_keeps_its_bounds_witness:
  "\<exists>a c'. research ex_retriever ex_service 2 ex_principal ex_research ex_state = (Inr a, c') \<and> ra_calls a \<le> 2 \<and> int (length (ra_steps a)) \<le> 2"
proof -
  obtain a c' where a: "research ex_retriever ex_service 2 ex_principal ex_research ex_state = (Inr a, c')" using ex_research_answers by blast
  have "0 \<le> (2 :: int)" by simp
  from a_research_keeps_its_bounds[OF ex_research_valid this a] a show ?thesis by (auto simp: ex_research_def)
qed

lemma ex_leaves_points: "leaves_points ex_retriever ex_service (\<lambda>_. small_points)"
  using ex_retriever_reads by (simp add: leaves_points_def)

lemma a_research_cites_the_tenants_passages_witness:
  "\<exists>a c' x. research ex_retriever ex_service 2 ex_principal ex_research ex_state = (Inr a, c') \<and> ra_citations a = [x] \<and> cite_n x = 1"
proof -
  obtain a c' where a: "research ex_retriever ex_service 2 ex_principal ex_research ex_state = (Inr a, c')" "length (ra_citations a) = 1"
    using ex_research_answers by blast
  have "0 < length (ra_citations a)" using a by simp
  from a_research_cites_the_tenants_passages[OF ex_leaves_points ex_research_valid a(1) this] a show ?thesis
    by (cases "ra_citations a") auto
qed

lemma searches_merge_to_the_best_passages_witness:
  "\<exists>d s' h. retrieve_node ex_retriever ((start_state ex_principal ex_research ex_state)\<lparr>rs_searches := [''a'', ''b'']\<rparr>) = (Inr d, s')
     \<and> rs_passages s' = [h]"
proof -
  define s where "s = (start_state ex_principal ex_research ex_state)\<lparr>rs_searches := [''a'', ''b'']\<rparr>"
  have f: "rs_principal s = ex_principal" "rs_top_k s = 2" "rs_searches s = [''a'', ''b'']" "rs_chat s = ex_state"
    by (simp_all add: s_def start_state_def ex_research_def)
  obtain h where h: "\<And>x w. retrieve ex_retriever ''t'' x 2 True w = (Ready [h], w)" using ex_finds by blast
  have r: "retrieve_node ex_retriever s = (goto_node ''draft'' (decimal 1 @ '' passage(s)''), s\<lparr>rs_passages := [h]\<rparr>)"
    using h f by (simp add: retrieve_node_def merged_def keep_best_def Let_def ex_principal_def)
  then obtain d where d: "retrieve_node ex_retriever s = (Inr d, s\<lparr>rs_passages := [h]\<rparr>)" by (simp add: goto_node_def)
  have "0 \<le> rs_top_k s" using f by simp
  from searches_merge_to_the_best_passages[OF this d] d show ?thesis unfolding s_def[symmetric] by auto
qed

text \<open>A route that is not there dooms a run at its first call; Redis failing under the accounting does not: the
  run goes on to search, and a review it fails ends the run with the draft.\<close>

definition unmetered_service :: "keyspace chat_service" where
  "unmetered_service = ex_service\<lparr>cs_redis := (\<lambda>c w. (Raised, w))\<rparr>"

lemma unmetered_asks:
  assumes "rs_model s = ''g''" "rs_principal s = ex_principal" "rs_chat s = ex_state"
  shows "\<exists>s1. ask unmetered_service stp x y s = (Inl Unavailable, s1)"
proof -
  let ?req = "ask_request s stp x y"
  obtain rr g1 where rr: "router_complete (cs_router ex_service) ?req (r_config (cs_router ex_service)) ex_gateway = (Inr rr, g1)"
    using assms(1) by (simp add: ask_request_def ex_service_def router_complete_def route_request_def prepare_chain_def
        stream_router_def retry_eval ex_defs count_tokens_def eval_nat_numeral)
  have "meter unmetered_service p e t = (None, t)" for p e t
    by (simp add: meter_def meter_record_def unmetered_service_def pipeline_def record_cmds_def)
  moreover have "cs_rollout unmetered_service = None" "cs_cache unmetered_service = None" "gw ex_state = ex_gateway"
      "cs_router unmetered_service = cs_router ex_service" "dict_get (r_config (cs_router ex_service)) ''g'' \<noteq> None" "req_model ?req = ''g''"
    using assms(1) by (simp_all add: unmetered_service_def ex_service_def ex_state_def ask_request_def)
  ultimately have "\<exists>t. chat_complete unmetered_service ex_principal ?req ex_state = (Inl Unavailable, t)"
    using rr by (simp add: chat_complete_def chat_select_def complete_inner_def chat_lookup_def answer_call_def chat_store_def
        record_variant_def Let_def)
  then show ?thesis using assms by (auto simp: ask_def Let_def)
qed

lemma planning_and_reviewing_are_advisory_witness:
  "(\<exists>c'. research ex_retriever ex_service 12 ex_principal (ex_research\<lparr>rq_model := ''none'', rq_max_revisions := 1\<rparr>) ex_state
     = (Inl (StepFailed (ChatFailed (RouteFailed (UnknownModel ''none'')))), c'))
   \<and> (\<exists>st s1. run_graph (run_clock unmetered_service) (build_graph ex_retriever unmetered_service 12)
         (start_state ex_principal (ex_research\<lparr>rq_max_revisions := 1\<rparr>) ex_state)
       = run_from (run_clock unmetered_service) (build_graph ex_retriever unmetered_service 12) ''retrieve'' [st] s1
       \<and> rs_searches s1 = [''what?''])"
proof -
  have v: "valid_research (ex_research\<lparr>rq_model := x, rq_max_revisions := 1\<rparr>)" for x by (simp add: valid_research_def ex_research_def)
  let ?s = "\<lambda>x. start_state ex_principal (ex_research\<lparr>rq_model := x, rq_max_revisions := 1\<rparr>) ex_state"
  have f: "rs_principal (?s x) = ex_principal" "rs_chat (?s x) = ex_state" "rs_revisions (?s x) < rs_max_revisions (?s x)"
      "rs_model (?s x) = x" for x
    by (simp_all add: start_state_def ex_research_def)
  have "fst (chat_complete ex_service ex_principal (ask_request (?s ''none'') stp x y) ex_state) = Inl (RouteFailed (UnknownModel ''none''))" for stp x y
    by (simp add: chat_complete_def chat_select_def ex_service_def ask_request_def f)
  then have a: "\<exists>s1. ask ex_service stp x y (?s ''none'') = (Inl (RouteFailed (UnknownModel ''none'')), s1)" for stp x y
    by (simp add: ask_def f split_beta Let_def)
  have b: "\<exists>s1. ask unmetered_service stp x y (?s ''g'') = (Inl Unavailable, s1)" for stp x y
    by (rule unmetered_asks) (simp_all add: f)
  have m: "0 < (12 :: int)" "int (length ([] :: step list)) < 12" by simp_all
  obtain s1 s2 where none: "ask ex_service ''plan'' (PLAN_SYSTEM (rq_max_searches (ex_research\<lparr>rq_model := ''none'', rq_max_revisions := 1\<rparr>)))
        (rq_question (ex_research\<lparr>rq_model := ''none'', rq_max_revisions := 1\<rparr>)) (?s ''none'') = (Inl (RouteFailed (UnknownModel ''none'')), s1)"
      "ask ex_service ''critique'' (CRITIQUE_SYSTEM (format_context (rs_passages (?s ''none''))))
        (CRITIQUE_USER (rs_question (?s ''none'')) (rs_draft (?s ''none''))) (?s ''none'') = (Inl (RouteFailed (UnknownModel ''none'')), s2)"
    using a by blast
  obtain t1 t2 where g: "ask unmetered_service ''plan'' (PLAN_SYSTEM (rq_max_searches (ex_research\<lparr>rq_model := ''g'', rq_max_revisions := 1\<rparr>)))
        (rq_question (ex_research\<lparr>rq_model := ''g'', rq_max_revisions := 1\<rparr>)) (?s ''g'') = (Inl Unavailable, t1)"
      "ask unmetered_service ''critique'' (CRITIQUE_SYSTEM (format_context (rs_passages (?s ''g''))))
        (CRITIQUE_USER (rs_question (?s ''g'')) (rs_draft (?s ''g''))) (?s ''g'') = (Inl Unavailable, t2)"
    using b by blast
  have same: "ex_research\<lparr>rq_model := ''g'', rq_max_revisions := 1\<rparr> = ex_research\<lparr>rq_max_revisions := 1\<rparr>" "rq_question ex_research = ''what?''"
    by (simp_all add: ex_research_def)
  obtain st where "run_graph (run_clock unmetered_service) (build_graph ex_retriever unmetered_service 12)
         (start_state ex_principal (ex_research\<lparr>rq_max_revisions := 1\<rparr>) ex_state)
       = run_from (run_clock unmetered_service) (build_graph ex_retriever unmetered_service 12) ''retrieve'' [st] (t1\<lparr>rs_searches := [''what?'']\<rparr>)"
    using planning_and_reviewing_are_advisory[OF v m(1) f(3) m(2) g, of ex_retriever, THEN conjunct1, unfolded same]
    by (auto simp: same)
  moreover have "rs_searches (t1\<lparr>rs_searches := [''what?'']\<rparr>) = [''what?'']" by simp
  moreover have "research ex_retriever ex_service 12 ex_principal (ex_research\<lparr>rq_model := ''none'', rq_max_revisions := 1\<rparr>) ex_state
     = (Inl (StepFailed (ChatFailed (RouteFailed (UnknownModel ''none'')))), rs_chat s1)"
    using planning_and_reviewing_are_advisory[OF v m(1) f(3) m(2) none, of ex_retriever, THEN conjunct1] by simp
  ultimately show ?thesis by blast
qed

end
