(* ===== verification/Documents.thy ===== *)
theory Documents
  imports Redis
begin

text \<open>
  The registry of a tenant's documents in Redis (\<open>app/rag/documents.py\<close>): a record of each document
  as JSON and a sorted set of their ids by creation time. A creation time is its ISO text; \<open>epoch\<close> is
  \<open>datetime.timestamp\<close> of it. \<open>None\<close> is an exception of Redis or pydantic.
\<close>

record doc_record =
  d_id :: string
  d_title :: string
  d_filename :: string
  d_type :: "string option"
  d_size :: int
  d_pages :: "int option"
  d_chunks :: int
  d_chunker :: string
  d_created :: string

record 'w docs_env =
  dx :: "'w redis"
  epoch :: "string \<Rightarrow> real"

definition doc_key :: "string \<Rightarrow> string \<Rightarrow> string" where "doc_key t d = ''ragdoc:'' @ t @ '':'' @ d"
definition doc_index_key :: "string \<Rightarrow> string" where "doc_index_key t = ''ragdocs:'' @ t"

definition doc_json :: "doc_record \<Rightarrow> json" where
  "doc_json r = JObj
     [(''doc_id'', JStr (d_id r)), (''title'', JStr (d_title r)), (''filename'', JStr (d_filename r)),
      (''content_type'', js (d_type r)), (''size_bytes'', JNum (d_size r)),
      (''pages'', (case d_pages r of None \<Rightarrow> JNull | Some n \<Rightarrow> JNum n)), (''chunks'', JNum (d_chunks r)),
      (''chunker'', JStr (d_chunker r)), (''created_at'', JStr (d_created r))]"

text \<open>\<open>model_validate_json\<close>; unlike those of a job the two optional fields are required.\<close>

definition parse_doc :: "json \<Rightarrow> doc_record option" where
  "parse_doc x =
     (case (json_get x ''doc_id'', json_get x ''title'', json_get x ''filename'', json_get x ''content_type'',
            json_get x ''size_bytes'', json_get x ''pages'', json_get x ''chunks'', json_get x ''chunker'',
            json_get x ''created_at'') of
        (Some (JStr i), Some (JStr t), Some (JStr f), Some c, Some (JNum n), Some p, Some (JNum k), Some (JStr ch), Some (JStr cr)) \<Rightarrow>
          (case (sj (Some c), nj (Some p)) of
             (Some ct, Some pg) \<Rightarrow>
               Some \<lparr>d_id = i, d_title = t, d_filename = f, d_type = ct, d_size = n, d_pages = pg, d_chunks = k,
                     d_chunker = ch, d_created = cr\<rparr>
           | _ \<Rightarrow> None)
      | _ \<Rightarrow> None)"

lemma parse_doc_json [simp]: "parse_doc (doc_json r) = Some r"
  by (simp add: doc_json_def parse_doc_def)

definition registry_put :: "'w docs_env \<Rightarrow> string \<Rightarrow> doc_record \<Rightarrow> 'w \<Rightarrow> unit option \<times> 'w" where
  "registry_put E t r w =
     (let (rs, w1) = pipeline (dx E)
            [SET (doc_key t (d_id r)) (Json (doc_json r)), ZADD (doc_index_key t) (d_id r) (epoch E (d_created r))] w
      in (map_option (\<lambda>_. ()) rs, w1))"

text \<open>\<open>if raw\<close>: an empty value counts as none.\<close>

definition read_doc :: "bulk \<Rightarrow> doc_record option option" where
  "read_doc b = (if b = Txt [] then Some None
                 else case Option.bind (bulk_json b) parse_doc of None \<Rightarrow> None | Some r \<Rightarrow> Some (Some r))"

definition registry_get :: "'w docs_env \<Rightarrow> string \<Rightarrow> string \<Rightarrow> 'w \<Rightarrow> doc_record option option \<times> 'w" where
  "registry_get E t d w =
     (let (r, w1) = dx E (GET (doc_key t d)) w in
      (case r of NilReply \<Rightarrow> Some None | Bulk b \<Rightarrow> read_doc b | _ \<Rightarrow> None, w1))"

fun read_docs :: "bulk option list \<Rightarrow> doc_record list option" where
  "read_docs [] = Some []"
| "read_docs (None # bs) = read_docs bs"
| "read_docs (Some b # bs) =
     (case read_doc b of
        None \<Rightarrow> None
      | Some None \<Rightarrow> read_docs bs
      | Some (Some r) \<Rightarrow> map_option ((#) r) (read_docs bs))"

definition registry_list :: "'w docs_env \<Rightarrow> string \<Rightarrow> 'w \<Rightarrow> doc_record list option \<times> 'w" where
  "registry_list E t w =
     (case dx E (ZREVRANGE (doc_index_key t) 0 (-1)) w of
        (Bulks bs, w1) \<Rightarrow>
          (case text_ids bs of
             None \<Rightarrow> (None, w1)
           | Some ids \<Rightarrow>
               if ids = [] then (Some [], w1)
               else (case dx E (MGET (map (doc_key t) ids)) w1 of
                       (Bulks raws, w2) \<Rightarrow> (read_docs raws, w2)
                     | (r, w2) \<Rightarrow> (None, w2)))
      | (r, w1) \<Rightarrow> (None, w1))"

definition registry_delete :: "'w docs_env \<Rightarrow> string \<Rightarrow> string \<Rightarrow> 'w \<Rightarrow> bool option \<times> 'w" where
  "registry_delete E t d w =
     (let (rs, w1) = pipeline (dx E) [DEL [doc_key t d], ZREM (doc_index_key t) [d]] w in
      (case rs of Some (Integer n # _) \<Rightarrow> Some (n \<noteq> 0) | _ \<Rightarrow> None, w1))"

section \<open>The registry as a map\<close>

text \<open>What the registry promises: per tenant, a map from document ids to records. Ids are hexadecimal, so
  they hold no colon.\<close>

type_synonym doc_map = "string \<Rightarrow> string \<Rightarrow> doc_record option"

definition plain_id :: "string \<Rightarrow> bool" where "plain_id d \<longleftrightarrow> CHR '':'' \<notin> set d"

definition holds :: "(string \<Rightarrow> real) \<Rightarrow> doc_map \<Rightarrow> keyspace \<Rightarrow> bool" where
  "holds ep A ks \<longleftrightarrow>
     (\<forall>t d. plain_id d \<longrightarrow> ks (doc_key t d) = map_option (\<lambda>r. (RStr (Json (doc_json r)), None)) (A t d))
   \<and> (\<forall>t d r. A t d = Some r \<longrightarrow> plain_id d \<and> d_id r = d)
   \<and> (\<forall>t. \<exists>z. zset_at ks (doc_index_key t) = Some z \<and> zset_ok z
          \<and> set z = {(d, ep (d_created r)) | d r. A t d = Some r})"

lemma doc_key_eq:
  assumes "plain_id d" "plain_id d'"
  shows "doc_key t d = doc_key t' d' \<longleftrightarrow> t = t' \<and> d = d'"
proof
  assume e: "doc_key t d = doc_key t' d'"
  have w: "takeWhile (\<lambda>c. c \<noteq> CHR '':'') (rev (doc_key u x)) = rev x" if "plain_id x" for u x
    using that by (simp add: doc_key_def plain_id_def takeWhile_append)
  have "d = d'" using w[OF assms(1), of t] w[OF assms(2), of t'] e by simp
  then show "t = t' \<and> d = d'" using e by (simp add: doc_key_def)
qed simp

lemma doc_keys [simp]: "doc_key t d \<noteq> doc_index_key u" "doc_index_key u \<noteq> doc_key t d"
  "doc_index_key t = doc_index_key u \<longleftrightarrow> t = u"
  by (auto simp: doc_key_def doc_index_key_def)

lemma holds_index:
  assumes "holds ep A ks"
  obtains z where "zset_at ks (doc_index_key t) = Some z" "zset_ok z"
    "set z = {(d, ep (d_created r)) | d r. A t d = Some r}"
  using assms unfolding holds_def by blast

lemma holds_record:
  assumes "holds ep A ks" and "plain_id d"
  shows "ks (doc_key t d) = map_option (\<lambda>r. (RStr (Json (doc_json r)), None)) (A t d)"
  using assms unfolding holds_def by blast

text \<open>One document changes: its record, and its entry in the index of its tenant.\<close>

lemma holds_change:
  assumes "holds ep A ks" and "plain_id d" and "\<And>r. x = Some r \<Longrightarrow> d_id r = d"
    and "ks' (doc_key t d) = map_option (\<lambda>r. (RStr (Json (doc_json r)), None)) x"
    and "\<And>k. k \<noteq> doc_key t d \<Longrightarrow> k \<noteq> doc_index_key t \<Longrightarrow> ks' k = ks k"
    and "zset_at ks' (doc_index_key t) = Some z" and "zset_ok z"
    and "set z = {(d', ep (d_created r)) | d' r. ((A t)(d := x)) d' = Some r}"
  shows "holds ep (A(t := (A t)(d := x))) ks'"
proof -
  have "ks' (doc_key u e) = map_option (\<lambda>r. (RStr (Json (doc_json r)), None)) ((A(t := (A t)(d := x))) u e)" if "plain_id e" for u e
    using assms(4,5) holds_record[OF assms(1) that, of u] doc_key_eq[OF that assms(2), of u t] by auto
  moreover have "plain_id e \<and> d_id r = e" if "(A(t := (A t)(d := x))) u e = Some r" for u e r
    using that assms(1-3) unfolding holds_def by (auto split: if_splits)
  moreover have "\<exists>z. zset_at ks' (doc_index_key u) = Some z \<and> zset_ok z
      \<and> set z = {(d', ep (d_created r)) | d' r. (A(t := (A t)(d := x))) u d' = Some r}" for u
  proof (cases "u = t")
    case True
    then show ?thesis using assms(6-8) by auto
  next
    case False
    then have "zset_at ks' (doc_index_key u) = zset_at ks (doc_index_key u)" by (intro at_same_key assms(5)) simp_all
    moreover obtain y where "zset_at ks (doc_index_key u) = Some y" "zset_ok y"
        "set y = {(d, ep (d_created r)) | d r. A u d = Some r}" by (rule holds_index[OF assms(1)])
    ultimately show ?thesis using False by (intro exI[of _ y]) simp
  qed
  ultimately show ?thesis unfolding holds_def by blast
qed

lemma put_doc:
  assumes "holds ep A ks" and "plain_id (d_id r)"
  shows "\<exists>rs ks'. pipeline doc [SET (doc_key t (d_id r)) (Json (doc_json r)), ZADD (doc_index_key t) (d_id r) (ep (d_created r))] ks
           = (Some rs, ks') \<and> holds ep (A(t := (A t)(d_id r \<mapsto> r))) ks'"
proof -
  obtain z where z: "zset_at ks (doc_index_key t) = Some z" "zset_ok z" "set z = {(d, ep (d_created r)) | d r. A t d = Some r}"
    by (rule holds_index[OF assms(1)])
  let ?k = "ks(doc_key t (d_id r) \<mapsto> (RStr (Json (doc_json r)), None))"
  let ?k' = "put_zset (doc_index_key t) (zput (d_id r) (ep (d_created r)) z) ?k"
  have p: "\<exists>rs. pipeline doc [SET (doc_key t (d_id r)) (Json (doc_json r)), ZADD (doc_index_key t) (d_id r) (ep (d_created r))] ks
      = (Some rs, ?k')"
    using z(1) by (simp add: pipeline_def redis_simps)
  have "set (zput (d_id r) (ep (d_created r)) z)
      = {(d', ep (d_created y)) | d' y. ((A t)(d_id r \<mapsto> r)) d' = Some y}"
    by (auto simp: set_zput z(3) split: if_splits)
  then have "holds ep (A(t := (A t)(d_id r \<mapsto> r))) ?k'"
    by (intro holds_change[OF assms(1,2)]) (simp_all add: redis_simps zset_ok_zput z(2))
  with p show ?thesis by blast
qed

lemma delete_doc:
  assumes "holds ep A ks" and "plain_id d"
  shows "\<exists>n ks'. pipeline doc [DEL [doc_key t d], ZREM (doc_index_key t) [d]] ks = (Some [Integer (if A t d = None then 0 else 1), Integer n], ks')
           \<and> holds ep (A(t := (A t)(d := None))) ks'"
proof -
  obtain z where z: "zset_at ks (doc_index_key t) = Some z" "zset_ok z" "set z = {(d, ep (d_created r)) | d r. A t d = Some r}"
    by (rule holds_index[OF assms(1)])
  let ?k = "ks |` (- {doc_key t d})" and ?z = "filter (\<lambda>(m, x). m \<notin> {d}) z"
  let ?k' = "put_zset (doc_index_key t) ?z ?k"
  have "present ks [doc_key t d] = (if A t d = None then 0 else 1)"
    using holds_record[OF assms, of t] by (simp add: present_def)
  then have p: "\<exists>n. pipeline doc [DEL [doc_key t d], ZREM (doc_index_key t) [d]] ks
      = (Some [Integer (if A t d = None then 0 else 1), Integer n], ?k')"
    using z(1) by (simp add: pipeline_def redis_simps)
  have "set ?z = {(d', ep (d_created y)) | d' y. ((A t)(d := None)) d' = Some y}"
    by (auto simp: z(3))
  moreover have "zset_ok ?z" by (rule zset_ok_filter[OF z(2)])
  ultimately have "holds ep (A(t := (A t)(d := None))) ?k'"
    by (intro holds_change[OF assms, where z = ?z]) (assumption | simp add: redis_simps)+
  with p show ?thesis by blast
qed

lemma read_docs_all:
  "(\<And>i. i \<in> set ids \<Longrightarrow> f i = Some (Json (doc_json (g i)))) \<Longrightarrow> read_docs (map f ids) = Some (map g ids)"
  by (induction ids) (auto simp: read_doc_def)

lemma text_ids_members: "text_ids (map (\<lambda>(m, x). Some (Txt m)) z) = Some (map fst z)"
  by (induction z) auto

lemma list_range_all: "list_range 0 (-1) xs = xs"
  by (simp add: list_range_def Let_def)

lemma registry_put_ok:
  assumes "redis_ok (dx E) keys" and "holds (epoch E) A (keys w)" and "plain_id (d_id r)"
  shows "\<exists>w'. registry_put E t r w = (Some (), w') \<and> holds (epoch E) (A(t := (A t)(d_id r \<mapsto> r))) (keys w')"
  using put_doc[OF assms(2,3), of t] redis_rules(3,4)[OF assms(1)] by (fastforce simp: registry_put_def split_beta)

lemma registry_get_ok:
  assumes "redis_ok (dx E) keys" and "holds (epoch E) A (keys w)" and "plain_id d"
  shows "\<exists>w'. registry_get E t d w = (Some (A t d), w') \<and> keys w' = keys w"
  using holds_record[OF assms(2,3), of t] redis_rules(1,2)[OF assms(1), of "GET (doc_key t d)" w]
  by (cases "dx E (GET (doc_key t d)) w") (auto simp: registry_get_def read_doc_def split: option.splits)

lemma registry_delete_ok:
  assumes "redis_ok (dx E) keys" and "holds (epoch E) A (keys w)" and "plain_id d"
  shows "\<exists>w'. registry_delete E t d w = (Some (A t d \<noteq> None), w') \<and> holds (epoch E) (A(t := (A t)(d := None))) (keys w')"
  using delete_doc[OF assms(2,3), of t] redis_rules(3,4)[OF assms(1)] by (fastforce simp: registry_delete_def split_beta)

lemma list_docs:
  assumes "redis_ok (dx E) keys" and "holds (epoch E) A (keys w)"
  shows "\<exists>l w'. registry_list E t w = (Some l, w') \<and> keys w' = keys w \<and> set l = ran (A t) \<and> distinct (map d_id l)
           \<and> sorted_wrt (\<lambda>r s. epoch E (d_created r) \<ge> epoch E (d_created s)) l"
proof -
  obtain z where z: "zset_at (keys w) (doc_index_key t) = Some z" "zset_ok z"
      "set z = {(d, epoch E (d_created r)) | d r. A t d = Some r}"
    by (rule holds_index[OF assms(2)])
  define ids where "ids = rev (map fst z)"
  define g where "g = (\<lambda>d. the (A t d))"
  have in_A: "A t d = Some (g d) \<and> x = epoch E (d_created (g d)) \<and> plain_id d \<and> d_id (g d) = d" if "(d, x) \<in> set z" for d x
    using that z(3) assms(2) unfolding holds_def g_def by force
  obtain w1 where w1: "dx E (ZREVRANGE (doc_index_key t) 0 (-1)) w = (Bulks (map (\<lambda>(m, x). Some (Txt m)) (rev z)), w1)"
      "keys w1 = keys w"
    using redis_rules(1,2)[OF assms(1), of "ZREVRANGE (doc_index_key t) 0 (-1)" w] z(1)
    by (cases "dx E (ZREVRANGE (doc_index_key t) 0 (-1)) w") (auto simp: members_def list_range_all)
  have t: "text_ids (map (\<lambda>(m, x). Some (Txt m)) (rev z)) = Some ids"
    unfolding text_ids_members ids_def by (simp add: rev_map)
  have raws: "read_docs (map (get_doc (keys w) \<circ> doc_key t) ids) = Some (map g ids)"
    using in_A holds_record[OF assms(2), of _ t] by (intro read_docs_all) (auto simp: ids_def get_doc_def)
  have set: "set (map g ids) = ran (A t)"
    using in_A z(3) by (force simp: ids_def ran_def image_iff g_def)
  have "map d_id (map g ids) = ids" unfolding map_map by (rule map_idI) (use in_A in \<open>auto simp: ids_def\<close>)
  then have dist: "distinct (map d_id (map g ids))" using z(2) by (simp add: ids_def zset_ok_def)
  have "sorted_wrt (\<lambda>p q. snd q \<le> snd p) (rev z)"
    unfolding sorted_wrt_rev by (rule sorted_wrt_mono_rel[OF _ z(2)[unfolded zset_ok_def, THEN conjunct1]]) auto
  moreover have "map g ids = map (\<lambda>p. g (fst p)) (rev z)" by (simp add: ids_def rev_map)
  ultimately have sorted: "sorted_wrt (\<lambda>r s. epoch E (d_created r) \<ge> epoch E (d_created s)) (map g ids)"
    by (simp add: sorted_wrt_map) (rule sorted_wrt_mono_rel[rotated], assumption, use in_A in force)
  show ?thesis
  proof (cases "ids = []")
    case True
    then show ?thesis using w1 t set by (auto simp: registry_list_def)
  next
    case False
    obtain w2 where "dx E (MGET (map (doc_key t) ids)) w1 = (Bulks (map (get_doc (keys w) \<circ> doc_key t) ids), w2)" "keys w2 = keys w"
      using redis_rules(1,2)[OF assms(1), of "MGET (map (doc_key t) ids)" w1] w1(2)
      by (cases "dx E (MGET (map (doc_key t) ids)) w1") auto
    then show ?thesis using w1 t raws False set dist sorted by (auto simp: registry_list_def)
  qed
qed

section \<open>Properties\<close>

text \<open>C27: The registry refines a map of each tenant's documents: storing replaces one document of one tenant,
  reading returns what the map holds, deleting says whether there was one, and the listing has every
  document of the tenant once, newest first.\<close>

theorem registry_refines_a_map:
  assumes "redis_ok (dx E) keys" and "holds (epoch E) A (keys w)" and "plain_id d" and "plain_id (d_id r)"
  shows "(\<exists>w'. registry_put E t r w = (Some (), w') \<and> holds (epoch E) (A(t := (A t)(d_id r \<mapsto> r))) (keys w'))
    \<and> (\<exists>w'. registry_get E t d w = (Some (A t d), w') \<and> keys w' = keys w)
    \<and> (\<exists>w'. registry_delete E t d w = (Some (A t d \<noteq> None), w') \<and> holds (epoch E) (A(t := (A t)(d := None))) (keys w'))
    \<and> (\<exists>l w'. registry_list E t w = (Some l, w') \<and> keys w' = keys w \<and> set l = ran (A t) \<and> distinct (map d_id l)
           \<and> sorted_wrt (\<lambda>r s. epoch E (d_created r) \<ge> epoch E (d_created s)) l)"
  using registry_put_ok[OF assms(1,2,4)] registry_get_ok[OF assms(1-3)] registry_delete_ok[OF assms(1-3)] list_docs[OF assms(1,2)]
  by blast

lemma registry_refines_a_map_witness:
  "\<exists>w'. registry_put \<lparr>dx = doc, epoch = \<lambda>_. 5\<rparr> ''t''
          \<lparr>d_id = ''9f'', d_title = ''T'', d_filename = ''a.md'', d_type = None, d_size = 2, d_pages = None, d_chunks = 1,
           d_chunker = ''fixed'', d_created = ''2026''\<rparr> Map.empty = (Some (), w')
     \<and> w' (doc_key ''t'' ''9f'') \<noteq> None"
proof -
  let ?E = "\<lparr>dx = doc, epoch = \<lambda>_. 5\<rparr>" and ?r = "\<lparr>d_id = ''9f'', d_title = ''T'', d_filename = ''a.md'', d_type = None,
      d_size = 2, d_pages = None, d_chunks = 1, d_chunker = ''fixed'', d_created = ''2026''\<rparr>"
  have ok: "redis_ok (dx ?E) id" by simp
  have empty: "holds (epoch ?E) (\<lambda>_ _. None) (id Map.empty)" by (simp add: holds_def zset_at_def)
  have plain: "plain_id ''9f''" "plain_id (d_id ?r)" by (simp_all add: plain_id_def)
  obtain w' where w: "registry_put ?E ''t'' ?r Map.empty = (Some (), w')"
      and h: "holds (epoch ?E) ((\<lambda>_ _. None)(''t'' := [''9f'' \<mapsto> ?r])) w'"
    using registry_refines_a_map[OF ok empty plain, of "''t''"] by auto
  have "w' (doc_key ''t'' ''9f'') \<noteq> None" using holds_record[OF h plain(1), of "''t''"] by simp
  with w show ?thesis by blast
qed

end
