(* ===== verification/Ingest_Jobs.thy ===== *)
theory Ingest_Jobs
  imports Redis Text
begin

text \<open>
  Ingestion jobs: the records, counters and dead-letter queue in Redis (\<open>app/workers/jobs.py\<close>), the
  parked uploads (\<open>app/workers/payloads.py\<close>), submitting and running a job
  (\<open>app/workers/service.py\<close>) and the two queues (\<open>app/workers/queue.py\<close>, \<open>celery_app.py\<close>). The
  ingestion itself is an argument here. \<open>None\<close> is an exception of Redis or pydantic that ends the
  operation. The job object is changed in place by \<open>execute\<close>; nothing else holds it, so the model
  passes it on. Celery, the broker and \<open>uuid4\<close> are outside the program.
\<close>

section \<open>Jobs\<close>

datatype job_status = QUEUED | PROCESSING | DONE | FAILED

record job =
  job_id :: string
  j_tenant :: string
  filename :: string
  content_type :: "string option"
  title :: "string option"
  size_bytes :: int
  status :: job_status
  attempts :: int
  j_doc :: "string option"
  j_chunks :: "int option"
  j_error :: "string option"
  retryable :: "bool option"
  request_id :: "string option"
  created_at :: string
  updated_at :: string

record upload =
  up_filename :: string
  up_type :: "string option"
  up_data :: string
  up_title :: "string option"

text \<open>The wall clock's text, \<open>uuid4\<close>, the request id in force, the performance counter.\<close>

record 'w jobs_env =
  jx :: "'w redis"
  stamp :: "'w \<Rightarrow> string"
  new_id :: "'w \<Rightarrow> string \<times> 'w"
  request_of :: "'w \<Rightarrow> string option"
  perf :: "'w \<Rightarrow> seconds"
  retention :: int
  payload_ttl :: int
  dlq_max :: int
  max_attempts :: int

definition DLQ_KEY :: string where "DLQ_KEY = ''ragjobs:dlq''"
definition STATS_KEY :: string where "STATS_KEY = ''ragjobs:stats''"
definition SEQUENCE_KEY :: string where "SEQUENCE_KEY = ''ragjobs:seq''"
definition job_key :: "string \<Rightarrow> string \<Rightarrow> string" where "job_key t j = ''ragjob:'' @ t @ '':'' @ j"
definition index_key :: "string \<Rightarrow> string" where "index_key t = ''ragjobs:'' @ t"
definition attempts_key :: "string \<Rightarrow> string \<Rightarrow> string" where "attempts_key t j = job_key t j @ '':attempts''"
definition payload_key :: "string \<Rightarrow> string" where "payload_key p = ''ragupload:'' @ p"

section \<open>The JSON of a job\<close>

fun status_text :: "job_status \<Rightarrow> string" where
  "status_text QUEUED = ''queued''"
| "status_text PROCESSING = ''processing''"
| "status_text DONE = ''done''"
| "status_text FAILED = ''failed''"

definition status_of :: "string \<Rightarrow> job_status option" where
  "status_of s = find (\<lambda>x. status_text x = s) [QUEUED, PROCESSING, DONE, FAILED]"

definition job_json :: "job \<Rightarrow> json" where
  "job_json j = JObj
     [(''job_id'', JStr (job_id j)), (''tenant_id'', JStr (j_tenant j)), (''filename'', JStr (filename j)),
      (''content_type'', js (content_type j)), (''title'', js (title j)), (''size_bytes'', JNum (size_bytes j)),
      (''status'', JStr (status_text (status j))), (''attempts'', JNum (attempts j)), (''doc_id'', js (j_doc j)),
      (''chunks'', (case j_chunks j of None \<Rightarrow> JNull | Some n \<Rightarrow> JNum n)), (''error'', js (j_error j)),
      (''retryable'', (case retryable j of None \<Rightarrow> JNull | Some b \<Rightarrow> JBool b)), (''request_id'', js (request_id j)),
      (''created_at'', JStr (created_at j)), (''updated_at'', JStr (updated_at j))]"

text \<open>\<open>model_validate_json\<close> of a stored record, which has every field.\<close>

definition parse_job :: "json \<Rightarrow> job option" where
  "parse_job o1 =
     (case (json_get o1 ''job_id'', json_get o1 ''tenant_id'', json_get o1 ''filename'', json_get o1 ''size_bytes'',
            json_get o1 ''status'', json_get o1 ''attempts'', json_get o1 ''created_at'', json_get o1 ''updated_at'') of
        (Some (JStr i), Some (JStr t), Some (JStr f), Some (JNum n), Some (JStr s), Some (JNum a), Some (JStr c), Some (JStr u)) \<Rightarrow>
          (case (status_of s, sj (json_get o1 ''content_type''), sj (json_get o1 ''title''), sj (json_get o1 ''doc_id''),
                 nj (json_get o1 ''chunks''), sj (json_get o1 ''error''), bj (json_get o1 ''retryable''),
                 sj (json_get o1 ''request_id'')) of
             (Some st1, Some ct, Some ti, Some d, Some ch, Some e, Some rt, Some rq) \<Rightarrow>
               Some \<lparr>job_id = i, j_tenant = t, filename = f, content_type = ct, title = ti, size_bytes = n, status = st1,
                     attempts = a, j_doc = d, j_chunks = ch, j_error = e, retryable = rt, request_id = rq,
                     created_at = c, updated_at = u\<rparr>
           | _ \<Rightarrow> None)
      | _ \<Rightarrow> None)"

section \<open>The job store\<close>

text \<open>Saving stamps the job; the result is the job as it is now.\<close>

definition job_save :: "'w jobs_env \<Rightarrow> job \<Rightarrow> 'w \<Rightarrow> job option \<times> 'w" where
  "job_save E j w =
     (let j1 = j\<lparr>updated_at := stamp E w\<rparr>; (r, w1) = jx E (INCR SEQUENCE_KEY) w in
      case r of
        Integer n \<Rightarrow>
          (let (rs, w2) = pipeline (jx E)
                 [SETEX (job_key (j_tenant j1) (job_id j1)) (Json (job_json j1)) (retention E),
                  ZADDNX (index_key (j_tenant j1)) (job_id j1) (of_int n),
                  EXPIRE (index_key (j_tenant j1)) (retention E)] w1
           in (map_option (\<lambda>_. j1) rs, w2))
      | _ \<Rightarrow> (None, w1))"

definition read_job :: "bulk \<Rightarrow> job option option" where
  "read_job b = (if b = Txt [] then Some None
                 else case Option.bind (bulk_json b) parse_job of None \<Rightarrow> None | Some j \<Rightarrow> Some (Some j))"

definition job_get :: "'w jobs_env \<Rightarrow> string \<Rightarrow> string \<Rightarrow> 'w \<Rightarrow> job option option \<times> 'w" where
  "job_get E t i w =
     (let (r, w1) = jx E (GET (job_key t i)) w in
      (case r of NilReply \<Rightarrow> Some None | Bulk b \<Rightarrow> read_job b | _ \<Rightarrow> None, w1))"

fun read_jobs :: "bulk option list \<Rightarrow> job list option" where
  "read_jobs [] = Some []"
| "read_jobs (None # bs) = read_jobs bs"
| "read_jobs (Some b # bs) =
     (case read_job b of
        None \<Rightarrow> None
      | Some None \<Rightarrow> read_jobs bs
      | Some (Some j) \<Rightarrow> map_option ((#) j) (read_jobs bs))"

definition job_list :: "'w jobs_env \<Rightarrow> string \<Rightarrow> int \<Rightarrow> 'w \<Rightarrow> job list option \<times> 'w" where
  "job_list E t n w =
     (case jx E (ZREVRANGE (index_key t) 0 (n - 1)) w of
        (Bulks bs, w1) \<Rightarrow>
          (case text_ids bs of
             None \<Rightarrow> (None, w1)
           | Some ids \<Rightarrow>
               if ids = [] then (Some [], w1)
               else (case jx E (MGET (map (job_key t) ids)) w1 of
                       (Bulks raws, w2) \<Rightarrow> (read_jobs raws, w2)
                     | (r, w2) \<Rightarrow> (None, w2)))
      | (r, w1) \<Rightarrow> (None, w1))"

definition start_attempt :: "'w jobs_env \<Rightarrow> string \<Rightarrow> string \<Rightarrow> 'w \<Rightarrow> int option \<times> 'w" where
  "start_attempt E t i w =
     (let (rs, w1) = pipeline (jx E) [INCR (attempts_key t i), EXPIRE (attempts_key t i) (retention E)] w in
      (case rs of Some (Integer n # _) \<Rightarrow> Some n | _ \<Rightarrow> None, w1))"

definition count_outcome :: "'w jobs_env \<Rightarrow> string \<Rightarrow> 'w \<Rightarrow> unit option \<times> 'w" where
  "count_outcome E outc w =
     (let (r, w1) = jx E (HINCRBY STATS_KEY outc 1) w in (if r = Raised then None else Some (), w1))"

definition add_duration :: "'w jobs_env \<Rightarrow> seconds \<Rightarrow> 'w \<Rightarrow> unit option \<times> 'w" where
  "add_duration E d w =
     (let (r, w1) = jx E (HINCRBYFLOAT STATS_KEY ''duration_seconds'' d) w in (if r = Raised then None else Some (), w1))"

fun stat_value :: "bulk \<Rightarrow> real option" where
  "stat_value (Num n) = Some (of_int n)"
| "stat_value (Flt x) = Some x"
| "stat_value _ = None"

text \<open>The named counters with their defaults, then whatever else the hash holds.\<close>

definition job_stats :: "'w jobs_env \<Rightarrow> 'w \<Rightarrow> (string \<times> real) list option \<times> 'w" where
  "job_stats E w =
     (let (r, w1) = jx E (HGETALL STATS_KEY) w;
          start = map (\<lambda>k. (k, 0)) [''submitted'', ''done'', ''failed'', ''retried'', ''duration_seconds'']
      in (case r of
            Hash h \<Rightarrow>
              map_option (\<lambda>vs. fold (\<lambda>(k, v). dict_set k v) (zip (map fst h) vs) start) (all_some (map (\<lambda>(k, b). stat_value b) h))
          | _ \<Rightarrow> None, w1))"

definition queue_depth :: "'w jobs_env \<Rightarrow> string \<Rightarrow> 'w \<Rightarrow> int option \<times> 'w" where
  "queue_depth E q w =
     (let (r, w1) = jx E (LLEN q) w in (case r of Integer n \<Rightarrow> Some n | _ \<Rightarrow> None, w1))"

section \<open>The dead-letter queue\<close>

definition dlq_push :: "'w jobs_env \<Rightarrow> job \<Rightarrow> 'w \<Rightarrow> unit option \<times> 'w" where
  "dlq_push E j w =
     (let (rs, w1) = pipeline (jx E) [LPUSH DLQ_KEY (Json (job_json j)), LTRIM DLQ_KEY 0 (dlq_max E - 1)] w in
      (map_option (\<lambda>_. ()) rs, w1))"

definition dlq_list :: "'w jobs_env \<Rightarrow> int \<Rightarrow> 'w \<Rightarrow> job list option \<times> 'w" where
  "dlq_list E n w =
     (let (r, w1) = jx E (LRANGE DLQ_KEY 0 (n - 1)) w in
      (case r of Bulks bs \<Rightarrow> all_some (map (\<lambda>b. Option.bind (Option.bind b bulk_json) parse_job) bs) | _ \<Rightarrow> None, w1))"

definition dlq_depth :: "'w jobs_env \<Rightarrow> 'w \<Rightarrow> int option \<times> 'w" where
  "dlq_depth E w = queue_depth E DLQ_KEY w"

definition dlq_purge :: "'w jobs_env \<Rightarrow> 'w \<Rightarrow> int option \<times> 'w" where
  "dlq_purge E w =
     (let (n, w1) = dlq_depth E w in
      if n = None then (None, w1)
      else (let (r, w2) = jx E (DEL [DLQ_KEY]) w1 in (if r = Raised then None else n, w2)))"

section \<open>Payloads\<close>

definition payload_put :: "'w jobs_env \<Rightarrow> string \<Rightarrow> 'w \<Rightarrow> string option \<times> 'w" where
  "payload_put E data w =
     (let (i, w1) = new_id E w; (r, w2) = jx E (SETEX (payload_key i) (Txt data) (payload_ttl E)) w1 in
      (if r = Raised then None else Some i, w2))"

definition payload_get :: "'w jobs_env \<Rightarrow> string \<Rightarrow> 'w \<Rightarrow> string option option \<times> 'w" where
  "payload_get E i w =
     (let (r, w1) = jx E (GET (payload_key i)) w in
      (case r of NilReply \<Rightarrow> Some None | Bulk (Txt s) \<Rightarrow> Some (Some s) | _ \<Rightarrow> None, w1))"

definition payload_delete :: "'w jobs_env \<Rightarrow> string \<Rightarrow> 'w \<Rightarrow> unit option \<times> 'w" where
  "payload_delete E i w =
     (let (r, w1) = jx E (DEL [payload_key i]) w in (if r = Raised then None else Some (), w1))"

section \<open>Running a job\<close>

text \<open>How \<open>ingest\<close> ends: the document's id and number of chunks, one of \<open>PERMANENT_ERRORS\<close>, or any other
  exception; the errors as \<open>type(e).__name__: e\<close>.\<close>

datatype ingested = Stored string int | Permanent string | Transient string

type_synonym 'w ingester = "string \<Rightarrow> upload \<Rightarrow> 'w \<Rightarrow> ingested \<times> 'w"

text \<open>How a call of \<open>execute\<close> ends: the job, or no job, or \<open>TransientJobError\<close>, or another exception.\<close>

datatype executed = Ran job | Gone | Retry string | Died

definition fail_job :: "'w jobs_env \<Rightarrow> job \<Rightarrow> string \<Rightarrow> bool \<Rightarrow> 'w \<Rightarrow> executed \<times> 'w" where
  "fail_job E j err retry w =
     (let (s, w1) = job_save E (j\<lparr>status := FAILED, j_error := Some err, retryable := Some retry\<rparr>) w in
      case s of
        None \<Rightarrow> (Died, w1)
      | Some j1 \<Rightarrow>
          (let (c, w2) = count_outcome E ''failed'' w1 in
           if c = None then (Died, w2)
           else (let (d, w3) = dlq_push E j1 w2 in (if d = None then Died else Ran j1, w3))))"

definition finish_job :: "'w jobs_env \<Rightarrow> job \<Rightarrow> string \<Rightarrow> string \<Rightarrow> int \<Rightarrow> seconds \<Rightarrow> 'w \<Rightarrow> executed \<times> 'w" where
  "finish_job E j payload d n started w =
     (let (p, w1) = payload_delete E payload w in
      if p = None then (Died, w1)
      else
        (let (s, w2) = job_save E (j\<lparr>status := DONE, j_doc := Some d, j_chunks := Some n, j_error := None, retryable := None\<rparr>) w1 in
         case s of
           None \<Rightarrow> (Died, w2)
         | Some j1 \<Rightarrow>
             (let (c, w3) = count_outcome E ''done'' w2 in
              if c = None then (Died, w3)
              else (let (a, w4) = add_duration E (perf E w3 - started) w3 in (if a = None then Died else Ran j1, w4)))))"

definition retry_later :: "'w jobs_env \<Rightarrow> job \<Rightarrow> string \<Rightarrow> 'w \<Rightarrow> executed \<times> 'w" where
  "retry_later E j err w =
     (let (s, w1) = job_save E (j\<lparr>status := QUEUED, j_error := Some err\<rparr>) w in
      if s = None then (Died, w1)
      else (let (c, w2) = count_outcome E ''retried'' w1 in (if c = None then Died else Retry err, w2)))"

definition execute :: "'w jobs_env \<Rightarrow> 'w ingester \<Rightarrow> string \<Rightarrow> string \<Rightarrow> string \<Rightarrow> 'w \<Rightarrow> executed \<times> 'w" where
  "execute E ingest t i payload w =
     (let (g, w1) = job_get E t i w in
      case g of
        None \<Rightarrow> (Died, w1)
      | Some None \<Rightarrow> (Gone, w1)
      | Some (Some j) \<Rightarrow>
          (let (a, w2) = start_attempt E t i w1 in
           case a of
             None \<Rightarrow> (Died, w2)
           | Some attempt \<Rightarrow>
               if attempt > max_attempts E then
                 fail_job E j (''job was delivered '' @ decimal (nat attempt)
                   @ '' times without completing; it may be killing its worker'') False w2
               else
                 (let (s, w3) = job_save E (j\<lparr>status := PROCESSING, attempts := attempt\<rparr>) w2 in
                  case s of
                    None \<Rightarrow> (Died, w3)
                  | Some j1 \<Rightarrow>
                      (let (p, w4) = payload_get E payload w3 in
                       case p of
                         None \<Rightarrow> (Died, w4)
                       | Some None \<Rightarrow> fail_job E j1 ''uploaded file expired before a worker picked it up'' False w4
                       | Some (Some data) \<Rightarrow>
                           (let started = perf E w4;
                                (r, w5) = ingest t \<lparr>up_filename = filename j1, up_type = content_type j1,
                                                    up_data = data, up_title = title j1\<rparr> w4
                            in case r of
                                 Permanent err \<Rightarrow> fail_job E j1 err False w5
                               | Transient err \<Rightarrow>
                                   if attempt \<ge> max_attempts E then fail_job E j1 err True w5
                                   else retry_later E j1 err w5
                               | Stored d n \<Rightarrow> finish_job E j1 payload d n started w5)))))"

text \<open>\<open>submit\<close>: the queue's \<open>enqueue\<close> is an argument.\<close>

definition submit ::
  "'w jobs_env \<Rightarrow> (job \<Rightarrow> string \<Rightarrow> 'w \<Rightarrow> unit option \<times> 'w) \<Rightarrow> string \<Rightarrow> upload \<Rightarrow> 'w \<Rightarrow> job option \<times> 'w" where
  "submit E enqueue t u w =
     (let (p, w1) = payload_put E (up_data u) w in
      case p of
        None \<Rightarrow> (None, w1)
      | Some payload \<Rightarrow>
          (let (i, w2) = new_id E w1;
               (s, w3) = job_save E
                 \<lparr>job_id = i, j_tenant = t, filename = up_filename u, content_type = up_type u, title = up_title u,
                  size_bytes = int (length (up_data u)), status = QUEUED, attempts = 0, j_doc = None, j_chunks = None,
                  j_error = None, retryable = None, request_id = request_of E w2, created_at = stamp E w2,
                  updated_at = stamp E w2\<rparr> w2
           in case s of
                None \<Rightarrow> (None, w3)
              | Some j \<Rightarrow>
                  (let (c, w4) = count_outcome E ''submitted'' w3 in
                   if c = None then (None, w4)
                   else (let (q, w5) = enqueue j payload w4 in (if q = None then None else Some j, w5)))))"

text \<open>\<open>InlineJobQueue._run\<close>: \<open>left\<close> rounds remain; \<open>pause\<close> is the backoff sleep.\<close>

fun inline_run ::
  "'w jobs_env \<Rightarrow> 'w ingester \<Rightarrow> (nat \<Rightarrow> 'w \<Rightarrow> 'w) \<Rightarrow> nat \<Rightarrow> nat \<Rightarrow> string \<Rightarrow> string \<Rightarrow> string \<Rightarrow> 'w \<Rightarrow> 'w" where
  "inline_run E ingest pause 0 attempt t i payload w = w"
| "inline_run E ingest pause (Suc left) attempt t i payload w =
     (let (r, w1) = execute E ingest t i payload w in
      case r of
        Retry err \<Rightarrow> inline_run E ingest pause left (Suc attempt) t i payload (pause attempt w1)
      | _ \<Rightarrow> w1)"

text \<open>The Celery task: its answer, or a retry after a delay.\<close>

datatype task_result = Answer string string | RetryIn seconds | TaskDied

definition ingest_document ::
  "'w jobs_env \<Rightarrow> 'w ingester \<Rightarrow> seconds \<Rightarrow> nat \<Rightarrow> string \<Rightarrow> string \<Rightarrow> string \<Rightarrow> 'w \<Rightarrow> task_result \<times> 'w" where
  "ingest_document E ingest backoff retries i t payload w =
     (let (r, w1) = execute E ingest t i payload w in
      (case r of
         Ran j \<Rightarrow> Answer i (status_text (status j))
       | Gone \<Rightarrow> Answer i ''gone''
       | Retry err \<Rightarrow> RetryIn (backoff * 2 ^ retries)
       | Died \<Rightarrow> TaskDied, w1))"

section \<open>What the operations do to the keys of one job\<close>

text \<open>The keys of the jobs subsystem hold what the code put there. A tenant called \<open>dlq\<close>, \<open>stats\<close> or
  \<open>seq\<close> would have its index under the name of a shared key (see \<open>tenant_name_clash\<close>).\<close>

definition stats_ok :: "(string \<times> bulk) list \<Rightarrow> bool" where
  "stats_ok h \<longleftrightarrow>
     (\<forall>f \<in> {''submitted'', ''done'', ''failed'', ''retried''}. dict_get h f = None \<or> (\<exists>n. dict_get h f = Some (Num n)))
     \<and> (dict_get h ''duration_seconds'' = None \<or> (\<exists>n. dict_get h ''duration_seconds'' = Some (Num n))
        \<or> (\<exists>x. dict_get h ''duration_seconds'' = Some (Flt x)))"

definition sane :: "string \<Rightarrow> keyspace \<Rightarrow> bool" where
  "sane t ks \<longleftrightarrow>
     t \<notin> {''dlq'', ''stats'', ''seq''}
     \<and> (ks SEQUENCE_KEY = None \<or> (\<exists>n d. ks SEQUENCE_KEY = Some (RStr (Num n), d)))
     \<and> (\<exists>z. zset_at ks (index_key t) = Some z) \<and> (\<exists>h. hash_at ks STATS_KEY = Some h \<and> stats_ok h)
     \<and> (\<exists>l. list_at ks DLQ_KEY = Some l)"

text \<open>What is stored about one job: its record, its deliveries, its upload, and the dead letters.\<close>

definition stored_job :: "string \<Rightarrow> string \<Rightarrow> keyspace \<Rightarrow> bulk option" where
  "stored_job t i ks = get_doc ks (job_key t i)"

definition delivered :: "string \<Rightarrow> string \<Rightarrow> keyspace \<Rightarrow> int \<Rightarrow> bool" where
  "delivered t i ks n \<longleftrightarrow>
     (ks (attempts_key t i) = None \<and> n = 0) \<or> (\<exists>d. ks (attempts_key t i) = Some (RStr (Num n), d))"

definition dead_letters :: "keyspace \<Rightarrow> bulk list" where
  "dead_letters ks = (case list_at ks DLQ_KEY of Some l \<Rightarrow> l | None \<Rightarrow> [])"

lemma shared_keys [simp]:
  "SEQUENCE_KEY \<noteq> DLQ_KEY" "DLQ_KEY \<noteq> SEQUENCE_KEY" "SEQUENCE_KEY \<noteq> STATS_KEY" "STATS_KEY \<noteq> SEQUENCE_KEY"
  "STATS_KEY \<noteq> DLQ_KEY" "DLQ_KEY \<noteq> STATS_KEY"
  "job_key t i \<noteq> SEQUENCE_KEY" "SEQUENCE_KEY \<noteq> job_key t i" "job_key t i \<noteq> DLQ_KEY" "DLQ_KEY \<noteq> job_key t i"
  "job_key t i \<noteq> STATS_KEY" "STATS_KEY \<noteq> job_key t i" "job_key t i \<noteq> index_key u" "index_key u \<noteq> job_key t i"
  "attempts_key t i \<noteq> SEQUENCE_KEY" "SEQUENCE_KEY \<noteq> attempts_key t i" "attempts_key t i \<noteq> DLQ_KEY"
  "DLQ_KEY \<noteq> attempts_key t i" "attempts_key t i \<noteq> STATS_KEY" "STATS_KEY \<noteq> attempts_key t i"
  "attempts_key t i \<noteq> index_key u" "index_key u \<noteq> attempts_key t i"
  "attempts_key t i \<noteq> job_key t i" "job_key t i \<noteq> attempts_key t i"
  "payload_key p \<noteq> SEQUENCE_KEY" "SEQUENCE_KEY \<noteq> payload_key p" "payload_key p \<noteq> DLQ_KEY" "DLQ_KEY \<noteq> payload_key p"
  "payload_key p \<noteq> STATS_KEY" "STATS_KEY \<noteq> payload_key p" "payload_key p \<noteq> job_key t i" "job_key t i \<noteq> payload_key p"
  "payload_key p \<noteq> attempts_key t i" "attempts_key t i \<noteq> payload_key p" "payload_key p \<noteq> index_key u" "index_key u \<noteq> payload_key p"
  by (simp_all add: SEQUENCE_KEY_def DLQ_KEY_def STATS_KEY_def job_key_def attempts_key_def index_key_def payload_key_def)

lemma sane_keys:
  "sane t ks \<Longrightarrow> index_key t \<noteq> SEQUENCE_KEY \<and> index_key t \<noteq> DLQ_KEY \<and> index_key t \<noteq> STATS_KEY"
  by (auto simp: sane_def index_key_def SEQUENCE_KEY_def DLQ_KEY_def STATS_KEY_def)

lemma tenant_name_clash: "index_key ''dlq'' = DLQ_KEY" "index_key ''stats'' = STATS_KEY" "index_key ''seq'' = SEQUENCE_KEY"
  by (simp_all add: index_key_def SEQUENCE_KEY_def DLQ_KEY_def STATS_KEY_def)

lemma expire_zset:
  assumes "zset_at ks k = Some z"
  shows "fst (doc (EXPIRE k s) ks) \<noteq> Raised \<and> (\<exists>z'. zset_at (snd (doc (EXPIRE k s) ks)) k = Some z')
         \<and> (\<forall>x. x \<noteq> k \<longrightarrow> snd (doc (EXPIRE k s) ks) x = ks x)"
  using assms by (auto simp: zset_at_def split: option.splits rval.splits)

lemma index_write:
  assumes "zset_at ks k = Some z"
  shows "\<exists>rs ks'. send_all doc [ZADDNX k m x, EXPIRE k s] ks = (rs, ks') \<and> Raised \<notin> set rs
           \<and> (\<exists>z'. zset_at ks' k = Some z') \<and> (\<forall>y. y \<noteq> k \<longrightarrow> ks' y = ks y)"
proof -
  obtain r1 ks1 where e: "doc (ZADDNX k m x) ks = (r1, ks1)" by (cases "doc (ZADDNX k m x) ks")
  then have a: "r1 \<noteq> Raised" "\<exists>z'. zset_at ks1 k = Some z'" "\<forall>y. y \<noteq> k \<longrightarrow> ks1 y = ks y"
    using assms by (auto simp: redis_simps split: if_splits)
  then obtain z' where "zset_at ks1 k = Some z'" by blast
  note b = expire_zset[OF this, of s]
  show ?thesis
    using e a b by (cases "doc (EXPIRE k s) ks1") (auto simp del: doc.simps)
qed

lemma job_save_effect:
  assumes "redis_ok (jx E) keys" and "0 < retention E" and "sane t (keys w)" and "j_tenant j = t" "job_id j = i"
  shows "\<exists>w'. job_save E j w = (Some (j\<lparr>updated_at := stamp E w\<rparr>), w') \<and> sane t (keys w')
     \<and> stored_job t i (keys w') = Some (Json (job_json (j\<lparr>updated_at := stamp E w\<rparr>)))
     \<and> keys w' (attempts_key t i) = keys w (attempts_key t i) \<and> keys w' (payload_key p) = keys w (payload_key p)
     \<and> dead_letters (keys w') = dead_letters (keys w)"
proof -
  let ?j = "j\<lparr>updated_at := stamp E w\<rparr>"
  obtain n v where sq: "keys w SEQUENCE_KEY = None \<and> n = 1 \<and> v = None \<or> keys w SEQUENCE_KEY = Some (RStr (Num (n - 1)), v)"
    using assms(3) by (auto simp: sane_def) (metis add_diff_cancel_right')
  obtain w1 where i1: "jx E (INCR SEQUENCE_KEY) w = (Integer n, w1)" and k1: "keys w1 = (keys w)(SEQUENCE_KEY \<mapsto> (RStr (Num n), v))"
    using redis_rules(1,2)[OF assms(1), of "INCR SEQUENCE_KEY" w] sq
    by (cases "jx E (INCR SEQUENCE_KEY) w") auto
  let ?set = "SETEX (job_key t i) (Json (job_json ?j)) (retention E)"
  let ?rest = "[ZADDNX (index_key t) i (of_int n), EXPIRE (index_key t) (retention E)]"
  let ?k2 = "(keys w1)(job_key t i \<mapsto> (RStr (Json (job_json ?j)), Some (of_int (retention E))))"
  have set: "doc ?set (keys w1) = (OK, ?k2)" using assms(2) by simp
  note nk = sane_keys[OF assms(3)]
  obtain z where "zset_at ?k2 (index_key t) = Some z"
    using k1 nk assms(3) by (auto simp: sane_def redis_simps)
  from index_write[OF this] obtain rs k3 where r: "send_all doc ?rest ?k2 = (rs, k3)" "Raised \<notin> set rs"
      "\<exists>z'. zset_at k3 (index_key t) = Some z'" "\<forall>y. y \<noteq> index_key t \<longrightarrow> k3 y = ?k2 y"
    by blast
  obtain q w2 where p: "pipeline (jx E) (?set # ?rest) w1 = (q, w2)" by (cases "pipeline (jx E) (?set # ?rest) w1")
  have q: "q \<noteq> None" "keys w2 = k3"
    using redis_pipeline[OF assms(1), of "?set # ?rest" w1] p r(1,2) set
    by (auto simp: pipeline_def split_beta simp del: doc.simps)
  have same: "keys w2 y = keys w y" if "y \<noteq> index_key t" "y \<noteq> job_key t i" "y \<noteq> SEQUENCE_KEY" for y
    using that r(4) k1 q(2) by auto
  have seq: "\<exists>v. keys w2 SEQUENCE_KEY = Some (RStr (Num n), v)" using r(4) k1 q(2) nk by auto
  have saved: "job_save E j w = (Some ?j, w2)"
    using i1 p q(1) assms(4,5) by (auto simp: job_save_def Let_def)
  have shared: "keys w2 STATS_KEY = keys w STATS_KEY" "keys w2 DLQ_KEY = keys w DLQ_KEY"
    using same nk by auto
  moreover have "sane t (keys w2)"
    using assms(3) r(3) q(2) seq nk at_same_key(1)[of "keys w2" STATS_KEY "keys w", OF shared(1)] at_same_key(2)[of "keys w2" DLQ_KEY "keys w", OF shared(2)]
    by (auto simp: sane_def)
  moreover have "stored_job t i (keys w2) = Some (Json (job_json ?j))"
    using r(4) q(2) by (simp add: stored_job_def get_doc_def)
  moreover have "dead_letters (keys w2) = dead_letters (keys w)"
    using at_same_key(2)[of "keys w2" DLQ_KEY "keys w", OF shared(2)] by (simp add: dead_letters_def)
  ultimately show ?thesis using saved same[of "attempts_key t i"] same[of "payload_key p"] by auto
qed


text \<open>Operations that change one key other than the index and the shared ones, or a shared one in the
  way the code does, keep \<open>sane\<close>.\<close>

lemma sane_frame:
  assumes "sane t ks" and "\<And>y. y \<in> {SEQUENCE_KEY, index_key t, STATS_KEY, DLQ_KEY} \<Longrightarrow> ks' y = ks y"
  shows "sane t ks'"
  using assms(1) assms(2)[of SEQUENCE_KEY] at_same_key(3)[of ks' "index_key t" ks] at_same_key(1)[of ks' STATS_KEY ks]
    at_same_key(2)[of ks' DLQ_KEY ks] assms(2)
  by (simp add: sane_def)

lemma start_attempt_effect:
  assumes "redis_ok (jx E) keys" and "0 < retention E" and "delivered t i (keys w) n"
  shows "\<exists>w'. start_attempt E t i w = (Some (n + 1), w') \<and> delivered t i (keys w') (n + 1)
     \<and> (\<forall>y. y \<noteq> attempts_key t i \<longrightarrow> keys w' y = keys w y)"
  using redis_pipeline[OF assms(1), of "[INCR (attempts_key t i), EXPIRE (attempts_key t i) (retention E)]" w] assms(2,3)
  by (cases "pipeline (jx E) [INCR (attempts_key t i), EXPIRE (attempts_key t i) (retention E)] w")
    (auto simp: start_attempt_def pipeline_def delivered_def split: option.splits)

lemma count_outcome_effect:
  assumes "redis_ok (jx E) keys" and "sane t (keys w)" and "f \<in> {''submitted'', ''done'', ''failed'', ''retried''}"
  shows "\<exists>w'. count_outcome E f w = (Some (), w') \<and> sane t (keys w') \<and> (\<forall>y. y \<noteq> STATS_KEY \<longrightarrow> keys w' y = keys w y)"
proof -
  obtain h where h: "hash_at (keys w) STATS_KEY = Some h" "stats_ok h" using assms(2) by (auto simp: sane_def)
  then obtain n where n: "dict_get h f = None \<and> n = 0 \<or> dict_get h f = Some (Num n)" using assms(3) by (auto simp: stats_ok_def)
  obtain r w' where e: "jx E (HINCRBY STATS_KEY f 1) w = (r, w')" by (cases "jx E (HINCRBY STATS_KEY f 1) w")
  have k: "r = Integer (n + 1)" "keys w' = put_val STATS_KEY (RHash (dict_set f (Num (n + 1)) h)) (keys w)"
    using redis_rules(1,2)[OF assms(1), of "HINCRBY STATS_KEY f 1" w] e h n by auto
  have "stats_ok (dict_set f (Num (n + 1)) h)" using h(2) assms(3) by (auto simp: stats_ok_def dict_get_set)
  then have "sane t (keys w')"
    using assms(2) sane_keys[OF assms(2)] by (simp add: sane_def k(2) redis_simps)
  then show ?thesis using e k by (simp add: count_outcome_def put_val_def)
qed

lemma add_duration_effect:
  assumes "redis_ok (jx E) keys" and "sane t (keys w)"
  shows "\<exists>w'. add_duration E d w = (Some (), w') \<and> sane t (keys w') \<and> (\<forall>y. y \<noteq> STATS_KEY \<longrightarrow> keys w' y = keys w y)"
proof -
  let ?f = "''duration_seconds''"
  obtain h where h: "hash_at (keys w) STATS_KEY = Some h" "stats_ok h" using assms(2) by (auto simp: sane_def)
  obtain r w' where e: "jx E (HINCRBYFLOAT STATS_KEY ?f d) w = (r, w')" by (cases "jx E (HINCRBYFLOAT STATS_KEY ?f d) w")
  obtain x where k: "r = Bulk (Flt x)" "keys w' = put_val STATS_KEY (RHash (dict_set ?f (Flt x) h)) (keys w)"
    using redis_rules(1,2)[OF assms(1), of "HINCRBYFLOAT STATS_KEY ?f d" w] e h by (auto simp: stats_ok_def)
  have "stats_ok (dict_set ?f (Flt x) h)" using h(2) by (auto simp: stats_ok_def dict_get_set)
  then have "sane t (keys w')"
    using assms(2) sane_keys[OF assms(2)] by (simp add: sane_def k(2) redis_simps)
  then show ?thesis using e k by (simp add: add_duration_def put_val_def)
qed

lemma dlq_push_effect:
  assumes "redis_ok (jx E) keys" and "sane t (keys w)" and "0 < dlq_max E"
  shows "\<exists>w'. dlq_push E j w = (Some (), w') \<and> sane t (keys w')
     \<and> dead_letters (keys w') = take (nat (dlq_max E)) (Json (job_json j) # dead_letters (keys w))
     \<and> (\<forall>y. y \<noteq> DLQ_KEY \<longrightarrow> keys w' y = keys w y)"
proof -
  obtain l where l: "list_at (keys w) DLQ_KEY = Some l" using assms(2) by (auto simp: sane_def)
  let ?cs = "[LPUSH DLQ_KEY (Json (job_json j)), LTRIM DLQ_KEY 0 (dlq_max E - 1)]"
  obtain r w' where e: "pipeline (jx E) ?cs w = (r, w')" by (cases "pipeline (jx E) ?cs w")
  have k: "r \<noteq> None" "list_at (keys w') DLQ_KEY = Some (take (nat (dlq_max E)) (Json (job_json j) # l))"
      "\<And>y. y \<noteq> DLQ_KEY \<Longrightarrow> keys w' y = keys w y"
    using redis_pipeline[OF assms(1), of ?cs w] e l assms(3)
    by (auto simp: pipeline_def redis_simps) (auto simp: list_at_def put_val_def list_range_def)
  have "sane t (keys w')"
    using assms(2) sane_keys[OF assms(2)] k(2,3) at_same_key(3)[of "keys w'" "index_key t" "keys w"]
      at_same_key(1)[of "keys w'" STATS_KEY "keys w"]
    by (simp add: sane_def)
  then show ?thesis using e k l by (auto simp: dlq_push_def dead_letters_def)
qed

lemma payload_delete_effect:
  assumes "redis_ok (jx E) keys" and "sane t (keys w)"
  shows "\<exists>w'. payload_delete E p w = (Some (), w') \<and> sane t (keys w') \<and> keys w' (payload_key p) = None
     \<and> (\<forall>y. y \<noteq> payload_key p \<longrightarrow> keys w' y = keys w y)"
proof -
  obtain r w' where e: "jx E (DEL [payload_key p]) w = (r, w')" by (cases "jx E (DEL [payload_key p]) w")
  have k: "r \<noteq> Raised" "keys w' = keys w |` (- {payload_key p})"
    using redis_rules(1,2)[OF assms(1), of "DEL [payload_key p]" w] e by auto
  have "sane t (keys w')" by (rule sane_frame[OF assms(2)]) (auto simp: k)
  then show ?thesis using e k by (simp add: payload_delete_def)
qed


lemma status_round_trip [simp]: "status_of (status_text x) = Some x"
  by (cases x) (simp_all add: status_of_def)

lemma parse_job_json [simp]: "parse_job (job_json j) = Some j"
  by (simp add: job_json_def parse_job_def)

lemma job_get_effect:
  assumes "redis_ok (jx E) keys" and "stored_job t i (keys w) = Some (Json (job_json j))"
  shows "\<exists>w'. job_get E t i w = (Some (Some j), w') \<and> keys w' = keys w"
  using redis_rules(1,2)[OF assms(1), of "GET (job_key t i)" w] assms(2)
  by (cases "jx E (GET (job_key t i)) w")
    (auto simp: job_get_def read_job_def stored_job_def get_doc_def split: option.splits rval.splits)

lemma payload_get_effect:
  assumes "redis_ok (jx E) keys" and "keys w (payload_key p) = map_option (\<lambda>s. (RStr (Txt s), d)) u"
  shows "\<exists>w'. payload_get E p w = (Some u, w') \<and> keys w' = keys w"
  using redis_rules(1,2)[OF assms(1), of "GET (payload_key p)" w] assms(2)
  by (cases "jx E (GET (payload_key p)) w"; cases u) (auto simp: payload_get_def)

text \<open>What is the same after a job has failed, finished or been put back, and the upload's fate.\<close>

definition settled :: "'w jobs_env \<Rightarrow> ('w \<Rightarrow> keyspace) \<Rightarrow> job \<Rightarrow> bulk list \<Rightarrow> 'w \<Rightarrow> 'w \<Rightarrow> bool" where
  "settled E keys j dl w w' \<longleftrightarrow>
     sane (j_tenant j) (keys w') \<and> stored_job (j_tenant j) (job_id j) (keys w') = Some (Json (job_json j))
     \<and> keys w' (attempts_key (j_tenant j) (job_id j)) = keys w (attempts_key (j_tenant j) (job_id j))
     \<and> dead_letters (keys w') = dl"

lemma stored_frame:
  "ks' (job_key t i) = ks (job_key t i) \<Longrightarrow> stored_job t i ks' = stored_job t i ks"
  "ks' DLQ_KEY = ks DLQ_KEY \<Longrightarrow> dead_letters ks' = dead_letters ks"
  by (simp_all add: stored_job_def get_doc_def dead_letters_def list_at_def)

lemma fail_job_effect:
  assumes ok: "redis_ok (jx E) keys" "0 < retention E" "0 < dlq_max E" and s: "sane (j_tenant j) (keys w)"
  shows "\<exists>u w'. let j' = j\<lparr>status := FAILED, j_error := Some err, retryable := Some retry, updated_at := u\<rparr> in
     fail_job E j err retry w = (Ran j', w')
     \<and> settled E keys j' (take (nat (dlq_max E)) (Json (job_json j') # dead_letters (keys w))) w w'
     \<and> keys w' (payload_key p) = keys w (payload_key p)"
proof -
  let ?t = "j_tenant j" and ?i = "job_id j"
  let ?j = "j\<lparr>status := FAILED, j_error := Some err, retryable := Some retry\<rparr>"
  obtain w1 where a: "job_save E ?j w = (Some (?j\<lparr>updated_at := stamp E w\<rparr>), w1)" "sane ?t (keys w1)"
      "stored_job ?t ?i (keys w1) = Some (Json (job_json (?j\<lparr>updated_at := stamp E w\<rparr>)))"
      "keys w1 (attempts_key ?t ?i) = keys w (attempts_key ?t ?i)" "keys w1 (payload_key p) = keys w (payload_key p)"
      "dead_letters (keys w1) = dead_letters (keys w)"
    using job_save_effect[OF ok(1,2) s, of ?j ?i p] by auto
  obtain w2 where b: "count_outcome E ''failed'' w1 = (Some (), w2)" "sane ?t (keys w2)"
      "\<forall>y. y \<noteq> STATS_KEY \<longrightarrow> keys w2 y = keys w1 y"
    using count_outcome_effect[OF ok(1) a(2), of "''failed''"] by auto
  let ?j' = "?j\<lparr>updated_at := stamp E w\<rparr>"
  obtain w3 where c: "dlq_push E ?j' w2 = (Some (), w3)" "sane ?t (keys w3)"
      "dead_letters (keys w3) = take (nat (dlq_max E)) (Json (job_json ?j') # dead_letters (keys w2))"
      "\<forall>y. y \<noteq> DLQ_KEY \<longrightarrow> keys w3 y = keys w2 y"
    using dlq_push_effect[OF ok(1) b(2) ok(3)] by blast
  have "dead_letters (keys w2) = dead_letters (keys w)" using stored_frame(2)[of "keys w2" "keys w1"] b(3) a(6) by simp
  moreover have "stored_job ?t ?i (keys w3) = stored_job ?t ?i (keys w1)" using stored_frame(1)[of "keys w3" ?t ?i "keys w1"] b(3) c(4) by simp
  ultimately show ?thesis
    using a b c by (intro exI[of _ "stamp E w"] exI[of _ w3]) (simp add: fail_job_def Let_def settled_def)
qed

lemma finish_job_effect:
  assumes ok: "redis_ok (jx E) keys" "0 < retention E" and s: "sane (j_tenant j) (keys w)"
  shows "\<exists>u w'. let j' = j\<lparr>status := DONE, j_doc := Some d, j_chunks := Some n, j_error := None, retryable := None, updated_at := u\<rparr> in
     finish_job E j p d n started w = (Ran j', w') \<and> settled E keys j' (dead_letters (keys w)) w w'
     \<and> keys w' (payload_key p) = None"
proof -
  let ?t = "j_tenant j" and ?i = "job_id j"
  let ?j = "j\<lparr>status := DONE, j_doc := Some d, j_chunks := Some n, j_error := None, retryable := None\<rparr>"
  obtain w1 where a: "payload_delete E p w = (Some (), w1)" "sane ?t (keys w1)" "keys w1 (payload_key p) = None"
      "\<forall>y. y \<noteq> payload_key p \<longrightarrow> keys w1 y = keys w y"
    using payload_delete_effect[OF ok(1) s] by blast
  let ?j' = "?j\<lparr>updated_at := stamp E w1\<rparr>"
  obtain w2 where b: "job_save E ?j w1 = (Some ?j', w2)" "sane ?t (keys w2)"
      "stored_job ?t ?i (keys w2) = Some (Json (job_json ?j'))"
      "keys w2 (attempts_key ?t ?i) = keys w1 (attempts_key ?t ?i)" "keys w2 (payload_key p) = keys w1 (payload_key p)"
      "dead_letters (keys w2) = dead_letters (keys w1)"
    using job_save_effect[OF ok a(2), of ?j ?i p] by auto
  obtain w3 where c: "count_outcome E ''done'' w2 = (Some (), w3)" "sane ?t (keys w3)"
      "\<forall>y. y \<noteq> STATS_KEY \<longrightarrow> keys w3 y = keys w2 y"
    using count_outcome_effect[OF ok(1) b(2), of "''done''"] by auto
  obtain w4 where e: "add_duration E (perf E w3 - started) w3 = (Some (), w4)" "sane ?t (keys w4)"
      "\<forall>y. y \<noteq> STATS_KEY \<longrightarrow> keys w4 y = keys w3 y"
    using add_duration_effect[OF ok(1) c(2)] by blast
  have "dead_letters (keys w4) = dead_letters (keys w)"
    using stored_frame(2)[of "keys w4" "keys w2"] stored_frame(2)[of "keys w1" "keys w"] a(4) b(6) c(3) e(3) by simp
  moreover have "stored_job ?t ?i (keys w4) = stored_job ?t ?i (keys w2)"
    using stored_frame(1)[of "keys w4" ?t ?i "keys w2"] c(3) e(3) by simp
  ultimately show ?thesis
    using a b c e by (intro exI[of _ "stamp E w1"] exI[of _ w4]) (simp add: finish_job_def Let_def settled_def)
qed

lemma retry_later_effect:
  assumes ok: "redis_ok (jx E) keys" "0 < retention E" and s: "sane (j_tenant j) (keys w)"
  shows "\<exists>u w'. let j' = j\<lparr>status := QUEUED, j_error := Some err, updated_at := u\<rparr> in
     retry_later E j err w = (Retry err, w') \<and> settled E keys j' (dead_letters (keys w)) w w'
     \<and> keys w' (payload_key p) = keys w (payload_key p)"
proof -
  let ?t = "j_tenant j" and ?i = "job_id j"
  let ?j = "j\<lparr>status := QUEUED, j_error := Some err\<rparr>"
  obtain w1 where a: "job_save E ?j w = (Some (?j\<lparr>updated_at := stamp E w\<rparr>), w1)" "sane ?t (keys w1)"
      "stored_job ?t ?i (keys w1) = Some (Json (job_json (?j\<lparr>updated_at := stamp E w\<rparr>)))"
      "keys w1 (attempts_key ?t ?i) = keys w (attempts_key ?t ?i)" "keys w1 (payload_key p) = keys w (payload_key p)"
      "dead_letters (keys w1) = dead_letters (keys w)"
    using job_save_effect[OF ok s, of ?j ?i p] by auto
  obtain w2 where b: "count_outcome E ''retried'' w1 = (Some (), w2)" "sane ?t (keys w2)"
      "\<forall>y. y \<noteq> STATS_KEY \<longrightarrow> keys w2 y = keys w1 y"
    using count_outcome_effect[OF ok(1) a(2), of "''retried''"] by auto
  have "dead_letters (keys w2) = dead_letters (keys w)" using stored_frame(2)[of "keys w2" "keys w1"] b(3) a(6) by simp
  moreover have "stored_job ?t ?i (keys w2) = stored_job ?t ?i (keys w1)"
    using stored_frame(1)[of "keys w2" ?t ?i "keys w1"] b(3) by simp
  ultimately show ?thesis
    using a b by (intro exI[of _ "stamp E w"] exI[of _ w2]) (simp add: retry_later_def Let_def settled_def)
qed


section \<open>A delivery of a job\<close>

text \<open>The state in which a delivery finds the job: its record stored, \<open>n\<close> deliveries counted, the upload
  parked or expired.\<close>

definition awaits :: "('w \<Rightarrow> keyspace) \<Rightarrow> job \<Rightarrow> int \<Rightarrow> string \<Rightarrow> string option \<Rightarrow> 'w \<Rightarrow> bool" where
  "awaits keys j n p u w \<longleftrightarrow>
     sane (j_tenant j) (keys w) \<and> stored_job (j_tenant j) (job_id j) (keys w) = Some (Json (job_json j))
     \<and> delivered (j_tenant j) (job_id j) (keys w) n
     \<and> (\<exists>d. keys w (payload_key p) = map_option (\<lambda>s. (RStr (Txt s), d)) u)"

text \<open>The ingestion writes elsewhere.\<close>

definition job_keys :: "string \<Rightarrow> string \<Rightarrow> string \<Rightarrow> string set" where
  "job_keys t i p = {SEQUENCE_KEY, STATS_KEY, DLQ_KEY, index_key t, job_key t i, attempts_key t i, payload_key p}"

definition leaves_jobs :: "('w \<Rightarrow> keyspace) \<Rightarrow> 'w ingester \<Rightarrow> string \<Rightarrow> string \<Rightarrow> string \<Rightarrow> bool" where
  "leaves_jobs keys ingest t i p \<longleftrightarrow> (\<forall>u v. \<forall>y \<in> job_keys t i p. keys (snd (ingest t u v)) y = keys v y)"

text \<open>What the delivery makes of the job, and of the dead letters, given what the ingestion answered.\<close>

definition verdict :: "'w jobs_env \<Rightarrow> int \<Rightarrow> ingested \<Rightarrow> job \<Rightarrow> job" where
  "verdict E n r j =
     (case r of
        Stored d c \<Rightarrow> j\<lparr>status := DONE, j_doc := Some d, j_chunks := Some c, j_error := None, retryable := None\<rparr>
      | Permanent e \<Rightarrow> j\<lparr>status := FAILED, j_error := Some e, retryable := Some False\<rparr>
      | Transient e \<Rightarrow>
          if n \<ge> max_attempts E then j\<lparr>status := FAILED, j_error := Some e, retryable := Some True\<rparr>
          else j\<lparr>status := QUEUED, j_error := Some e\<rparr>)"

definition ends_as :: "job \<Rightarrow> executed" where
  "ends_as j = (if status j = QUEUED then Retry (the (j_error j)) else Ran j)"

definition buried :: "'w jobs_env \<Rightarrow> job \<Rightarrow> bulk list \<Rightarrow> bulk list" where
  "buried E j dl = (if status j = FAILED then take (nat (dlq_max E)) (Json (job_json j) # dl) else dl)"

lemma settled_trans:
  "settled E keys j dl w1 w' \<Longrightarrow> keys w1 (attempts_key (j_tenant j) (job_id j)) = ks (attempts_key (j_tenant j) (job_id j))
   \<Longrightarrow> delivered (j_tenant j) (job_id j) ks n \<Longrightarrow> delivered (j_tenant j) (job_id j) (keys w') n"
  by (simp add: settled_def delivered_def)

lemma execute_begins:
  assumes ok: "redis_ok (jx E) keys" "0 < retention E" and a: "awaits keys j n p u w" and n: "n < max_attempts E"
  shows "\<exists>u1 w4. let j1 = j\<lparr>status := PROCESSING, attempts := n + 1, updated_at := u1\<rparr> in
     (\<forall>ingest. execute E ingest (j_tenant j) (job_id j) p w =
       (case u of
          None \<Rightarrow> fail_job E j1 ''uploaded file expired before a worker picked it up'' False w4
        | Some data \<Rightarrow>
            (let (r, w5) = ingest (j_tenant j) \<lparr>up_filename = filename j, up_type = content_type j, up_data = data, up_title = title j\<rparr> w4
             in case r of
                  Permanent err \<Rightarrow> fail_job E j1 err False w5
                | Transient err \<Rightarrow> if n + 1 \<ge> max_attempts E then fail_job E j1 err True w5 else retry_later E j1 err w5
                | Stored d c \<Rightarrow> finish_job E j1 p d c (perf E w4) w5)))
     \<and> sane (j_tenant j) (keys w4) \<and> delivered (j_tenant j) (job_id j) (keys w4) (n + 1)
     \<and> dead_letters (keys w4) = dead_letters (keys w) \<and> keys w4 (payload_key p) = keys w (payload_key p)"
proof -
  let ?t = "j_tenant j" and ?i = "job_id j"
  obtain d where pl: "keys w (payload_key p) = map_option (\<lambda>s. (RStr (Txt s), d)) u" using a by (auto simp: awaits_def)
  obtain w1 where g: "job_get E ?t ?i w = (Some (Some j), w1)" "keys w1 = keys w"
    using job_get_effect[OF ok(1)] a by (fastforce simp: awaits_def)
  obtain w2 where s: "start_attempt E ?t ?i w1 = (Some (n + 1), w2)" "delivered ?t ?i (keys w2) (n + 1)"
      "\<forall>y. y \<noteq> attempts_key ?t ?i \<longrightarrow> keys w2 y = keys w1 y"
    using start_attempt_effect[OF ok, of ?t ?i w1 n] a g(2) by (auto simp: awaits_def)
  have sn: "sane ?t (keys w2)" by (rule sane_frame[of _ "keys w"]) (use a s(3) g(2) in \<open>auto simp: awaits_def\<close>)
  let ?j = "j\<lparr>status := PROCESSING, attempts := n + 1\<rparr>"
  obtain w3 where v: "job_save E ?j w2 = (Some (?j\<lparr>updated_at := stamp E w2\<rparr>), w3)" "sane ?t (keys w3)"
      "keys w3 (attempts_key ?t ?i) = keys w2 (attempts_key ?t ?i)" "keys w3 (payload_key p) = keys w2 (payload_key p)"
      "dead_letters (keys w3) = dead_letters (keys w2)"
    using job_save_effect[OF ok sn, of ?j ?i p] by auto
  obtain w4 where q: "payload_get E p w3 = (Some u, w4)" "keys w4 = keys w3"
    using payload_get_effect[OF ok(1), of w3 p d u] pl v(4) s(3) g(2) by auto
  have dl: "dead_letters (keys w2) = dead_letters (keys w)" using stored_frame(2)[of "keys w2" "keys w"] s(3) g(2) by simp
  have dv: "delivered ?t ?i (keys w4) (n + 1)" using s(2) v(3) q(2) by (simp add: delivered_def)
  have pk: "keys w4 (payload_key p) = keys w (payload_key p)" using q(2) v(4) s(3) g(2) by simp
  show ?thesis
    by (rule exI[of _ "stamp E w2"], rule exI[of _ w4], simp only: Let_def)
      (use g s(1) v(1,2,5) q n dl dv pk in \<open>simp add: execute_def Let_def split: option.split\<close>)
qed


definition parked :: "job \<Rightarrow> string \<Rightarrow> upload" where
  "parked j data = \<lparr>up_filename = filename j, up_type = content_type j, up_data = data, up_title = title j\<rparr>"

text \<open>Submitting: what is handed to the queue is a job that awaits its first delivery, with the whole upload
  parked, provided the ids are new; the job is answered unless the queue raises.\<close>

definition new_ids :: "'w jobs_env \<Rightarrow> ('w \<Rightarrow> keyspace) \<Rightarrow> string \<Rightarrow> 'w \<Rightarrow> bool" where
  "new_ids E keys t w \<longleftrightarrow>
     (\<forall>v. keys (snd (new_id E v)) = keys v) \<and> (\<forall>v. keys w (attempts_key t (fst (new_id E v))) = None)"

lemma submit_parks:
  assumes "redis_ok (jx E) keys" and "0 < retention E" and "0 < payload_ttl E" and "sane t (keys w)" and "new_ids E keys t w"
  shows "\<exists>j p v q w'. submit E enqueue t u w = (if q = None then None else Some j, w') \<and> enqueue j p v = (q, w')
     \<and> awaits keys j 0 p (Some (up_data u)) v \<and> j_tenant j = t \<and> status j = QUEUED \<and> attempts j = 0
     \<and> parked j (up_data u) = u \<and> size_bytes j = int (length (up_data u))"
proof -
  obtain p w0 where p: "new_id E w = (p, w0)" by (cases "new_id E w")
  have k0: "keys w0 = keys w" using assms(5) p unfolding new_ids_def by (metis snd_conv)
  obtain x w1 where x: "jx E (SETEX (payload_key p) (Txt (up_data u)) (payload_ttl E)) w0 = (x, w1)" by fastforce
  have k1: "x = OK" "keys w1 = (keys w)(payload_key p \<mapsto> (RStr (Txt (up_data u)), Some (of_int (payload_ttl E))))"
    using redis_rules(1,2)[OF assms(1), of "SETEX (payload_key p) (Txt (up_data u)) (payload_ttl E)" w0] x assms(3) k0 by simp_all
  obtain i w2 where i: "new_id E w1 = (i, w2)" by (cases "new_id E w1")
  have k2: "keys w2 = keys w1" "keys w (attempts_key t i) = None" using assms(5) i unfolding new_ids_def by (metis snd_conv, metis fst_conv)
  have sane2: "sane t (keys w2)" by (rule sane_frame[OF assms(4)]) (auto simp: k2 k1)
  define j0 where "j0 = \<lparr>job_id = i, j_tenant = t, filename = up_filename u, content_type = up_type u, title = up_title u,
                  size_bytes = int (length (up_data u)), status = QUEUED, attempts = 0, j_doc = None, j_chunks = None,
                  j_error = None, retryable = None, request_id = request_of E w2, created_at = stamp E w2,
                  updated_at = stamp E w2\<rparr>"
  obtain w3 where w3: "job_save E j0 w2 = (Some (j0\<lparr>updated_at := stamp E w2\<rparr>), w3)" "sane t (keys w3)"
      "stored_job t i (keys w3) = Some (Json (job_json (j0\<lparr>updated_at := stamp E w2\<rparr>)))"
      "keys w3 (attempts_key t i) = keys w2 (attempts_key t i)" "keys w3 (payload_key p) = keys w2 (payload_key p)"
    using job_save_effect[OF assms(1,2) sane2, of j0 i p] by (auto simp: j0_def)
  let ?j = "j0\<lparr>updated_at := stamp E w2\<rparr>"
  obtain w4 where w4: "count_outcome E ''submitted'' w3 = (Some (), w4)" "sane t (keys w4)" "\<forall>y. y \<noteq> STATS_KEY \<longrightarrow> keys w4 y = keys w3 y"
    using count_outcome_effect[OF assms(1) w3(2), of "''submitted''"] by auto
  obtain q w5 where q: "enqueue ?j p w4 = (q, w5)" by (cases "enqueue ?j p w4")
  have "submit E enqueue t u w = (if q = None then None else Some ?j, w5)"
    using p x k1(1) i w3(1) w4(1) q by (simp add: submit_def payload_put_def j0_def)
  moreover have "awaits keys ?j 0 p (Some (up_data u)) w4"
    using w4 w3 k2 k1 by (simp add: awaits_def j0_def stored_job_def get_doc_def delivered_def)
  ultimately show ?thesis using q by (intro exI[of _ ?j] exI[of _ p] exI[of _ w4] exI[of _ q] exI[of _ w5]) (simp add: j0_def parked_def)
qed

lemma execute_runs:
  assumes ok: "redis_ok (jx E) keys" "0 < retention E" "0 < dlq_max E"
    and fr: "leaves_jobs keys ingest (j_tenant j) (job_id j) p"
    and a: "awaits keys j n p (Some data) w" and n: "n < max_attempts E"
  shows "\<exists>r v j' w'. fst (ingest (j_tenant j) (parked j data) v) = r
     \<and> (\<exists>u. j' = verdict E (n + 1) r (j\<lparr>status := PROCESSING, attempts := n + 1\<rparr>)\<lparr>updated_at := u\<rparr>)
     \<and> execute E ingest (j_tenant j) (job_id j) p w = (ends_as j', w')
     \<and> awaits keys j' (n + 1) p (if status j' = DONE then None else Some data) w'
     \<and> dead_letters (keys w') = buried E j' (dead_letters (keys w))"
proof -
  let ?t = "j_tenant j" and ?i = "job_id j"
  obtain u1 w4 where b: "execute E ingest ?t ?i p w =
       (let (r, w5) = ingest ?t (parked j data) w4; j1 = j\<lparr>status := PROCESSING, attempts := n + 1, updated_at := u1\<rparr>
        in case r of
             Permanent err \<Rightarrow> fail_job E j1 err False w5
           | Transient err \<Rightarrow> if n + 1 \<ge> max_attempts E then fail_job E j1 err True w5 else retry_later E j1 err w5
           | Stored d c \<Rightarrow> finish_job E j1 p d c (perf E w4) w5)"
      and k: "sane ?t (keys w4)" "delivered ?t ?i (keys w4) (n + 1)" "dead_letters (keys w4) = dead_letters (keys w)"
        "keys w4 (payload_key p) = keys w (payload_key p)"
    using execute_begins[OF ok(1,2) a n] by (auto simp: Let_def parked_def)
  define j1 where "j1 = j\<lparr>status := PROCESSING, attempts := n + 1, updated_at := u1\<rparr>"
  have ti: "j_tenant j1 = ?t" "job_id j1 = ?i" by (simp_all add: j1_def)
  obtain r w5 where r: "ingest ?t (parked j data) w4 = (r, w5)" by (cases "ingest ?t (parked j data) w4")
  have eq: "keys w5 y = keys w4 y" if "y \<in> job_keys ?t ?i p" for y
    using fr r that by (auto simp: leaves_jobs_def) (metis snd_conv)
  have sn: "sane (j_tenant j1) (keys w5)"
    unfolding ti by (rule sane_frame[OF k(1)]) (auto intro: eq simp: job_keys_def)
  have dv: "delivered ?t ?i (keys w5) (n + 1)" using k(2) eq[of "attempts_key ?t ?i"] by (simp add: delivered_def job_keys_def)
  have dl: "dead_letters (keys w5) = dead_letters (keys w)"
    using stored_frame(2)[of "keys w5" "keys w4"] eq[of DLQ_KEY] k(3) by (simp add: job_keys_def)
  obtain d where pk: "keys w5 (payload_key p) = Some (RStr (Txt data), d)"
    using a k(4) eq[of "payload_key p"] by (auto simp: awaits_def job_keys_def)
  have "\<exists>j' w'. (\<exists>u. j' = verdict E (n + 1) r j1\<lparr>updated_at := u\<rparr>) \<and> execute E ingest ?t ?i p w = (ends_as j', w')
     \<and> settled E keys j' (buried E j' (dead_letters (keys w))) w5 w'
     \<and> keys w' (payload_key p) = (if status j' = DONE then None else keys w5 (payload_key p))"
  proof (cases r)
    case (Stored d c)
    have st: "execute E ingest ?t ?i p w = finish_job E j1 p d c (perf E w4) w5"
      using b r Stored by (simp add: j1_def Let_def)
    obtain u w' where "finish_job E j1 p d c (perf E w4) w5 = (Ran (verdict E (n + 1) r j1\<lparr>updated_at := u\<rparr>), w')"
        "settled E keys (verdict E (n + 1) r j1\<lparr>updated_at := u\<rparr>) (dead_letters (keys w5)) w5 w'" "keys w' (payload_key p) = None"
      using finish_job_effect[OF ok(1,2) sn, where d = d and n = c and p = p and started = "perf E w4"] Stored
      by (simp add: Let_def verdict_def) blast
    then show ?thesis
      using st dl Stored
      by (intro exI[of _ "verdict E (n + 1) r j1\<lparr>updated_at := u\<rparr>"] exI[of _ w']) (auto simp: ends_as_def buried_def verdict_def)
  next
    case (Permanent e)
    have st: "execute E ingest ?t ?i p w = fail_job E j1 e False w5"
      using b r Permanent by (simp add: j1_def Let_def)
    obtain u w' where "fail_job E j1 e False w5 = (Ran (verdict E (n + 1) r j1\<lparr>updated_at := u\<rparr>), w')"
        "settled E keys (verdict E (n + 1) r j1\<lparr>updated_at := u\<rparr>)
           (take (nat (dlq_max E)) (Json (job_json (verdict E (n + 1) r j1\<lparr>updated_at := u\<rparr>)) # dead_letters (keys w5))) w5 w'"
        "keys w' (payload_key p) = keys w5 (payload_key p)"
      using fail_job_effect[OF ok sn, where err = e and retry = False and p = p] Permanent
      by (simp add: Let_def verdict_def) blast
    then show ?thesis
      using st dl Permanent
      by (intro exI[of _ "verdict E (n + 1) r j1\<lparr>updated_at := u\<rparr>"] exI[of _ w']) (auto simp: ends_as_def buried_def verdict_def)
  next
    case (Transient e)
    show ?thesis
    proof (cases "n + 1 \<ge> max_attempts E")
      case True
      have st: "execute E ingest ?t ?i p w = fail_job E j1 e True w5"
        using b r Transient True by (simp add: j1_def Let_def)
      obtain u w' where "fail_job E j1 e True w5 = (Ran (verdict E (n + 1) r j1\<lparr>updated_at := u\<rparr>), w')"
          "settled E keys (verdict E (n + 1) r j1\<lparr>updated_at := u\<rparr>)
             (take (nat (dlq_max E)) (Json (job_json (verdict E (n + 1) r j1\<lparr>updated_at := u\<rparr>)) # dead_letters (keys w5))) w5 w'"
          "keys w' (payload_key p) = keys w5 (payload_key p)"
        using fail_job_effect[OF ok sn, where err = e and retry = True and p = p] Transient True
        by (simp add: Let_def verdict_def) blast
      then show ?thesis
        using st dl Transient True
        by (intro exI[of _ "verdict E (n + 1) r j1\<lparr>updated_at := u\<rparr>"] exI[of _ w']) (auto simp: ends_as_def buried_def verdict_def)
    next
      case False
      have st: "execute E ingest ?t ?i p w = retry_later E j1 e w5"
        using b r Transient False by (simp add: j1_def Let_def)
      obtain u w' where "retry_later E j1 e w5 = (Retry e, w')"
          "settled E keys (verdict E (n + 1) r j1\<lparr>updated_at := u\<rparr>) (dead_letters (keys w5)) w5 w'"
          "keys w' (payload_key p) = keys w5 (payload_key p)"
        using retry_later_effect[OF ok(1,2) sn, where err = e and p = p] Transient False
        by (simp add: Let_def verdict_def) blast
      then show ?thesis
        using st dl Transient False
        by (intro exI[of _ "verdict E (n + 1) r j1\<lparr>updated_at := u\<rparr>"] exI[of _ w']) (auto simp: ends_as_def buried_def verdict_def)
    qed
  qed
  then obtain u j' w' where e: "j' = verdict E (n + 1) r j1\<lparr>updated_at := u\<rparr>" "execute E ingest ?t ?i p w = (ends_as j', w')"
      "settled E keys j' (buried E j' (dead_letters (keys w))) w5 w'"
      "keys w' (payload_key p) = (if status j' = DONE then None else keys w5 (payload_key p))"
    by blast
  have ti': "j_tenant j' = ?t" "job_id j' = ?i"
    using e(1) ti by (auto simp: verdict_def split: ingested.splits)
  have "awaits keys j' (n + 1) p (if status j' = DONE then None else Some data) w'"
    using e(3,4) ti' dv pk by (auto simp: awaits_def settled_def delivered_def)
  moreover have "\<exists>u. j' = verdict E (n + 1) r (j\<lparr>status := PROCESSING, attempts := n + 1\<rparr>)\<lparr>updated_at := u\<rparr>"
    using e(1) by (auto simp: verdict_def j1_def split: ingested.splits)
  moreover have "dead_letters (keys w') = buried E j' (dead_letters (keys w))" using e(3) by (simp add: settled_def)
  moreover have "fst (ingest ?t (parked j data) w4) = r" using r by simp
  ultimately show ?thesis using e(2) by blast
qed


lemma execute_doomed:
  assumes ok: "redis_ok (jx E) keys" "0 < retention E" "0 < dlq_max E"
    and a: "awaits keys j n p u w" and d: "u = None \<or> max_attempts E \<le> n"
  shows "\<exists>j' w'. (\<forall>ingest. execute E ingest (j_tenant j) (job_id j) p w = (Ran j', w'))
     \<and> status j' = FAILED \<and> retryable j' = Some False \<and> job_id j' = job_id j \<and> j_tenant j' = j_tenant j
     \<and> stored_job (j_tenant j) (job_id j) (keys w') = Some (Json (job_json j'))
     \<and> delivered (j_tenant j) (job_id j) (keys w') (n + 1)
     \<and> dead_letters (keys w') = take (nat (dlq_max E)) (Json (job_json j') # dead_letters (keys w))"
proof -
  let ?t = "j_tenant j" and ?i = "job_id j"
  obtain k err w3 where f: "\<forall>ingest. execute E ingest ?t ?i p w = fail_job E k err False w3" "sane ?t (keys w3)"
      "delivered ?t ?i (keys w3) (n + 1)" "dead_letters (keys w3) = dead_letters (keys w)"
      and tk: "j_tenant k = ?t" "job_id k = ?i"
  proof (cases "n < max_attempts E")
    case True
    then have "u = None" using d by simp
    with execute_begins[OF ok(1,2) a True] obtain u1 w4 where
      "\<forall>ingest. execute E ingest ?t ?i p w = fail_job E (j\<lparr>status := PROCESSING, attempts := n + 1, updated_at := u1\<rparr>)
         ''uploaded file expired before a worker picked it up'' False w4"
      "sane ?t (keys w4)" "delivered ?t ?i (keys w4) (n + 1)" "dead_letters (keys w4) = dead_letters (keys w)"
      by (auto simp: Let_def)
    then show ?thesis by (rule that) simp_all
  next
    case False
    obtain w1 where g: "job_get E ?t ?i w = (Some (Some j), w1)" "keys w1 = keys w"
      using job_get_effect[OF ok(1)] a by (fastforce simp: awaits_def)
    obtain w2 where s: "start_attempt E ?t ?i w1 = (Some (n + 1), w2)" "delivered ?t ?i (keys w2) (n + 1)"
        "\<forall>y. y \<noteq> attempts_key ?t ?i \<longrightarrow> keys w2 y = keys w1 y"
      using start_attempt_effect[OF ok(1,2), of ?t ?i w1 n] a g(2) by (auto simp: awaits_def)
    have "sane ?t (keys w2)" by (rule sane_frame[of _ "keys w"]) (use a s(3) g(2) in \<open>auto simp: awaits_def\<close>)
    moreover have "dead_letters (keys w2) = dead_letters (keys w)" using stored_frame(2)[of "keys w2" "keys w"] s(3) g(2) by simp
    ultimately show ?thesis
      using False g s by (intro that[of j _ w2]) (auto simp: execute_def Let_def)
  qed
  have sn: "sane (j_tenant k) (keys w3)" using f(2) tk by simp
  obtain v w' where "fail_job E k err False w3 = (Ran (k\<lparr>status := FAILED, j_error := Some err, retryable := Some False, updated_at := v\<rparr>), w')"
      "settled E keys (k\<lparr>status := FAILED, j_error := Some err, retryable := Some False, updated_at := v\<rparr>)
        (take (nat (dlq_max E)) (Json (job_json (k\<lparr>status := FAILED, j_error := Some err, retryable := Some False, updated_at := v\<rparr>))
           # dead_letters (keys w3))) w3 w'"
    using fail_job_effect[OF ok sn, where err = err and retry = False and p = p] by (auto simp: Let_def)
  then show ?thesis
    using f tk by (intro exI[of _ "k\<lparr>status := FAILED, j_error := Some err, retryable := Some False, updated_at := v\<rparr>"] exI[of _ w'])
      (auto simp: settled_def delivered_def)
qed


lemma inline_run_settles:
  assumes ok: "redis_ok (jx E) keys" "0 < retention E" "0 < dlq_max E"
    and fr: "leaves_jobs keys ingest t i p" and pz: "\<And>a v. keys (pause a v) = keys v"
  shows "\<lbrakk>awaits keys j n p (Some data) w; j_tenant j = t; job_id j = i; n < max_attempts E; max_attempts E - n \<le> int left\<rbrakk>
    \<Longrightarrow> \<exists>j' m u. awaits keys j' m p u (inline_run E ingest pause left k t i p w) \<and> n < m \<and> m \<le> max_attempts E
          \<and> status j' \<in> {DONE, FAILED} \<and> j_tenant j' = t \<and> job_id j' = i"
proof (induction left arbitrary: j n w k)
  case 0
  then show ?case by simp
next
  case (Suc left)
  obtain r v j' w' u where x: "j' = verdict E (n + 1) r (j\<lparr>status := PROCESSING, attempts := n + 1\<rparr>)\<lparr>updated_at := u\<rparr>"
      "execute E ingest t i p w = (ends_as j', w')" "awaits keys j' (n + 1) p (if status j' = DONE then None else Some data) w'"
    using execute_runs[OF ok _ Suc.prems(1,4)] fr Suc.prems(2,3) by blast
  have ti: "j_tenant j' = t" "job_id j' = i" using x(1) Suc.prems(2,3) by (auto simp: verdict_def split: ingested.splits)
  show ?case
  proof (cases "status j' = QUEUED")
    case True
    then have "n + 1 < max_attempts E" using x(1) by (auto simp: verdict_def split: ingested.splits if_splits)
    moreover have "awaits keys j' (n + 1) p (Some data) (pause k w')" using x(3) True pz by (simp add: awaits_def)
    moreover have "max_attempts E - (n + 1) \<le> int left" using Suc.prems(5) by simp
    ultimately show ?thesis using Suc.IH[OF _ ti, of "n + 1" "pause k w'" "Suc k"] x(2) True
      by (fastforce simp: ends_as_def)
  next
    case False
    then have "status j' \<in> {DONE, FAILED}" using x(1) by (auto simp: verdict_def split: ingested.splits if_splits)
    then show ?thesis using False x(2,3) ti Suc.prems(4)
      by (intro exI[of _ j'] exI[of _ "n + 1"] exI[of _ "if status j' = DONE then None else Some data"]) (auto simp: ends_as_def)
  qed
qed

section \<open>Properties\<close>

text \<open>C19: one delivery of a job that has attempts left and its upload parked: the ingestion runs once on
  the parked upload, and its answer decides: a stored document leaves the job done, with the
  document's id and number of chunks and the upload deleted; a permanent error leaves it failed and
  a dead letter; any other error puts it back in the queue with the upload kept, or fails it, as
  retryable, and dead-letters it when this was the last attempt. The stored record, the delivery
  count and the dead letters are the ones that go with that verdict.\<close>

lemma job_gets_its_verdict:
  assumes "redis_ok (jx E) keys" "0 < retention E" "0 < dlq_max E"
    and "leaves_jobs keys ingest (j_tenant j) (job_id j) p"
    and "awaits keys j n p (Some data) w" and "n < max_attempts E"
  shows "\<exists>r v j' w'. fst (ingest (j_tenant j) (parked j data) v) = r
     \<and> (\<exists>u. j' = verdict E (n + 1) r (j\<lparr>status := PROCESSING, attempts := n + 1\<rparr>)\<lparr>updated_at := u\<rparr>)
     \<and> execute E ingest (j_tenant j) (job_id j) p w = (ends_as j', w')
     \<and> awaits keys j' (n + 1) p (if status j' = DONE then None else Some data) w'
     \<and> dead_letters (keys w') = buried E j' (dead_letters (keys w))"
  by (rule execute_runs[OF assms])

text \<open>a delivery past the attempt limit, or one whose upload is gone, never reaches the ingestion
  (the outcome is the same whatever the ingestion is): the job fails for good and its record becomes the
  newest dead letter, with the dead letters kept to their bound. A job that kills its worker is counted
  at every delivery, so it stops at the limit; but a finished job that is delivered again, as the broker
  may do, is turned into a failed one, because its upload is gone.\<close>

lemma doomed_jobs_never_reach_the_pipeline:
  assumes "redis_ok (jx E) keys" "0 < retention E" "0 < dlq_max E"
    and "awaits keys j n p u w" and "u = None \<or> max_attempts E \<le> n"
  shows "\<exists>j' w'. (\<forall>ingest. execute E ingest (j_tenant j) (job_id j) p w = (Ran j', w'))
     \<and> status j' = FAILED \<and> retryable j' = Some False \<and> job_id j' = job_id j \<and> j_tenant j' = j_tenant j
     \<and> stored_job (j_tenant j) (job_id j) (keys w') = Some (Json (job_json j'))
     \<and> delivered (j_tenant j) (job_id j) (keys w') (n + 1)
     \<and> dead_letters (keys w') = take (nat (dlq_max E)) (Json (job_json j') # dead_letters (keys w))"
  by (rule execute_doomed[OF assms])


text \<open>the in-process queue settles every job: whatever the ingestion answers, each time, after at most
  \<open>max_attempts\<close> deliveries the stored record of a submitted job is done or failed, never queued or
  processing, and the job was delivered at least once.\<close>

lemma inline_queue_settles_every_job:
  assumes "redis_ok (jx E) keys" "0 < retention E" "0 < dlq_max E"
    and "leaves_jobs keys ingest t i p" and "\<And>a v. keys (pause a v) = keys v"
    and "awaits keys j 0 p (Some data) w" "j_tenant j = t" "job_id j = i" and "0 < max_attempts E"
  shows "\<exists>j' m u. awaits keys j' m p u (inline_run E ingest pause (nat (max_attempts E)) 1 t i p w)
     \<and> 0 < m \<and> m \<le> max_attempts E \<and> status j' \<in> {DONE, FAILED} \<and> j_tenant j' = t \<and> job_id j' = i"
  using inline_run_settles[OF assms(1-8)] assms(9) by simp


text \<open>A server that does what Redis documents, one submitted job, one failing ingestion.\<close>

definition demo_env :: "keyspace jobs_env" where
  "demo_env = \<lparr>jx = doc, stamp = (\<lambda>w. ''now''), new_id = (\<lambda>w. (''id'', w)), request_of = (\<lambda>w. None), perf = (\<lambda>w. 0),
     retention = 60, payload_ttl = 60, dlq_max = 5, max_attempts = 2\<rparr>"

definition demo_job :: job where
  "demo_job = \<lparr>job_id = ''j'', j_tenant = ''acme'', filename = ''a.txt'', content_type = None, title = None, size_bytes = 2,
     status = QUEUED, attempts = 0, j_doc = None, j_chunks = None, j_error = None, retryable = None,
     request_id = None, created_at = ''now'', updated_at = ''now''\<rparr>"

definition demo_keys :: "string option \<Rightarrow> keyspace" where
  "demo_keys u = (Map.empty(job_key ''acme'' ''j'' \<mapsto> (RStr (Json (job_json demo_job)), None)))
     (payload_key ''p'' := map_option (\<lambda>s. (RStr (Txt s), None)) u)"

lemma demo_simps [simp]:
  "jx demo_env = doc" "retention demo_env = 60" "dlq_max demo_env = 5" "max_attempts demo_env = 2"
  "j_tenant demo_job = ''acme''" "job_id demo_job = ''j''"
  by (simp_all add: demo_env_def demo_job_def)

lemma demo_awaits: "awaits id demo_job 0 ''p'' u (demo_keys u)"
  by (auto simp: awaits_def sane_def demo_keys_def delivered_def stored_job_def get_doc_def stats_ok_def zset_at_def
      hash_at_def list_at_def index_key_def payload_key_def job_key_def STATS_KEY_def SEQUENCE_KEY_def DLQ_KEY_def attempts_key_def
      split: option.splits)

lemma demo_leaves: "leaves_jobs id (\<lambda>t u w. (r, w)) t i p"
  by (simp add: leaves_jobs_def)

lemma job_gets_its_verdict_witness:
  "\<exists>j' w'. execute demo_env (\<lambda>t u w. (Stored ''d'' 3, w)) ''acme'' ''j'' ''p'' (demo_keys (Some ''hi'')) = (Ran j', w')
     \<and> status j' = DONE \<and> j_doc j' = Some ''d'' \<and> w' (payload_key ''p'') = None"
  using job_gets_its_verdict[OF _ _ _ _ demo_awaits, of demo_env "\<lambda>t u w. (Stored ''d'' 3, w)" "''hi''"]
  by (fastforce simp: demo_leaves verdict_def ends_as_def awaits_def)

lemma doomed_jobs_never_reach_the_pipeline_witness:
  "\<exists>j' w'. (\<forall>ingest. execute demo_env ingest ''acme'' ''j'' ''p'' (demo_keys None) = (Ran j', w')) \<and> status j' = FAILED
     \<and> dead_letters w' = [Json (job_json j')]"
  using doomed_jobs_never_reach_the_pipeline[OF _ _ _ demo_awaits[of None], of demo_env]
  by (force simp: dead_letters_def demo_keys_def list_at_def DLQ_KEY_def payload_key_def job_key_def)

lemma inline_queue_settles_every_job_witness:
  "\<exists>j' m u. awaits id j' m ''p'' u (inline_run demo_env (\<lambda>t u w. (Transient ''down'', w)) (\<lambda>a w. w) 2 1 ''acme'' ''j'' ''p''
       (demo_keys (Some ''hi''))) \<and> status j' \<in> {DONE, FAILED}"
  using inline_queue_settles_every_job[OF _ _ _ demo_leaves _ demo_awaits, of demo_env "\<lambda>a w. w" _ _ "Transient ''down''"]
  by fastforce

end
