(* ===== verification/Ingestion.thy ===== *)
theory Ingestion
  imports Vector_Store Documents Embeddings Ingest_Jobs
begin

text \<open>
  Ingestion (\<open>app/rag/ingestion.py\<close>): parse, chunk, embed, store, register. It ties the parser, the
  chunkers, the chunk store and the registry together, and is what a job runs (\<open>job_ingest\<close>). The
  SHA-256 digest, the clock's ISO text and the text of an exception from outside the program are
  arguments, and so is the embedder (\<open>Embeddings\<close> has the program's own).
\<close>

section \<open>Titles\<close>

text \<open>\<open>_H1\<close> from the character after a \<open>#\<close> at the start of a line. The white space may run over line
  ends; when nothing but white space is left, the title is blank if it can be anything.\<close>

definition h1_after :: "string \<Rightarrow> string option" where
  "h1_after s =
     (let run = takeWhile is_space s; body = dropWhile is_space s in
      if run = [] then None
      else if body \<noteq> [] then Some (strip (lazy_text (takeWhile (\<lambda>c. c \<noteq> CHR 0x0A) body)))
      else if \<exists>c \<in> set (tl run). c \<noteq> CHR 0x0A then Some [] else None)"

fun find_h1 :: "bool \<Rightarrow> string \<Rightarrow> string option" where
  "find_h1 start [] = None"
| "find_h1 start (c # cs) =
     (case (if start \<and> c = CHR ''#'' then h1_after cs else None) of
        Some t \<Rightarrow> Some t
      | None \<Rightarrow> find_h1 (c = CHR 0x0A) cs)"

definition infer_title :: "doc_section list \<Rightarrow> string \<Rightarrow> string" where
  "infer_title secs f =
     (case find_h1 True (take 2000 (sec_text (hd secs))) of
        Some t \<Rightarrow> t
      | None \<Rightarrow> if path_stem f = [] then ''untitled'' else path_stem f)"

text \<open>A heading of blanks is a title of no characters, not the name of the file.\<close>

lemma blank_heading_gives_an_empty_title: "infer_title [\<lparr>sec_text = ''#  '', sec_page = None\<rparr>] ''notes.md'' = []"
  by code_simp

section \<open>Ingesting\<close>

record 'w ingestion =
  ig_store :: "'w chunk_store"
  ig_docs :: "'w docs_env"
  ig_embed :: "string list \<Rightarrow> 'w \<Rightarrow> real list list stage \<times> 'w"
  ig_chunk :: "doc_section list \<Rightarrow> string option \<Rightarrow> chunk list"
  ig_chunker :: string
  max_bytes :: int
  ig_pdf :: "string \<Rightarrow> pdf_read"
  ig_wide :: "nat \<Rightarrow> char"
  sha256_hex :: "string \<Rightarrow> string"
  now_iso :: "'w \<Rightarrow> string"
  trouble :: "'w \<Rightarrow> string"

datatype ingest_error = DocumentTooLarge string | NotParsed parse_error | Trouble

definition document_id :: "'w ingestion \<Rightarrow> string \<Rightarrow> string" where
  "document_id I data = take 24 (sha256_hex I data)"

definition title_for :: "upload \<Rightarrow> doc_section list \<Rightarrow> string" where
  "title_for u secs =
     (let given = strip (case up_title u of None \<Rightarrow> [] | Some t \<Rightarrow> t)
      in if given \<noteq> [] then given else infer_title secs (up_filename u))"

fun last_page :: "doc_section list \<Rightarrow> int option" where
  "last_page [] = None"
| "last_page (s # ss) =
     (case (sec_page s, last_page ss) of
        (None, m) \<Rightarrow> m
      | (Some p, None) \<Rightarrow> Some p
      | (Some p, Some m) \<Rightarrow> Some (max p m))"

definition record_of :: "'w ingestion \<Rightarrow> upload \<Rightarrow> doc_section list \<Rightarrow> chunk list \<Rightarrow> 'w \<Rightarrow> doc_record" where
  "record_of I u secs chunks w =
     \<lparr>d_id = document_id I (up_data u), d_title = title_for u secs, d_filename = up_filename u, d_type = up_type u,
      d_size = int (length (up_data u)), d_pages = last_page secs, d_chunks = int (length chunks), d_chunker = ig_chunker I,
      d_created = now_iso I w\<rparr>"

definition store_upload ::
  "'w ingestion \<Rightarrow> string \<Rightarrow> upload \<Rightarrow> doc_section list \<Rightarrow> 'w \<Rightarrow> (ingest_error + doc_record) \<times> 'w" where
  "store_upload I t u secs w =
     (let title = title_for u secs; chunks = ig_chunk I secs (Some title);
          (e, w1) = ig_embed I (map c_text chunks) w
      in case e of
           Ready vs \<Rightarrow>
             (let (s, w2) = replace_document (ig_store I) t (document_id I (up_data u)) title chunks vs w1 in
              if s = None then (Inl Trouble, w2)
              else
                (let r = record_of I u secs chunks w2; (p, w3) = registry_put (ig_docs I) t r w2
                 in (if p = None then Inl Trouble else Inr r, w3)))
         | _ \<Rightarrow> (Inl Trouble, w1))"

definition ingest :: "'w ingestion \<Rightarrow> string \<Rightarrow> upload \<Rightarrow> 'w \<Rightarrow> (ingest_error + doc_record) \<times> 'w" where
  "ingest I t u w =
     (if int (length (up_data u)) > max_bytes I then
        (Inl (DocumentTooLarge (''document exceeds '' @ decimal (nat (max_bytes I)) @ '' bytes'')), w)
      else
        (case parse_document (ig_pdf I) (ig_wide I) (up_data u) (up_filename u) (up_type u) of
           Inl e \<Rightarrow> (Inl (NotParsed e), w)
         | Inr secs \<Rightarrow> store_upload I t u secs w))"

definition delete_upload :: "'w ingestion \<Rightarrow> string \<Rightarrow> string \<Rightarrow> 'w \<Rightarrow> bool option \<times> 'w" where
  "delete_upload I t d w =
     (let (g, w1) = registry_get (ig_docs I) t d w in
      case g of
        None \<Rightarrow> (None, w1)
      | Some None \<Rightarrow> (Some False, w1)
      | Some (Some r) \<Rightarrow>
          (let (x, w2) = delete_document (ig_store I) t d w1 in
           if x = None then (None, w2) else registry_delete (ig_docs I) t d w2))"

text \<open>What a job sees of it: \<open>PERMANENT_ERRORS\<close> or not, with the exception's type and text.\<close>

fun verdict_of :: "ingest_error + doc_record \<Rightarrow> string \<Rightarrow> ingested" where
  "verdict_of (Inr r) e = Stored (d_id r) (d_chunks r)"
| "verdict_of (Inl (DocumentTooLarge m)) e = Permanent (''DocumentTooLargeError: '' @ m)"
| "verdict_of (Inl (NotParsed (UnsupportedDocument m))) e = Permanent (''UnsupportedDocumentError: '' @ m)"
| "verdict_of (Inl (NotParsed (EmptyDocument m))) e = Permanent (''EmptyDocumentError: '' @ m)"
| "verdict_of (Inl x) e = Transient e"

definition job_ingest :: "'w ingestion \<Rightarrow> 'w ingester" where
  "job_ingest I t u w = (let (r, w1) = ingest I t u w in (verdict_of r (trouble I w1), w1))"

section \<open>The two stores together\<close>

text \<open>Redis and Qdrant behave as documented, and neither they nor the embedder touch the other's data. The
  digest is hexadecimal.\<close>

definition services_ok :: "'w ingestion \<Rightarrow> ('w \<Rightarrow> keyspace) \<Rightarrow> ('w \<Rightarrow> points) \<Rightarrow> bool" where
  "services_ok I keys pts \<longleftrightarrow>
     redis_ok (dx (ig_docs I)) keys \<and> qdrant_ok (qx (ig_store I)) pts \<and> inj (uuid5 (ig_store I))
   \<and> (\<forall>c w. pts (snd (dx (ig_docs I) c w)) = pts w) \<and> (\<forall>c w. keys (snd (qx (ig_store I) c w)) = keys w)
   \<and> (\<forall>xs w. keys (snd (ig_embed I xs w)) = keys w \<and> pts (snd (ig_embed I xs w)) = pts w)
   \<and> (\<forall>x. set (sha256_hex I x) \<subseteq> set ''0123456789abcdef'')"

text \<open>What a tenant's documents are, in both stores: the registry's map, and the points of each.\<close>

definition in_step :: "'w ingestion \<Rightarrow> ('w \<Rightarrow> keyspace) \<Rightarrow> ('w \<Rightarrow> points) \<Rightarrow> doc_map \<Rightarrow> 'w \<Rightarrow> bool" where
  "in_step I keys pts A w \<longleftrightarrow>
     holds (epoch (ig_docs I)) A (keys w) \<and> store_ok (ig_store I) (pts w (collection (ig_store I)))
   \<and> (\<forall>t d r. A t d = Some r \<longrightarrow> int (card (points_in (pts w (collection (ig_store I))) t d)) = d_chunks r)"

section \<open>Frames\<close>

lemma send_all_frame: "(\<And>c w. g (snd (exec c w)) = g w) \<Longrightarrow> g (snd (send_all exec cs w)) = g w"
  by (induction cs arbitrary: w) (simp_all add: split_beta)

lemma pipeline_frame: "(\<And>c w. g (snd (exec c w)) = g w) \<Longrightarrow> g (snd (pipeline exec cs w)) = g w"
  by (simp add: pipeline_def split_beta send_all_frame)

lemma registry_frame:
  assumes "\<And>c w. g (snd (dx E c w)) = g w"
  shows "g (snd (registry_put E t r w)) = g w" "g (snd (registry_get E t d w)) = g w" "g (snd (registry_delete E t d w)) = g w"
  using pipeline_frame[of g "dx E"] assms
  by (simp_all add: registry_put_def registry_get_def registry_delete_def split_beta)

lemma upsert_batches_frame: "(\<And>c w. g (snd (qx S c w)) = g w) \<Longrightarrow> g (snd (upsert_batches S pss w)) = g w"
  by (induction pss arbitrary: w) (simp_all add: split_beta split: qreply.splits)

lemma store_frame:
  assumes "\<And>c w. g (snd (qx S c w)) = g w"
  shows "g (snd (delete_document S t d w)) = g w" "g (snd (replace_document S t d ti chunks vs w)) = g w"
  using assms upsert_batches_frame[of g S] by (simp_all add: delete_document_def replace_document_def split_beta)

lemma document_id_plain:
  assumes "services_ok I keys pts"
  shows "plain_id (document_id I x)" "slash_free (document_id I x)"
proof -
  have "set (document_id I x) \<subseteq> set ''0123456789abcdef''"
    using assms set_take_subset[of 24 "sha256_hex I x"] unfolding services_ok_def document_id_def by blast
  then show "plain_id (document_id I x)" "slash_free (document_id I x)" by (auto simp: plain_id_def slash_free_def)
qed

section \<open>What ingesting does to the two stores\<close>

text \<open>One document changes in both stores.\<close>

lemma in_step_change:
  assumes "in_step I keys pts A w" and "holds (epoch (ig_docs I)) (A(t := (A t)(d := x))) (keys w')"
    and "store_ok (ig_store I) (pts w' (collection (ig_store I)))"
    and "\<And>t' d'. points_in (pts w' (collection (ig_store I))) t' d'
          = (if t' = t \<and> d' = d then P else points_in (pts w (collection (ig_store I))) t' d')"
    and "\<And>r. x = Some r \<Longrightarrow> int (card P) = d_chunks r"
  shows "in_step I keys pts (A(t := (A t)(d := x))) w'"
  using assms unfolding in_step_def by (auto split: if_splits)

context chunker
begin

lemma store_upload_ok:
  assumes "services_ok I keys pts" and "in_step I keys pts A w" and "ig_chunk I = chunk"
    and "ig_embed I (map c_text (chunk secs (Some (title_for u secs)))) w = (Ready vs, w1)"
    and "length vs = length (chunk secs (Some (title_for u secs)))"
  defines "d \<equiv> document_id I (up_data u)" and "chunks \<equiv> chunk secs (Some (title_for u secs))"
  shows "\<exists>w2 w3 r. store_upload I t u secs w = (Inr r, w3) \<and> r = record_of I u secs chunks w2
     \<and> in_step I keys pts (A(t := (A t)(d \<mapsto> r))) w3
     \<and> (\<forall>t' d'. points_in (pts w3 (collection (ig_store I))) t' d'
          = (if t' = t \<and> d' = d then set (map2 (point_of (ig_store I) t d (title_for u secs)) chunks vs)
             else points_in (pts w (collection (ig_store I))) t' d'))"
proof -
  let ?S = "ig_store I" and ?D = "ig_docs I" and ?title = "title_for u secs"
  note ok = assms(1)[unfolded services_ok_def]
  have w1: "keys w1 = keys w" "pts w1 = pts w"
    using ok assms(4) by (metis snd_conv)+
  have s1: "store_ok ?S (pts w1 (collection ?S))" "holds (epoch ?D) A (keys w)" using assms(2) w1 by (simp_all add: in_step_def)
  obtain w2 where w2: "replace_document ?S t d ?title chunks vs w1 = (Some (), w2)" "store_ok ?S (pts w2 (collection ?S))"
    "\<And>t' d'. points_in (pts w2 (collection ?S)) t' d'
        = (if t' = t \<and> d' = d then set (map2 (point_of ?S t d ?title) chunks vs) else points_in (pts w1 (collection ?S)) t' d')"
    "card (set (map2 (point_of ?S t d ?title) chunks vs)) = length chunks"
    using replace_points[of ?S pts w1 d chunks vs t ?title] ok s1(1) document_id_plain(2)[OF assms(1)] assms(5) distinct_indices
    by (metis chunks_def d_def)
  have "keys w2 = keys w1" using store_frame(2)[of keys ?S] ok w2(1) by (metis snd_conv)
  then have h2: "holds (epoch ?D) A (keys w2)" using s1(2) w1 by simp
  let ?r = "record_of I u secs chunks w2"
  have "plain_id (d_id ?r)" "d_id ?r = d" using document_id_plain(1)[OF assms(1)] by (simp_all add: record_of_def d_def)
  then obtain w3 where w3: "registry_put ?D t ?r w2 = (Some (), w3)" "holds (epoch ?D) (A(t := (A t)(d \<mapsto> ?r))) (keys w3)"
    using registry_put_ok[of ?D keys A w2 ?r t] ok h2 by auto
  have p3: "pts w3 = pts w2" using registry_frame(1)[of pts ?D] ok w3(1) by (metis snd_conv)
  have "store_upload I t u secs w = (Inr ?r, w3)"
    using assms(3,4) w2(1) w3(1) by (simp add: store_upload_def Let_def chunks_def d_def)
  moreover have "in_step I keys pts (A(t := (A t)(d \<mapsto> ?r))) w3"
    by (rule in_step_change[OF assms(2) w3(2), where P = "set (map2 (point_of ?S t d ?title) chunks vs)"])
      (simp_all only: p3 w1(2) w2(2-4), clarsimp simp: record_of_def)
  ultimately show ?thesis using w2(3) p3 w1(2) by auto
qed

end

lemma delete_upload_ok:
  assumes "services_ok I keys pts" and "in_step I keys pts A w" and "plain_id d"
  shows "\<exists>w'. delete_upload I t d w = (Some (A t d \<noteq> None), w') \<and> in_step I keys pts (A(t := (A t)(d := None))) w'
     \<and> (\<forall>t' d'. points_in (pts w' (collection (ig_store I))) t' d'
          = (if t' = t \<and> d' = d \<and> A t d \<noteq> None then {} else points_in (pts w (collection (ig_store I))) t' d'))"
proof -
  let ?S = "ig_store I" and ?D = "ig_docs I"
  note ok = assms(1)[unfolded services_ok_def]
  have h: "holds (epoch ?D) A (keys w)" "store_ok ?S (pts w (collection ?S))" using assms(2) by (simp_all add: in_step_def)
  obtain w1 where w1: "registry_get ?D t d w = (Some (A t d), w1)" "keys w1 = keys w"
    using registry_get_ok[of ?D keys A w d t] ok h assms(3) by blast
  have p1: "pts w1 = pts w" using registry_frame(2)[of pts ?D] ok w1(1) by (metis snd_conv)
  show ?thesis
  proof (cases "A t d")
    case None
    then have "(A t)(d := None) = A t" by (intro ext) simp
    then have "A(t := (A t)(d := None)) = A" by simp
    moreover have "in_step I keys pts A w1" using assms(2) w1(2) p1 by (simp add: in_step_def)
    ultimately show ?thesis using w1(1) p1 None by (auto simp: delete_upload_def)
  next
    case (Some r)
    obtain w2 where w2: "delete_document ?S t d w1 = (Some (), w2)"
        "pts w2 = (pts w1)(collection ?S := drop_points (tenant_filter t (Some d)) (pts w1 (collection ?S)))"
      using delete_document_ok[OF ok[THEN conjunct2, THEN conjunct1]] by blast
    have "keys w2 = keys w1" using store_frame(1)[of keys ?S] ok w2(1) by (metis snd_conv)
    then have "holds (epoch ?D) A (keys w2)" using h(1) w1(2) by simp
    then obtain w3 where w3: "registry_delete ?D t d w2 = (Some (A t d \<noteq> None), w3)"
        "holds (epoch ?D) (A(t := (A t)(d := None))) (keys w3)"
      using registry_delete_ok[of ?D keys A w2 d t] ok assms(3) by blast
    have p3: "pts w3 = pts w2" using registry_frame(3)[of pts ?D] ok w3(1) by (metis snd_conv)
    have pi: "points_in (pts w3 (collection ?S)) t' d' = (if t' = t \<and> d' = d then {} else points_in (pts w (collection ?S)) t' d')" for t' d'
      by (simp add: p3 w2(2) p1 drop_points_in)
    have "store_ok ?S (pts w3 (collection ?S))" using drop_ok[OF h(2)] by (simp add: p3 w2(2) p1)
    then have "in_step I keys pts (A(t := (A t)(d := None))) w3"
      by (rule in_step_change[OF assms(2) w3(2)]) (use pi in simp_all)
    then show ?thesis using w1(1) w2(1) w3(1) pi Some by (auto simp: delete_upload_def)
  qed
qed

lemma build_chunker_chunker: "build_chunker k m v = Inr f \<Longrightarrow> chunker f"
  using window.chunker_axioms sentence.chunker_axioms by (auto simp: build_chunker_def map_sum_def split: if_splits sum.splits)

section \<open>Properties\<close>

text \<open>Both servers in one world, and an ingestion over them.\<close>

definition small_ingestion :: "(keyspace \<times> points) ingestion" where
  "small_ingestion =
     \<lparr>ig_store = \<lparr>qx = \<lambda>c (ks, P). (fst (small_qdrant [] c P), ks, qeffect c P), uuid5 = id, collection = ''c'', has_lexical = True\<rparr>,
      ig_docs = \<lparr>dx = \<lambda>c (ks, P). (fst (doc c ks), snd (doc c ks), P), epoch = \<lambda>_. 5\<rparr>,
      ig_embed = \<lambda>xs w. (Ready (map (\<lambda>x. [1]) xs), w), ig_chunk = window_chunks \<lparr>w_max = 2, w_overlap = 0\<rparr>, ig_chunker = ''fixed'',
      max_bytes = 9, ig_pdf = \<lambda>_. PdfCrash [], ig_wide = \<lambda>_. CHR ''?'', sha256_hex = \<lambda>_. ''9f'', now_iso = \<lambda>_. ''2026'', trouble = \<lambda>_. []\<rparr>"

lemma small_fields:
  "ig_pdf small_ingestion = (\<lambda>_. PdfCrash [])" "ig_wide small_ingestion = (\<lambda>_. CHR ''?'')"
  "ig_chunk small_ingestion = window_chunks \<lparr>w_max = 2, w_overlap = 0\<rparr>"
  by (simp_all add: small_ingestion_def)

lemma small_services: "services_ok small_ingestion fst snd"
proof -
  have q: "qdrant_ok (qx (ig_store small_ingestion)) snd"
    using small_qdrant_ok[of "[]"] by (auto simp: qdrant_ok_def small_ingestion_def)
  show ?thesis
    unfolding services_ok_def using q by (auto simp: small_ingestion_def redis_ok_def)
qed

lemma small_in_step: "in_step small_ingestion fst snd (\<lambda>_ _. None) (Map.empty, \<lambda>_ _. None)"
  by (simp add: in_step_def holds_def zset_at_def store_ok_def)

text \<open>C5: An upload that parses, with every service up, is stored whole: its record goes into the registry
  under the digest of its bytes, exactly one point for each of its chunks into the store, and every
  other document of every tenant stays as it was, in both stores; so a second upload of the same bytes
  replaces the first.\<close>

theorem an_upload_is_stored_whole:
  assumes "services_ok I keys pts" and "in_step I keys pts A w" and "build_chunker k m v = Inr (ig_chunk I)"
    and "int (length (up_data u)) \<le> max_bytes I"
    and "parse_document (ig_pdf I) (ig_wide I) (up_data u) (up_filename u) (up_type u) = Inr secs"
    and "ig_embed I (map c_text (ig_chunk I secs (Some (title_for u secs)))) w = (Ready vs, w1)"
    and "length vs = length (ig_chunk I secs (Some (title_for u secs)))"
  shows "\<exists>r w'. ingest I t u w = (Inr r, w') \<and> d_id r = document_id I (up_data u)
     \<and> d_chunks r = int (length vs) \<and> in_step I keys pts (A(t := (A t)(d_id r \<mapsto> r))) w'
     \<and> (\<forall>t' d'. points_in (pts w' (collection (ig_store I))) t' d'
          = (if t' = t \<and> d' = d_id r
             then set (map2 (point_of (ig_store I) t d' (d_title r)) (ig_chunk I secs (Some (d_title r))) vs)
             else points_in (pts w (collection (ig_store I))) t' d'))"
proof -
  have c: "chunker (ig_chunk I)" by (rule build_chunker_chunker[OF assms(3)])
  have "ingest I t u w = store_upload I t u secs w" using assms(4,5) by (simp add: ingest_def)
  then show ?thesis
    using chunker.store_upload_ok[OF c assms(1,2) refl assms(6,7), of t] assms(7) by (fastforce simp: record_of_def)
qed

lemma an_upload_is_stored_whole_witness:
  "\<exists>r w'. ingest small_ingestion ''t'' \<lparr>up_filename = ''a.txt'', up_type = None, up_data = ''a b c'', up_title = Some ''T''\<rparr>
        (Map.empty, \<lambda>_ _. None) = (Inr r, w') \<and> d_chunks r = 2 \<and> d_title r = ''T''"
proof -
  let ?u = "\<lparr>up_filename = ''a.txt'', up_type = None, up_data = ''a b c'', up_title = Some ''T''\<rparr>" and ?I = small_ingestion
  let ?secs = "[\<lparr>sec_text = ''a b c'', sec_page = None\<rparr>]" and ?w = "(Map.empty, \<lambda>_ _. None)"
  have p: "parse_document (ig_pdf ?I) (ig_wide ?I) (up_data ?u) (up_filename ?u) (up_type ?u) = Inr ?secs"
    unfolding small_fields by code_simp
  have t: "title_for ?u ?secs = ''T''" by code_simp
  have "ig_chunk ?I ?secs (Some ''T'') = [\<lparr>c_index = 0, c_text = ''a b'', c_page = None, c_heading = None\<rparr>,
      \<lparr>c_index = 1, c_text = ''c'', c_page = None, c_heading = None\<rparr>]" unfolding small_fields by code_simp
  then have c: "length (ig_chunk ?I ?secs (Some (title_for ?u ?secs))) = 2" by (simp add: t)
  have b: "build_chunker Fixed 2 0 = Inr (ig_chunk ?I)"
    by (simp add: build_chunker_def new_window_chunker_def small_ingestion_def)
  have e: "ig_embed ?I xs ?w = (Ready (map (\<lambda>x. [1]) xs), ?w)" for xs by (simp add: small_ingestion_def)
  have m: "int (length (up_data ?u)) \<le> max_bytes ?I" by (simp add: small_ingestion_def)
  obtain r w' where r: "ingest ?I ''t'' ?u ?w = (Inr r, w')" "d_chunks r = 2"
    using an_upload_is_stored_whole[OF small_services small_in_step b m p e, of "''t''"] c by auto
  then have "d_title r = ''T''"
    using p t m by (auto simp: ingest_def store_upload_def record_of_def Let_def split: stage.splits prod.splits if_splits)
  with r show ?thesis by blast
qed

text \<open>A rejected upload leaves no trace: one that is too large or does not parse changes nothing, in any
  service, and fails its job for good.\<close>

theorem a_rejected_upload_leaves_no_trace:
  assumes "int (length (up_data u)) > max_bytes I
     \<or> parse_document (ig_pdf I) (ig_wide I) (up_data u) (up_filename u) (up_type u) \<in> {Inl (UnsupportedDocument x), Inl (EmptyDocument x)}"
  shows "\<exists>e y. ingest I t u w = (Inl e, w) \<and> job_ingest I t u w = (Permanent y, w)"
proof (cases "int (length (up_data u)) > max_bytes I")
  case False
  then show ?thesis using assms by (auto simp: ingest_def job_ingest_def)
qed (simp add: ingest_def job_ingest_def)

lemma a_rejected_upload_leaves_no_trace_witness:
  "\<exists>e y. ingest small_ingestion ''t'' \<lparr>up_filename = ''a.exe'', up_type = None, up_data = ''a'', up_title = None\<rparr> (Map.empty, \<lambda>_ _. None)
      = (Inl e, Map.empty, \<lambda>_ _. None)"
proof -
  let ?u = "\<lparr>up_filename = ''a.exe'', up_type = None, up_data = ''a'', up_title = None\<rparr>"
  have "detect_kind ''a.exe'' None = Inl (UnsupportedDocument (''unsupported document type (filename='' @ py_repr ''a.exe'' @ '', content_type=None); upload PDF, plain text or Markdown''))"
    by code_simp
  then have "parse_document (ig_pdf small_ingestion) (ig_wide small_ingestion) (up_data ?u) (up_filename ?u) (up_type ?u)
      \<in> {Inl (UnsupportedDocument (''unsupported document type (filename='' @ py_repr ''a.exe'' @ '', content_type=None); upload PDF, plain text or Markdown'')),
         Inl (EmptyDocument (''unsupported document type (filename='' @ py_repr ''a.exe'' @ '', content_type=None); upload PDF, plain text or Markdown''))}"
    by (simp add: parse_document_def)
  from a_rejected_upload_leaves_no_trace[OF disjI2, OF this] show ?thesis by blast
qed

text \<open>A deleted document is gone from both stores, and only it: the answer says whether it was there.\<close>

theorem a_deleted_document_is_gone:
  assumes "services_ok I keys pts" and "in_step I keys pts A w" and "plain_id d"
  shows "\<exists>w'. delete_upload I t d w = (Some (A t d \<noteq> None), w') \<and> in_step I keys pts (A(t := (A t)(d := None))) w'
     \<and> (\<forall>t' d'. points_in (pts w' (collection (ig_store I))) t' d'
          = (if t' = t \<and> d' = d \<and> A t d \<noteq> None then {} else points_in (pts w (collection (ig_store I))) t' d'))"
  by (rule delete_upload_ok[OF assms])

lemma a_deleted_document_is_gone_witness:
  "\<exists>w'. delete_upload small_ingestion ''t'' ''9f'' (Map.empty, \<lambda>_ _. None) = (Some False, w')"
proof -
  have "plain_id ''9f''" by (simp add: plain_id_def)
  from a_deleted_document_is_gone[OF small_services small_in_step this, of "''t''"] show ?thesis by auto
qed

end
