(* ===== verification/Http_Api.thy ===== *)
theory Http_Api imports Research_Runs Ingestion begin

text \<open>
  The HTTP surface of the tenants: the error envelope of \<open>app/main.py\<close>, the order of the dependencies of
  \<open>app/api/deps.py\<close>, and the endpoints of \<open>app/api/rag.py\<close> and \<open>app/api/agents.py\<close>. FastAPI itself is
  outside the program: a handler is a function of the caller it was given, and an exception that no
  handler of the application catches is \<open>Unhandled\<close> (Starlette answers 500).
\<close>

section \<open>The error envelope\<close>

record envelope =
  env_code :: nat
  env_type :: string
  env_message :: string
  env_headers :: "(string \<times> string) list"
  env_attempts :: "attempt list option"

datatype failure = Envelope envelope | Unhandled

definition http_exception :: "nat \<Rightarrow> string \<Rightarrow> (string \<times> string) list \<Rightarrow> failure" where
  "http_exception code detail hs = Envelope
     \<lparr>env_code = code, env_type = ''http_error'', env_message = detail, env_headers = hs, env_attempts = None\<rparr>"

definition app_error :: "nat \<Rightarrow> string \<Rightarrow> string \<Rightarrow> (string \<times> string) list \<Rightarrow> attempt list option \<Rightarrow> failure" where
  "app_error code type msg hs ats = Envelope
     \<lparr>env_code = code, env_type = type, env_message = msg, env_headers = hs, env_attempts = ats\<rparr>"

fun auth_failure :: "http_error \<Rightarrow> failure" where
  "auth_failure (Unauthorized m) = http_exception 401 m [(''WWW-Authenticate'', ''Bearer'')]"
| "auth_failure (TooManyRequests bound left wait_s) = http_exception 429 ''rate limit exceeded''
     [(''X-RateLimit-Limit'', show_int bound), (''X-RateLimit-Remaining'', show_int left), (''Retry-After'', show_int wait_s)]"
| "auth_failure (http_error.Forbidden m) = http_exception 403 m []"

definition overload_failure :: "string \<Rightarrow> failure" where
  "overload_failure gate_name = app_error 503 ''overloaded'' (gate_name @ '' is saturated; try again shortly'') [(''Retry-After'', ''1'')] None"

fun chat_failure :: "chat_error \<Rightarrow> failure" where
  "chat_failure (RouteFailed (UnknownModel m)) = app_error 404 ''model_not_found'' (''no route named '' @ [CHR 0x27] @ m @ [CHR 0x27]) [] None"
| "chat_failure (RouteFailed (ClientRequestError m ats)) = app_error 400 ''provider_rejected_request'' m [] None"
| "chat_failure (RouteFailed (AllProvidersFailed route ats)) =
     app_error 503 ''all_providers_failed'' (''all deployments for route '' @ [CHR 0x27] @ route @ [CHR 0x27] @ '' failed'')
       [(''Retry-After'', ''5'')] (Some ats)"
| "chat_failure (RouteFailed (SyncError e)) = Unhandled"
| "chat_failure Unavailable = Unhandled"

text \<open>The gate that a retrieval can find saturated is the embedder's; the reranker's falls back.\<close>

fun rag_failure :: "rag_error \<Rightarrow> failure" where
  "rag_failure RetrievalSaturated = overload_failure ''embedder''"
| "rag_failure RetrievalFailed = Unhandled"
| "rag_failure (ChatFailed e) = chat_failure e"

fun research_failure :: "research_error \<Rightarrow> failure" where
  "research_failure (StepFailed e) = rag_failure e"
| "research_failure (GraphBroke h) = Unhandled"

section \<open>Dependencies\<close>

record 'w front =
  fr_redis :: "'w redis"
  fr_hash :: "string \<Rightarrow> string"
  fr_tokens :: token_service
  fr_wall :: "'w \<Rightarrow> seconds"
  fr_capacity :: int
  fr_refill :: real

text \<open>\<open>Depends(rate_limited)\<close>, which depends on \<open>authenticate\<close>\<close>

definition admit :: "'w front \<Rightarrow> headers \<Rightarrow> 'w \<Rightarrow> (failure + principal) \<times> 'w" where
  "admit F h w =
     (let (a, w1) = authenticate (fr_redis F) (fr_hash F) (fr_tokens F) (fr_wall F) h w in
      case a of
        None \<Rightarrow> (Inl Unhandled, w1)
      | Some (Inl e) \<Rightarrow> (Inl (auth_failure e), w1)
      | Some (Inr p) \<Rightarrow>
          (let (l, w2) = rate_limited (fr_redis F) (fr_wall F) (fr_capacity F) (fr_refill F) p w1 in
           (case l of None \<Rightarrow> Inl Unhandled | Some (Inl e) \<Rightarrow> Inl (auth_failure e) | Some (Inr q) \<Rightarrow> Inr q, w2)))"

definition endpoint ::
  "'w front \<Rightarrow> headers \<Rightarrow> (principal \<Rightarrow> 'w chat_state \<Rightarrow> (failure + 'a) \<times> 'w chat_state) \<Rightarrow> 'w chat_state
     \<Rightarrow> (failure + 'a) \<times> 'w chat_state" where
  "endpoint F h handler s =
     (let (a, w) = admit F h (world s); s1 = set_world w s in
      case a of Inl e \<Rightarrow> (Inl e, s1) | Inr p \<Rightarrow> handler p s1)"

text \<open>A handler that only uses Redis, Qdrant and the models.\<close>

definition in_world :: "(principal \<Rightarrow> 'w \<Rightarrow> (failure + 'a) \<times> 'w) \<Rightarrow> principal \<Rightarrow> 'w chat_state \<Rightarrow> (failure + 'a) \<times> 'w chat_state" where
  "in_world f p s = (let (r, w) = f p (world s) in (r, set_world w s))"

text \<open>What an operation that may find nothing answers.\<close>

definition or_404 :: "string \<Rightarrow> 'a option option \<Rightarrow> failure + 'a" where
  "or_404 detail r = (case r of None \<Rightarrow> Inl Unhandled | Some None \<Rightarrow> Inl (http_exception 404 detail []) | Some (Some x) \<Rightarrow> Inr x)"

definition done_or_404 :: "string \<Rightarrow> bool option \<Rightarrow> failure + unit" where
  "done_or_404 detail r = or_404 detail (map_option (\<lambda>b. if b then Some () else None) r)"

definition or_500 :: "'a option \<Rightarrow> failure + 'a" where
  "or_500 r = (case r of None \<Rightarrow> Inl Unhandled | Some x \<Rightarrow> Inr x)"

section \<open>Documents\<close>

record upload_file =
  fl_name :: "string option"
  fl_type :: "string option"
  fl_bytes :: string

text \<open>\<open>file.filename or "upload"\<close>\<close>

definition file_name :: "upload_file \<Rightarrow> string" where
  "file_name f = (case fl_name f of None \<Rightarrow> ''upload'' | Some n \<Rightarrow> if n = [] then ''upload'' else n)"

definition read_upload :: "int \<Rightarrow> upload_file \<Rightarrow> string option \<Rightarrow> upload" where
  "read_upload n f t = \<lparr>up_filename = file_name f, up_type = fl_type f, up_data = take (nat n) (fl_bytes f), up_title = t\<rparr>"

definition upload_document ::
  "bool \<Rightarrow> 'w ingestion \<Rightarrow> 'w jobs_env \<Rightarrow> (job \<Rightarrow> string \<Rightarrow> 'w \<Rightarrow> unit option \<times> 'w) \<Rightarrow> upload_file \<Rightarrow> string option
     \<Rightarrow> principal \<Rightarrow> 'w \<Rightarrow> (failure + job) \<times> 'w" where
  "upload_document demo I E enqueue f t p w =
     (let u = read_upload (max_bytes I + 1) f t in
      if demo then (Inl (http_exception 403 ''uploads are disabled in the public demo; a handbook is pre-loaded to query'' []), w)
      else if int (length (up_data u)) > max_bytes I then
        (Inl (http_exception 413 (''document exceeds '' @ show_int (max_bytes I) @ '' bytes'') []), w)
      else
        (case precheck (up_data u) (up_filename u) (up_type u) of
           Inl (UnsupportedDocument m) \<Rightarrow> (Inl (http_exception 415 m []), w)
         | Inl _ \<Rightarrow> (Inl Unhandled, w)
         | Inr k \<Rightarrow> (let (j, w1) = submit E enqueue (p_tenant_id p) u w in (or_500 j, w1))))"

definition list_jobs :: "'w jobs_env \<Rightarrow> int \<Rightarrow> principal \<Rightarrow> 'w \<Rightarrow> (failure + job list) \<times> 'w" where
  "list_jobs E n p w = (let (r, w1) = job_list E (p_tenant_id p) n w in (or_500 r, w1))"

definition get_job :: "'w jobs_env \<Rightarrow> string \<Rightarrow> principal \<Rightarrow> 'w \<Rightarrow> (failure + job) \<times> 'w" where
  "get_job E i p w = (let (r, w1) = job_get E (p_tenant_id p) i w in (or_404 ''no such job'' r, w1))"

definition list_documents :: "'w ingestion \<Rightarrow> principal \<Rightarrow> 'w \<Rightarrow> (failure + doc_record list) \<times> 'w" where
  "list_documents I p w = (let (r, w1) = registry_list (ig_docs I) (p_tenant_id p) w in (or_500 r, w1))"

definition get_document :: "'w ingestion \<Rightarrow> string \<Rightarrow> principal \<Rightarrow> 'w \<Rightarrow> (failure + doc_record) \<times> 'w" where
  "get_document I d p w = (let (r, w1) = registry_get (ig_docs I) (p_tenant_id p) d w in (or_404 ''no such document'' r, w1))"

definition delete_document_endpoint :: "'w ingestion \<Rightarrow> string \<Rightarrow> principal \<Rightarrow> 'w \<Rightarrow> (failure + unit) \<times> 'w" where
  "delete_document_endpoint I d p w =
     (let (r, w1) = delete_upload I (p_tenant_id p) d w in (done_or_404 ''no such document'' r, w1))"

section \<open>Search and answers\<close>

record search_request =
  sq_query :: string
  sq_top_k :: int
  sq_rerank :: bool

definition valid_search :: "search_request \<Rightarrow> bool" where
  "valid_search q \<longleftrightarrow> 1 \<le> length (sq_query q) \<and> length (sq_query q) \<le> 2000 \<and> 1 \<le> sq_top_k q \<and> sq_top_k q \<le> 20"

record search_hit =
  sh_doc :: string
  sh_title :: string
  sh_index :: nat
  sh_page :: "int option"
  sh_heading :: "string option"
  sh_text :: string
  sh_vector :: real
  sh_rerank :: "real option"

record search_response =
  sr_query :: string
  sr_reranked :: bool
  sr_retrieval :: string
  sr_hits :: "search_hit list"

definition search_hit_of :: "retrieved \<Rightarrow> search_hit" where
  "search_hit_of h = (let c = rc_chunk h in
     \<lparr>sh_doc = s_doc c, sh_title = s_title c, sh_index = s_index c, sh_page = s_page c, sh_heading = s_heading c,
      sh_text = s_text c, sh_vector = vector_score h, sh_rerank = rc_rerank h\<rparr>)"

definition search_endpoint :: "'w retriever \<Rightarrow> search_request \<Rightarrow> principal \<Rightarrow> 'w \<Rightarrow> (failure + search_response) \<times> 'w" where
  "search_endpoint R q p w =
     (let (x, w1) = retrieve R (p_tenant_id p) (sq_query q) (sq_top_k q) (sq_rerank q) w in
      (case x of
         Overloaded \<Rightarrow> Inl (overload_failure ''embedder'')
       | Broke \<Rightarrow> Inl Unhandled
       | Ready hits \<Rightarrow>
           Inr \<lparr>sr_query = sq_query q, sr_reranked = list_ex (\<lambda>h. rc_rerank h \<noteq> None) hits,
                sr_retrieval = (if hybrid R then ''hybrid'' else ''dense''), sr_hits = map search_hit_of hits\<rparr>, w1))"

definition answer_endpoint ::
  "'w retriever \<Rightarrow> 'w chat_service \<Rightarrow> answer_request \<Rightarrow> principal \<Rightarrow> 'w chat_state \<Rightarrow> (failure + answer_response) \<times> 'w chat_state" where
  "answer_endpoint R C q p s = (let (r, s1) = answer R C p q s in (map_sum rag_failure id r, s1))"

definition research_endpoint ::
  "'w retriever \<Rightarrow> 'w chat_service \<Rightarrow> int \<Rightarrow> research_request \<Rightarrow> principal \<Rightarrow> 'w chat_state
     \<Rightarrow> (failure + research_response) \<times> 'w chat_state" where
  "research_endpoint R C m q p s = (let (r, s1) = research R C m p q s in (map_sum research_failure id r, s1))"

definition chat_endpoint ::
  "'w chat_service \<Rightarrow> chat_request \<Rightarrow> principal \<Rightarrow> 'w chat_state \<Rightarrow> (failure + chat_response \<times> (string \<times> string) list) \<times> 'w chat_state" where
  "chat_endpoint C q p s = (let (r, s1) = chat_complete C p q s in (map_sum chat_failure (\<lambda>x. (x, chat_headers x)) r, s1))"

section \<open>Readiness\<close>

text \<open>\<open>readyz\<close>: the two pings in order, an exception by its class name; the status code and the checks.\<close>

definition check_text :: "string option \<Rightarrow> string" where
  "check_text r = (case r of None \<Rightarrow> ''ok'' | Some cls \<Rightarrow> ''error: '' @ cls)"

fun run_checks :: "(string \<times> ('w \<Rightarrow> string option \<times> 'w)) list \<Rightarrow> 'w \<Rightarrow> (string \<times> string) list \<times> 'w" where
  "run_checks [] w = ([], w)"
| "run_checks ((name, probe) # ps) w =
     (let (r, w1) = probe w; (cs, w2) = run_checks ps w1 in ((name, check_text r) # cs, w2))"

definition readyz :: "('w \<Rightarrow> string option \<times> 'w) \<Rightarrow> ('w \<Rightarrow> string option \<times> 'w) \<Rightarrow> 'w \<Rightarrow> (nat \<times> string \<times> (string \<times> string) list) \<times> 'w" where
  "readyz redis_ping qdrant_ping w =
     (let (cs, w1) = run_checks [(''redis'', redis_ping), (''qdrant'', qdrant_ping)] w; ready = list_all (\<lambda>(n, v). v = ''ok'') cs in
      ((if ready then 200 else 503, if ready then ''ready'' else ''not_ready'', cs), w1))"

section \<open>Facts\<close>

lemma readyz_code: "fst (fst (readyz a b w)) = (if fst (a w) = None \<and> fst (b (snd (a w))) = None then 200 else 503)"
  by (auto simp: readyz_def check_text_def split_beta Let_def split: option.splits)

lemma precheck_cases:
  assumes "precheck data f ct = Inl e"
  shows "(\<exists>m. e = UnsupportedDocument m) \<and> parse_document pdf wide data f ct = Inl e"
proof (cases "detect_kind f ct")
  case (Inl x)
  then show ?thesis using assms by (auto simp: precheck_def parse_document_def detect_kind_def Let_def split: if_splits)
next
  case (Inr k)
  then show ?thesis using assms
    by (auto simp: precheck_def parse_document_def sections_of_def decode_text_def binary_error_def split: if_splits)
qed

lemma precheck_text:
  assumes "precheck data f ct = Inr PlainText" and "parse_document pdf wide data f ct = Inl e"
  shows "\<exists>m. e = EmptyDocument m"
  using assms by (auto simp: precheck_def parse_document_def sections_of_def decode_text_def Let_def split: sum.splits if_splits)

text \<open>The upload as it was sent, as the worker would see all of it.\<close>

definition whole_upload :: "upload_file \<Rightarrow> string option \<Rightarrow> upload" where
  "whole_upload f t = \<lparr>up_filename = file_name f, up_type = fl_type f, up_data = fl_bytes f, up_title = t\<rparr>"

lemma read_upload_whole:
  "int (length (up_data (read_upload (n + 1) f t))) \<le> n \<Longrightarrow> read_upload (n + 1) f t = whole_upload f t"
  "0 \<le> n \<Longrightarrow> n < int (length (up_data (read_upload (n + 1) f t))) \<longleftrightarrow> n < int (length (fl_bytes f))"
  by (auto simp: read_upload_def whole_upload_def)

section \<open>Properties\<close>

text \<open>An upload no worker could store, whatever pypdf makes of it: it is too large, or its type or its bytes
  are not those of a document. The other permanent errors only show once the document is read.\<close>

definition rejects :: "'w ingestion \<Rightarrow> string \<Rightarrow> upload \<Rightarrow> 'w \<Rightarrow> bool" where
  "rejects I t u v \<longleftrightarrow>
     (case ingest I t u v of
        (Inl (DocumentTooLarge m), v') \<Rightarrow> v' = v
      | (Inl (NotParsed (UnsupportedDocument m)), v') \<Rightarrow> v' = v
      | _ \<Rightarrow> False)"

definition hopeless :: "'w ingestion \<Rightarrow> upload \<Rightarrow> bool" where
  "hopeless I u \<longleftrightarrow> (\<forall>pdf t v. rejects (I\<lparr>ig_pdf := pdf\<rparr>) t u v)"

lemma stored_trouble: "fst (store_upload I t u secs v) = Inl e \<Longrightarrow> e = Trouble"
  by (auto simp: store_upload_def Let_def split: prod.splits stage.splits if_splits)

lemma rejects_iff:
  "rejects I t u v \<longleftrightarrow> max_bytes I < int (length (up_data u))
     \<or> (\<exists>m. parse_document (ig_pdf I) (ig_wide I) (up_data u) (up_filename u) (up_type u) = Inl (UnsupportedDocument m))"
proof (cases "parse_document (ig_pdf I) (ig_wide I) (up_data u) (up_filename u) (up_type u)")
  case (Inl e)
  then show ?thesis by (auto simp: rejects_def ingest_def split: parse_error.splits)
next
  case (Inr secs)
  obtain r v' where r: "store_upload I t u secs v = (r, v')" by fastforce
  then have "r = Inl Trouble \<or> (\<exists>x. r = Inr x)" using stored_trouble[of I t u secs v] by (cases r) auto
  then show ?thesis using Inr r by (auto simp: rejects_def ingest_def)
qed

lemma no_pages_is_empty:
  assumes "precheck data f ct = Inr k"
  shows "parse_document (\<lambda>_. Pages []) wide data f ct \<noteq> Inl (UnsupportedDocument m)"
  using assms by (cases k) (auto simp: precheck_def parse_document_def sections_of_def decode_text_def parse_pdf_def Let_def
      split: sum.splits if_splits)

lemma hopeless_iff:
  "hopeless I u \<longleftrightarrow> max_bytes I < int (length (up_data u)) \<or> (\<exists>m. precheck (up_data u) (up_filename u) (up_type u) = Inl (UnsupportedDocument m))"
proof (cases "precheck (up_data u) (up_filename u) (up_type u)")
  case (Inl e)
  then show ?thesis using precheck_cases[OF Inl] by (auto simp: hopeless_def rejects_iff)
next
  case (Inr k)
  from no_pages_is_empty[OF this] have "\<not> rejects (I\<lparr>ig_pdf := \<lambda>_. Pages []\<rparr>) t u v" if "\<not> max_bytes I < int (length (up_data u))" for t v
    using that by (simp add: rejects_iff)
  then show ?thesis using Inr by (auto simp: hopeless_def rejects_iff)
qed

lemma permanent_errors:
  assumes "\<not> hopeless I u" and "fst (job_ingest I t u v) = Permanent m"
  shows "m = ''EmptyDocumentError: document contains no extractable text''
    \<or> (detect_kind (up_filename u) (up_type u) = Inr Pdf \<and> (\<exists>x. ig_pdf I (up_data u) = PdfReadError x))"
proof -
  obtain k where k: "precheck (up_data u) (up_filename u) (up_type u) = Inr k" and small: "\<not> max_bytes I < int (length (up_data u))"
    using assms(1) precheck_cases[of "up_data u" "up_filename u" "up_type u"]
    by (cases "precheck (up_data u) (up_filename u) (up_type u)") (auto simp: hopeless_iff)
  obtain e where e: "fst (ingest I t u v) = Inl e" "verdict_of (Inl e) (trouble I (snd (ingest I t u v))) = Permanent m"
    using assms(2) by (cases "fst (ingest I t u v)") (auto simp: job_ingest_def split_beta)
  have "e = Trouble \<or> (\<exists>x. e = NotParsed x \<and> parse_document (ig_pdf I) (ig_wide I) (up_data u) (up_filename u) (up_type u) = Inl x)"
    using e(1) small stored_trouble[of I t u _ v e] by (auto simp: ingest_def split: sum.splits if_splits)
  then obtain x where x: "e = NotParsed x" "parse_document (ig_pdf I) (ig_wide I) (up_data u) (up_filename u) (up_type u) = Inl x"
    using e(2) by auto
  from x(2) k e(2) show ?thesis unfolding x(1)
    by (cases k) (auto simp: precheck_def parse_document_def sections_of_def decode_text_def parse_pdf_def Let_def
        split: sum.splits if_splits pdf_read.splits)
qed


definition small_jobs :: "(keyspace \<times> points) jobs_env" where
  "small_jobs = \<lparr>jx = \<lambda>c (ks, P). (fst (doc c ks), snd (doc c ks), P), stamp = \<lambda>_. ''now'', new_id = \<lambda>w. (''id'', w), request_of = \<lambda>_. None,
     perf = \<lambda>_. 0, retention = 60, payload_ttl = 60, dlq_max = 5, max_attempts = 2\<rparr>"


section \<open>Who gets in\<close>

text \<open>The record that the credentials of the request stand for in the key store.\<close>

definition caller_of :: "'w front \<Rightarrow> headers \<Rightarrow> keyspace \<Rightarrow> seconds \<Rightarrow> api_key \<Rightarrow> bool" where
  "caller_of F h ks now rec =
     (case credentials h of
        (Some raw, _) \<Rightarrow> fst (key_verify doc (fr_hash F) raw ks) = Some (Inr rec)
      | (None, Some tok) \<Rightarrow>
          (case token_decode (fr_tokens F) tok now of Inl _ \<Rightarrow> False | Inr c \<Rightarrow> fst (key_get doc (sub c) ks) = Some (Some rec))
      | (None, None) \<Rightarrow> False)"

lemma authenticate_cases:
  assumes "redis_ok (fr_redis F) keys" and "authenticate (fr_redis F) (fr_hash F) (fr_tokens F) (fr_wall F) h w = (a, w1)"
  shows "keys w1 = keys w"
    and "a = Some (Inl e) \<Longrightarrow> \<exists>m. e = Unauthorized m"
    and "a = Some (Inr p) \<Longrightarrow> \<exists>rec. caller_of F h (keys w) (fr_wall F w) rec \<and> p = principal_from rec"
proof -
  note kg = key_get_doc[OF assms(1), where w = w] and kv = key_verify_doc[OF assms(1), where w = w and hash_key = "fr_hash F"]
  show "keys w1 = keys w"
    using assms(2) kg kv by (auto simp: authenticate_def split_beta split: option.splits prod.splits sum.splits credential_error.splits)
  show "\<exists>m. e = Unauthorized m" if "a = Some (Inl e)"
    using assms(2) that by (auto simp: authenticate_def split_beta split: option.splits prod.splits sum.splits credential_error.splits)
      (metis credential_error.exhaust sum.exhaust)+
  show "\<exists>rec. caller_of F h (keys w) (fr_wall F w) rec \<and> p = principal_from rec" if admitted: "a = Some (Inr p)"
  proof (cases "fst (credentials h)")
    case None
    then show ?thesis using assms(2) admitted kg
      by (auto simp: authenticate_def caller_of_def split_beta split: option.splits prod.splits sum.splits credential_error.splits)
  next
    case (Some raw)
    then obtain z where z: "fst (key_verify doc (fr_hash F) raw (keys w)) = Some z"
        "(case z of Inl (InvalidCredentials m) \<Rightarrow> Inl (Unauthorized m) | Inr rec \<Rightarrow> Inr (principal_from rec)) = (Inr p :: http_error + principal)"
      using assms(2) admitted kv by (auto simp: authenticate_def split_beta split: option.splits prod.splits)
    then obtain rec where "z = Inr rec" "p = principal_from rec" by (cases z) (auto split: credential_error.splits)
    then show ?thesis using Some z(1) by (intro exI[of _ rec]) (cases "credentials h", auto simp: caller_of_def)
  qed
qed

lemma bucket_frame:
  assumes "redis_ok exec keys" and "x \<noteq> key"
  shows "keys (snd (token_bucket exec key capacity rate now cost w)) x = keys w x"
proof -
  have m: "keys (snd (exec (HMGET key fs) v)) = keys v" for fs v
    using redis_keys[OF assms(1)] by simp
  have s: "keys (snd (exec (HSET key fs) v)) x = keys v x" for fs v
    using redis_keys[OF assms(1), of "HSET key fs" v] assms(2) by (auto simp: put_val_def split: option.splits)
  have e: "keys (snd (exec (EXPIRE key n) v)) x = keys v x" for n v
    using redis_keys[OF assms(1), of "EXPIRE key n" v] assms(2) by (auto split: option.splits)
  obtain r w1 where r: "exec (HMGET key [''tokens'', ''ts'']) w = (r, w1)" by fastforce
  have w1: "keys w1 = keys w" using m[of "[''tokens'', ''ts'']" w] r by simp
  show ?thesis
    using w1 unfolding token_bucket_def r Let_def
    by (auto simp: s e split_beta split: reply.splits list.splits option.splits)
qed

lemma rate_limited_cases:
  assumes "redis_ok exec keys" and "rate_limited exec clock capacity rate p w = (l, w1)"
  shows "x \<noteq> RATE_KEY (p_key_id p) \<Longrightarrow> keys w1 x = keys w x"
    and "l = Some (Inl e) \<Longrightarrow> \<exists>a b c. e = TooManyRequests a b c"
    and "l = Some (Inr q) \<Longrightarrow> q = p"
  using assms bucket_frame[OF assms(1), of x "RATE_KEY (p_key_id p)"]
  by (auto simp: rate_limited_def hit_def split_beta split: option.splits if_splits)

text \<open>What the guards may say to a caller, and what they may have written.\<close>

definition refused :: "failure \<Rightarrow> bool" where
  "refused e \<longleftrightarrow> e = Unhandled \<or> (\<exists>v. e = Envelope v \<and> env_code v \<in> {401, 429})"

definition only_the_bucket :: "('w \<Rightarrow> keyspace) \<Rightarrow> api_key \<Rightarrow> 'w \<Rightarrow> 'w \<Rightarrow> bool" where
  "only_the_bucket keys rec w w' \<longleftrightarrow> (\<forall>x. x \<noteq> RATE_KEY (key_id rec) \<longrightarrow> keys w' x = keys w x)"

lemma admit_cases:
  assumes "redis_ok (fr_redis F) keys" and "admit F h w = (a, w')"
  shows "case a of
      Inr p \<Rightarrow> \<exists>rec. caller_of F h (keys w) (fr_wall F w) rec \<and> p = principal_from rec \<and> only_the_bucket keys rec w w'
    | Inl e \<Rightarrow> refused e \<and> (keys w' = keys w \<or> (\<exists>rec. caller_of F h (keys w) (fr_wall F w) rec \<and> only_the_bucket keys rec w w'))"
proof -
  obtain b w1 where b: "authenticate (fr_redis F) (fr_hash F) (fr_tokens F) (fr_wall F) h w = (b, w1)" by fastforce
  note au = authenticate_cases[OF assms(1) b]
  consider "b = None" | e where "b = Some (Inl e)" | p where "b = Some (Inr p)"
    by (cases b) (auto split: sum.splits, metis sum.exhaust)
  then show ?thesis
  proof cases
    case 1
    then show ?thesis using assms(2) b au(1) by (auto simp: admit_def refused_def)
  next
    case 2
    then obtain m where "e = Unauthorized m" using au(2) by blast
    then show ?thesis using assms(2) b au(1) 2 by (auto simp: admit_def refused_def http_exception_def)
  next
    case 3
    obtain rec where rec: "caller_of F h (keys w) (fr_wall F w) rec" "p = principal_from rec" using au(3)[OF 3] by blast
    obtain l w2 where l: "rate_limited (fr_redis F) (fr_wall F) (fr_capacity F) (fr_refill F) p w1 = (l, w2)" by fastforce
    have f: "only_the_bucket keys rec w w2"
      using rate_limited_cases(1)[OF assms(1) l] au(1) rec(2) by (simp add: principal_from_def only_the_bucket_def)
    have a: "a = (case l of None \<Rightarrow> Inl Unhandled | Some (Inl e) \<Rightarrow> Inl (auth_failure e) | Some (Inr q) \<Rightarrow> Inr q)" "w' = w2"
      using assms(2) b 3 l by (auto simp: admit_def)
    have "refused (auth_failure e)" if "l = Some (Inl e)" for e
      using rate_limited_cases(2)[OF assms(1) l that] by (auto simp: refused_def http_exception_def)
    then show ?thesis
      using rec f a(2) rate_limited_cases(3)[OF assms(1) l] by (auto simp: a(1) refused_def[of Unhandled] split: option.split sum.split)
  qed
qed

text \<open>C10: A handler only runs for a caller whose key is stored at that moment, under the limits of that key, and the
  guards write nothing but the bucket of that key; everybody else is answered 401 or 429 (or 500 when Redis
  fails the guard) without the handler being run.\<close>

theorem only_a_stored_key_reaches_a_handler:
  assumes "redis_ok (fr_redis F) keys" and "endpoint F h handler s = (r, s')"
  shows "(\<exists>rec w. caller_of F h (keys (world s)) (fr_wall F (world s)) rec \<and> only_the_bucket keys rec (world s) w
            \<and> (r, s') = handler (principal_from rec) (set_world w s))
     \<or> (\<exists>e w. r = Inl e \<and> refused e \<and> s' = set_world w s
            \<and> (keys w = keys (world s)
               \<or> (\<exists>rec. caller_of F h (keys (world s)) (fr_wall F (world s)) rec \<and> only_the_bucket keys rec (world s) w)))"
proof -
  obtain a w where a: "admit F h (world s) = (a, w)" by fastforce
  show ?thesis
  proof (cases a)
    case (Inl e)
    then show ?thesis using admit_cases[OF assms(1) a] assms(2) a by (intro disjI2 exI[of _ e] exI[of _ w]) (simp add: endpoint_def)
  next
    case (Inr p)
    then obtain rec where "caller_of F h (keys (world s)) (fr_wall F (world s)) rec" "p = principal_from rec" "only_the_bucket keys rec (world s) w"
      using admit_cases[OF assms(1) a] by auto
    then show ?thesis using assms(2) a Inr by (intro disjI1 exI[of _ rec] exI[of _ w]) (simp add: endpoint_def)
  qed
qed

definition ex_front :: "keyspace front" where
  "ex_front = \<lparr>fr_redis = doc, fr_hash = id, fr_tokens = one_token, fr_wall = (\<lambda>_. 0), fr_capacity = 10, fr_refill = 1\<rparr>"

lemma only_a_stored_key_reaches_a_handler_witness:
  "\<exists>e. endpoint ex_front \<lparr>x_api_key = None, authorization = None\<rparr> (\<lambda>p s. (Inr p, s)) ex_state = (Inl e, ex_state)"
proof -
  define h where "h = \<lparr>x_api_key = None, authorization = None\<rparr>"
  obtain r s' where r: "endpoint ex_front h (\<lambda>p s. (Inr p, s)) ex_state = (r, s')" by fastforce
  have ok: "redis_ok (fr_redis ex_front) id" by (simp add: ex_front_def)
  have "\<not> caller_of ex_front h ks now rec" for ks now rec
    by (simp add: caller_of_def credentials_def partition_blank_def lower_def strip_def lstrip_def rstrip_def Let_def h_def)
  with only_a_stored_key_reaches_a_handler[OF ok r] obtain e where "r = Inl e" "s' = set_world (world ex_state) ex_state"
    by auto
  then show ?thesis using r by (simp add: h_def)
qed

end
