(* ===== verification/Alerts.thy ===== *)
theory Alerts imports Http_Api begin

text \<open>
  The receiver of Alertmanager's webhook (\<open>app/api/alerts.py\<close>): the last alerts are kept in a Redis list,
  newest first. Times are the text pydantic makes of them; the log lines and the counter are not kept.
\<close>

section \<open>Alerts\<close>

record alert =
  al_status :: string
  al_labels :: "(string \<times> string) list"
  al_annotations :: "(string \<times> string) list"
  al_starts :: "string option"
  al_ends :: "string option"
  al_fingerprint :: "string option"

record alert_payload =
  ap_status :: string
  ap_receiver :: "string option"
  ap_alerts :: "alert list"

definition RECENT_KEY :: string where "RECENT_KEY = ''alerts:recent''"
definition RECENT_MAX :: int where "RECENT_MAX = 100"

definition alert_name :: "alert \<Rightarrow> string" where
  "alert_name a = (case dict_get (al_labels a) ''alertname'' of None \<Rightarrow> ''unknown'' | Some x \<Rightarrow> x)"

definition alert_severity :: "alert \<Rightarrow> string" where
  "alert_severity a = (case dict_get (al_labels a) ''severity'' of None \<Rightarrow> ''none'' | Some x \<Rightarrow> x)"

definition texts_json :: "(string \<times> string) list \<Rightarrow> json" where
  "texts_json d = JObj (map (\<lambda>(k, v). (k, JStr v)) d)"

fun json_texts :: "json option \<Rightarrow> (string \<times> string) list option" where
  "json_texts None = Some []"
| "json_texts (Some (JObj d)) = all_some (map (\<lambda>(k, j). case j of JStr v \<Rightarrow> Some (k, v) | _ \<Rightarrow> None) d)"
| "json_texts _ = None"

text \<open>\<open>model_dump_json\<close> and \<open>model_validate_json\<close>\<close>

definition alert_json :: "alert \<Rightarrow> json" where
  "alert_json a = JObj
     [(''status'', JStr (al_status a)), (''labels'', texts_json (al_labels a)), (''annotations'', texts_json (al_annotations a)),
      (''startsAt'', js (al_starts a)), (''endsAt'', js (al_ends a)), (''fingerprint'', js (al_fingerprint a))]"

definition parse_alert :: "json \<Rightarrow> alert option" where
  "parse_alert j =
     (case (case json_get j ''status'' of None \<Rightarrow> Some ''firing'' | Some (JStr s) \<Rightarrow> Some s | _ \<Rightarrow> None,
            json_texts (json_get j ''labels''), json_texts (json_get j ''annotations''),
            sj (json_get j ''startsAt''), sj (json_get j ''endsAt''), sj (json_get j ''fingerprint'')) of
        (Some s, Some l, Some a, Some b, Some e, Some f) \<Rightarrow>
          Some \<lparr>al_status = s, al_labels = l, al_annotations = a, al_starts = b, al_ends = e, al_fingerprint = f\<rparr>
      | _ \<Rightarrow> None)"

section \<open>Endpoints\<close>

text \<open>\<open>_authorise\<close>: the admin token as the password of HTTP Basic\<close>

definition authorise_webhook :: "string \<Rightarrow> (string \<times> string) option \<Rightarrow> failure option" where
  "authorise_webhook expected creds =
     (case creds of
        Some (user, pass) \<Rightarrow> if pass = expected then None else
          Some (http_exception 401 ''alert webhook requires the admin token as the basic-auth password'' [(''WWW-Authenticate'', ''Basic'')])
      | None \<Rightarrow> Some (http_exception 401 ''alert webhook requires the admin token as the basic-auth password'' [(''WWW-Authenticate'', ''Basic'')]))"

definition remember_alerts :: "'w redis \<Rightarrow> alert_payload \<Rightarrow> 'w \<Rightarrow> unit option \<times> 'w" where
  "remember_alerts exec p w =
     (let (rs, w1) = pipeline exec (map (\<lambda>a. LPUSH RECENT_KEY (Json (alert_json a))) (ap_alerts p) @ [LTRIM RECENT_KEY 0 (RECENT_MAX - 1)]) w
      in (map_option (\<lambda>_. ()) rs, w1))"

definition receive_alerts :: "'w redis \<Rightarrow> string \<Rightarrow> (string \<times> string) option \<Rightarrow> alert_payload \<Rightarrow> 'w \<Rightarrow> (failure + nat) \<times> 'w" where
  "receive_alerts exec expected creds p w =
     (case authorise_webhook expected creds of
        Some e \<Rightarrow> (Inl e, w)
      | None \<Rightarrow> (let (r, w1) = remember_alerts exec p w in (Inr (length (ap_alerts p)), w1)))"

definition recent_alerts :: "'w redis \<Rightarrow> string \<Rightarrow> string option \<Rightarrow> int \<Rightarrow> 'w \<Rightarrow> (failure + alert list) \<times> 'w" where
  "recent_alerts exec expected tok n w =
     (case require_admin expected tok of
        Some e \<Rightarrow> (Inl (auth_failure e), w)
      | None \<Rightarrow>
          (let (r, w1) = exec (LRANGE RECENT_KEY 0 (n - 1)) w in
           (case r of
              Bulks bs \<Rightarrow> or_500 (all_some (map (\<lambda>b. Option.bind (Option.bind b bulk_json) parse_alert) bs))
            | _ \<Rightarrow> Inl Unhandled, w1)))"

section \<open>Facts\<close>

lemma json_texts_json [simp]: "json_texts (Some (texts_json d)) = Some d"
  by (simp add: texts_json_def all_some_def comp_def split_beta image_iff)

lemma parse_alert_json [simp]: "parse_alert (alert_json a) = Some a"
  by (cases a) (simp add: parse_alert_def alert_json_def)

text \<open>The alerts in the list; it holds only alerts.\<close>

definition kept_alerts :: "keyspace \<Rightarrow> alert list \<Rightarrow> bool" where
  "kept_alerts ks l \<longleftrightarrow> list_at ks RECENT_KEY = Some (map (Json \<circ> alert_json) l)"

lemma push_all:
  "list_at ks k = Some l \<Longrightarrow>
     Raised \<notin> set (fst (send_all doc (map (LPUSH k) vs) ks))
   \<and> list_at (snd (send_all doc (map (LPUSH k) vs) ks)) k = Some (rev vs @ l)
   \<and> (\<forall>x. x \<noteq> k \<longrightarrow> snd (send_all doc (map (LPUSH k) vs) ks) x = ks x)"
proof (induction vs arbitrary: ks l)
  case (Cons v vs)
  have "fst (doc (LPUSH k v) ks) \<noteq> Raised \<and> list_at (snd (doc (LPUSH k v) ks)) k = Some (v # l)
      \<and> (\<forall>x. x \<noteq> k \<longrightarrow> snd (doc (LPUSH k v) ks) x = ks x)"
    using Cons.prems by (simp add: list_at_def put_val_def split: option.splits)
  with Cons.IH[of "snd (doc (LPUSH k v) ks)" "v # l"] show ?case by (simp add: split_beta Cons.prems)
qed simp

lemma sent_after:
  "send_all exec (cs @ ds) w =
     (fst (send_all exec cs w) @ fst (send_all exec ds (snd (send_all exec cs w))), snd (send_all exec ds (snd (send_all exec cs w))))"
  by (simp add: send_all_append split_beta)

lemma remember_effect:
  assumes "kept_alerts ks old"
  shows "\<exists>ks'. remember_alerts doc p ks = (Some (), ks') \<and> kept_alerts ks' (take 100 (rev (ap_alerts p) @ old))
     \<and> (\<forall>x. x \<noteq> RECENT_KEY \<longrightarrow> ks' x = ks x)"
proof -
  let ?vs = "map (Json \<circ> alert_json) (ap_alerts p)"
  define ks1 where "ks1 = snd (send_all doc (map (LPUSH RECENT_KEY) ?vs) ks)"
  have p: "Raised \<notin> set (fst (send_all doc (map (LPUSH RECENT_KEY) ?vs) ks))"
      "list_at ks1 RECENT_KEY = Some (map (Json \<circ> alert_json) (rev (ap_alerts p) @ old))" "\<And>x. x \<noteq> RECENT_KEY \<Longrightarrow> ks1 x = ks x"
    using push_all[OF assms[unfolded kept_alerts_def], of ?vs] by (simp_all add: ks1_def rev_map)
  define t where "t = doc (LTRIM RECENT_KEY 0 (RECENT_MAX - 1)) ks1"
  have t: "fst t = OK" "\<And>x. x \<noteq> RECENT_KEY \<Longrightarrow> snd t x = ks1 x"
    using p(2) by (auto simp: t_def put_val_def)
  have "list_at (snd t) RECENT_KEY = Some (take 100 (map (Json \<circ> alert_json) (rev (ap_alerts p) @ old)))"
    using p(2) by (auto simp: t_def put_val_def list_at_def list_range_def RECENT_MAX_def split: option.splits rval.splits)
  then have k: "kept_alerts (snd t) (take 100 (rev (ap_alerts p) @ old))" by (simp add: kept_alerts_def take_map)
  have cs: "map (\<lambda>a. LPUSH RECENT_KEY (Json (alert_json a))) (ap_alerts p) = map (LPUSH RECENT_KEY) ?vs" by simp
  obtain rs where rs: "send_all doc (map (LPUSH RECENT_KEY) ?vs) ks = (rs, ks1)"
    using ks1_def by (cases "send_all doc (map (LPUSH RECENT_KEY) ?vs) ks") simp
  have tr: "doc (LTRIM RECENT_KEY 0 (RECENT_MAX - 1)) ks1 = (OK, snd t)" using t(1) unfolding t_def by (metis prod.collapse)
  have sent: "send_all doc (map (LPUSH RECENT_KEY) ?vs @ [LTRIM RECENT_KEY 0 (RECENT_MAX - 1)]) ks = (rs @ [OK], snd t)"
    by (simp only: sent_after rs fst_conv snd_conv send_all.simps tr Let_def prod.case)
  have none: "Raised \<notin> set (rs @ [OK])" using p(1) unfolding rs by simp
  have "remember_alerts doc p ks = (Some (), snd t)"
    unfolding remember_alerts_def cs pipeline_def sent Let_def prod.case if_not_P[OF none] option.map ..
  moreover have "\<forall>x. x \<noteq> RECENT_KEY \<longrightarrow> snd t x = ks x" using t(2) p(3) by simp
  ultimately show ?thesis using k by (intro exI[of _ "snd t"] conjI)
qed

section \<open>Properties\<close>

text \<open>The webhook keeps the last hundred alerts, newest first, and touches nothing else; what an operator then
  reads is the newest of them, as they were sent.\<close>

theorem alerts_are_kept_newest_first:
  assumes "redis_ok exec keys" and "kept_alerts (keys w) old" and "1 \<le> n" and "n \<le> RECENT_MAX"
  shows "\<exists>w'. receive_alerts exec tok (Some (user, tok)) p w = (Inr (length (ap_alerts p)), w')
     \<and> kept_alerts (keys w') (take 100 (rev (ap_alerts p) @ old)) \<and> (\<forall>x. x \<noteq> RECENT_KEY \<longrightarrow> keys w' x = keys w x)
     \<and> fst (recent_alerts exec tok (Some tok) n w') = Inr (take (nat n) (rev (ap_alerts p) @ old))"
proof -
  obtain ks' where ks: "remember_alerts doc p (keys w) = (Some (), ks')" "kept_alerts ks' (take 100 (rev (ap_alerts p) @ old))"
      "\<forall>x. x \<noteq> RECENT_KEY \<longrightarrow> ks' x = keys w x"
    using remember_effect[OF assms(2)] by blast
  obtain r w' where r: "remember_alerts exec p w = (r, w')" by (cases "remember_alerts exec p w")
  have w': "keys w' = ks'"
    using ks(1) r redis_pipeline[OF assms(1), of "map (\<lambda>a. LPUSH RECENT_KEY (Json (alert_json a))) (ap_alerts p) @ [LTRIM RECENT_KEY 0 (RECENT_MAX - 1)]" w]
    by (auto simp: remember_alerts_def split_beta)
  define l where "l = take 100 (rev (ap_alerts p) @ old)"
  have l: "list_at (keys w') RECENT_KEY = Some (map (Json \<circ> alert_json) l)" using ks(2) w' by (simp add: kept_alerts_def l_def)
  have "fst (exec (LRANGE RECENT_KEY 0 (n - 1)) w') = Bulks (map Some (take (nat n) (map (Json \<circ> alert_json) l)))"
    using redis_reply[OF assms(1)] l assms(3) by (simp add: list_range_def)
  then have "fst (recent_alerts exec tok (Some tok) n w') = Inr (take (nat n) l)"
    by (simp add: recent_alerts_def require_admin_def split_beta or_500_def all_some_def comp_def take_map image_iff)
  moreover have "take (nat n) l = take (nat n) (rev (ap_alerts p) @ old)"
    using assms(4) by (simp add: l_def RECENT_MAX_def min_def)
  ultimately show ?thesis using r ks w' by (auto simp: receive_alerts_def authorise_webhook_def l_def)
qed

text \<open>Alertmanager is answered even if Redis is out, and a caller without the token changes nothing.\<close>

theorem alerts_do_not_need_redis:
  assumes "redis_down exec"
  shows "fst (receive_alerts exec tok (Some (user, tok)) p w) = Inr (length (ap_alerts p))
     \<and> fst (remember_alerts exec p w) = None
     \<and> (pass \<noteq> tok \<longrightarrow> (\<exists>e. receive_alerts any_redis tok (Some (user, pass)) p v = (Inl (Envelope e), v) \<and> env_code e = 401))"
proof -
  have "Raised \<in> set (fst (send_all exec (cs @ [c]) w))" for cs c
    using assms by (simp add: sent_after split_beta redis_down_def)
  then show ?thesis
    by (simp add: receive_alerts_def authorise_webhook_def remember_alerts_def split_beta pipeline_def http_exception_def)
qed

definition ex_alert :: alert where
  "ex_alert = \<lparr>al_status = ''firing'', al_labels = [(''alertname'', ''Down'')], al_annotations = [], al_starts = None,
               al_ends = None, al_fingerprint = None\<rparr>"

lemma alerts_are_kept_newest_first_witness:
  "\<exists>w'. receive_alerts doc ''s'' (Some (''am'', ''s'')) \<lparr>ap_status = ''firing'', ap_receiver = None, ap_alerts = [ex_alert]\<rparr> Map.empty = (Inr 1, w')
     \<and> fst (recent_alerts doc ''s'' (Some ''s'') 20 w') = Inr [ex_alert]"
proof -
  have k: "kept_alerts (id Map.empty) []" by (simp add: kept_alerts_def list_at_def)
  have n: "1 \<le> (20 :: int)" "20 \<le> RECENT_MAX" by (simp_all add: RECENT_MAX_def)
  from alerts_are_kept_newest_first[where keys = id and w = Map.empty and old = "[]" and n = 20, OF redis_ok_doc k n, of "''s''" "''am''" "\<lparr>ap_status = ''firing'', ap_receiver = None, ap_alerts = [ex_alert]\<rparr>"]
  show ?thesis by auto
qed

lemma alerts_do_not_need_redis_witness:
  "fst (receive_alerts (\<lambda>c w. (Raised, w)) ''s'' (Some (''am'', ''s'')) \<lparr>ap_status = ''firing'', ap_receiver = None, ap_alerts = [ex_alert]\<rparr> ()) = Inr 1"
  using alerts_do_not_need_redis[of "\<lambda>c w. (Raised, w)" "''s''" "''am''" "\<lparr>ap_status = ''firing'', ap_receiver = None, ap_alerts = [ex_alert]\<rparr>" "()" "''x''" "\<lambda>c w. (Raised, w)" "()"]
  by (simp add: redis_down_def)

end
