(* ===== verification/Inference_Gate.thy ===== *)
theory Inference_Gate
  imports Prelude
begin

text \<open>
  The bounded inference gate of \<open>app/core/concurrency.py\<close>, as the steps the event loop can take between
  two awaits of \<open>run\<close>. The gate's semaphore is Python's own (\<open>asyncio.Semaphore\<close>): a release hands
  its slot to the first waiter that has none yet, the waiter keeps its place in the queue until its
  task resumes, and a task that is cancelled after it was handed a slot gives it back.

  A caller is shed on arrival, starts at once, or joins the queue; from the queue it is handed a slot
  and starts, or gives up (its wait budget ran out, or it was cancelled). A caller whose task is cancelled
  while its inference runs releases its slot in the \<open>finally\<close>, although the thread of
  \<open>asyncio.to_thread\<close> cannot be stopped and goes on: such inferences are \<open>abandoned\<close>.
\<close>

section \<open>State and steps\<close>

record 'c gate =
  max_concurrency :: nat
  max_queue :: nat
  slots :: nat            \<comment> \<open>\<open>_slots._value\<close>\<close>
  queue :: "'c list"      \<comment> \<open>waiters without a slot, first come first\<close>
  handed :: "'c list"     \<comment> \<open>waiters handed a slot whose task has not resumed\<close>
  running :: "'c list"    \<comment> \<open>awaiting \<open>asyncio.to_thread\<close>\<close>
  abandoned :: "'c list"  \<comment> \<open>cancelled there; the thread still runs\<close>
  waiting :: nat          \<comment> \<open>\<open>_waiting\<close>\<close>

definition new_gate :: "int \<Rightarrow> int \<Rightarrow> value_error + 'c gate" where
  "new_gate mc mq =
     (if mc < 1 \<or> mq < 0 then Inl (ValueError ''need max_concurrency >= 1 and max_queue >= 0'')
      else Inr \<lparr>max_concurrency = nat mc, max_queue = nat mq, slots = nat mc, queue = [], handed = [], running = [],
                abandoned = [], waiting = 0\<rparr>)"

text \<open>\<open>locked()\<close>: no free slot, or somebody queued before.\<close>

definition locked :: "'c gate \<Rightarrow> bool" where
  "locked g \<longleftrightarrow> slots g = 0 \<or> queue g \<noteq> [] \<or> handed g \<noteq> []"

text \<open>\<open>_wake_up_next\<close> as long as there are slots.\<close>

function wake :: "'c gate \<Rightarrow> 'c gate" where
  "wake g = (if slots g = 0 \<or> queue g = [] then g
             else wake (g\<lparr>slots := slots g - 1, queue := tl (queue g), handed := handed g @ [hd (queue g)]\<rparr>))"
  by pat_completeness auto
termination by (relation "measure slots") auto

declare wake.simps [simp del]

datatype 'c gate_event =
    Arrive 'c     \<comment> \<open>\<open>run\<close> up to its first suspension\<close>
  | Resume 'c     \<comment> \<open>a waiter with a slot resumes and starts its inference\<close>
  | GiveUp 'c     \<comment> \<open>a waiter times out or is cancelled\<close>
  | Finish 'c     \<comment> \<open>the inference returned or raised; the slot is released\<close>
  | Cancel 'c     \<comment> \<open>the caller is cancelled in \<open>to_thread\<close>; the slot is released\<close>
  | ThreadOver 'c \<comment> \<open>the thread of a cancelled caller ends\<close>

datatype verdict = Shed | Started | Queued | Over | Abandoned

fun gate_step :: "'c gate \<Rightarrow> 'c gate_event \<Rightarrow> (verdict \<times> 'c gate) option" where
  "gate_step g (Arrive c) =
     (if c \<in> set (queue g @ handed g @ running g @ abandoned g) then None
      else if locked g \<and> waiting g \<ge> max_queue g then Some (Shed, g)
      else if locked g then Some (Queued, g\<lparr>waiting := waiting g + 1, queue := queue g @ [c]\<rparr>)
      else Some (Started, g\<lparr>slots := slots g - 1, running := running g @ [c]\<rparr>))"
| "gate_step g (Resume c) =
     (if c \<in> set (handed g)
      then Some (Started, wake (g\<lparr>waiting := waiting g - 1, handed := remove1 c (handed g), running := running g @ [c]\<rparr>))
      else None)"
| "gate_step g (GiveUp c) =
     (if c \<in> set (queue g)
      then Some (Shed, wake (g\<lparr>waiting := waiting g - 1, queue := remove1 c (queue g)\<rparr>))
      else if c \<in> set (handed g)
      then Some (Shed, wake (g\<lparr>waiting := waiting g - 1, handed := remove1 c (handed g), slots := slots g + 1\<rparr>))
      else None)"
| "gate_step g (Finish c) =
     (if c \<in> set (running g)
      then Some (Over, wake (g\<lparr>running := remove1 c (running g), slots := slots g + 1\<rparr>))
      else None)"
| "gate_step g (Cancel c) =
     (if c \<in> set (running g)
      then Some (Abandoned, wake (g\<lparr>running := remove1 c (running g), abandoned := abandoned g @ [c], slots := slots g + 1\<rparr>))
      else None)"
| "gate_step g (ThreadOver c) =
     (if c \<in> set (abandoned g) then Some (Over, g\<lparr>abandoned := remove1 c (abandoned g)\<rparr>) else None)"

text \<open>The states a gate goes through, with the events that led there, the latest first.\<close>

inductive gate_reach :: "int \<Rightarrow> int \<Rightarrow> 'c gate_event list \<Rightarrow> 'c gate \<Rightarrow> bool" for mc mq where
  start: "new_gate mc mq = Inr g \<Longrightarrow> gate_reach mc mq [] g"
| step: "gate_reach mc mq es g \<Longrightarrow> gate_step g e = Some (v, g') \<Longrightarrow> gate_reach mc mq (e # es) g'"

section \<open>The invariant\<close>

text \<open>Everything but the promise that a free slot is not left idle.\<close>

definition gate_mid :: "'c gate \<Rightarrow> bool" where
  "gate_mid g \<longleftrightarrow>
     length (running g) + length (handed g) + slots g = max_concurrency g
     \<and> waiting g = length (queue g) + length (handed g) \<and> waiting g \<le> max_queue g
     \<and> distinct (queue g @ handed g @ running g @ abandoned g)"

definition gate_ok :: "'c gate \<Rightarrow> bool" where
  "gate_ok g \<longleftrightarrow> gate_mid g \<and> (slots g = 0 \<or> queue g = [] \<or> handed g \<noteq> [])"

text \<open>What a wake-up leaves as it was.\<close>

definition same_beside_queue :: "'c gate \<Rightarrow> 'c gate \<Rightarrow> bool" where
  "same_beside_queue g g' \<longleftrightarrow> max_concurrency g' = max_concurrency g \<and> max_queue g' = max_queue g \<and> abandoned g' = abandoned g"

lemma wake_ok: "gate_mid g \<Longrightarrow> gate_ok (wake g) \<and> same_beside_queue g (wake g)"
proof (induction g rule: wake.induct)
  case (1 g)
  show ?case
  proof (cases "slots g = 0 \<or> queue g = []")
    case True
    then show ?thesis using "1.prems" by (subst (1 2) wake.simps) (auto simp: gate_ok_def same_beside_queue_def)
  next
    case False
    then obtain c cs where q: "queue g = c # cs" by (cases "queue g") auto
    let ?g = "g\<lparr>slots := slots g - 1, queue := tl (queue g), handed := handed g @ [hd (queue g)]\<rparr>"
    have "gate_mid ?g" using "1.prems" False q by (auto simp: gate_mid_def)
    from "1.IH"[OF False this] show ?thesis using False by (subst (1 2) wake.simps) (simp add: same_beside_queue_def)
  qed
qed

lemma length_remove1_Suc: "x \<in> set xs \<Longrightarrow> length xs = Suc (length (remove1 x xs))"
  by (induction xs) auto

text \<open>The change each event makes before the wake-up keeps the counts.\<close>

lemma gate_step_mid:
  assumes "gate_ok g" and "gate_step g e = Some (v, g')"
  obtains "gate_ok g'" "max_concurrency g' = max_concurrency g" "max_queue g' = max_queue g" "\<forall>c. e \<noteq> Cancel c"
      "abandoned g' = (case e of ThreadOver c \<Rightarrow> remove1 c (abandoned g) | _ \<Rightarrow> abandoned g)"
      "\<forall>c. e = ThreadOver c \<longrightarrow> c \<in> set (abandoned g)"
  | (woken) h where "g' = wake h" "gate_mid h" "max_concurrency h = max_concurrency g" "max_queue h = max_queue g"
      "abandoned h = (case e of Cancel c \<Rightarrow> abandoned g @ [c] | _ \<Rightarrow> abandoned g)" "\<forall>c. e \<noteq> ThreadOver c"
proof (cases e)
  case (Arrive c)
  then show thesis using assms by (intro that(1)) (auto simp: gate_ok_def gate_mid_def locked_def split: if_splits)
next
  case (ThreadOver c)
  then show thesis using assms by (intro that(1)) (auto simp: gate_ok_def gate_mid_def set_remove1_eq split: if_splits)
next
  case (Resume c)
  then have c: "c \<in> set (handed g)" using assms(2) by (auto split: if_splits)
  show thesis
    by (rule that(2)[of "g\<lparr>waiting := waiting g - 1, handed := remove1 c (handed g), running := running g @ [c]\<rparr>"])
      (use assms Resume c length_remove1_Suc[OF c] in \<open>auto simp: gate_ok_def gate_mid_def set_remove1_eq\<close>)
next
  case (GiveUp c)
  show thesis
  proof (cases "c \<in> set (queue g)")
    case True
    show thesis
      by (rule that(2)[of "g\<lparr>waiting := waiting g - 1, queue := remove1 c (queue g)\<rparr>"])
        (use assms GiveUp True length_remove1_Suc[OF True] in \<open>auto simp: gate_ok_def gate_mid_def set_remove1_eq\<close>)
  next
    case False
    then have c: "c \<in> set (handed g)" using assms(2) GiveUp by (auto split: if_splits)
    show thesis
      by (rule that(2)[of "g\<lparr>waiting := waiting g - 1, handed := remove1 c (handed g), slots := slots g + 1\<rparr>"])
        (use assms GiveUp False c length_remove1_Suc[OF c] in \<open>auto simp: gate_ok_def gate_mid_def set_remove1_eq\<close>)
  qed
next
  case (Finish c)
  then have c: "c \<in> set (running g)" using assms(2) by (auto split: if_splits)
  show thesis
    by (rule that(2)[of "g\<lparr>running := remove1 c (running g), slots := slots g + 1\<rparr>"])
      (use assms Finish c length_remove1_Suc[OF c] in \<open>auto simp: gate_ok_def gate_mid_def set_remove1_eq\<close>)
next
  case (Cancel c)
  then have c: "c \<in> set (running g)" using assms(2) by (auto split: if_splits)
  show thesis
    by (rule that(2)[of "g\<lparr>running := remove1 c (running g), abandoned := abandoned g @ [c], slots := slots g + 1\<rparr>"])
      (use assms Cancel c length_remove1_Suc[OF c] in \<open>auto simp: gate_ok_def gate_mid_def set_remove1_eq\<close>)
qed

text \<open>The cancelled callers, and those of them whose thread has ended.\<close>

fun cancelled :: "'c gate_event list \<Rightarrow> nat" where
  "cancelled [] = 0"
| "cancelled (Cancel c # es) = cancelled es + 1"
| "cancelled (e # es) = cancelled es"

fun threads_over :: "'c gate_event list \<Rightarrow> nat" where
  "threads_over [] = 0"
| "threads_over (ThreadOver c # es) = threads_over es + 1"
| "threads_over (e # es) = threads_over es"

lemma gate_step_ok:
  assumes "gate_ok g" and "gate_step g e = Some (v, g')"
  shows "gate_ok g' \<and> max_concurrency g' = max_concurrency g \<and> max_queue g' = max_queue g
     \<and> length (abandoned g') + threads_over [e] = length (abandoned g) + cancelled [e]"
  using assms
proof (cases rule: gate_step_mid)
  case 1
  then show ?thesis by (cases e) (auto dest: length_remove1_Suc)
next
  case (woken h)
  from wake_ok[OF woken(2)] woken show ?thesis by (cases e) (auto simp: same_beside_queue_def)
qed

lemma gate_reach_ok:
  "gate_reach mc mq es g \<Longrightarrow> gate_ok g \<and> int (max_concurrency g) = mc \<and> int (max_queue g) = mq
     \<and> length (abandoned g) + threads_over es = cancelled es"
proof (induction rule: gate_reach.induct)
  case (start g)
  then show ?case by (auto simp: new_gate_def gate_ok_def gate_mid_def split: if_splits)
next
  case (step es g e v g')
  from gate_step_ok[OF _ step.hyps(2)] step.IH show ?case by (cases e) auto
qed

section \<open>Properties\<close>

text \<open>C17: Whatever order callers arrive, start, give up, finish and are cancelled in, at most \<open>max_concurrency\<close>
  callers hold a slot and at most \<open>max_queue\<close> wait; no slot is ever lost, and none stays idle while a
  caller queues, at most until a waiter that was handed one resumes. The inferences that run in threads are
  those of the callers with a slot and, beyond them, one for each caller that was cancelled during its
  inference and whose thread has not ended; so they are at most \<open>max_concurrency\<close> as long as nobody is
  cancelled there. A caller is shed on arrival only when the queue is full and every slot is taken or about
  to be taken by somebody who queued before.\<close>

theorem gate_is_bounded_and_work_conserving:
  assumes "gate_reach mc mq es g"
  shows "int (length (running g)) \<le> mc \<and> int (waiting g) \<le> mq
         \<and> int (length (running g) + length (handed g) + slots g) = mc
         \<and> (queue g \<noteq> [] \<longrightarrow> int (length (running g) + length (handed g)) = mc \<or> handed g \<noteq> [])
         \<and> distinct (running g @ abandoned g) \<and> length (abandoned g) + threads_over es = cancelled es
         \<and> (cancelled es = 0 \<longrightarrow> int (length (running g @ abandoned g)) \<le> mc)
         \<and> (\<forall>c g'. gate_step g (Arrive c) = Some (Shed, g') \<longrightarrow> g' = g \<and> int (waiting g) = mq
              \<and> (slots g = 0 \<or> handed g \<noteq> []))"
  using gate_reach_ok[OF assms] by (auto simp: gate_ok_def gate_mid_def locked_def split: if_splits)

text \<open>One slot, one place in the queue: a caller runs, another queues, the first is cancelled, the second
  starts while the thread of the first still runs.\<close>

lemma gate_is_bounded_and_work_conserving_witness:
  "\<exists>es g. gate_reach 1 1 es g \<and> running g = [3 :: nat] \<and> abandoned g = [2] \<and> cancelled es = 1 \<and> slots g = 0"
proof -
  let ?g0 = "\<lparr>max_concurrency = 1, max_queue = 1, slots = 1, queue = [], handed = [], running = [], abandoned = [], waiting = 0\<rparr> :: nat gate"
  let ?g1 = "?g0\<lparr>slots := 0, running := [2]\<rparr>"
  let ?g2 = "?g1\<lparr>waiting := 1, queue := [3]\<rparr>"
  let ?g3 = "?g2\<lparr>queue := [], handed := [3], running := [], abandoned := [2]\<rparr>"
  let ?g4 = "?g3\<lparr>waiting := 0, handed := [], running := [3]\<rparr>"
  have "gate_reach 1 1 [] ?g0" by (rule gate_reach.start) (simp add: new_gate_def)
  then have "gate_reach 1 1 [Arrive 2] ?g1" by (rule gate_reach.step[where v = Started]) (simp add: locked_def)
  then have "gate_reach 1 1 [Arrive 3, Arrive 2] ?g2" by (rule gate_reach.step[where v = Queued]) (simp add: locked_def)
  then have "gate_reach 1 1 [Cancel 2, Arrive 3, Arrive 2] ?g3"
    by (rule gate_reach.step[where v = Abandoned]) (simp add: wake.simps)
  then have "gate_reach 1 1 [Resume 3, Cancel 2, Arrive 3, Arrive 2] ?g4"
    by (rule gate_reach.step[where v = Started]) (simp add: wake.simps)
  from gate_is_bounded_and_work_conserving[OF this] this show ?thesis by (intro exI[of _ ?g4] exI) auto
qed

text \<open>So the cap on running inferences, which the gate is there for, does not survive cancellation: however
  small \<open>max_concurrency\<close> is, callers that arrive and are cancelled leave any number of inferences running.\<close>

lemma cancelled_callers_outrun_the_gate:
  assumes "1 \<le> mc" and "0 \<le> mq"
  shows "\<exists>es g. gate_reach mc mq es g \<and> length (abandoned (g :: nat gate)) = n \<and> threads_over es = 0"
proof -
  let ?g = "\<lambda>n. \<lparr>max_concurrency = nat mc, max_queue = nat mq, slots = nat mc, queue = [], handed = [], running = [],
      abandoned = [0..<n], waiting = 0\<rparr> :: nat gate"
  have "\<exists>es. gate_reach mc mq es (?g n) \<and> threads_over es = 0"
  proof (induction n)
    case 0
    have "gate_reach mc mq [] (?g 0)" using assms by (intro gate_reach.start) (simp add: new_gate_def)
    then show ?case by (intro exI[of _ "[]"]) simp
  next
    case (Suc n)
    then obtain es where es: "gate_reach mc mq es (?g n)" "threads_over es = 0" by blast
    let ?h = "(?g n)\<lparr>slots := nat mc - 1, running := [n]\<rparr>"
    have "gate_reach mc mq (Arrive n # es) ?h"
      by (rule gate_reach.step[OF es(1), where v = Started]) (use assms in \<open>simp add: locked_def\<close>)
    then have "gate_reach mc mq (Cancel n # Arrive n # es) (?g (Suc n))"
      by (rule gate_reach.step[where v = Abandoned]) (use assms in \<open>simp add: wake.simps\<close>)
    with es(2) show ?case by (intro exI[of _ "Cancel n # Arrive n # es"]) simp
  qed
  then show ?thesis by fastforce
qed

end
