(* ===== verification/Wiring.thy ===== *)
theory Wiring
  imports Research_Runs Ingestion Inference_Gate
begin

text \<open>
  The composition root (\<open>app/core/container.py\<close>) over the settings of \<open>app/core/config.py\<close>: which settings the
  gateway refuses to start with, and what the components it builds look like. The clients of Redis and
  Qdrant, the models, the price map and the route table are arguments (\<open>parts\<close>). Tracing and the index that RediSearch is asked to create are not kept.
\<close>

section \<open>Settings\<close>

record settings =
  cfg_env :: string
  cfg_admin_token :: string
  cfg_jwt_secret :: string
  cfg_jwt_ttl :: int
  cfg_capacity :: int
  cfg_refill :: real
  cfg_cache_enabled :: bool
  cfg_cache_threshold :: real
  cfg_cache_ttl :: int
  cfg_cache_index :: string
  cfg_cache_entries :: int
  cfg_embedder :: string
  cfg_embed_concurrency :: int
  cfg_embed_queue :: int
  cfg_rerank_concurrency :: int
  cfg_rerank_queue :: int
  cfg_rerank_wait_ms :: real
  cfg_chunker :: strategy
  cfg_chunk_words :: int
  cfg_chunk_overlap :: int
  cfg_reranker :: string
  cfg_candidates :: int
  cfg_max_upload :: int
  cfg_inline :: bool
  cfg_job_attempts :: int
  cfg_job_retention :: int
  cfg_payload_ttl :: int
  cfg_batch :: int
  cfg_agent_steps :: int
  cfg_rollout_refresh :: real
  cfg_canary_requests :: int
  cfg_canary_errors :: real
  cfg_hybrid :: bool
  cfg_fusion :: fusion
  cfg_rerank_words :: int
  cfg_timeout :: real
  cfg_failures :: int
  cfg_cooldown :: real
  cfg_shared :: bool
  cfg_refresh :: real
  cfg_window :: real
  cfg_probe :: real
  cfg_faults :: bool
  cfg_retention_days :: int

definition default_settings :: settings where
  "default_settings =
     \<lparr>cfg_env = ''dev'', cfg_admin_token = ''change-me-admin-token'', cfg_jwt_secret = ''change-me-jwt-secret-at-least-32-bytes'',
      cfg_jwt_ttl = 3600, cfg_capacity = 60, cfg_refill = 1, cfg_cache_enabled = True, cfg_cache_threshold = 92 / 100,
      cfg_cache_ttl = 86400, cfg_cache_index = ''bruteforce'', cfg_cache_entries = 1000, cfg_embedder = ''hash'',
      cfg_embed_concurrency = 2, cfg_embed_queue = 64, cfg_rerank_concurrency = 2, cfg_rerank_queue = 8, cfg_rerank_wait_ms = 250,
      cfg_chunker = Structured, cfg_chunk_words = 180, cfg_chunk_overlap = 40, cfg_reranker = ''none'', cfg_candidates = 12,
      cfg_max_upload = 10485760, cfg_inline = True, cfg_job_attempts = 3, cfg_job_retention = 86400, cfg_payload_ttl = 3600,
      cfg_batch = 32, cfg_agent_steps = 12, cfg_rollout_refresh = 1, cfg_canary_requests = 20, cfg_canary_errors = 1 / 10,
      cfg_hybrid = True, cfg_fusion = RRF, cfg_rerank_words = 0, cfg_timeout = 30, cfg_failures = 3, cfg_cooldown = 30,
      cfg_shared = True, cfg_refresh = 1, cfg_window = 60, cfg_probe = 5, cfg_faults = False, cfg_retention_days = 90\<rparr>"

text \<open>The bounds that pydantic checks\<close>

definition valid_settings :: "settings \<Rightarrow> bool" where
  "valid_settings S \<longleftrightarrow>
     cfg_env S \<in> {''dev'', ''test'', ''prod''} \<and> cfg_cache_index S \<in> {''bruteforce'', ''redisearch''}
     \<and> cfg_embedder S \<in> {''hash'', ''fastembed''} \<and> cfg_reranker S \<in> {''none'', ''cross-encoder''}
     \<and> 0 < cfg_embed_concurrency S \<and> 0 \<le> cfg_embed_queue S \<and> 0 < cfg_rerank_concurrency S \<and> 0 \<le> cfg_rerank_queue S
     \<and> 0 \<le> cfg_rerank_wait_ms S \<and> 0 < cfg_chunk_words S \<and> 0 \<le> cfg_chunk_overlap S \<and> 0 < cfg_candidates S \<and> 0 < cfg_max_upload S
     \<and> 0 < cfg_job_attempts S \<and> 0 < cfg_job_retention S \<and> 0 < cfg_payload_ttl S \<and> 0 < cfg_batch S \<and> 0 < cfg_agent_steps S
     \<and> 0 < cfg_rollout_refresh S \<and> 0 < cfg_canary_requests S \<and> 0 < cfg_canary_errors S \<and> cfg_canary_errors S \<le> 1
     \<and> 0 \<le> cfg_rerank_words S \<and> 0 < cfg_refresh S \<and> 0 < cfg_window S \<and> 0 < cfg_probe S"

section \<open>The parts\<close>

record 'w parts =
  pt_env :: "'w env"
  pt_routes :: routes
  pt_rollout :: "'w rollout_env"
  pt_cache :: "'w cache_env"
  pt_knn :: "string \<Rightarrow> real list \<Rightarrow> 'w \<Rightarrow> (string \<times> real) list option \<times> 'w"
  pt_dim :: int
  pt_query :: "string \<Rightarrow> 'w \<Rightarrow> real list stage \<times> 'w"
  pt_passages :: "int \<Rightarrow> string list \<Rightarrow> 'w \<Rightarrow> real list list stage \<times> 'w"  \<comment> \<open>by batches of this size\<close>
  pt_cross :: "real option \<Rightarrow> 'w scorer"  \<comment> \<open>the cross-encoder, with the longest wait for its gate\<close>
  pt_store :: "'w chunk_store"
  pt_ingestion :: "'w ingestion"
  pt_jobs :: "'w jobs_env"
  pt_chat :: "'w chat_service"
  pt_jwt :: jwt

record 'w services =
  sv_chat :: "'w chat_service"
  sv_state :: "'w chat_state"
  sv_retriever :: "'w retriever"
  sv_ingestion :: "'w ingestion"
  sv_jobs :: "'w jobs_env"
  sv_tokens :: token_service
  sv_steps :: int

datatype start_error = RuntimeError string | Refused value_error | Unreachable

section \<open>Building\<close>

definition check_production_secrets :: "settings \<Rightarrow> start_error option" where
  "check_production_secrets S =
     (if cfg_env S \<noteq> ''prod'' then None
      else if cfg_admin_token S = cfg_admin_token default_settings then Some (RuntimeError ''NEXUSGATE_ADMIN_TOKEN must be set in production'')
      else if cfg_jwt_secret S = cfg_jwt_secret default_settings then Some (RuntimeError ''NEXUSGATE_JWT_SECRET must be set in production'')
      else None)"

text \<open>The gates of the two models; the hashing embedder and no reranker have none.\<close>

definition embed_gate_error :: "settings \<Rightarrow> value_error option" where
  "embed_gate_error S =
     (if cfg_embedder S \<noteq> ''fastembed'' then None
      else case (new_gate (cfg_embed_concurrency S) (cfg_embed_queue S) :: value_error + nat gate) of Inl e \<Rightarrow> Some e | Inr _ \<Rightarrow> None)"

definition build_reranker :: "settings \<Rightarrow> 'w parts \<Rightarrow> value_error + 'w scorer option" where
  "build_reranker S P =
     (if cfg_reranker S \<noteq> ''cross-encoder'' then Inr None
      else case (new_gate (cfg_rerank_concurrency S) (cfg_rerank_queue S) :: value_error + nat gate) of
             Inl e \<Rightarrow> Inl e
           | Inr _ \<Rightarrow> Inr (Some (cross_scores (pt_cross P (let x = cfg_rerank_wait_ms S / 1000 in if x = 0 then None else Some x)))))"

definition strategy_name :: "strategy \<Rightarrow> string" where
  "strategy_name k = (case k of Fixed \<Rightarrow> ''fixed'' | Sentence \<Rightarrow> ''sentence'' | Structured \<Rightarrow> ''structured'')"

definition chunker_name :: "settings \<Rightarrow> string" where
  "chunker_name S = strategy_name (cfg_chunker S) @ ''/'' @ show_int (cfg_chunk_words S) @ ''/'' @ show_int (cfg_chunk_overlap S)"

text \<open>\<open>LLMRouter(...)\<close>: one breaker per deployment. A route table without routes, which could not answer
  anything, is not considered: it would also start with a threshold below 1.\<close>

definition build_router :: "settings \<Rightarrow> 'w parts \<Rightarrow> value_error + 'w router" where
  "build_router S P =
     map_sum id (\<lambda>b. \<lparr>r_env = pt_env P, r_config = pt_routes P, r_default_timeout = cfg_timeout S, r_breaker = b\<rparr>)
       (new_breaker (cfg_failures S) (cfg_cooldown S))"

definition start_gateway :: "settings \<Rightarrow> 'w router \<Rightarrow> 'w \<Rightarrow> 'w gateway" where
  "start_gateway S R w =
     \<lparr>gw_world = w, gw_breakers = map (\<lambda>(name, d). (name, r_breaker R)) (deployments (r_config R)),
      gw_cluster = (if cfg_shared S then Some (new_cluster (cfg_failures S) (cfg_cooldown S) (cfg_window S) (cfg_refresh S) (cfg_probe S)) else None),
      gw_faults = (if cfg_faults S then Some \<lparr>fault_refresh = 1, fault_rates = [], fetched_at = None\<rparr> else None), gw_counters = []\<rparr>"

definition build_cache :: "settings \<Rightarrow> 'w parts \<Rightarrow> value_error + ('w cache_env \<times> 'w nearest \<times> semantic_cache) option" where
  "build_cache S P =
     (if \<not> cfg_cache_enabled S then Inr None
      else
        (let index = (if cfg_cache_index S = ''redisearch'' then redisearch_nearest (pt_knn P)
                      else brute_nearest (cx (pt_cache P)) (cfg_cache_entries S)) in
         map_sum id (\<lambda>c. Some (pt_cache P, index, c)) (new_cache (cfg_cache_threshold S) (cfg_cache_ttl S) (cfg_cache_entries S))))"

definition build_chat :: "settings \<Rightarrow> 'w parts \<Rightarrow> 'w router \<Rightarrow> ('w cache_env \<times> 'w nearest \<times> semantic_cache) option \<Rightarrow> 'w chat_service" where
  "build_chat S P R c = (pt_chat P)\<lparr>cs_router := R, cs_cache := c, cs_rollout := Some (pt_rollout P), cs_redis := redis (pt_env P),
     cs_retention := cfg_retention_days S\<rparr>"

definition build_manager :: "settings \<Rightarrow> 'w parts \<Rightarrow> manager" where
  "build_manager S P =
     new_manager (pt_rollout P) (pt_routes P) (cfg_canary_requests S) (cfg_canary_errors S) (cfg_rollout_refresh S)"

definition build_rag :: "settings \<Rightarrow> 'w parts \<Rightarrow> 'w \<Rightarrow> (start_error + 'w retriever \<times> 'w ingestion \<times> 'w jobs_env) \<times> 'w" where
  "build_rag S P w =
     (let (store, w1) = store_setup (pt_store P) (pt_dim P) (cfg_hybrid S) w in
      (case store of
         None \<Rightarrow> Inl Unreachable
       | Some T \<Rightarrow>
           (case build_reranker S P of
              Inl e \<Rightarrow> Inl (Refused e)
            | Inr rr \<Rightarrow>
                (case build_chunker (cfg_chunker S) (cfg_chunk_words S) (cfg_chunk_overlap S) of
                   Inl e \<Rightarrow> Inl (Refused e)
                 | Inr f \<Rightarrow>
                     Inr (new_retriever T (pt_query P) rr (cfg_candidates S) (cfg_hybrid S) (cfg_fusion S) (cfg_rerank_words S),
                          (pt_ingestion P)\<lparr>ig_store := T, ig_embed := pt_passages P (cfg_batch S), ig_chunk := f,
                             ig_chunker := chunker_name S, max_bytes := cfg_max_upload S\<rparr>,
                          (pt_jobs P)\<lparr>retention := cfg_job_retention S, payload_ttl := cfg_payload_ttl S, max_attempts := cfg_job_attempts S\<rparr>))), w1))"

definition build_services :: "settings \<Rightarrow> 'w parts \<Rightarrow> 'w \<Rightarrow> (start_error + 'w services) \<times> 'w" where
  "build_services S P w =
     (case check_production_secrets S of
        Some e \<Rightarrow> (Inl e, w)
      | None \<Rightarrow>
          (case embed_gate_error S of
             Some e \<Rightarrow> (Inl (Refused e), w)
           | None \<Rightarrow>
               (case build_router S P of
                  Inl e \<Rightarrow> (Inl (Refused e), w)
                | Inr R \<Rightarrow>
                    (case build_cache S P of
                       Inl e \<Rightarrow> (Inl (Refused e), w)
                     | Inr c \<Rightarrow>
                         (let (r, w1) = build_rag S P w in
                          (map_sum id (\<lambda>(rt, ig, jb).
                              \<lparr>sv_chat = build_chat S P R c, sv_state = \<lparr>gw = start_gateway S R w1, mgr = Some (build_manager S P)\<rparr>,
                               sv_retriever = rt, sv_ingestion = ig, sv_jobs = jb,
                               sv_tokens = \<lparr>jwt_lib = pt_jwt P, secret = cfg_jwt_secret S, ttl_seconds = cfg_jwt_ttl S\<rparr>,
                               sv_steps = cfg_agent_steps S\<rparr>) r, w1))))))"

section \<open>Facts\<close>

lemma chunker_refused:
  "build_chunker k m v = Inl e \<Longrightarrow> m \<le> 0 \<or> v < 0 \<or> m \<le> v"
  by (auto simp: build_chunker_def new_window_chunker_def new_sentence_chunker_def split: if_splits)

lemma setup_keeps:
  assumes "store_setup S n b w = (Some T, w')"
  shows "qx T = qx S \<and> collection T = collection S \<and> (has_lexical T \<longrightarrow> b)"
  using assms by (auto simp: store_setup_def Let_def split: prod.splits if_splits qreply.splits bool.splits)

lemma build_rag_cases:
  assumes "build_rag S P w = (r, w')" and "valid_settings S"
  shows "case r of
      Inl e \<Rightarrow> e = Unreachable \<or> ((\<exists>v. e = Refused v) \<and> cfg_chunk_words S \<le> cfg_chunk_overlap S)
    | Inr (rt, ig, jb) \<Rightarrow>
        rt_store rt = ig_store ig \<and> (hybrid rt \<longrightarrow> has_lexical (rt_store rt)) \<and> qx (rt_store rt) = qx (pt_store P)
        \<and> chunker (ig_chunk ig) \<and> cfg_chunk_overlap S < cfg_chunk_words S
        \<and> 0 < candidates rt \<and> 0 < max_bytes ig \<and> 0 < max_attempts jb"
proof -
  obtain x w1 where x: "store_setup (pt_store P) (pt_dim P) (cfg_hybrid S) w = (x, w1)" by fastforce
  obtain rr where rr: "build_reranker S P = Inr rr"
    using assms(2) by (auto simp: build_reranker_def new_gate_def valid_settings_def)
  show ?thesis
  proof (cases x)
    case None
    then show ?thesis using assms(1) x by (auto simp: build_rag_def)
  next
    case (Some T)
    show ?thesis
    proof (cases "build_chunker (cfg_chunker S) (cfg_chunk_words S) (cfg_chunk_overlap S)")
      case (Inl e)
      then show ?thesis using assms x Some rr chunker_refused[OF Inl] by (auto simp: build_rag_def valid_settings_def)
    next
      case (Inr f)
      have "cfg_chunk_overlap S < cfg_chunk_words S"
        using Inr by (auto simp: build_chunker_def new_window_chunker_def new_sentence_chunker_def split: if_splits)
      then show ?thesis
        using assms x Some rr Inr build_chunker_chunker[OF Inr] setup_keeps[of "pt_store P" "pt_dim P" "cfg_hybrid S" w T w1]
        by (auto simp: build_rag_def new_retriever_def valid_settings_def)
    qed
  qed
qed

section \<open>Properties\<close>

text \<open>In production there is a secret of its own; search and ingestion share one collection, and hybrid search is
  only on where the collection has the lexical vector; every deployment has a closed breaker, the cache a
  threshold it can meet, and the limits of the other components are positive.\<close>

definition well_wired :: "settings \<Rightarrow> 'w services \<Rightarrow> bool" where
  "well_wired S v \<longleftrightarrow>
     (cfg_env S = ''prod'' \<longrightarrow> cfg_admin_token S \<noteq> cfg_admin_token default_settings \<and> secret (sv_tokens v) \<noteq> cfg_jwt_secret default_settings)
     \<and> rt_store (sv_retriever v) = ig_store (sv_ingestion v) \<and> (hybrid (sv_retriever v) \<longrightarrow> has_lexical (rt_store (sv_retriever v)))
     \<and> chunker (ig_chunk (sv_ingestion v))
     \<and> map fst (gw_breakers (gw (sv_state v))) = map fst (deployments (r_config (cs_router (sv_chat v))))
     \<and> (\<forall>b \<in> set (map snd (gw_breakers (gw (sv_state v)))). st b = CLOSED \<and> 1 \<le> failure_threshold b \<and> consecutive_failures b = 0)
     \<and> (case cs_cache (sv_chat v) of None \<Rightarrow> \<not> cfg_cache_enabled S | Some (E, N, c) \<Rightarrow> 0 < threshold c \<and> threshold c \<le> 1)
     \<and> (case mgr (sv_state v) of None \<Rightarrow> False | Some m \<Rightarrow> 0 < m_min_requests m \<and> 0 < m_refresh m)
     \<and> 0 < candidates (sv_retriever v) \<and> 0 < max_bytes (sv_ingestion v) \<and> 0 < max_attempts (sv_jobs v) \<and> 0 < sv_steps v"

fun explains :: "settings \<Rightarrow> start_error \<Rightarrow> bool" where
  "explains S (RuntimeError m) \<longleftrightarrow>
     cfg_env S = ''prod'' \<and> (cfg_admin_token S = cfg_admin_token default_settings \<or> cfg_jwt_secret S = cfg_jwt_secret default_settings)"
| "explains S (Refused e) \<longleftrightarrow>
     cfg_failures S < 1 \<or> cfg_chunk_words S \<le> cfg_chunk_overlap S
     \<or> (cfg_cache_enabled S \<and> \<not> (0 < cfg_cache_threshold S \<and> cfg_cache_threshold S \<le> 1))"
| "explains S Unreachable \<longleftrightarrow> True"

lemma secrets_cases:
  "case check_production_secrets S of Some e \<Rightarrow> explains S e
     | None \<Rightarrow> cfg_env S = ''prod'' \<longrightarrow> cfg_admin_token S \<noteq> cfg_admin_token default_settings \<and> cfg_jwt_secret S \<noteq> cfg_jwt_secret default_settings"
  by (auto simp: check_production_secrets_def split: if_splits)

lemma router_cases:
  "case build_router S P of Inl e \<Rightarrow> explains S (Refused e)
     | Inr R \<Rightarrow> r_config R = pt_routes P \<and> st (r_breaker R) = CLOSED \<and> 1 \<le> failure_threshold (r_breaker R)
         \<and> consecutive_failures (r_breaker R) = 0"
  by (auto simp: build_router_def new_breaker_def split: if_splits)

lemma cache_cases:
  "case build_cache S P of Inl e \<Rightarrow> explains S (Refused e)
     | Inr c \<Rightarrow> (case c of None \<Rightarrow> \<not> cfg_cache_enabled S | Some (E, N, c) \<Rightarrow> 0 < threshold c \<and> threshold c \<le> 1)"
  by (auto simp: build_cache_def new_cache_def Let_def split: if_splits)


definition ready_qdrant :: "keyspace qdrant" where
  "ready_qdrant c w = (case c of COLLECTION_EXISTS n \<Rightarrow> Exists True | GET_COLLECTION n \<Rightarrow> SparseNames [LEXICAL] | _ \<Rightarrow> Ok, w)"

definition ex_parts :: "keyspace parts" where
  "ex_parts =
     \<lparr>pt_env = doc_env, pt_routes = r_config (cs_router ex_service), pt_rollout = ex_rollout, pt_cache = ex_cache_env,
      pt_knn = (\<lambda>ns v w. (None, w)), pt_dim = 384, pt_query = (\<lambda>q w. (Ready [1], w)), pt_passages = (\<lambda>n xs w. (Ready (map (\<lambda>x. [1]) xs), w)),
      pt_cross = (\<lambda>limit q ps w. (Ready (map (\<lambda>p. 0) ps), w)),
      pt_store = \<lparr>qx = ready_qdrant, uuid5 = id, collection = ''nexusgate_chunks'', has_lexical = False\<rparr>,
      pt_ingestion = \<lparr>ig_store = \<lparr>qx = ready_qdrant, uuid5 = id, collection = [], has_lexical = False\<rparr>, ig_docs = \<lparr>dx = doc, epoch = (\<lambda>_. 5)\<rparr>,
        ig_embed = (\<lambda>xs w. (Broke, w)), ig_chunk = (\<lambda>secs x. []), ig_chunker = [], max_bytes = 1, ig_pdf = (\<lambda>_. PdfCrash []),
        ig_wide = (\<lambda>_. CHR ''?''), sha256_hex = (\<lambda>_. ''9f''), now_iso = (\<lambda>_. ''2026''), trouble = (\<lambda>_. [])\<rparr>,
      pt_jobs = demo_env, pt_chat = ex_service, pt_jwt = jwt_lib one_token\<rparr>"


end
