(* ===== verification/Admin_Api.thy ===== *)
theory Admin_Api imports Http_Api begin

text \<open>
  The operator endpoints of \<open>app/api/admin.py\<close>: API keys, the circuit breakers, the rollout of a route table,
  injected faults, dead letters and the cache. Every one of them depends on \<open>require_admin\<close> (\<open>as_admin\<close>).
\<close>

section \<open>The guard\<close>

definition as_admin :: "string \<Rightarrow> string option \<Rightarrow> ('s \<Rightarrow> (failure + 'a) \<times> 's) \<Rightarrow> 's \<Rightarrow> (failure + 'a) \<times> 's" where
  "as_admin expected tok handler s =
     (case require_admin expected tok of Some e \<Rightarrow> (Inl (auth_failure e), s) | None \<Rightarrow> handler s)"

section \<open>Keys\<close>

record key_request =
  kr_tenant :: string
  kr_name :: string
  kr_capacity :: "int option"
  kr_refill :: "real option"

definition tenant_char :: "char \<Rightarrow> bool" where
  "tenant_char c \<longleftrightarrow> is_upper c \<or> is_alnum c \<or> c \<in> {CHR ''.'', CHR ''_'', CHR ''-''}"

definition valid_key_request :: "key_request \<Rightarrow> bool" where
  "valid_key_request q \<longleftrightarrow>
     1 \<le> length (kr_tenant q) \<and> length (kr_tenant q) \<le> 64 \<and> list_all tenant_char (kr_tenant q)
     \<and> 1 \<le> length (kr_name q) \<and> length (kr_name q) \<le> 128
     \<and> (case kr_capacity q of None \<Rightarrow> True | Some n \<Rightarrow> 0 < n) \<and> (case kr_refill q of None \<Rightarrow> True | Some x \<Rightarrow> 0 < x)"

definition create_key_endpoint ::
  "'w redis \<Rightarrow> (string \<Rightarrow> string) \<Rightarrow> string \<Rightarrow> string \<Rightarrow> string \<Rightarrow> key_request \<Rightarrow> 'w \<Rightarrow> (failure + string \<times> api_key) \<times> 'w" where
  "create_key_endpoint exec hash_key rand_id rand_secret now q w =
     (let (r, w1) = key_create exec hash_key rand_id rand_secret now (kr_tenant q) (kr_name q) (kr_capacity q) (kr_refill q) w
      in (or_500 r, w1))"

definition list_keys_endpoint :: "'w redis \<Rightarrow> string \<Rightarrow> 'w \<Rightarrow> (failure + api_key list) \<times> 'w" where
  "list_keys_endpoint exec tenant w = (let (r, w1) = list_for_tenant exec tenant w in (or_500 r, w1))"

definition revoke_key_endpoint :: "'w redis \<Rightarrow> string \<Rightarrow> 'w \<Rightarrow> (failure + unit) \<times> 'w" where
  "revoke_key_endpoint exec k w = (let (r, w1) = key_revoke exec k w in (done_or_404 ''no such key'' r, w1))"

section \<open>Breakers\<close>

record providers_view =
  pv_routes :: "(string \<times> string list) list"
  pv_breakers :: "(string \<times> breaker_state \<times> int) list"
  pv_shared :: "(string \<times> bool \<times> int \<times> int) list option"

definition route_names :: "routes \<Rightarrow> (string \<times> string list) list" where
  "route_names config = map (\<lambda>(a, chain). (a, map dep_name chain)) config"

definition providers_endpoint :: "'w router \<Rightarrow> 'w gateway \<Rightarrow> (failure + providers_view) \<times> 'w gateway" where
  "providers_endpoint R g =
     (let (e, g1) = sync_breakers R g in
      if e \<noteq> None then (Inl Unhandled, g1)
      else
        (let (bs, g2) = breaker_states R g1 in
         case gw_cluster g2 of
           None \<Rightarrow> (Inr \<lparr>pv_routes = route_names (r_config R), pv_breakers = bs, pv_shared = None\<rparr>, g2)
         | Some c \<Rightarrow>
             (let (sh, w) = cluster_states (redis (r_env R)) (map fst (gw_breakers g2)) (gw_world g2) in
              (map_sum (\<lambda>_. Unhandled) (\<lambda>xs. \<lparr>pv_routes = route_names (r_config R), pv_breakers = bs, pv_shared = Some xs\<rparr>) sh,
               g2\<lparr>gw_world := w\<rparr>))))"

section \<open>Rollouts\<close>

record canary_view =
  cv_state :: canary_state
  cv_active :: bool
  cv_routes :: "(string \<times> string list) list"
  cv_stats :: "int \<times> int"
  cv_error_rate :: real
  cv_rolls_back_above :: real
  cv_after_requests :: int

record rollout_view =
  rv_version :: string
  rv_routes :: "(string \<times> string list) list"
  rv_stats :: "int \<times> int"
  rv_canary :: "canary_view option"

definition canary_view_of :: "manager \<Rightarrow> canary_state \<times> routes \<Rightarrow> int \<times> int \<Rightarrow> canary_view" where
  "canary_view_of m x s =
     (let (c, config) = x; (requests, errors) = s in
      \<lparr>cv_state = c, cv_active = active c, cv_routes = route_names config, cv_stats = s,
       cv_error_rate = py_round 4 (if requests \<noteq> 0 then of_int errors / of_int requests else 0),
       cv_rolls_back_above = m_max_error_rate m, cv_after_requests = m_min_requests m\<rparr>)"

text \<open>\<open>_rollout_view\<close>: \<open>stable\<close> and \<open>canary\<close> each load the cached state.\<close>

definition view_rollout :: "'w rollout_env \<Rightarrow> manager \<Rightarrow> 'w \<Rightarrow> (failure + rollout_view) \<times> manager \<times> 'w" where
  "view_rollout E m w =
     (let (m1, w1) = load E m w; (version, config) = stable m1; (m2, w2) = load E m1 w1; canary = ca_canary (m_cache m2);
          (s, w3) = rollout_stats E version w2 in
      case s of
        None \<Rightarrow> (Inl Unhandled, m2, w3)
      | Some counts \<Rightarrow>
          (let view = \<lparr>rv_version = version, rv_routes = route_names config, rv_stats = counts, rv_canary = None\<rparr> in
           case canary of
             None \<Rightarrow> (Inr view, m2, w3)
           | Some x \<Rightarrow>
               (let (cs, w4) = rollout_stats E (can_version (fst x)) w3 in
                (case cs of None \<Rightarrow> Inl Unhandled | Some s2 \<Rightarrow> Inr (view\<lparr>rv_canary := Some (canary_view_of m2 x s2)\<rparr>), m2, w4))))"

record canary_request =
  cq_config :: string
  cq_weight :: int
  cq_note :: "string option"

definition valid_canary_request :: "canary_request \<Rightarrow> bool" where
  "valid_canary_request q \<longleftrightarrow> 1 \<le> length (cq_config q) \<and> 0 \<le> cq_weight q \<and> cq_weight q \<le> 100
     \<and> (case cq_note q of None \<Rightarrow> True | Some n \<Rightarrow> length n \<le> 200)"

definition publish_endpoint ::
  "'w rollout_env \<Rightarrow> canary_request \<Rightarrow> manager \<Rightarrow> 'w \<Rightarrow> (failure + rollout_view) \<times> manager \<times> 'w" where
  "publish_endpoint E q m w =
     (let (r, m1, w1) = publish E (cq_config q) (cq_weight q) (cq_note q) m w in
      case r of
        None \<Rightarrow> (Inl Unhandled, m1, w1)
      | Some (Inl (ValueError e)) \<Rightarrow> (Inl (http_exception 400 (''invalid route table: '' @ e) []), m1, w1)
      | Some (Inr c) \<Rightarrow> view_rollout E m1 w1)"

definition then_view ::
  "'w rollout_env \<Rightarrow> 'a option option \<times> manager \<times> 'w \<Rightarrow> (failure + rollout_view) \<times> manager \<times> 'w" where
  "then_view E x =
     (let (r, m, w) = x in
      case r of
        None \<Rightarrow> (Inl Unhandled, m, w)
      | Some None \<Rightarrow> (Inl (http_exception 404 ''no canary is published'' []), m, w)
      | Some (Some y) \<Rightarrow> view_rollout E m w)"

text \<open>\<open>WeightRequest\<close>: \<open>Field(ge=0, le=100)\<close>\<close>

definition valid_weight_request :: "int \<Rightarrow> bool" where
  "valid_weight_request weight \<longleftrightarrow> 0 \<le> weight \<and> weight \<le> 100"

definition weight_endpoint :: "'w rollout_env \<Rightarrow> int \<Rightarrow> manager \<Rightarrow> 'w \<Rightarrow> (failure + rollout_view) \<times> manager \<times> 'w" where
  "weight_endpoint E weight m w = then_view E (set_weight E weight m w)"

definition promote_endpoint :: "'w rollout_env \<Rightarrow> manager \<Rightarrow> 'w \<Rightarrow> (failure + rollout_view) \<times> manager \<times> 'w" where
  "promote_endpoint E m w = then_view E (promote E m w)"

definition discard_endpoint :: "'w rollout_env \<Rightarrow> manager \<Rightarrow> 'w \<Rightarrow> (failure + rollout_view) \<times> manager \<times> 'w" where
  "discard_endpoint E m w =
     (let (r, m1, w1) = discard E m w in then_view E (map_option (\<lambda>b. if b then Some () else None) r, m1, w1))"

section \<open>Faults\<close>

definition no_faults :: failure where
  "no_faults = http_exception 409 ''fault injection is disabled (set NEXUSGATE_FAULT_INJECTION_ENABLED=true)'' []"

text \<open>\<open>FaultRequest\<close>: \<open>Field(ge=0, le=1)\<close>\<close>

definition valid_fault_request :: "real \<Rightarrow> bool" where
  "valid_fault_request rate \<longleftrightarrow> 0 \<le> rate \<and> rate \<le> 1"

definition list_faults_endpoint :: "'w router \<Rightarrow> 'w gateway \<Rightarrow> (failure + (string \<times> real) list) \<times> 'w gateway" where
  "list_faults_endpoint R g =
     (case gw_faults g of
        None \<Rightarrow> (Inl no_faults, g)
      | Some f \<Rightarrow> (let (f1, w) = read_rates (r_env R) f (gw_world g) in (Inr (fault_rates f1), g\<lparr>gw_faults := Some f1, gw_world := w\<rparr>)))"

definition inject_fault_endpoint :: "'w router \<Rightarrow> string \<Rightarrow> real \<Rightarrow> 'w gateway \<Rightarrow> (failure + string \<times> real) \<times> 'w gateway" where
  "inject_fault_endpoint R dep rate g =
     (case gw_faults g of
        None \<Rightarrow> (Inl no_faults, g)
      | Some f \<Rightarrow>
          if dict_get (deployments (r_config R)) dep = None then (Inl (http_exception 404 ''no such deployment'' []), g)
          else
            (let (r, f1, w) = set_fault (r_env R) dep rate f (gw_world g); g1 = g\<lparr>gw_faults := Some f1, gw_world := w\<rparr> in
             (if r = None then Inl Unhandled else Inr (dep, rate), g1)))"

definition clear_fault_endpoint :: "'w router \<Rightarrow> string \<Rightarrow> 'w gateway \<Rightarrow> (failure + unit) \<times> 'w gateway" where
  "clear_fault_endpoint R dep g =
     (case gw_faults g of
        None \<Rightarrow> (Inl no_faults, g)
      | Some f \<Rightarrow>
          (let (r, f1, w) = clear_fault (r_env R) dep f (gw_world g) in
           (done_or_404 ''no fault on that deployment'' r, g\<lparr>gw_faults := Some f1, gw_world := w\<rparr>)))"

section \<open>Dead letters and the cache\<close>

definition dead_letters_endpoint :: "'w jobs_env \<Rightarrow> int \<Rightarrow> 'w \<Rightarrow> (failure + int \<times> job list) \<times> 'w" where
  "dead_letters_endpoint E n w =
     (let (d, w1) = dlq_depth E w in
      case d of
        None \<Rightarrow> (Inl Unhandled, w1)
      | Some k \<Rightarrow> (let (l, w2) = dlq_list E n w1 in (case l of None \<Rightarrow> Inl Unhandled | Some letters \<Rightarrow> Inr (k, letters), w2)))"

definition purge_dead_letters_endpoint :: "'w jobs_env \<Rightarrow> 'w \<Rightarrow> (failure + int) \<times> 'w" where
  "purge_dead_letters_endpoint E w = (let (r, w1) = dlq_purge E w in (or_500 r, w1))"

definition purge_cache_endpoint :: "('w cache_env \<times> 'w nearest \<times> semantic_cache) option \<Rightarrow> 'w redis \<Rightarrow> 'w \<Rightarrow> (failure + int) \<times> 'w" where
  "purge_cache_endpoint cache exec w =
     (case cache of
        None \<Rightarrow> (Inl (http_exception 409 ''semantic cache is disabled'' []), w)
      | Some x \<Rightarrow> (let (r, w1) = purge_all exec w in (or_500 r, w1)))"

section \<open>Properties\<close>

text \<open>The canary a replica would promote: the stored one if its cached pair is due for a read, else the one it has.\<close>

definition would_promote :: "'w rollout_env \<Rightarrow> ('w \<Rightarrow> keyspace) \<Rightarrow> manager \<Rightarrow> 'w \<Rightarrow> canary_state \<Rightarrow> routes \<Rightarrow> bool" where
  "would_promote E keys m w c config \<longleftrightarrow>
     (if reload_due E m w then \<exists>sta. holds_canary E (keys w) sta c config else ca_canary (m_cache m) = Some (c, config))"

lemma promote_stores:
  assumes "redis_ok (redis (ro_env E)) keys" and "would_promote E keys m w c config"
  shows "\<exists>m1 w' t t'. promote E m w = (Some (Some (can_version c, config)), invalidate m1, w')
     \<and> keys w' = (keys w)(STABLE_KEY \<mapsto> (RStr (Json (stable_json (can_version c) (ro_dump E config) t)), t'), CANARY_KEY := None)"
proof -
  obtain m1 w1 where l: "load E m w = (m1, w1)" "keys w1 = keys w" "ca_canary (m_cache m1) = Some (c, config)"
  proof (cases "reload_due E m w")
    case True
    with assms(2) obtain sta where "holds_canary E (keys w) sta c config" by (auto simp: would_promote_def)
    with load_due_eq[OF assms(1) True refl] stored_canary[OF this] that show thesis by (metis cached.select_convs(2) manager.select_convs(5)
        manager.surjective manager.update_convs(5))
  next
    case False
    with assms(2) load_fresh[OF False] that show thesis by (simp add: would_promote_def)
  qed
  let ?j = "stable_json (can_version c) (ro_dump E config) (rollout_env.stamp E w1)"
  obtain r w2 where w2: "redis (ro_env E) (SET STABLE_KEY (Json ?j)) w1 = (r, w2)" by fastforce
  have s: "r = OK" "keys w2 = (keys w)(STABLE_KEY \<mapsto> (RStr (Json ?j), None))"
    using redis_reply[OF assms(1), of "SET STABLE_KEY (Json ?j)" w1] redis_keys[OF assms(1), of "SET STABLE_KEY (Json ?j)" w1] w2 l(2)
    by simp_all
  obtain r3 w3 where w3: "redis (ro_env E) (DEL [CANARY_KEY]) w2 = (r3, w3)" by fastforce
  have d: "r3 \<noteq> Raised" "keys w3 = (keys w2)(CANARY_KEY := None)"
    using redis_reply[OF assms(1), of "DEL [CANARY_KEY]" w2] redis_keys[OF assms(1), of "DEL [CANARY_KEY]" w2] w3
    by (auto simp: restrict_map_def fun_eq_iff)
  have "promote E m w = (Some (Some (can_version c, config)), invalidate m1, w3)"
    using l s d w2 w3 by (simp add: promote_def)
  moreover have "keys w3 = (keys w)(STABLE_KEY \<mapsto> (RStr (Json ?j), None), CANARY_KEY := None)" using s(2) d(2) by simp
  ultimately show ?thesis by blast
qed

text \<open>C34: Promoting a canary moves everybody to its table. What is promoted is the canary the promoting
  replica would read, the stored one if its refresh window has run out and otherwise the one it has cached
  (which another replica may have replaced within the window); once the promotion is stored, every replica whose
  window runs out, or that has read nothing, serves all requests from that table as the stable one, whatever
  it draws, and the operator's view shows it without a canary. Only the dump of the table must read back as
  the table.\<close>

theorem a_promoted_canary_serves_everyone:
  assumes "redis_ok (redis (ro_env E)) keys" and "would_promote E keys m w c config"
    and "routes_from_text (ro_parse E) (ro_dump E config) = Inr config" and "promote_endpoint E m w = (r, m', w')"
  shows "(case r of Inl e \<Rightarrow> e = Unhandled
            | Inr v \<Rightarrow> rv_version v = can_version c \<and> rv_routes v = route_names config \<and> rv_canary v = None)
     \<and> (\<forall>replica w2. keys w2 = keys w' \<longrightarrow> reload_due E replica w2 \<longrightarrow>
          fst (rollout_select E replica w2) = (config, \<lparr>var_name = Stable, var_version = can_version c\<rparr>))"
proof -
  obtain m1 w1 t t' where p: "promote E m w = (Some (Some (can_version c, config)), invalidate m1, w1)"
      "keys w1 = (keys w)(STABLE_KEY \<mapsto> (RStr (Json (stable_json (can_version c) (ro_dump E config) t)), t'), CANARY_KEY := None)"
    using promote_stores[OF assms(1,2)] by blast
  have stored: "stored_cache E (keys w1) now = \<lparr>ca_stable = Some (can_version c, config), ca_canary = None, ca_fetched = Some now\<rparr>" for now
    using assms(3) by (simp add: stored_cache_def p(2) get_doc_def read_entry_def)
  have view: "view_rollout E (invalidate m1) w1 = (r, m', w')" using assms(4) p(1) by (simp add: promote_endpoint_def then_view_def)
  obtain w2 where l1: "load E (invalidate m1) w1 = ((invalidate m1)\<lparr>m_cache := stored_cache E (keys w1) (clk (ro_env E) w1)\<rparr>, w2)" "keys w2 = keys w1"
    by (rule load_due_eq[OF assms(1), of "invalidate m1" w1 "keys w1"]) (simp_all add: invalidate_def)
  obtain n w3 where l2: "load E ((invalidate m1)\<lparr>m_cache := stored_cache E (keys w1) (clk (ro_env E) w1)\<rparr>) w2
      = ((invalidate m1)\<lparr>m_cache := stored_cache E (keys w1) n\<rparr>, w3)" "keys w3 = keys w1"
    by (rule load_again[OF assms(1) l1(2), where m = "(invalidate m1)\<lparr>m_cache := stored_cache E (keys w1) (clk (ro_env E) w1)\<rparr>"]) auto
  obtain s w4 where s: "rollout_stats E (can_version c) w3 = (s, w4)" by fastforce
  have w4: "keys w4 = keys w1"
    using s l2(2) redis_keys[OF assms(1), of "HMGET Rollout.STATS_KEY [requests_of (can_version c), errors_of (can_version c)]" w3]
    by (auto simp: rollout_stats_def Let_def split: prod.splits)
  have r: "r = (case s of None \<Rightarrow> Inl Unhandled | Some x \<Rightarrow>
      Inr \<lparr>rv_version = can_version c, rv_routes = route_names config, rv_stats = x, rv_canary = None\<rparr>)" and w': "w' = w4"
    using view l1 l2 s by (auto simp: view_rollout_def stable_def stored Let_def split: option.splits)
  have "fst (rollout_select E replica v) = (config, \<lparr>var_name = Stable, var_version = can_version c\<rparr>)"
    if same: "keys v = keys w'" and old: "reload_due E replica v" for replica v
  proof -
    obtain w5 where "load E replica v = (replica\<lparr>m_cache := stored_cache E (keys w1) (clk (ro_env E) v)\<rparr>, w5)"
      by (rule load_due_eq[OF assms(1) old, of "keys w1"]) (use w4 w' same in auto)
    then show ?thesis by (simp add: rollout_select_def stable_def stored)
  qed
  then show ?thesis using r by (auto split: option.splits)
qed

text \<open>Both ways: a replica that reads the stored canary, and one that has another table cached within its window
  and promotes that; a replica with a pair one window old then serves the promoted table.\<close>

lemma a_promoted_canary_serves_everyone_witness:
  "\<exists>r m' ks r2 m2 ks2.
     promote_endpoint ex_rollout ex_manager
       [CANARY_KEY \<mapsto> (RStr (Json (canary_json \<lparr>can_version = ''f1'', can_weight = 50, can_note = None,
          can_created = ''t'', can_rolled_back = None, can_reason = None\<rparr> ''y'')), None)] = (r, m', ks)
     \<and> fst (rollout_select ex_rollout ex_stale ks) = (ex_table, \<lparr>var_name = Stable, var_version = ''f1''\<rparr>)
     \<and> promote_endpoint ex_rollout
         (ex_manager\<lparr>m_cache := \<lparr>ca_stable = None, ca_canary = Some (\<lparr>can_version = ''f0'', can_weight = 1, can_note = None,
            can_created = ''t'', can_rolled_back = None, can_reason = None\<rparr>, ex_table), ca_fetched = Some 0\<rparr>\<rparr>)
         Map.empty = (r2, m2, ks2)
     \<and> fst (rollout_select ex_rollout ex_stale ks2) = (ex_table, \<lparr>var_name = Stable, var_version = ''f0''\<rparr>)"
proof -
  define c where "c = \<lparr>can_version = ''f1'', can_weight = 50, can_note = None,
          can_created = ''t'', can_rolled_back = None, can_reason = None\<rparr>"
  define old where "old = \<lparr>can_version = ''f0'', can_weight = 1, can_note = None,
          can_created = ''t'', can_rolled_back = None, can_reason = None\<rparr>"
  let ?w = "[CANARY_KEY \<mapsto> (RStr (Json (canary_json c ''y'')), None)] :: keyspace"
  let ?m = "ex_manager\<lparr>m_cache := \<lparr>ca_stable = None, ca_canary = Some (old, ex_table), ca_fetched = Some 0\<rparr>\<rparr>"
  obtain r m' ks where p: "promote_endpoint ex_rollout ex_manager ?w = (r, m', ks)" by (metis surj_pair)
  obtain r2 m2 ks2 where p2: "promote_endpoint ex_rollout ?m Map.empty = (r2, m2, ks2)" by (metis surj_pair)
  have ok: "redis_ok (redis (ro_env ex_rollout)) id" by (simp add: rollout_ex)
  have "holds_canary ex_rollout (id ?w) None c ex_table"
    by (simp add: holds_canary_def holds_stable_def read_entry_def get_doc_def, intro exI[of _ "''y''"]) (simp add: ex_table_parses)
  then have by_read: "would_promote ex_rollout id ex_manager ?w c ex_table"
    by (auto simp: would_promote_def rollout_ex)
  have by_cache: "would_promote ex_rollout id ?m Map.empty old ex_table"
    by (simp add: would_promote_def reload_due_def rollout_ex)
  show ?thesis
    using a_promoted_canary_serves_everyone[OF ok by_read ex_table_parses p]
      a_promoted_canary_serves_everyone[OF ok by_cache ex_table_parses p2] p p2 ex_stale_due
    unfolding c_def old_def by simp
qed

end
