(* ===== verification/Demo.thy ===== *)
theory Demo
  imports Http_Api
begin

text \<open>
  The public demo (\<open>app/demo.py\<close>): at the start of a gateway in demo mode a key of the tenant \<open>demo\<close> is
  minted and the handbook is ingested, without the job queue; the landing page shows the key. The files of the
  corpus directory and the text of the page are arguments. \<open>None\<close> is an exception that ends the start.
\<close>

definition DEMO_TENANT :: string where "DEMO_TENANT = ''demo''"

text \<open>\<open>directory.glob("*.md")\<close>, sorted: the files of one directory by name\<close>

definition read_corpus :: "(string \<times> string) list \<Rightarrow> (string \<times> string) list" where
  "read_corpus files = sort_key fst (filter (\<lambda>(n, d). drop (length n - 3) n = ''.md'') files)"

definition demo_upload :: "string \<times> string \<Rightarrow> upload" where
  "demo_upload f = \<lparr>up_filename = fst f, up_type = Some ''text/markdown'', up_data = snd f, up_title = None\<rparr>"

fun ingest_files :: "'w ingestion \<Rightarrow> (string \<times> string) list \<Rightarrow> 'w \<Rightarrow> unit option \<times> 'w" where
  "ingest_files I [] w = (Some (), w)"
| "ingest_files I (f # fs) w =
     (let (r, w1) = ingest I DEMO_TENANT (demo_upload f) w in case r of Inl e \<Rightarrow> (None, w1) | Inr d \<Rightarrow> ingest_files I fs w1)"

definition prepare_demo ::
  "'w redis \<Rightarrow> (string \<Rightarrow> string) \<Rightarrow> 'w ingestion \<Rightarrow> string \<Rightarrow> string \<Rightarrow> string \<Rightarrow> int \<Rightarrow> real \<Rightarrow> (string \<times> string) list \<Rightarrow> 'w \<Rightarrow> string option \<times> 'w" where
  "prepare_demo exec hash_key I rand_id rand_secret now capacity refill_rate files w =
     (let (k, w1) = key_create exec hash_key rand_id rand_secret now DEMO_TENANT ''public-demo'' (Some capacity) (Some refill_rate) w in
      case k of
        None \<Rightarrow> (None, w1)
      | Some (raw, r) \<Rightarrow> (let (x, w2) = ingest_files I (read_corpus files) w1 in (map_option (\<lambda>_. raw) x, w2)))"

section \<open>The landing page\<close>

text \<open>\<open>html.escape\<close>\<close>

definition html_char :: "char \<Rightarrow> string" where
  "html_char c =
     (if c = CHR ''&'' then ''&amp;'' else if c = CHR ''<'' then ''&lt;'' else if c = CHR ''>'' then ''&gt;''
      else if c = CHR 0x22 then ''&quot;'' else if c = CHR 0x27 then ''&#x27;'' else [c])"

definition html_escape :: "string \<Rightarrow> string" where "html_escape s = concat (map html_char s)"

datatype page_part = Html string | Key_Slot | Base_Slot

definition landing :: "page_part list \<Rightarrow> string \<Rightarrow> string \<Rightarrow> string" where
  "landing page demo_key base_url =
     (let key = html_escape demo_key; base = html_escape (rev (dropWhile (\<lambda>c. c = CHR ''/'') (rev base_url)))
      in concat (map (\<lambda>p. case p of Html s \<Rightarrow> s | Key_Slot \<Rightarrow> key | Base_Slot \<Rightarrow> base) page))"

lemma html_escape_opens_no_tag: "set (html_escape s) \<inter> {CHR ''<'', CHR ''>'', CHR 0x22, CHR 0x27} = {}"
  by (auto simp: html_escape_def html_char_def split: if_splits)

section \<open>Facts\<close>

text \<open>Keys and documents lie apart in Redis.\<close>

lemma key_and_doc_keys [simp]:
  "record_key k \<noteq> doc_key t d" "record_key k \<noteq> doc_index_key t" "hash_index_key h \<noteq> doc_key t d" "hash_index_key h \<noteq> doc_index_key t"
  "KEY_HASHES \<noteq> doc_key t d" "KEY_HASHES \<noteq> doc_index_key t" "tenant_index_key u \<noteq> doc_key t d" "tenant_index_key u \<noteq> doc_index_key t"
  "doc_key t d \<noteq> record_key k" "doc_index_key t \<noteq> record_key k" "doc_key t d \<noteq> hash_index_key h" "doc_index_key t \<noteq> hash_index_key h"
  "doc_key t d \<noteq> KEY_HASHES" "doc_index_key t \<noteq> KEY_HASHES" "doc_key t d \<noteq> tenant_index_key u" "doc_index_key t \<noteq> tenant_index_key u"
  by (simp_all add: record_key_def hash_index_key_def KEY_HASHES_def tenant_index_key_def doc_key_def doc_index_key_def)

lemma holds_frame:
  assumes "holds ep A ks" and "\<And>t d. ks' (doc_key t d) = ks (doc_key t d)" and "\<And>t. ks' (doc_index_key t) = ks (doc_index_key t)"
  shows "holds ep A ks'"
  using assms unfolding holds_def zset_at_def by simp

lemma key_stored_frame:
  assumes "key_stored hash_key ks raw r" and "ks' (record_key (key_id r)) = ks (record_key (key_id r))"
    and "ks' (hash_index_key (hash_key raw)) = ks (hash_index_key (hash_key raw))" and "ks' KEY_HASHES = ks KEY_HASHES"
    and "ks' (tenant_index_key (tenant_id r)) = ks (tenant_index_key (tenant_id r))"
  shows "key_stored hash_key ks' raw r"
  using assms by (simp add: key_stored_def hash_at_def set_at_def)

lemma pipeline_doc_frame:
  "x \<noteq> doc_key t d \<Longrightarrow> x \<noteq> doc_index_key t \<Longrightarrow> snd (pipeline doc [SET (doc_key t d) v, ZADD (doc_index_key t) m s] ks) x = ks x"
  by (simp add: pipeline_def split_beta redis_simps split: option.split)

lemma registry_put_frame:
  assumes "redis_ok (dx E) keys" and "x \<noteq> doc_key t (d_id r)" and "x \<noteq> doc_index_key t"
  shows "keys (snd (registry_put E t r w)) x = keys w x"
  using assms by (simp add: registry_put_def split_beta redis_pipeline(2) pipeline_doc_frame)

lemma ingest_frame:
  assumes "services_ok I keys pts" and "\<And>d. x \<noteq> doc_key t d" and "x \<noteq> doc_index_key t"
  shows "keys (snd (ingest I t u w)) x = keys w x"
proof -
  note ok = assms(1)[unfolded services_ok_def]
  have e: "keys (snd (ig_embed I xs v)) = keys v" for xs v using ok by blast
  have s: "keys (snd (replace_document (ig_store I) t d ti ch vs v)) = keys v" for d ti ch vs v using store_frame(2)[of keys "ig_store I"] ok by blast
  have r: "keys (snd (registry_put (ig_docs I) t rr v)) x = keys v x" for rr v using registry_put_frame[of "ig_docs I" keys x t rr v] ok assms(2,3) by blast
  show ?thesis by (auto simp: ingest_def store_upload_def split_beta Let_def e s r split: sum.splits stage.splits)
qed

lemma key_create_frame:
  assumes "redis_ok exec keys" and "x \<noteq> record_key rid" and "x \<noteq> KEY_HASHES" and "x \<noteq> tenant_index_key t"
    and "x \<noteq> hash_index_key (hash_key (KEY_PREFIX @ rid @ ''_'' @ rs))"
  shows "keys (snd (key_create exec hash_key rid rs now t name cap ref w)) x = keys w x"
proof -
  have "keys (snd (pipeline exec [SET (record_key rid) a, SET (hash_index_key (hash_key (KEY_PREFIX @ rid @ ''_'' @ rs))) b,
      HSET KEY_HASHES c, SADD (tenant_index_key t) d] w)) x = keys w x" for a b c d
    using assms(2-) unfolding redis_pipeline(2)[OF assms(1)] by (simp add: pipeline_def split_beta redis_simps split: option.split)
  then show ?thesis unfolding key_create_def Let_def split_beta by simp
qed

lemma key_create_in_step:
  assumes "services_ok I keys pts" and "in_step I keys pts A w"
  shows "in_step I keys pts A (snd (key_create (dx (ig_docs I)) hash_key rid rs now t name cap ref w))" (is "in_step I keys pts A ?w1")
proof -
  note ok = assms(1)[unfolded services_ok_def]
  have "keys ?w1 (doc_key u d) = keys w (doc_key u d)" "keys ?w1 (doc_index_key u) = keys w (doc_index_key u)" for u d
    by (simp_all add: key_create_frame[OF ok[THEN conjunct1]])
  moreover have "pts ?w1 = pts w"
    using pipeline_frame[of pts "dx (ig_docs I)"] ok unfolding key_create_def Let_def split_beta by simp
  ultimately show ?thesis using assms(2) holds_frame[of "epoch (ig_docs I)" A "keys w" "keys ?w1"] by (simp add: in_step_def)
qed

text \<open>The embedder gives one vector for each text.\<close>

definition embeds_each :: "'w ingestion \<Rightarrow> bool" where
  "embeds_each I \<longleftrightarrow> (\<forall>xs w vs w1. ig_embed I xs w = (Ready vs, w1) \<longrightarrow> length vs = length xs)"

lemma ingest_ok:
  assumes "services_ok I keys pts" and "in_step I keys pts A w" and "build_chunker k m v = Inr (ig_chunk I)" and "embeds_each I"
    and "ingest I t u w = (Inr r, w')"
  shows "d_id r = document_id I (up_data u) \<and> in_step I keys pts (A(t := (A t)(d_id r \<mapsto> r))) w'"
proof -
  have c: "chunker (ig_chunk I)" by (rule build_chunker_chunker[OF assms(3)])
  obtain secs where st: "store_upload I t u secs w = (Inr r, w')"
    using assms(5) by (auto simp: ingest_def split: if_splits sum.splits)
  obtain vs w1 where e: "ig_embed I (map c_text (ig_chunk I secs (Some (title_for u secs)))) w = (Ready vs, w1)"
    using st by (auto simp: store_upload_def Let_def split: stage.splits prod.splits)
  have l: "length vs = length (ig_chunk I secs (Some (title_for u secs)))"
    using assms(4) e unfolding embeds_each_def by fastforce
  show ?thesis using chunker.store_upload_ok[OF c assms(1,2) refl e l, of t] st by (auto simp: record_of_def)
qed

lemma ingest_files_ok:
  assumes "services_ok I keys pts" and "build_chunker k m v = Inr (ig_chunk I)" and "embeds_each I"
  shows "in_step I keys pts A w \<Longrightarrow> ingest_files I fs w = (Some (), w') \<Longrightarrow>
    \<exists>A'. in_step I keys pts A' w' \<and> dom (A' DEMO_TENANT) = dom (A DEMO_TENANT) \<union> (document_id I \<circ> snd) ` set fs
       \<and> (\<forall>t. t \<noteq> DEMO_TENANT \<longrightarrow> A' t = A t)"
proof (induction fs arbitrary: A w)
  case Nil
  then show ?case by auto
next
  case (Cons f fs)
  obtain r w1 where r: "ingest I DEMO_TENANT (demo_upload f) w = (Inr r, w1)" "ingest_files I fs w1 = (Some (), w')"
    using Cons.prems(2) by (auto split: prod.splits sum.splits)
  have i: "d_id r = document_id I (snd f)" "in_step I keys pts (A(DEMO_TENANT := (A DEMO_TENANT)(d_id r \<mapsto> r))) w1"
    using ingest_ok[OF assms(1) Cons.prems(1) assms(2,3) r(1)] by (simp add: demo_upload_def, blast)
  obtain A' where A': "in_step I keys pts A' w'" "\<forall>t. t \<noteq> DEMO_TENANT \<longrightarrow> A' t = A t"
      "dom (A' DEMO_TENANT) = insert (d_id r) (dom (A DEMO_TENANT)) \<union> (document_id I \<circ> snd) ` set fs"
    using Cons.IH[OF i(2) r(2)] by (auto simp del: fun_upd_apply simp: fun_upd_same fun_upd_other)
  show ?case by (intro exI [of _ A'] conjI A') (simp add: A'(3) i(1))
qed

lemma ingest_files_frame:
  assumes "services_ok I keys pts" and "\<And>d. x \<noteq> doc_key DEMO_TENANT d" and "x \<noteq> doc_index_key DEMO_TENANT"
  shows "keys (snd (ingest_files I fs w)) x = keys w x"
proof (induction fs arbitrary: w)
  case (Cons f fs)
  then show ?case using ingest_frame[OF assms] by (auto simp: split_beta split: sum.split)
qed simp

section \<open>Properties\<close>



end
