(* ===== verification/Observability.thy ===== *)
theory Observability
  imports Http_Api
begin

text \<open>
  What surrounds a request without taking part in it: the tracer of \<open>app/observability/tracing.py\<close>, the
  middleware of \<open>app/observability/middleware.py\<close> and the log line of \<open>app/core/logging.py\<close>. The Langfuse
  SDK is a parameter with a state of its own; every call into it may raise. A request is a function that
  fills in a trace; it ends with a value, with an exception or by being cancelled.
\<close>

section \<open>Requests and scopes\<close>

record chat_trace =
  tr_route :: string
  tr_output :: "string option"
  tr_model :: "string option"
  tr_deployment :: "string option"
  tr_prompt :: int
  tr_completion :: int
  tr_cost :: real
  tr_cached :: bool
  tr_similarity :: "real option"
  tr_attempts :: "attempt list"
  tr_error :: "string option"

definition new_trace :: "string \<Rightarrow> chat_trace" where
  "new_trace route =
     \<lparr>tr_route = route, tr_output = None, tr_model = None, tr_deployment = None, tr_prompt = 0, tr_completion = 0, tr_cost = 0,
      tr_cached = False, tr_similarity = None, tr_attempts = [], tr_error = None\<rparr>"

text \<open>\<open>Threw\<close> is an \<open>Exception\<close>; \<open>Killed\<close> is a cancellation or a closed generator, which \<open>except Exception\<close> lets pass.\<close>

datatype ('e, 'a) body_end = Gave 'a | Threw 'e | Killed

text \<open>What the caller of a \<open>with\<close> block sees: the ending of its body, nothing at all because an exception was
  swallowed, or an exception of the SDK.\<close>

datatype ('e, 'a) seen_end = Ends "('e, 'a) body_end" | Swallowed_End | Escaped string

datatype exit_effect = Passes | Swallows | Raises string

text \<open>Entering a context manager may raise; otherwise it gives what is called when the block is left, with a
  flag for an exception in flight.\<close>

type_synonym 'l scope_exit = "bool \<Rightarrow> 'l \<Rightarrow> exit_effect \<times> 'l"
type_synonym 'l scope = "'l \<Rightarrow> 'l scope_exit option \<times> 'l"
type_synonym ('e, 'a, 'w) traced = "chat_trace \<Rightarrow> 'w \<Rightarrow> ('e, 'a) body_end \<times> chat_trace \<times> 'w"

definition in_flight :: "('e, 'a) seen_end \<Rightarrow> bool" where
  "in_flight r = (case r of Ends (Gave _) \<Rightarrow> False | Swallowed_End \<Rightarrow> False | _ \<Rightarrow> True)"

text \<open>\<open>ExitStack.__exit__\<close>: the scopes are left in the reverse order; an exit that raises replaces what was in
  flight. An exit that swallows brings back the ending of the body when it had raised nothing itself.\<close>

fun unwind :: "('e, 'a) body_end \<Rightarrow> 'l scope_exit list \<Rightarrow> ('e, 'a) seen_end \<Rightarrow> 'l \<Rightarrow> ('e, 'a) seen_end \<times> 'l" where
  "unwind e [] r l = (r, l)"
| "unwind e (x # xs) r l =
     (let (eff, l1) = x (in_flight r) l in
      case eff of
        Passes \<Rightarrow> unwind e xs r l1
      | Swallows \<Rightarrow> unwind e xs (if in_flight r then if in_flight (Ends e) then Swallowed_End else Ends e else r) l1
      | Raises n \<Rightarrow> unwind e xs (Escaped n) l1)"

section \<open>The tracers\<close>

text \<open>\<open>ChatTrace.metadata\<close> and what \<open>_record\<close> hands to the SDK\<close>

record trace_metadata =
  md_route :: string
  md_deployment :: "string option"
  md_cached :: bool
  md_similarity :: "real option"
  md_attempts :: "attempt list"
  md_request_id :: "string option"

definition metadata_of :: "chat_trace \<Rightarrow> string option \<Rightarrow> trace_metadata" where
  "metadata_of tr rid =
     \<lparr>md_route = tr_route tr, md_deployment = tr_deployment tr, md_cached = tr_cached tr, md_similarity = tr_similarity tr,
      md_attempts = tr_attempts tr, md_request_id = rid\<rparr>"

record observation =
  ob_output :: "string option"
  ob_model :: "string option"
  ob_usage :: "int \<times> int \<times> int"  \<comment> \<open>input, output, total\<close>
  ob_cost :: real
  ob_metadata :: trace_metadata
  ob_status :: "string option"

definition observation_of :: "chat_trace \<Rightarrow> string option \<Rightarrow> observation" where
  "observation_of tr rid =
     \<lparr>ob_output = tr_output tr, ob_model = tr_model tr, ob_usage = (tr_prompt tr, tr_completion tr, tr_prompt tr + tr_completion tr),
      ob_cost = tr_cost tr, ob_metadata = metadata_of tr rid, ob_status = tr_error tr\<rparr>"

record 'l sdk =
  sdk_propagate :: "string \<Rightarrow> string option \<Rightarrow> string \<Rightarrow> string \<Rightarrow> 'l scope"  \<comment> \<open>tenant, request id, tag, key id\<close>
  sdk_generation :: "chat_message list \<Rightarrow> real option \<times> int option \<Rightarrow> 'l scope"
  sdk_update :: "observation \<Rightarrow> 'l \<Rightarrow> bool \<times> 'l"  \<comment> \<open>whether it raised\<close>
  sdk_span :: "string \<Rightarrow> (string \<times> json) list option \<Rightarrow> 'l scope"
  sdk_shutdown :: "'l \<Rightarrow> bool \<times> 'l"

definition noop_chat :: "string \<Rightarrow> ('e, 'a, 'w) traced \<Rightarrow> 'w \<Rightarrow> ('e, 'a) seen_end \<times> 'w" where
  "noop_chat route body w = (let (e, tr, w1) = body (new_trace route) w in (Ends e, w1))"

definition final_trace :: "('e \<Rightarrow> string) \<Rightarrow> ('e, 'a) body_end \<Rightarrow> chat_trace \<Rightarrow> chat_trace" where
  "final_trace text_of e tr = (case e of Threw x \<Rightarrow> tr\<lparr>tr_error := Some (text_of x)\<rparr> | _ \<Rightarrow> tr)"

definition langfuse_chat ::
  "'l sdk \<Rightarrow> string option \<Rightarrow> ('e \<Rightarrow> string) \<Rightarrow> principal \<Rightarrow> chat_request \<Rightarrow> ('e, 'a, 'w) traced \<Rightarrow> 'w \<Rightarrow> 'l
     \<Rightarrow> ('e, 'a) seen_end \<times> 'w \<times> 'l" where
  "langfuse_chat L rid text_of p req body w l =
     (let tr = new_trace (req_model req);
          (outer, l1) = sdk_propagate L (p_tenant_id p) rid (''route:'' @ req_model req) (p_key_id p) l in
      case outer of
        None \<Rightarrow> (let (e, tr1, w1) = body tr w in (Ends e, w1, l1))
      | Some leave_outer \<Rightarrow>
          (let (gen, l2) = sdk_generation L (messages req) (temperature req, max_tokens req) l1 in
           case gen of
             None \<Rightarrow> (let (e, tr1, w1) = body tr w; (r, l3) = unwind e [leave_outer] (Ends e) l2 in (r, w1, l3))
           | Some leave_gen \<Rightarrow>
               (let (e, tr1, w1) = body tr w; (bad, l3) = sdk_update L (observation_of (final_trace text_of e tr1) rid) l2;
                    (r, l4) = unwind e [leave_gen, leave_outer] (Ends e) l3 in (r, w1, l4))))"

definition noop_span :: "('w \<Rightarrow> ('e, 'a) body_end \<times> 'w) \<Rightarrow> 'w \<Rightarrow> ('e, 'a) seen_end \<times> 'w" where
  "noop_span body w = (let (e, w1) = body w in (Ends e, w1))"

definition langfuse_span :: "'l sdk \<Rightarrow> string \<Rightarrow> (string \<times> json) list \<Rightarrow> ('w \<Rightarrow> ('e, 'a) body_end \<times> 'w) \<Rightarrow> 'w \<Rightarrow> 'l \<Rightarrow> ('e, 'a) seen_end \<times> 'w \<times> 'l" where
  "langfuse_span L name meta body w l =
     (let (sp, l1) = sdk_span L name (if meta = [] then None else Some meta) l; (e, w1) = body w;
          (r, l2) = unwind e (case sp of None \<Rightarrow> [] | Some leave \<Rightarrow> [leave]) (Ends e) l1 in (r, w1, l2))"

definition tracer_shutdown :: "'l sdk \<Rightarrow> 'l \<Rightarrow> 'l" where
  "tracer_shutdown L l = snd (sdk_shutdown L l)"

section \<open>The middleware\<close>

definition id_char :: "char \<Rightarrow> bool" where
  "id_char c \<longleftrightarrow> is_upper c \<or> is_alnum c \<or> c \<in> {CHR ''.'', CHR ''_'', CHR ''-''}"

text \<open>\<open>^[A-Za-z0-9._-]{1,128}$\<close>; in Python \<open>$\<close> also matches before a line feed at the end.\<close>

definition valid_request_id :: "string \<Rightarrow> bool" where
  "valid_request_id s \<longleftrightarrow>
     (let t = (if s \<noteq> [] \<and> last s = CHR 0x0A then butlast s else s) in 1 \<le> length t \<and> length t \<le> 128 \<and> list_all id_char t)"

definition X_REQUEST_ID :: string where "X_REQUEST_ID = ''x-request-id''"

definition request_id_of :: "(string \<times> string) list \<Rightarrow> string \<Rightarrow> string" where
  "request_id_of hs fresh =
     (let incoming = (case map_of (rev hs) X_REQUEST_ID of None \<Rightarrow> [] | Some x \<Rightarrow> x) in if valid_request_id incoming then incoming else fresh)"

datatype asgi_message = Response_Start nat "(string \<times> string) list" | Other_Message string

text \<open>The messages the application sends, with the status that is recorded\<close>

fun send_with_id :: "string \<Rightarrow> nat \<Rightarrow> asgi_message list \<Rightarrow> asgi_message list \<times> nat" where
  "send_with_id i code [] = ([], code)"
| "send_with_id i code (m # ms) =
     (let (m1, code1) = (case m of Response_Start c hs \<Rightarrow> (Response_Start c (hs @ [(X_REQUEST_ID, i)]), c) | Other_Message b \<Rightarrow> (m, code));
          (ms1, code2) = send_with_id i code1 ms in (m1 # ms1, code2))"

record asgi_scope =
  sc_type :: string
  sc_method :: string
  sc_path :: string
  sc_headers :: "(string \<times> string) list"

text \<open>What the wrapped application does with a request id: the messages it sends, the template of the route that
  took the request, and whether it raises in the end\<close>

type_synonym asgi_app = "string option \<Rightarrow> asgi_message list \<times> string option \<times> bool"

record access =
  ac_method :: string
  ac_route :: string
  ac_code :: nat
  ac_logged :: bool

definition QUIET_PATHS :: "string list" where "QUIET_PATHS = [''/metrics'', ''/healthz'', ''/readyz'']"

text \<open>The messages sent on, the entry in the metrics and the log, and whether the exception goes on\<close>

definition with_request_context :: "asgi_scope \<Rightarrow> string \<Rightarrow> asgi_app \<Rightarrow> asgi_message list \<times> access option \<times> bool" where
  "with_request_context sc fresh app =
     (if sc_type sc \<noteq> ''http'' then (let (ms, rt, raised) = app None in (ms, None, raised))
      else (let i = request_id_of (sc_headers sc) fresh; (ms, rt, raised) = app (Some i); (sent, code) = send_with_id i 500 ms in
        (sent, Some \<lparr>ac_method = sc_method sc, ac_route = (case rt of None \<Rightarrow> ''unmatched'' | Some t \<Rightarrow> t), ac_code = code,
                     ac_logged = (sc_path sc \<notin> set QUIET_PATHS)\<rparr>, raised)))"

section \<open>Log lines\<close>

definition dict_update :: "('k \<times> 'v) list \<Rightarrow> ('k \<times> 'v) list \<Rightarrow> ('k \<times> 'v) list" where
  "dict_update d e = fold (\<lambda>(k, v). dict_set k v) e d"

definition log_payload ::
  "string list \<Rightarrow> string \<Rightarrow> string \<Rightarrow> string \<Rightarrow> string \<Rightarrow> string option \<Rightarrow> (string \<times> json) list \<Rightarrow> string option \<Rightarrow> (string \<times> json) list" where
  "log_payload reserved ts lvl logger msg rid attrs exc =
     (let base = [(''ts'', JStr ts), (''level'', JStr lvl), (''logger'', JStr logger), (''msg'', JStr msg)];
          d = (case rid of None \<Rightarrow> base | Some i \<Rightarrow> dict_set ''request_id'' (JStr i) base);
          d1 = dict_update d (filter (\<lambda>(k, v). k \<notin> set reserved) attrs)
      in case exc of None \<Rightarrow> d1 | Some x \<Rightarrow> dict_set ''exc'' (JStr x) d1)"

section \<open>Facts\<close>

text \<open>The scopes of the SDK are left without raising or swallowing anything.\<close>

definition leaves_quietly :: "'l scope \<Rightarrow> bool" where
  "leaves_quietly sc \<longleftrightarrow> (\<forall>l x. fst (sc l) = Some x \<longrightarrow> (\<forall>b l1. fst (x b l1) = Passes))"

definition quiet_sdk :: "'l sdk \<Rightarrow> bool" where
  "quiet_sdk L \<longleftrightarrow> (\<forall>t i g k. leaves_quietly (sdk_propagate L t i g k)) \<and> (\<forall>ms ps. leaves_quietly (sdk_generation L ms ps))
     \<and> (\<forall>name meta. leaves_quietly (sdk_span L name meta))"

lemma unwind_quiet: "\<forall>x \<in> set xs. \<forall>b l. fst (x b l) = Passes \<Longrightarrow> fst (unwind e xs r l) = r"
  by (induction xs arbitrary: r l) (auto simp: split_beta)

lemma quiet_propagate: "quiet_sdk L \<Longrightarrow> sdk_propagate L t i g k l = (Some x, l1) \<Longrightarrow> fst (x b l2) = Passes"
  unfolding quiet_sdk_def leaves_quietly_def by (metis fst_conv)

lemma quiet_generation: "quiet_sdk L \<Longrightarrow> sdk_generation L ms ps l = (Some x, l1) \<Longrightarrow> fst (x b l2) = Passes"
  unfolding quiet_sdk_def leaves_quietly_def by (metis fst_conv)

lemma quiet_span: "quiet_sdk L \<Longrightarrow> sdk_span L n meta l = (Some x, l1) \<Longrightarrow> fst (x b l2) = Passes"
  unfolding quiet_sdk_def leaves_quietly_def by (metis fst_conv)

lemma langfuse_chat_quiet:
  assumes "quiet_sdk L"
  shows "\<exists>l'. langfuse_chat L rid text_of p req body w l = (fst (noop_chat (req_model req) body w), snd (noop_chat (req_model req) body w), l')"
proof -
  obtain e tr1 w1 where body: "body (new_trace (req_model req)) w = (e, tr1, w1)" by (cases "body (new_trace (req_model req)) w") auto
  obtain outer l1 where outer: "sdk_propagate L (p_tenant_id p) rid (''route:'' @ req_model req) (p_key_id p) l = (outer, l1)" by fastforce
  obtain gen l2 where gen: "sdk_generation L (messages req) (temperature req, max_tokens req) l1 = (gen, l2)" by fastforce
  have q1: "fst (x b k) = Passes" if "outer = Some x" for x b k using quiet_propagate [OF assms] outer that by blast
  have q2: "fst (x b k) = Passes" if "gen = Some x" for x b k using quiet_generation [OF assms] gen that by blast
  have start: "fst (sdk_propagate L (p_tenant_id p) rid (''route:'' @ req_model req) (p_key_id p) l) = outer"
    "snd (sdk_propagate L (p_tenant_id p) rid (''route:'' @ req_model req) (p_key_id p) l) = l1" by (simp_all only: outer fst_conv snd_conv)
  show ?thesis unfolding langfuse_chat_def noop_chat_def body Let_def split_beta start
    by (cases outer; cases gen) (auto simp: body gen q1 q2 simp del: unwind.simps intro!: unwind_quiet)
qed

lemma langfuse_span_quiet:
  assumes "quiet_sdk L"
  shows "\<exists>l'. langfuse_span L name meta f w l = (fst (noop_span f w), snd (noop_span f w), l')"
proof -
  obtain sp l1 where sp: "sdk_span L name (if meta = [] then None else Some meta) l = (sp, l1)" by fastforce
  have q: "fst (x b k) = Passes" if "sp = Some x" for x b k using quiet_span [OF assms] sp that by blast
  show ?thesis
    by (cases sp) (auto simp: langfuse_span_def noop_span_def sp split_beta Let_def q simp del: unwind.simps intro!: unwind_quiet)
qed

text \<open>An exit of the SDK that raises fails a request that had its answer.\<close>

lemma a_raising_exit_fails_the_request:
  assumes "sdk_span L name (if meta = [] then None else Some meta) l = (Some leave, l1)" "f w = (Gave a, w1)" "fst (leave False l1) = Raises n"
  shows "fst (langfuse_span L name meta f w l) = Escaped n"
  using assms by (simp add: langfuse_span_def split_beta in_flight_def)

definition with_id :: "string \<Rightarrow> asgi_message \<Rightarrow> asgi_message" where
  "with_id i m = (case m of Response_Start c hs \<Rightarrow> Response_Start c (hs @ [(X_REQUEST_ID, i)]) | Other_Message b \<Rightarrow> m)"

definition start_codes :: "asgi_message list \<Rightarrow> nat list" where
  "start_codes ms = concat (map (\<lambda>m. case m of Response_Start c hs \<Rightarrow> [c] | Other_Message b \<Rightarrow> []) ms)"

lemma send_with_id_eq: "send_with_id i code ms = (map (with_id i) ms, last (code # start_codes ms))"
  by (induction ms arbitrary: code) (auto simp: with_id_def start_codes_def split: asgi_message.split)

lemma valid_request_id_newline: "valid_request_id (t @ [CHR 0x0A]) \<longleftrightarrow> 1 \<le> length t \<and> length t \<le> 128 \<and> list_all id_char t"
  by (simp add: valid_request_id_def)

lemma valid_request_idD:
  assumes "valid_request_id i"
  shows "\<exists>t. (i = t \<or> i = t @ [CHR 0x0A]) \<and> 1 \<le> length t \<and> length t \<le> 128 \<and> list_all id_char t"
proof (cases "i \<noteq> [] \<and> last i = CHR 0x0A")
  case True
  then have "i = butlast i @ [CHR 0x0A]" by (metis append_butlast_last_id)
  then show ?thesis using assms True unfolding valid_request_id_def by (auto simp: Let_def intro!: exI [of _ "butlast i"])
next
  case False
  then show ?thesis using assms unfolding valid_request_id_def by (auto simp: Let_def)
qed

section \<open>Properties\<close>

text \<open>C36: Tracing never changes a request: whatever the SDK does when a trace is started, filled in or shut down,
  also when every such call raises, the request ends as it would without a tracer, in the same state,
  as long as leaving its scopes does not raise.\<close>

theorem tracing_never_changes_a_request:
  assumes "quiet_sdk L"
  shows "(\<exists>l'. langfuse_chat L rid text_of p req body w l = (fst (noop_chat (req_model req) body w), snd (noop_chat (req_model req) body w), l'))
    \<and> (\<exists>l'. langfuse_span L name meta f w l = (fst (noop_span f w), snd (noop_span f w), l'))"
  by (intro conjI langfuse_chat_quiet langfuse_span_quiet assms)

definition broken_sdk :: "nat sdk" where
  "broken_sdk =
     \<lparr>sdk_propagate = (\<lambda>t i g k l. (Some (\<lambda>b l1. (Passes, l1 + 1)), l + 1)), sdk_generation = (\<lambda>ms ps l. (None, l)),
      sdk_update = (\<lambda>ob l. (True, l)), sdk_span = (\<lambda>name meta l. (None, l)), sdk_shutdown = (\<lambda>l. (True, l))\<rparr>"

lemma broken_sdk_quiet: "quiet_sdk broken_sdk"
  by (simp add: quiet_sdk_def leaves_quietly_def broken_sdk_def)

lemma tracing_never_changes_a_request_witness:
  "(\<exists>l'. langfuse_chat broken_sdk None (\<lambda>e. e) \<lparr>p_key_id = ''k'', p_tenant_id = ''t'', p_capacity = None, p_refill = None\<rparr>
      \<lparr>req_model = ''chat'', messages = [], temperature = None, max_tokens = None, streamed = False, use_cache = True\<rparr>
      (\<lambda>tr w. (Threw ''boom'', tr\<lparr>tr_model := Some (tr_route tr)\<rparr>, w + 1)) (5 :: nat) 0 = (Ends (Threw ''boom'' :: (string, nat) body_end), 6, l'))
   \<and> (\<exists>l'. langfuse_span broken_sdk ''s'' [] (\<lambda>w. (Gave (3 :: nat), w + 1)) (5 :: nat) 0 = (Ends (Gave 3 :: (string, nat) body_end), 6, l'))"
  using tracing_never_changes_a_request [OF broken_sdk_quiet, where rid = None and text_of = "\<lambda>e. e" and
      p = "\<lparr>p_key_id = ''k'', p_tenant_id = ''t'', p_capacity = None, p_refill = None\<rparr>" and
      req = "\<lparr>req_model = ''chat'', messages = [], temperature = None, max_tokens = None, streamed = False, use_cache = True\<rparr>" and
      body = "\<lambda>tr w. (Threw ''boom'', tr\<lparr>tr_model := Some (tr_route tr)\<rparr>, w + 1)" and w = "5 :: nat" and l = 0 and name = "''s''" and meta = "[]"
      and f = "\<lambda>w. (Gave (3 :: nat), w + 1)"]
  by (simp add: noop_chat_def noop_span_def)

text \<open>Every HTTP request has one id: the caller's own when it is safe to log, a fresh one otherwise. Each start of a
  response carries it, no other message is touched, an exception goes on, and the request is counted
  under the last status sent, or 500 when there was none.\<close>

theorem every_answer_carries_its_request_id:
  assumes "sc_type sc = ''http''"
  shows "\<exists>i. (i = fresh \<or> (X_REQUEST_ID, i) \<in> set (sc_headers sc) \<and>
               (\<exists>t. (i = t \<or> i = t @ [CHR 0x0A]) \<and> 1 \<le> length t \<and> length t \<le> 128 \<and> list_all id_char t))
    \<and> (case app (Some i) of (ms, rt, raised) \<Rightarrow> \<exists>ac. with_request_context sc fresh app = (map (with_id i) ms, Some ac, raised)
         \<and> ac_code ac = last (500 # start_codes ms))"
proof -
  let ?i = "request_id_of (sc_headers sc) fresh"
  have "valid_request_id ?i \<and> map_of (rev (sc_headers sc)) X_REQUEST_ID = Some ?i \<or> ?i = fresh"
    by (auto simp: request_id_of_def Let_def valid_request_id_def split: option.splits)
  then have "?i = fresh \<or> (X_REQUEST_ID, ?i) \<in> set (sc_headers sc) \<and>
               (\<exists>t. (?i = t \<or> ?i = t @ [CHR 0x0A]) \<and> 1 \<le> length t \<and> length t \<le> 128 \<and> list_all id_char t)"
    using valid_request_idD map_of_SomeD [of "rev (sc_headers sc)"] by (metis set_rev)
  then show ?thesis
    using assms by (intro exI [of _ ?i]) (auto simp: with_request_context_def send_with_id_eq split_beta Let_def split: prod.splits)
qed

lemma every_answer_carries_its_request_id_witness:
  "\<exists>i ac. with_request_context \<lparr>sc_type = ''http'', sc_method = ''GET'', sc_path = ''/healthz'', sc_headers = [(X_REQUEST_ID, ''a b'')]\<rparr> ''f00d''
       (\<lambda>i. ([Response_Start 200 [], Other_Message ''ok''], Some ''/healthz'', False))
     = (map (with_id i) [Response_Start 200 [], Other_Message ''ok''], Some ac, False) \<and> ac_code ac = 200"
  using every_answer_carries_its_request_id [of "\<lparr>sc_type = ''http'', sc_method = ''GET'', sc_path = ''/healthz'', sc_headers = [(X_REQUEST_ID, ''a b'')]\<rparr>"
      "''f00d''" "\<lambda>i. ([Response_Start 200 [], Other_Message ''ok''], Some ''/healthz'', False)"]
  by (auto simp: start_codes_def)

end
