(* ===== verification/Celery_Worker.thy ===== *)
theory Celery_Worker
  imports Ingest_Jobs
begin

text \<open>
  The jobs on Celery (\<open>app/workers/queue.py\<close>, \<open>app/workers/celery_app.py\<close>): publishing a message, and what
  becomes of it in a worker. Celery is outside the program; of it the model has what its documentation says and
  the configuration asks for: \<open>retry\<close> publishes the message again with one more retry, unless it has had
  \<open>max_retries\<close>, in which case it raises; a message whose task raised is done with; a message whose worker was killed
  is delivered again as it was (\<open>task_acks_late\<close>, \<open>task_reject_on_worker_lost\<close>).
\<close>

section \<open>Publishing\<close>

definition TASK_INGEST :: string where "TASK_INGEST = ''nexusgate.ingest_document''"

text \<open>\<open>send_task\<close> is an argument: the task's name, its keyword arguments and the queue.\<close>

type_synonym 'w sender = "string \<Rightarrow> (string \<times> string) list \<Rightarrow> string \<Rightarrow> 'w \<Rightarrow> unit option \<times> 'w"

definition celery_enqueue :: "'w sender \<Rightarrow> string \<Rightarrow> job \<Rightarrow> string \<Rightarrow> 'w \<Rightarrow> unit option \<times> 'w" where
  "celery_enqueue send queue j payload w =
     send TASK_INGEST [(''job_id'', job_id j), (''tenant_id'', j_tenant j), (''payload_id'', payload)] queue w"

definition max_retries :: "'w jobs_env \<Rightarrow> int" where "max_retries E = max_attempts E - 1"

section \<open>A delivery\<close>

text \<open>The part of \<open>execute\<close> before the ingestion runs: the job as it is then stored, its upload and the world.\<close>

definition begun :: "'w jobs_env \<Rightarrow> string \<Rightarrow> string \<Rightarrow> string \<Rightarrow> 'w \<Rightarrow> (job \<times> string \<times> 'w) option" where
  "begun E t i payload w =
     (case job_get E t i w of
        (Some (Some j), w1) \<Rightarrow>
          (case start_attempt E t i w1 of
             (Some attempt, w2) \<Rightarrow>
               if attempt > max_attempts E then None
               else
                 (case job_save E (j\<lparr>status := PROCESSING, attempts := attempt\<rparr>) w2 of
                    (Some j1, w3) \<Rightarrow>
                      (case payload_get E payload w3 of (Some (Some data), w4) \<Rightarrow> Some (j1, data, w4) | _ \<Rightarrow> None)
                  | _ \<Rightarrow> None)
           | _ \<Rightarrow> None)
      | _ \<Rightarrow> None)"

text \<open>A message waits with the retries it has had, is done with, or was given up by Celery.\<close>

datatype message = Waiting nat | Acked | Given_Up

text \<open>\<open>killed\<close>: the worker dies while the ingestion runs, which wrote elsewhere until then.\<close>

inductive celery_step ::
  "'w jobs_env \<Rightarrow> ('w \<Rightarrow> keyspace) \<Rightarrow> 'w ingester \<Rightarrow> seconds \<Rightarrow> string \<Rightarrow> string \<Rightarrow> string \<Rightarrow> message \<times> 'w \<Rightarrow> message \<times> 'w \<Rightarrow> bool"
  for E keys ingest backoff t i p where
  answered: "ingest_document E ingest backoff k i t p w = (Answer a b, w') \<Longrightarrow> celery_step E keys ingest backoff t i p (Waiting k, w) (Acked, w')"
| retried: "ingest_document E ingest backoff k i t p w = (RetryIn d, w') \<Longrightarrow> int k < max_retries E
    \<Longrightarrow> celery_step E keys ingest backoff t i p (Waiting k, w) (Waiting (Suc k), w')"
| refused: "ingest_document E ingest backoff k i t p w = (RetryIn d, w') \<Longrightarrow> \<not> int k < max_retries E
    \<Longrightarrow> celery_step E keys ingest backoff t i p (Waiting k, w) (Given_Up, w')"
| raised: "ingest_document E ingest backoff k i t p w = (TaskDied, w') \<Longrightarrow> celery_step E keys ingest backoff t i p (Waiting k, w) (Given_Up, w')"
| killed: "begun E t i p w = Some (j, data, w1) \<Longrightarrow> \<forall>y \<in> job_keys t i p. keys w' y = keys w1 y
    \<Longrightarrow> celery_step E keys ingest backoff t i p (Waiting k, w) (Waiting k, w')"

inductive_cases celery_stepE: "celery_step E keys ingest backoff t i p (Waiting k, w) (s, w')"
inductive_simps celery_done [simp]: "celery_step E keys ingest backoff t i p (Acked, w) x" "celery_step E keys ingest backoff t i p (Given_Up, w) x"

section \<open>Facts\<close>

lemma begun_effect:
  assumes ok: "redis_ok (jx E) keys" "0 < retention E" and a: "awaits keys j n p (Some data) w"
    and b: "begun E (j_tenant j) (job_id j) p w = Some (j1, data1, w4)"
  shows "n < max_attempts E \<and> (\<exists>u. j1 = j\<lparr>status := PROCESSING, attempts := n + 1, updated_at := u\<rparr>) \<and> awaits keys j1 (n + 1) p (Some data) w4"
proof -
  let ?t = "j_tenant j" and ?i = "job_id j"
  obtain d where pl: "keys w (payload_key p) = Some (RStr (Txt data), d)" using a by (auto simp: awaits_def)
  obtain w1 where g: "job_get E ?t ?i w = (Some (Some j), w1)" "keys w1 = keys w"
    using job_get_effect[OF ok(1)] a by (fastforce simp: awaits_def)
  obtain w2 where s: "start_attempt E ?t ?i w1 = (Some (n + 1), w2)" "delivered ?t ?i (keys w2) (n + 1)"
      "\<forall>y. y \<noteq> attempts_key ?t ?i \<longrightarrow> keys w2 y = keys w1 y"
    using start_attempt_effect[OF ok, of ?t ?i w1 n] a g(2) by (auto simp: awaits_def)
  have sn: "sane ?t (keys w2)" by (rule sane_frame[of _ "keys w"]) (use a s(3) g(2) in \<open>auto simp: awaits_def\<close>)
  let ?j = "j\<lparr>status := PROCESSING, attempts := n + 1\<rparr>"
  obtain w3 where v: "job_save E ?j w2 = (Some (?j\<lparr>updated_at := stamp E w2\<rparr>), w3)" "sane ?t (keys w3)"
      "stored_job ?t ?i (keys w3) = Some (Json (job_json (?j\<lparr>updated_at := stamp E w2\<rparr>)))"
      "keys w3 (attempts_key ?t ?i) = keys w2 (attempts_key ?t ?i)" "keys w3 (payload_key p) = keys w2 (payload_key p)"
    using job_save_effect[OF ok sn, of ?j ?i p] by auto
  obtain w5 where q: "payload_get E p w3 = (Some (Some data), w5)" "keys w5 = keys w3"
    using payload_get_effect[OF ok(1), of w3 p d "Some data"] pl v(5) s(3) g(2) by auto
  have e: "n < max_attempts E" "j1 = ?j\<lparr>updated_at := stamp E w2\<rparr>" "w4 = w5"
    using b g(1) s(1) v(1) q(1) by (auto simp: begun_def split: if_splits)
  have "delivered ?t ?i (keys w5) (n + 1)" using s(2) v(4) q(2) by (simp add: delivered_def)
  then have "awaits keys j1 (n + 1) p (Some data) w4"
    using v(2,3,5) q(2) pl s(3) g(2) e by (auto simp: awaits_def)
  then show ?thesis using e by auto
qed

lemma awaits_frame:
  assumes "awaits keys j n p u w" and "\<forall>y \<in> job_keys (j_tenant j) (job_id j) p. keys w' y = keys w y"
  shows "awaits keys j n p u w'"
proof -
  have "sane (j_tenant j) (keys w')"
    by (rule sane_frame[of _ "keys w"]) (use assms in \<open>auto simp: awaits_def job_keys_def\<close>)
  then show ?thesis using assms stored_frame(1)[of "keys w'" "j_tenant j" "job_id j" "keys w"]
    by (auto simp: awaits_def delivered_def job_keys_def)
qed

text \<open>A job that waits: \<open>n\<close> deliveries were counted, at least as many as Celery counts retries.\<close>

definition on_the_way :: "'w jobs_env \<Rightarrow> ('w \<Rightarrow> keyspace) \<Rightarrow> string \<Rightarrow> string \<Rightarrow> string \<Rightarrow> nat \<Rightarrow> nat \<Rightarrow> 'w \<Rightarrow> bool" where
  "on_the_way E keys t i p k n w \<longleftrightarrow>
     (\<exists>j data. awaits keys j (int n) p (Some data) w \<and> j_tenant j = t \<and> job_id j = i) \<and> k \<le> n \<and> int n \<le> max_attempts E"

definition at_rest :: "('w \<Rightarrow> keyspace) \<Rightarrow> string \<Rightarrow> string \<Rightarrow> 'w \<Rightarrow> bool" where
  "at_rest keys t i w \<longleftrightarrow>
     (\<exists>j. stored_job t i (keys w) = Some (Json (job_json j)) \<and> job_id j = i \<and> j_tenant j = t \<and> status j \<in> {DONE, FAILED})"

lemma executed_delivery:
  assumes ok: "redis_ok (jx E) keys" "0 < retention E" "0 < dlq_max E" and fr: "leaves_jobs keys ingest t i p"
    and o: "on_the_way E keys t i p k n w" and x: "execute E ingest t i p w = (r, w')"
  shows "(\<exists>j. r = Ran j \<and> at_rest keys t i w') \<or> (\<exists>e. r = Retry e \<and> int n + 1 < max_attempts E \<and> on_the_way E keys t i p (Suc k) (Suc n) w')"
proof -
  obtain j data where a: "awaits keys j (int n) p (Some data) w" and ti: "j_tenant j = t" "job_id j = i" and k: "k \<le> n" "int n \<le> max_attempts E"
    using o by (auto simp: on_the_way_def)
  show ?thesis
  proof (cases "int n < max_attempts E")
    case True
    obtain v j' w2 u where y: "j' = verdict E (int n + 1) v (j\<lparr>status := PROCESSING, attempts := int n + 1\<rparr>)\<lparr>updated_at := u\<rparr>"
        "execute E ingest t i p w = (ends_as j', w2)" "awaits keys j' (int n + 1) p (if status j' = DONE then None else Some data) w2"
      using execute_runs[OF ok _ a True] fr ti by blast
    have ti': "j_tenant j' = t" "job_id j' = i" using y(1) ti by (auto simp: verdict_def split: ingested.splits)
    show ?thesis
    proof (cases "status j' = QUEUED")
      case True
      then have "int n + 1 < max_attempts E" using y(1) by (auto simp: verdict_def split: ingested.splits if_splits)
      moreover have "on_the_way E keys t i p (Suc k) (Suc n) w2"
        using y(3) ti' True k calculation by (auto simp: on_the_way_def add.commute)
      ultimately show ?thesis using y(2) x True by (auto simp: ends_as_def)
    next
      case False
      then have "status j' \<in> {DONE, FAILED}" using y(1) by (auto simp: verdict_def split: ingested.splits if_splits)
      moreover have "stored_job t i (keys w2) = Some (Json (job_json j'))" using y(3) ti' by (simp add: awaits_def)
      ultimately show ?thesis using y(2) x False ti' by (auto simp: ends_as_def at_rest_def)
    qed
  next
    case False
    obtain j' w2 where "\<forall>ingest. execute E ingest t i p w = (Ran j', w2)" "status j' = FAILED" "job_id j' = i" "j_tenant j' = t"
        "stored_job t i (keys w2) = Some (Json (job_json j'))"
      using execute_doomed[OF ok a] False ti by auto
    then show ?thesis using x by (auto simp: at_rest_def)
  qed
qed

lemma celery_step_advances:
  assumes ok: "redis_ok (jx E) keys" "0 < retention E" "0 < dlq_max E" and fr: "leaves_jobs keys ingest t i p"
    and o: "on_the_way E keys t i p k n w" and s: "celery_step E keys ingest backoff t i p (Waiting k, w) (m, w')"
  shows "m = Acked \<and> at_rest keys t i w' \<or> (\<exists>k'. m = Waiting k' \<and> on_the_way E keys t i p k' (Suc n) w')"
proof -
  obtain r w2 where x: "execute E ingest t i p w = (r, w2)" by fastforce
  note d = executed_delivery[OF ok fr o x]
  have doc: "ingest_document E ingest backoff k i t p w =
      (case r of Ran j \<Rightarrow> Answer i (status_text (status j)) | Gone \<Rightarrow> Answer i ''gone'' | Retry err \<Rightarrow> RetryIn (backoff * 2 ^ k) | Died \<Rightarrow> TaskDied, w2)"
    by (simp add: ingest_document_def x)
  from s show ?thesis
  proof (cases rule: celery_stepE [consumes 1, case_names answered retried refused raised killed])
    case (killed j data w1)
    obtain j0 data0 where a: "awaits keys j0 (int n) p (Some data0) w" and ti: "j_tenant j0 = t" "job_id j0 = i" and k: "k \<le> n"
      using o by (auto simp: on_the_way_def)
    have b: "int n < max_attempts E" "\<exists>u. j = j0\<lparr>status := PROCESSING, attempts := int n + 1, updated_at := u\<rparr>" "awaits keys j (int n + 1) p (Some data0) w1"
      using begun_effect[OF ok(1,2) a] killed ti by auto
    then have "j_tenant j = t" "job_id j = i" using ti by auto
    moreover from this have "awaits keys j (int n + 1) p (Some data0) w'" using awaits_frame[OF b(3)] killed by simp
    ultimately have "on_the_way E keys t i p k (Suc n) w'" using b(1) k by (auto simp: on_the_way_def add.commute)
    then show ?thesis using killed by simp
  qed (use d doc in \<open>auto simp: max_retries_def on_the_way_def split: executed.splits\<close>)
qed

lemma celery_step_possible:
  assumes "m = Waiting k"
  shows "\<exists>y. celery_step E keys ingest backoff t i p (m, w) y"
proof -
  obtain r w2 where x: "ingest_document E ingest backoff k i t p w = (r, w2)" by fastforce
  then show ?thesis unfolding assms by (cases r; cases "int k < max_retries E") (auto intro: celery_step.intros)
qed

lemma celery_run:
  assumes ok: "redis_ok (jx E) keys" "0 < retention E" "0 < dlq_max E" and fr: "leaves_jobs keys ingest t i p"
    and o: "on_the_way E keys t i p k n w"
  shows "(celery_step E keys ingest backoff t i p ^^ m) (Waiting k, w) (s, w') \<Longrightarrow>
    s = Acked \<and> at_rest keys t i w' \<and> int (n + m) \<le> max_attempts E + 1 \<or> (\<exists>k'. s = Waiting k' \<and> on_the_way E keys t i p k' (n + m) w')"
proof (induction m arbitrary: s w')
  case 0
  then show ?case using o by auto
next
  case (Suc m)
  obtain s1 w1 where r: "(celery_step E keys ingest backoff t i p ^^ m) (Waiting k, w) (s1, w1)"
      "celery_step E keys ingest backoff t i p (s1, w1) (s, w')"
    using Suc.prems by (auto simp: relcompp_apply)
  then obtain k' where k': "s1 = Waiting k'" "on_the_way E keys t i p k' (n + m) w1"
    using Suc.IH[OF r(1)] by auto
  show ?case using celery_step_advances[OF ok fr k'(2) r(2)[unfolded k'(1)]] k'(2) by (auto simp: on_the_way_def)
qed

section \<open>Properties\<close>

text \<open>C20: A job on Celery is settled, also when workers are killed while they run it: after at most one delivery more than
  the attempts it has, whatever the ingestion answers and however often its worker dies, the message is done
  with and the stored record is done or failed. Until then the message can always be delivered, and Celery's own
  limit of retries is never reached.\<close>

theorem celery_settles_every_job:
  assumes "redis_ok (jx E) keys" "0 < retention E" "0 < dlq_max E" and "leaves_jobs keys ingest t i p"
    and "awaits keys j 0 p (Some data) w" "j_tenant j = t" "job_id j = i" "0 < max_attempts E"
    and "(celery_step E keys ingest backoff t i p ^^ m) (Waiting 0, w) (s, w')"
  shows "int m \<le> max_attempts E + 1 \<and> s \<noteq> Given_Up \<and> (s = Acked \<longrightarrow> at_rest keys t i w')
    \<and> (s \<noteq> Acked \<longrightarrow> (\<exists>y. celery_step E keys ingest backoff t i p (s, w') y))"
proof -
  have "on_the_way E keys t i p 0 0 w" using assms(5-8) by (auto simp: on_the_way_def)
  from celery_run[OF assms(1-4) this assms(9)] show ?thesis
    using celery_step_possible by (fastforce simp: on_the_way_def)
qed

lemma celery_settles_every_job_witness:
  "\<exists>s w'. celery_step demo_env id (\<lambda>t u w. (Transient ''down'', w)) 1 ''acme'' ''j'' ''p'' (Waiting 0, demo_keys (Some ''hi'')) (s, w')
     \<and> s \<noteq> Given_Up"
proof -
  let ?R = "celery_step demo_env id (\<lambda>t u w. (Transient ''down'', w)) 1 ''acme'' ''j'' ''p''"
  obtain s w' where s: "?R (Waiting 0, demo_keys (Some ''hi'')) (s, w')"
    using celery_step_possible[OF refl, of demo_env id "\<lambda>t u w. (Transient ''down'', w)"] by (metis prod.collapse)
  then have "(?R ^^ 1) (Waiting 0, demo_keys (Some ''hi'')) (s, w')" by (simp add: eq_OO)
  from celery_settles_every_job[OF _ _ _ demo_leaves demo_awaits _ _ _ this] have "s \<noteq> Given_Up" by simp
  with s show ?thesis by blast
qed

end
