(* ===== verification/App_Start.thy ===== *)
theory App_Start
  imports Wiring Admin_Api Demo Observability Celery_Worker
begin

text \<open>
  The application around the endpoints: what \<open>create_app\<close> mounts and its lifespan do (\<open>app/main.py\<close>), the tracer and
  the job queue that the settings choose (\<open>app/core/container.py\<close>, \<open>app/core/config.py\<close>), the small endpoints
  of \<open>app/api/account.py\<close>, \<open>app/api/agents.py\<close> and \<open>app/api/health.py\<close>, and the job metrics a scrape reads.
\<close>

section \<open>Choices of the settings\<close>

record langfuse_settings =
  lf_enabled :: bool
  lf_public :: "string option"
  lf_secret :: "string option"

text \<open>A missing or empty key counts as none.\<close>

definition given :: "string option \<Rightarrow> bool" where "given x = (case x of None \<Rightarrow> False | Some s \<Rightarrow> s \<noteq> [])"

definition tracing_configured :: "langfuse_settings \<Rightarrow> bool" where
  "tracing_configured L \<longleftrightarrow> lf_enabled L \<and> given (lf_public L) \<and> given (lf_secret L)"

definition broker_url :: "string option \<Rightarrow> string \<Rightarrow> string" where
  "broker_url celery_broker redis_url = (if given celery_broker then the celery_broker else redis_url)"

text \<open>The SDK is imported and its client built only when tracing is configured; that may raise.\<close>

datatype 'l tracer = Noop_Tracer | Langfuse_Tracer "'l sdk"

definition build_tracer :: "langfuse_settings \<Rightarrow> 'l sdk option \<Rightarrow> 'l tracer" where
  "build_tracer L client =
     (if \<not> tracing_configured L then Noop_Tracer else case client of None \<Rightarrow> Noop_Tracer | Some x \<Rightarrow> Langfuse_Tracer x)"

text \<open>The queue's \<open>enqueue\<close>: a message to Celery, or a task in this process, which runs later.\<close>

definition build_job_queue ::
  "string \<Rightarrow> 'w sender \<Rightarrow> string \<Rightarrow> (job \<Rightarrow> string \<Rightarrow> 'w \<Rightarrow> 'w) \<Rightarrow> job \<Rightarrow> string \<Rightarrow> 'w \<Rightarrow> unit option \<times> 'w" where
  "build_job_queue mode send qname spawn =
     (if mode = ''celery'' then celery_enqueue send qname else (\<lambda>j p w. (Some (), spawn j p w)))"

section \<open>Small endpoints\<close>

definition purge_tenant_cache ::
  "('w cache_env \<times> 'w nearest \<times> semantic_cache) option \<Rightarrow> principal \<Rightarrow> 'w \<Rightarrow> (failure + string \<times> int) \<times> 'w" where
  "purge_tenant_cache cache p w =
     (case cache of
        None \<Rightarrow> (Inl (http_exception 409 ''semantic cache is disabled'' []), w)
      | Some (E, x) \<Rightarrow>
          (let (n, w1) = purge_tenant (cx E) (p_tenant_id p) w in (or_500 (map_option (Pair (p_tenant_id p)) n), w1)))"

record token_response =
  tk_access :: string
  tk_type :: string
  tk_expires :: int

definition token_endpoint :: "'w front \<Rightarrow> headers \<Rightarrow> 'w \<Rightarrow> (failure + token_response) \<times> 'w" where
  "token_endpoint F h w =
     (let (r, w1) = issue_token (fr_redis F) (fr_hash F) (fr_tokens F) (fr_wall F) h w in
      (case r of
         None \<Rightarrow> Inl Unhandled
       | Some (Inl e) \<Rightarrow> Inl (auth_failure e)
       | Some (Inr (tok, secs)) \<Rightarrow> Inr \<lparr>tk_access = tok, tk_type = ''bearer'', tk_expires = secs\<rparr>, w1))"

definition graph_endpoint :: "('s, 'e) graph \<Rightarrow> principal \<Rightarrow> 'w \<Rightarrow> (failure + graph_response) \<times> 'w" where
  "graph_endpoint G p w = (Inr (describe G), w)"

definition healthz :: "(string \<times> string) list" where "healthz = [(''status'', ''ok'')]"

section \<open>Job metrics\<close>

text \<open>The gauges a scrape sets, with their labels, in the order it sets them; some may be set before an exception.\<close>

type_synonym gauge = "string \<times> string \<times> real"

definition refresh_metrics :: "'w jobs_env \<Rightarrow> string \<Rightarrow> 'w \<Rightarrow> (gauge list \<times> bool) \<times> 'w" where
  "refresh_metrics E qname w =
     (let (q, w1) = queue_depth E qname w in
      case q of
        None \<Rightarrow> (([], False), w1)
      | Some n \<Rightarrow>
          (let (d, w2) = dlq_depth E w1; g1 = [(''nexusgate_rag_queue_depth'', qname, of_int n)] in
           case d of
             None \<Rightarrow> ((g1, False), w2)
           | Some m \<Rightarrow>
               (let (s, w3) = job_stats E w2; g2 = g1 @ [(''nexusgate_rag_dead_letter_depth'', [], of_int m)] in
                case s of
                  None \<Rightarrow> ((g2, False), w3)
                | Some st1 \<Rightarrow>
                    ((g2 @ [(''nexusgate_rag_job_processing_seconds_total'', [], case dict_get st1 ''duration_seconds'' of None \<Rightarrow> 0 | Some x \<Rightarrow> x)]
                        @ map (\<lambda>(k, v). (''nexusgate_rag_job_totals'', k, v)) (filter (\<lambda>(k, v). k \<noteq> ''duration_seconds'') st1), True), w3))))"

text \<open>The gauges as they are after the scrape, starting from the old ones; an exception is logged and the rest served.\<close>

definition prometheus_metrics :: "'w jobs_env \<Rightarrow> string \<Rightarrow> ((string \<times> string) \<times> real) list \<Rightarrow> 'w \<Rightarrow> ((string \<times> string) \<times> real) list \<times> 'w" where
  "prometheus_metrics E qname old w =
     (let ((gs, done), w1) = refresh_metrics E qname w in (fold (\<lambda>(n, l, x). dict_set (n, l) x) gs old, w1))"

section \<open>The application\<close>

record demo_settings =
  dm_mode :: bool
  dm_capacity :: int
  dm_refill :: real
  dm_files :: "(string \<times> string) list"

definition mounted :: "demo_settings \<Rightarrow> string list" where
  "mounted D = [''health'', ''chat'', ''rag'', ''agents'', ''account'', ''admin'', ''alerts''] @ (if dm_mode D then [''demo''] else [])"

datatype startup = Started | Failed_Start start_error | Failed_Demo

text \<open>The start of the lifespan: services handed in are used as they are. The services, and the key of the demo.\<close>

definition lifespan ::
  "settings \<Rightarrow> demo_settings \<Rightarrow> 'w parts \<Rightarrow> 'w services option \<Rightarrow> (string \<Rightarrow> string) \<Rightarrow> string \<Rightarrow> string \<Rightarrow> string \<Rightarrow> 'w
     \<Rightarrow> (startup \<times> 'w services option \<times> string option) \<times> 'w" where
  "lifespan S D P own hash_key rid rs now w =
     (let (r, w1) = (case own of Some v \<Rightarrow> (Inr v, w) | None \<Rightarrow> build_services S P w) in
      case r of
        Inl e \<Rightarrow> ((Failed_Start e, None, None), w1)
      | Inr v \<Rightarrow>
          if \<not> dm_mode D then ((Started, Some v, None), w1)
          else (let (k, w2) = prepare_demo (cs_redis (sv_chat v)) hash_key (sv_ingestion v) rid rs now (dm_capacity D) (dm_refill D) (dm_files D) w1 in
                ((if k = None then Failed_Demo else Started, Some v, k), w2)))"

text \<open>\<open>Services.aclose\<close>: what is closed, in order; the cache's Redis only when it is another one.\<close>

definition aclose :: "bool \<Rightarrow> string list" where
  "aclose own_cache_redis = [''tracer'', ''store'', ''redis''] @ (if own_cache_redis then [''cache_redis''] else [])"

section \<open>Facts\<close>

text \<open>A scrape is answered also when Redis is down; the gauges are then the old ones.\<close>

lemma a_scrape_survives_redis:
  assumes "fst (queue_depth E qname w) = None"
  shows "fst (prometheus_metrics E qname old w) = old"
  using assms by (simp add: prometheus_metrics_def refresh_metrics_def split_beta Let_def)

text \<open>A gateway whose demo has started has a key exactly in demo mode.\<close>

lemma a_started_app_has_its_key:
  assumes "lifespan S D P own hash_key rid rs now w = ((Started, v, k), w')"
  shows "v \<noteq> None \<and> (k \<noteq> None \<longleftrightarrow> dm_mode D)"
  using assms by (auto simp: lifespan_def Let_def split: prod.splits sum.splits if_splits)

lemma untraced_without_keys: "lf_public L = None \<or> lf_secret L = None \<or> \<not> lf_enabled L \<Longrightarrow> build_tracer L c = Noop_Tracer"
  by (auto simp: build_tracer_def tracing_configured_def given_def)

end
