(* ===== verification/Corpus.thy ===== *)
theory Corpus
  imports Text
begin

text \<open>
  The generated part of the evaluation corpus (\<open>eval/generate_corpus.py\<close>): tables of services, error
  codes, settings and alerts that crowd the hand-written documents without giving a labelled question a second
  answer. \<open>random.Random\<close> is a parameter: \<open>pick n r\<close> is the index that \<open>choice\<close> takes from a list
  of \<open>n\<close> and the next state. A file is its name and its bytes in UTF-8.
\<close>

section \<open>Vocabulary\<close>

definition TEAMS :: "string list" where
  "TEAMS =
    [''Platform'', ''Identity'', ''Revenue'', ''Knowledge'', ''Growth'', ''Compliance'', ''Mobile'',
     ''Data'']"

definition REGIONS :: "string list" where
  "REGIONS =
    [''eu-central'', ''eu-west'', ''us-east'', ''us-west'', ''ap-south'', ''ap-northeast'', ''sa-east'']"

definition NOUNS :: "string list" where
  "NOUNS =
    [''ledger'', ''invoice'', ''receipt'', ''webhook'', ''digest'', ''roster'', ''catalogue'',
     ''indexer'', ''scheduler'', ''sweeper'', ''reconciler'', ''projector'', ''collector'', ''forwarder'',
     ''validator'', ''enricher'', ''deduplicator'', ''partitioner'', ''compactor'', ''replayer'',
     ''notifier'', ''exporter'', ''importer'', ''auditor'', ''throttler'', ''gatekeeper'', ''planner'',
     ''packer'', ''router'', ''mailer'']"

definition QUALIFIERS :: "string list" where
  "QUALIFIERS =
    [''batch'', ''stream'', ''edge'', ''core'', ''bulk'', ''delta'', ''legacy'', ''internal'', ''public'',
     ''async'', ''priority'', ''regional'', ''shared'', ''tenant'', ''billing'', ''search'', ''media'',
     ''report'']"

definition ACTIONS :: "string list" where
  "ACTIONS =
    [''Retry after the interval in the response'', ''Fix the payload and send it again'',
     ''Use a key issued for this tenant'', ''Reduce the request size and retry'',
     ''Wait for the next billing period'', ''Contact the owning team with the request id'',
     ''Nothing; the gateway recovers on its own'', ''Check the job record and re-upload'']"

definition SYMPTOMS :: "string list" where
  "SYMPTOMS =
    [''the request was rejected by the upstream service'',
     ''the record was already processed by another worker'',
     ''the tenant has no active subscription for this feature'',
     ''the payload referenced an object that has been deleted'',
     ''the field is present but outside the allowed range'',
     ''the operation would exceed the tenant's storage quota'',
     ''the downstream queue refused the message'', ''the credential has expired and must be rotated'']"

section \<open>Text\<close>

text \<open>\<open>str.upper\<close> of the code points below 256 whose capital lies there too, \<open>str.isdigit\<close>, \<open>str.capitalize\<close>\<close>

definition capital_char :: "char \<Rightarrow> string" where
  "capital_char c =
     (let n = (of_char c :: nat) in
      if (97 \<le> n \<and> n \<le> 122) \<or> (224 \<le> n \<and> n \<le> 254 \<and> n \<noteq> 247) then [char_of (n - 32)] else if n = 223 then ''SS'' else [c])"

definition capitals :: "string \<Rightarrow> string" where "capitals s = concat (map capital_char s)"

definition isdigit_char :: "char \<Rightarrow> bool" where
  "isdigit_char c \<longleftrightarrow> is_digit c \<or> (of_char c :: nat) \<in> {178, 179, 185}"

definition capitalised :: "string \<Rightarrow> string" where
  "capitalised s = (case s of [] \<Rightarrow> [] | c # cs \<Rightarrow> capital_char c @ lower cs)"

text \<open>The dash of the headings, in UTF-8\<close>

definition DASH :: string where "DASH = [CHR 0xE2, CHR 0x80, CHR 0x94]"

text \<open>\<open>xs[:n]\<close>, where a negative \<open>n\<close> counts from the end\<close>

definition upto_index :: "int \<Rightarrow> 'a list \<Rightarrow> 'a list" where
  "upto_index n xs = take (if 0 \<le> n then nat n else length xs - nat (- n)) xs"

text \<open>\<open>s.replace(a, b)\<close> for single characters\<close>

definition replace_char :: "char \<Rightarrow> char \<Rightarrow> string \<Rightarrow> string" where
  "replace_char a b s = map (\<lambda>c. if c = a then b else c) s"

section \<open>Reserved identifiers\<close>

text \<open>A line of the labels, as far as it is read here\<close>

record label_line =
  ll_question :: string
  ll_evidence :: "string list"

definition reserved_token :: "string \<Rightarrow> bool" where
  "reserved_token tok \<longleftrightarrow> (\<exists>c \<in> set tok. isdigit_char c) \<or> CHR ''-'' \<in> set tok \<or> CHR ''_'' \<in> set tok"

definition label_tokens :: "string \<Rightarrow> string list" where
  "label_tokens text = map (strip_chars (CHR 0x60 # '',.?()'')) (split_words (replace_char CHR ''|'' CHR '' '' text))"

definition reserved_identifiers :: "label_line list \<Rightarrow> string list" where
  "reserved_identifiers qs =
     concat (map (\<lambda>q. concat (map (\<lambda>t. map capitals (filter reserved_token (label_tokens t))) (ll_question q # ll_evidence q))) qs)"

section \<open>Random choices\<close>

type_synonym 'r picker = "nat \<Rightarrow> 'r \<Rightarrow> nat \<times> 'r"

definition choice :: "'r picker \<Rightarrow> 'a list \<Rightarrow> 'r \<Rightarrow> 'a \<times> 'r" where
  "choice pick xs r = (let (i, r1) = pick (length xs) r in (xs ! i, r1))"

fun each_with :: "('a \<Rightarrow> 'r \<Rightarrow> 'b \<times> 'r) \<Rightarrow> 'a list \<Rightarrow> 'r \<Rightarrow> 'b list \<times> 'r" where
  "each_with f [] r = ([], r)"
| "each_with f (x # xs) r = (let (y, r1) = f x r; (ys, r2) = each_with f xs r1 in (y # ys, r2))"

section \<open>Service catalogues\<close>

record service_row =
  sv_name :: string
  sv_team :: string
  sv_tier :: nat
  sv_target :: string

definition tier_target :: "nat \<Rightarrow> string" where
  "tier_target tier = (if tier = 1 then ''99.95%'' else if tier = 2 then ''99.5%'' else ''99.0%'')"

definition draw_name :: "'r picker \<Rightarrow> 'r \<Rightarrow> string \<times> 'r" where
  "draw_name pick r = (let (q, r1) = choice pick QUALIFIERS r; (n, r2) = choice pick NOUNS r1 in (q @ ''-'' @ n, r2))"

definition draw_row :: "'r picker \<Rightarrow> string \<Rightarrow> 'r \<Rightarrow> service_row \<times> 'r" where
  "draw_row pick name r =
     (let (tier, r1) = choice pick [1, 2, 2, 3, 3] r; (team, r2) = choice pick TEAMS r1
      in (\<lparr>sv_name = name, sv_team = team, sv_tier = tier, sv_target = tier_target tier\<rparr>, r2))"

text \<open>The loop may not end: \<open>None\<close> is a run that goes on for ever.\<close>

partial_function (option) service_loop ::
  "'r picker \<Rightarrow> int \<Rightarrow> string list \<Rightarrow> service_row list \<Rightarrow> string list \<Rightarrow> 'r \<Rightarrow> (service_row list \<times> 'r) option" where
  "service_loop pick count reserved rows seen r =
     (if int (length rows) < count then
        (if fst (draw_name pick r) \<in> set seen \<or> capitals (fst (draw_name pick r)) \<in> set reserved
         then service_loop pick count reserved rows seen (snd (draw_name pick r))
         else service_loop pick count reserved (rows @ [fst (draw_row pick (fst (draw_name pick r)) (snd (draw_name pick r)))])
                (fst (draw_name pick r) # seen) (snd (draw_row pick (fst (draw_name pick r)) (snd (draw_name pick r)))))
      else Some (rows, r))"

definition service_rows :: "'r picker \<Rightarrow> int \<Rightarrow> string list \<Rightarrow> 'r \<Rightarrow> (service_row list \<times> 'r) option" where
  "service_rows pick count reserved r = service_loop pick count reserved [] [] r"

type_synonym doc_file = "string \<times> string"

definition text_file :: "string \<Rightarrow> string list \<Rightarrow> doc_file" where
  "text_file name ls = (name @ ''.md'', join [CHR 0x0A] ls)"

definition service_catalogue :: "nat \<Rightarrow> service_row list \<Rightarrow> doc_file" where
  "service_catalogue index rows =
     (let region = REGIONS ! (index mod length REGIONS) in
      text_file (''service-catalogue-'' @ region @ ''-'' @ decimal (index + 1))
        ([''# Service catalogue '' @ DASH @ '' '' @ region @ '' shard '' @ decimal (index + 1), [],
          ''Services deployed in this shard. Tier 1 pages at any hour, tier 2 during business'',
          ''hours, tier 3 becomes a ticket for the owning team.'', [],
          ''| Service | Owner | Tier | Availability target |'', ''|---|---|---|---|'']
         @ map (\<lambda>s. ''| '' @ sv_name s @ '' | '' @ sv_team s @ '' | '' @ decimal (sv_tier s) @ '' | '' @ sv_target s @ '' |'') rows
         @ [[], ''## Ownership'', [], ''A service in '' @ region @ '' without a named owning team cannot be deployed: the pipeline'',
            ''checks this catalogue and fails the build.'', []]))"

definition write_service_catalogues :: "service_row list \<Rightarrow> doc_file list" where
  "write_service_catalogues rows = map (\<lambda>(i, ch). service_catalogue i ch) (enumerate 0 (pieces 25 rows))"

section \<open>Error codes\<close>

definition padded :: "nat \<Rightarrow> string" where
  "padded n = replicate (3 - length (decimal n)) CHR ''0'' @ decimal n"

definition code_range :: "string list" where
  "code_range = concat (map (\<lambda>p. map (\<lambda>n. ''NG-'' @ decimal p @ padded n) [1..<200]) [3, 4, 5, 6, 7])"

definition free_codes :: "int \<Rightarrow> string list \<Rightarrow> string list" where
  "free_codes count reserved = upto_index count (filter (\<lambda>c. capitals c \<notin> set reserved) code_range)"

definition code_line :: "'r picker \<Rightarrow> string \<Rightarrow> 'r \<Rightarrow> string \<times> 'r" where
  "code_line pick code r =
     (let (s, r1) = choice pick SYMPTOMS r; (a, r2) = choice pick ACTIONS r1
      in (''| '' @ code @ '' | '' @ capitalised s @ '' | '' @ a @ '' |'', r2))"

definition code_table :: "'r picker \<Rightarrow> string list \<Rightarrow> 'r \<Rightarrow> doc_file \<times> 'r" where
  "code_table pick ch r =
     (let (ls, r1) = each_with (code_line pick) ch r in
      (text_file (''error-codes-'' @ lower (hd ch))
         ([''# API error codes '' @ hd ch @ '' to '' @ last ch, [],
           ''Stable codes returned in '' @ [CHR 0x60] @ ''error.code'' @ [CHR 0x60] @ ''. Branch on the code, never on the message.'', [],
           ''| Code | Meaning | What the caller should do |'', ''|---|---|---|''] @ ls @ [[]]), r1))"

definition write_error_codes :: "'r picker \<Rightarrow> int \<Rightarrow> string list \<Rightarrow> 'r \<Rightarrow> doc_file list \<times> 'r" where
  "write_error_codes pick count reserved r = each_with (code_table pick) (pieces 40 (free_codes count reserved)) r"

section \<open>Settings\<close>

definition PREFIXES :: "string list" where
  "PREFIXES = [''WORKER'', ''INDEXER'', ''EXPORTER'', ''MAILER'', ''SCHEDULER'', ''COLLECTOR'', ''GATEWAY'']"

definition SUFFIXES :: "string list" where
  "SUFFIXES =
     [''MAX_CONCURRENCY'', ''MAX_QUEUE'', ''BATCH_SIZE'', ''TIMEOUT_SECONDS'', ''RETRY_LIMIT'', ''BACKOFF_SECONDS'', ''POOL_SIZE'',
      ''BUFFER_BYTES'', ''FLUSH_INTERVAL_SECONDS'', ''SHARD_COUNT'', ''TTL_SECONDS'', ''MAX_ATTEMPTS'', ''WINDOW_SECONDS'',
      ''THRESHOLD_PERCENT'']"

definition free_settings :: "int \<Rightarrow> string list \<Rightarrow> string list" where
  "free_settings count reserved =
     upto_index count (filter (\<lambda>n. n \<notin> set reserved) (concat (map (\<lambda>p. map (\<lambda>s. p @ ''_'' @ s) SUFFIXES) PREFIXES)))"

definition setting_line :: "'r picker \<Rightarrow> string \<Rightarrow> 'r \<Rightarrow> string \<times> 'r" where
  "setting_line pick name r =
     (let (dflt, r1) = choice pick [1 :: nat, 2, 4, 8, 16, 30, 32, 60, 64, 128, 300, 500, 1000, 3600] r;
          (effect, r2) = choice pick [''Bounds'', ''Caps'', ''Limits'', ''Sets''] r1
      in (''| '' @ name @ '' | '' @ decimal dflt @ '' | '' @ effect @ '' ''
            @ replace_char CHR ''_'' CHR '' '' (lower (tl (dropWhile (\<lambda>c. c \<noteq> CHR ''_'') name))) @ '' for this component |'', r2))"

definition setting_table :: "'r picker \<Rightarrow> nat \<times> string list \<Rightarrow> 'r \<Rightarrow> doc_file \<times> 'r" where
  "setting_table pick part r =
     (let (i, ch) = part; (ls, r1) = each_with (setting_line pick) ch r in
      (text_file (''config-'' @ lower (hd ch))
         ([''# Configuration reference '' @ DASH @ '' '' @ lower (takeWhile (\<lambda>c. c \<noteq> CHR ''_'') (hd ch)) @ '' components, part '' @ decimal (i + 1), [],
           ''Read from the environment. Defaults are what the production cluster runs.'', [],
           ''| Setting | Default | Effect |'', ''|---|---|---|''] @ ls @ [[]]), r1))"

definition write_config_references :: "'r picker \<Rightarrow> int \<Rightarrow> string list \<Rightarrow> 'r \<Rightarrow> doc_file list \<times> 'r" where
  "write_config_references pick count reserved r = each_with (setting_table pick) (enumerate 0 (pieces 30 (free_settings count reserved))) r"

section \<open>Alerts\<close>

definition SUBJECTS :: "string list" where
  "SUBJECTS = [''Queue'', ''Cache'', ''Index'', ''Export'', ''Mail'', ''Shard'', ''Replica'', ''Snapshot'']"

definition CONDITIONS :: "string list" where
  "CONDITIONS = [''Lag'', ''Depth'', ''Errors'', ''Latency'', ''Restarts'', ''Staleness'', ''Rejections'']"

definition alert_names :: "int \<Rightarrow> string list" where
  "alert_names count = upto_index count (concat (map (\<lambda>s. map (\<lambda>c. s @ c @ ''High'') CONDITIONS) SUBJECTS))"

definition free_runbooks :: "string list \<Rightarrow> string list" where
  "free_runbooks reserved = filter (\<lambda>b. b \<notin> set reserved) (map (\<lambda>n. ''RB-'' @ decimal n) [200..<900])"

definition alert_line :: "'r picker \<Rightarrow> string \<times> string \<Rightarrow> 'r \<Rightarrow> string \<times> 'r" where
  "alert_line pick ab r =
     (let (pct, r1) = choice pick [10 :: nat, 20, 25, 50, 100] r; (mins, r2) = choice pick [2 :: nat, 5, 10, 15, 30] r1;
          (sev, r3) = choice pick [''warning'', ''critical''] r2
      in (''| '' @ fst ab @ '' | the measured value exceeds its budget by '' @ decimal pct @ ''% | '' @ decimal mins @ '' minutes | '' @ sev
            @ '' | '' @ snd ab @ '' |'', r3))"

definition alert_table :: "'r picker \<Rightarrow> nat \<times> (string \<times> string) list \<Rightarrow> 'r \<Rightarrow> doc_file \<times> 'r" where
  "alert_table pick part r =
     (let (i, ch) = part; (ls, r1) = each_with (alert_line pick) ch r in
      (text_file (''alerts-'' @ decimal (i + 1))
         ([''# Alert catalogue, part '' @ decimal (i + 1), [], ''Each alert names a runbook; an alert without one may not page anyone.'', [],
           ''| Alert | Fires when | For | Severity | Runbook |'', ''|---|---|---|---|---|''] @ ls @ [[]]), r1))"

text \<open>\<open>runbooks[start + i]\<close> is the runbook at the alert's own place; with too few the code raises.\<close>

definition write_alert_catalogues :: "'r picker \<Rightarrow> int \<Rightarrow> string list \<Rightarrow> 'r \<Rightarrow> (doc_file list \<times> 'r) option" where
  "write_alert_catalogues pick count reserved r =
     (let names = alert_names count; books = free_runbooks reserved in
      if length books < length names then None
      else Some (each_with (alert_table pick) (enumerate 0 (pieces 20 (zip names books))) r))"

section \<open>The whole corpus\<close>

record generated =
  ge_dir :: "doc_file list"
  ge_documents :: nat
  ge_words :: nat
  ge_written :: "nat list"  \<comment> \<open>hand-written, catalogues, codes, settings, alerts\<close>

definition is_markdown :: "doc_file \<Rightarrow> bool" where
  "is_markdown f \<longleftrightarrow> drop (length (fst f) - 3) (fst f) = ''.md''"

definition put_files :: "doc_file list \<Rightarrow> doc_file list \<Rightarrow> doc_file list" where
  "put_files fs dir = fold (\<lambda>(n, d). dict_set n d) fs dir"

text \<open>How ended: with the corpus, or with an exception; \<open>None\<close> never ends.\<close>

definition generate ::
  "(string \<Rightarrow> nat) \<Rightarrow> 'r picker \<Rightarrow> doc_file list \<Rightarrow> label_line list \<Rightarrow> doc_file list \<Rightarrow> int \<Rightarrow> int \<Rightarrow> int \<Rightarrow> int \<Rightarrow> 'r \<Rightarrow> generated option option" where
  "generate words_in pick corpus labels out services codes settings alerts r =
     (let hand = filter is_markdown corpus; dir0 = put_files hand (filter (\<lambda>f. \<not> is_markdown f) out); reserved = reserved_identifiers labels in
      case service_rows pick services reserved r of
        None \<Rightarrow> None
      | Some (rows, r1) \<Rightarrow>
          (let sc = write_service_catalogues rows; (ec, r2) = write_error_codes pick codes reserved r1;
               (cr, r3) = write_config_references pick settings reserved r2
           in case write_alert_catalogues pick alerts reserved r3 of
                None \<Rightarrow> Some None
              | Some (ac, r4) \<Rightarrow>
                  (let dir = put_files (sc @ ec @ cr @ ac) dir0; docs = filter is_markdown dir
                   in Some (Some \<lparr>ge_dir = dir, ge_documents = length docs, ge_words = sum_list (map (words_in \<circ> snd) docs),
                                  ge_written = map length [hand, sc, ec, cr, ac]\<rparr>))))"

section \<open>Facts\<close>

definition in_range :: "'r picker \<Rightarrow> bool" where
  "in_range pick \<longleftrightarrow> (\<forall>n r. 0 < n \<longrightarrow> fst (pick n r) < n)"

definition service_names :: "string list" where
  "service_names = concat (map (\<lambda>q. map (\<lambda>n. q @ ''-'' @ n) NOUNS) QUALIFIERS)"

lemma choice_in: "in_range pick \<Longrightarrow> xs \<noteq> [] \<Longrightarrow> fst (choice pick xs r) \<in> set xs"
  by (simp add: in_range_def choice_def split_beta)

lemma draw_name_in: "in_range pick \<Longrightarrow> fst (draw_name pick r) \<in> set service_names"
proof -
  assume p: "in_range pick"
  have "QUALIFIERS \<noteq> []" "NOUNS \<noteq> []" by (simp_all add: QUALIFIERS_def NOUNS_def)
  then show ?thesis
    using choice_in[OF p, of QUALIFIERS r] choice_in[OF p, of NOUNS "snd (choice pick QUALIFIERS r)"]
    by (auto simp: draw_name_def split_beta service_names_def)
qed

lemma draw_row_name [simp]: "sv_name (fst (draw_row pick n r)) = n"
  by (simp add: draw_row_def split_beta)

text \<open>What holds of the rows drawn so far\<close>

definition fresh_rows :: "string list \<Rightarrow> service_row list \<Rightarrow> bool" where
  "fresh_rows reserved rows \<longleftrightarrow>
     distinct (map sv_name rows) \<and> (\<forall>s \<in> set rows. sv_name s \<in> set service_names \<and> capitals (sv_name s) \<notin> set reserved)"

lemma fresh_rows_step:
  assumes "fresh_rows reserved rows" "set seen = sv_name ` set rows" "in_range pick"
    and "fst (draw_name pick r) \<notin> set seen" "capitals (fst (draw_name pick r)) \<notin> set reserved"
  shows "fresh_rows reserved (rows @ [fst (draw_row pick (fst (draw_name pick r)) r1)])"
  using assms draw_name_in[OF assms(3), of r] by (auto simp: fresh_rows_def)

lemma service_loop_rows:
  assumes "service_loop pick count reserved rows seen r = Some y"
  shows "in_range pick \<longrightarrow> fresh_rows reserved rows \<longrightarrow> set seen = sv_name ` set rows \<longrightarrow> int (length rows) \<le> max 0 count
    \<longrightarrow> fresh_rows reserved (fst y) \<and> int (length (fst y)) = max 0 count"
proof (rule service_loop.raw_induct [OF _ assms])
  fix loop and pick :: "'a picker" and count reserved rows seen r and y :: "service_row list \<times> 'a"
  let ?n = "fst (draw_name pick r)" and ?r = "snd (draw_name pick r)"
  assume IH: "\<And>pick count reserved rows seen r y. loop pick count reserved rows seen r = Some y \<Longrightarrow>
      in_range pick \<longrightarrow> fresh_rows reserved rows \<longrightarrow> set seen = sv_name ` set rows \<longrightarrow> int (length rows) \<le> max 0 count
      \<longrightarrow> fresh_rows reserved (fst y) \<and> int (length (fst y)) = max 0 count"
    and body: "(if int (length rows) < count then if ?n \<in> set seen \<or> capitals ?n \<in> set reserved then loop pick count reserved rows seen ?r
          else loop pick count reserved (rows @ [fst (draw_row pick ?n ?r)]) (?n # seen) (snd (draw_row pick ?n ?r)) else Some (rows, r)) = Some y"
  show "in_range pick \<longrightarrow> fresh_rows reserved rows \<longrightarrow> set seen = sv_name ` set rows \<longrightarrow> int (length rows) \<le> max 0 count
      \<longrightarrow> fresh_rows reserved (fst y) \<and> int (length (fst y)) = max 0 count"
  proof (intro impI)
    assume p: "in_range pick" "fresh_rows reserved rows" "set seen = sv_name ` set rows" "int (length rows) \<le> max 0 count"
    show "fresh_rows reserved (fst y) \<and> int (length (fst y)) = max 0 count"
    proof (cases "int (length rows) < count \<and> \<not> (?n \<in> set seen \<or> capitals ?n \<in> set reserved)")
      case True
      let ?rows = "rows @ [fst (draw_row pick ?n ?r)]"
      have f: "fresh_rows reserved ?rows" using True fresh_rows_step[OF p(2,3,1)] by blast
      have e: "set (?n # seen) = sv_name ` set ?rows" using p(3) by auto
      have l: "int (length ?rows) \<le> max 0 count" using True by auto
      have "loop pick count reserved ?rows (?n # seen) (snd (draw_row pick ?n ?r)) = Some y" using body True by simp
      from IH [OF this, rule_format, OF p(1) f e l] show ?thesis .
    next
      case False
      then show ?thesis using IH p body by (auto split: if_splits)
    qed
  qed
qed

lemma fresh_rows_bound: "fresh_rows reserved rows \<Longrightarrow> length rows \<le> 540"
proof -
  assume f: "fresh_rows reserved rows"
  then have "card (sv_name ` set rows) \<le> card (set service_names)"
    by (intro card_mono) (auto simp: fresh_rows_def)
  also have "\<dots> \<le> length service_names" by (rule card_length)
  also have "length service_names = 540" by (simp add: service_names_def length_concat QUALIFIERS_def NOUNS_def)
  finally show ?thesis using f by (metis fresh_rows_def distinct_card length_map set_map)
qed

lemma length_each_with [simp]: "length (fst (each_with f xs r)) = length xs"
  by (induction xs arbitrary: r) (simp_all add: split_beta)

lemma length_pieces: "0 < k \<Longrightarrow> length (pieces k xs) = (length xs + k - 1) div k"
proof (induction k xs rule: pieces.induct)
  case (1 k xs)
  show ?case
  proof (cases "xs = []")
    case False
    have "length xs + k - 1 = (length xs - 1) + k" using False by (cases xs) simp_all
    then have "(length xs + k - 1) div k = ((length xs - 1) + k) div k" by (rule arg_cong)
    moreover have "((length xs - 1) + k) div k = Suc ((length xs - 1) div k)" using 1(2) by simp
    moreover have "(length xs - k + k - 1) div k = (length xs - 1) div k"
    proof (cases "k \<le> length xs")
      case False
      then have "length xs - k = 0" "length xs - 1 < k" using 1(2) by simp_all
      then show ?thesis using 1(2) by simp
    qed simp
    moreover have "length (pieces k xs) = Suc ((length xs - k + k - 1) div k)" using 1 False by (subst pieces.simps) simp
    ultimately show ?thesis by presburger
  qed (use 1 in simp)
qed

lemma length_dict_set: "length (dict_set k v d) \<le> Suc (length d)"
  by (induction d) auto

lemma length_put_files: "length (filter is_markdown (put_files fs dir)) \<le> length (filter is_markdown dir) + length fs"
proof (induction fs arbitrary: dir)
  case (Cons f fs)
  have "length (filter is_markdown (dict_set n d dir)) \<le> Suc (length (filter is_markdown dir))" for n d
    by (induction dir) (auto simp: is_markdown_def)
  from this[of "fst f" "snd f"] show ?case using Cons.IH[of "dict_set (fst f) (snd f) dir"] by (simp add: put_files_def split_beta)
qed (simp add: put_files_def)

lemma length_upto_index: "length (upto_index n xs) \<le> length xs" "0 \<le> n \<Longrightarrow> length (upto_index n xs) \<le> nat n"
  by (simp_all add: upto_index_def)

lemma set_upto_index: "x \<in> set (upto_index n xs) \<Longrightarrow> x \<in> set xs"
  unfolding upto_index_def by (rule in_set_takeD)

lemma pieces_bound:
  assumes "0 < k" "length xs \<le> k * n"
  shows "length (pieces k xs) \<le> n"
proof -
  have "length xs + k - 1 < Suc n * k" using assms by (simp add: mult.commute)
  from less_mult_imp_div_less [OF this] show ?thesis using assms(1) by (simp add: length_pieces)
qed

lemma code_range_length: "length code_range = 995" by (simp add: code_range_def length_concat)

lemma free_codes_bound: "length (free_codes n reserved) \<le> 995"
  unfolding free_codes_def code_range_length [symmetric] by (rule le_trans [OF length_upto_index(1) length_filter_le])

lemma free_settings_bound: "length (free_settings n reserved) \<le> 98"
  unfolding free_settings_def
  by (rule le_trans [OF length_upto_index(1)], rule le_trans [OF length_filter_le]) (simp add: length_concat SUFFIXES_def PREFIXES_def)

lemma alert_names_bound: "length (alert_names n) \<le> 56"
  unfolding alert_names_def
  by (rule le_trans [OF length_upto_index(1)]) (simp add: length_concat SUBJECTS_def CONDITIONS_def)

text \<open>A source of choices is fair when every name comes up again and again.\<close>

definition after_draws :: "'r picker \<Rightarrow> nat \<Rightarrow> 'r \<Rightarrow> 'r" where
  "after_draws pick k r = ((\<lambda>r. snd (draw_name pick r)) ^^ k) r"

definition fair :: "'r picker \<Rightarrow> bool" where
  "fair pick \<longleftrightarrow> (\<forall>r. \<forall>n \<in> set service_names. \<exists>k. fst (draw_name pick (after_draws pick k r)) = n)"

definition free_names :: "string list \<Rightarrow> string set" where
  "free_names reserved = {n \<in> set service_names. capitals n \<notin> set reserved}"

lemma service_loop_draws:
  assumes "int (length rows) < count" and "fst (draw_name pick (after_draws pick k r)) = n" and "n \<notin> set seen" "capitals n \<notin> set reserved"
  shows "\<exists>m r1 r2. m \<notin> set seen \<and> capitals m \<notin> set reserved \<and> m \<in> range (\<lambda>r. fst (draw_name pick r))
    \<and> service_loop pick count reserved rows seen r = service_loop pick count reserved (rows @ [fst (draw_row pick m r1)]) (m # seen) r2"
  using assms(2)
proof (induction k arbitrary: r)
  case (Suc k)
  show ?case
  proof (cases "fst (draw_name pick r) \<in> set seen \<or> capitals (fst (draw_name pick r)) \<in> set reserved")
    case True
    then have "service_loop pick count reserved rows seen r = service_loop pick count reserved rows seen (snd (draw_name pick r))"
      using assms(1) by (subst service_loop.simps) simp
    moreover have "fst (draw_name pick (after_draws pick k (snd (draw_name pick r)))) = n"
      using Suc.prems by (simp add: after_draws_def funpow_Suc_right del: funpow.simps(2))
    ultimately show ?thesis using Suc.IH by metis
  next
    case False
    then show ?thesis using assms(1) by (subst service_loop.simps) auto
  qed
qed (use assms in \<open>subst service_loop.simps, auto simp: after_draws_def\<close>)

lemma service_loop_ends:
  assumes "in_range pick" and "fair pick" and "count \<le> int (card (free_names reserved))"
  shows "fresh_rows reserved rows \<Longrightarrow> set seen = sv_name ` set rows \<Longrightarrow> service_loop pick count reserved rows seen r \<noteq> None"
proof (induction "nat (count - int (length rows))" arbitrary: rows seen r)
  case 0
  then show ?case by (subst service_loop.simps) simp
next
  case (Suc d)
  have "card (set seen) = length rows" using Suc.prems by (metis fresh_rows_def distinct_card length_map set_map)
  moreover have "int (length rows) < count" using Suc.hyps(2) by linarith
  ultimately have "card (set seen) < card (free_names reserved)" using assms(3) by linarith
  then obtain n where n: "n \<in> free_names reserved" "n \<notin> set seen"
    by (metis card_mono finite_set linorder_not_less subsetI)
  then obtain k where "fst (draw_name pick (after_draws pick k r)) = n"
    using assms(2) by (auto simp: fair_def free_names_def)
  then obtain m r1 r2 where m: "m \<notin> set seen" "capitals m \<notin> set reserved" "m \<in> range (\<lambda>r. fst (draw_name pick r))"
      "service_loop pick count reserved rows seen r = service_loop pick count reserved (rows @ [fst (draw_row pick m r1)]) (m # seen) r2"
    using service_loop_draws[OF \<open>int (length rows) < count\<close>, of pick k r n seen reserved] n by (auto simp: free_names_def)
  have "m \<in> set service_names" using m(3) draw_name_in[OF assms(1)] by auto
  then have "fresh_rows reserved (rows @ [fst (draw_row pick m r1)])" using Suc.prems m(1,2) by (auto simp: fresh_rows_def)
  moreover have "d = nat (count - int (length (rows @ [fst (draw_row pick m r1)])))" using Suc.hyps(2) by simp
  ultimately show ?case using Suc.hyps(1)[of "rows @ [fst (draw_row pick m r1)]" "m # seen" r2] Suc.prems(2) m(4) by auto
qed

lemma fresh_rows_card:
  assumes "fresh_rows reserved rows"
  shows "length rows \<le> card (free_names reserved)"
proof -
  have "card (sv_name ` set rows) \<le> card (free_names reserved)"
    using assms by (intro card_mono) (auto simp: fresh_rows_def free_names_def)
  then show ?thesis using assms by (metis fresh_rows_def distinct_card length_map set_map)
qed

text \<open>A wheel that turns through all pairs of words is a fair source.\<close>

definition wheel :: "nat picker" where
  "wheel n r = (if n = 30 then (r mod 30, r + 1) else if n = 18 then (r div 30 mod 18, r) else (0, r))"

lemma wheel_in_range: "in_range wheel" by (simp add: in_range_def wheel_def)

lemma wheel_draw: "draw_name wheel r = (QUALIFIERS ! (r div 30 mod 18) @ ''-'' @ NOUNS ! (r mod 30), r + 1)"
proof -
  have "length QUALIFIERS = 18" "length NOUNS = 30" by (simp_all add: QUALIFIERS_def NOUNS_def)
  then show ?thesis by (simp add: draw_name_def choice_def wheel_def)
qed

lemma wheel_after: "after_draws wheel k r = r + k"
  by (induction k arbitrary: r) (simp_all add: after_draws_def wheel_draw)

lemma wheel_fair: "fair wheel"
  unfolding fair_def
proof (intro allI ballI)
  fix r n assume "n \<in> set service_names"
  then obtain q m where "q \<in> set QUALIFIERS" "m \<in> set NOUNS" "n = q @ ''-'' @ m" by (auto simp: service_names_def)
  moreover have "length QUALIFIERS = 18" "length NOUNS = 30" by (simp_all add: QUALIFIERS_def NOUNS_def)
  ultimately obtain i j where ij: "i < 18" "j < 30" "n = QUALIFIERS ! i @ ''-'' @ NOUNS ! j" by (metis in_set_conv_nth)
  have dm: "(30 * x + j) div 30 = x" "(30 * x + j) mod 30 = j" for x :: nat using ij(2) by simp_all
  have "r + (30 * i + j + 539 * r) = 30 * (18 * r + i) + j" by simp
  then have "(r + (30 * i + j + 539 * r)) div 30 = 18 * r + i" "(r + (30 * i + j + 539 * r)) mod 30 = j"
    using dm by (simp_all only:)
  then have "fst (draw_name wheel (after_draws wheel (30 * i + j + 539 * r) r)) = n" using ij(1,3) by (simp only: wheel_after wheel_draw) simp
  then show "\<exists>k. fst (draw_name wheel (after_draws wheel k r)) = n" ..
qed

section \<open>Properties\<close>

text \<open>C38: The catalogue gets exactly the services asked for, under names that are all different and none of which a
  labelled question uses; and drawing them ends exactly when there are that many such names: with fewer it
  goes on for ever.\<close>

theorem the_catalogue_ends_when_names_suffice:
  assumes "in_range pick" and "fair pick"
  shows "case service_rows pick count reserved r of
      None \<Rightarrow> int (card (free_names reserved)) < count
    | Some (rows, r1) \<Rightarrow> int (length rows) = max 0 count \<and> distinct (map sv_name rows) \<and> sv_name ` set rows \<subseteq> free_names reserved
        \<and> (0 \<le> count \<longrightarrow> count \<le> int (card (free_names reserved)))"
proof (cases "service_rows pick count reserved r")
  case None
  then show ?thesis
    using service_loop_ends[OF assms, of count reserved "[]" "[]" r] by (fastforce simp: service_rows_def fresh_rows_def)
next
  case (Some y)
  have "fresh_rows reserved (fst y) \<and> int (length (fst y)) = max 0 count"
    using service_loop_rows[OF Some[unfolded service_rows_def]] assms(1) by (simp add: fresh_rows_def)
  then show ?thesis using Some fresh_rows_card[of reserved "fst y"]
    by (cases y) (auto simp: fresh_rows_def free_names_def)
qed

lemma the_catalogue_ends_when_names_suffice_witness:
  "\<exists>rows r1. service_rows wheel 1 [] 0 = Some (rows, r1) \<and> length rows = 1"
proof -
  have "''batch'' \<in> set QUALIFIERS" "''ledger'' \<in> set NOUNS" by (simp_all add: QUALIFIERS_def NOUNS_def)
  then have "''batch'' @ ''-'' @ ''ledger'' \<in> free_names []" by (auto simp: free_names_def service_names_def simp del: append.simps)
  moreover have "finite (free_names [])" by (simp add: free_names_def)
  ultimately have "card (free_names []) \<noteq> 0" by auto
  then show ?thesis
    using the_catalogue_ends_when_names_suffice[OF wheel_in_range wheel_fair, where count = 1 and reserved = "[]" and r = 0] by (auto split: option.splits)
qed

text \<open>However many services, codes, settings and alerts are asked for, a corpus that gets written has at most 54
  documents more than the hand-written ones, and with the counts of the command line's defaults at most 38.\<close>

theorem the_filler_is_thin:
  assumes "in_range pick" and "generate words_in pick corpus labels out services codes settings alerts r = Some (Some g)"
  shows "ge_documents g \<le> length (filter is_markdown corpus) + 54
    \<and> (services = 400 \<and> codes = 600 \<longrightarrow> ge_documents g \<le> length (filter is_markdown corpus) + 38)"
proof -
  let ?hand = "filter is_markdown corpus" and ?res = "reserved_identifiers labels"
  obtain rows r1 where rows: "service_rows pick services ?res r = Some (rows, r1)"
    using assms(2) by (auto simp: generate_def Let_def split: option.splits)
  define sc where "sc = write_service_catalogues rows"
  obtain ec r2 where ec: "write_error_codes pick codes ?res r1 = (ec, r2)" by fastforce
  obtain cr r3 where cr: "write_config_references pick settings ?res r2 = (cr, r3)" by fastforce
  obtain ac r4 where ac: "write_alert_catalogues pick alerts ?res r3 = Some (ac, r4)"
    using assms(2) rows ec cr by (auto simp: generate_def Let_def split: option.splits)
  define dir0 where "dir0 = put_files ?hand (filter (\<lambda>f. \<not> is_markdown f) out)"
  have g: "ge_documents g = length (filter is_markdown (put_files (sc @ ec @ cr @ ac) dir0))"
    using assms(2) rows ec cr ac by (simp add: generate_def Let_def sc_def dir0_def) (metis generated.select_convs(2))
  have "length (filter is_markdown dir0) \<le> length ?hand"
    using length_put_files[of ?hand "filter (\<lambda>f. \<not> is_markdown f) out"] by (simp add: dir0_def filter_empty_conv)
  then have d: "ge_documents g \<le> length ?hand + (length sc + length ec + length cr + length ac)"
    using length_put_files[of "sc @ ec @ cr @ ac" dir0] by (simp add: g)
  have fr: "fresh_rows ?res rows" "int (length rows) = max 0 services"
    using service_loop_rows[OF rows[unfolded service_rows_def]] assms(1) by (simp_all add: fresh_rows_def)
  have s: "length sc \<le> 22" "services = 400 \<Longrightarrow> length sc \<le> 16"
    using pieces_bound[of 25 rows 22] pieces_bound[of 25 rows 16] fresh_rows_bound[OF fr(1)] fr(2)
    by (simp_all add: sc_def write_service_catalogues_def)
  have e: "length ec = length (pieces 40 (free_codes codes ?res))" using arg_cong[OF ec, of "\<lambda>x. length (fst x)"] by (simp add: write_error_codes_def)
  have "length (free_codes codes ?res) \<le> 600" if "codes = 600"
    using length_upto_index(2)[of codes] that by (simp add: free_codes_def)
  then have e1: "length ec \<le> 25" "codes = 600 \<Longrightarrow> length ec \<le> 15"
    using pieces_bound[of 40 "free_codes codes ?res" 25] pieces_bound[of 40 "free_codes codes ?res" 15] free_codes_bound[of codes ?res] by (simp_all add: e)
  have c: "length cr \<le> 4" using arg_cong[OF cr, of "\<lambda>x. length (fst x)"] pieces_bound[of 30 "free_settings settings ?res" 4] free_settings_bound[of settings ?res]
    by (simp add: write_config_references_def)
  have "ac = fst (each_with (alert_table pick) (enumerate 0 (pieces 20 (zip (alert_names alerts) (free_runbooks ?res)))) r3)"
    using ac by (auto simp: write_alert_catalogues_def Let_def split: if_splits)
  then have a: "length ac \<le> 3"
    using pieces_bound[of 20 "zip (alert_names alerts) (free_runbooks ?res)" 3] alert_names_bound[of alerts] by simp
  show ?thesis using d s e1 c a by auto
qed

lemma the_filler_is_thin_witness:
  "\<exists>g. generate length wheel [(''a.md'', ''x'')] [] [(''old.md'', ''y'')] 1 1 1 1 0 = Some (Some g) \<and> ge_documents g \<le> 55"
proof -
  have "service_rows wheel 1 [] 0 \<noteq> None"
    unfolding service_rows_def by (subst service_loop.simps, subst service_loop.simps) (simp add: wheel_draw)
  moreover have "length (alert_names 1) = 1" by (simp add: alert_names_def upto_index_def SUBJECTS_def CONDITIONS_def)
  moreover have "length (free_runbooks []) = 700" unfolding free_runbooks_def by (simp del: upt_rec_numeral)
  moreover have "reserved_identifiers [] = []" by (simp add: reserved_identifiers_def)
  ultimately obtain g where g: "generate length wheel [(''a.md'', ''x'')] [] [(''old.md'', ''y'')] 1 1 1 1 0 = Some (Some g)"
    by (auto simp: generate_def Let_def write_alert_catalogues_def split_beta)
  from the_filler_is_thin[OF wheel_in_range g] g show ?thesis by (simp add: is_markdown_def)
qed

end
