(* ===== verification/Retrieval_Eval.thy ===== *)
theory Retrieval_Eval
  imports Retrieval Ingestion "HOL-Library.Sublist"
begin

text \<open>
  The retrieval evaluation (\<open>eval/retrieval_eval.py\<close>): a labelled question set is run through the ingestion
  and the retriever that the service itself uses, every question is scored against its evidence spans, and
  the best configuration is chosen. Reading the files and writing the report are not modelled.
\<close>

section \<open>Questions and configurations\<close>

record question =
  qu_id :: string
  qu_doc :: string
  qu_text :: string
  qu_evidence :: "string list"
  qu_answer :: string
  qu_kind :: string

record eval_config =
  ec_chunker :: string
  ec_max_words :: int
  ec_overlap :: int
  ec_embedder :: string
  ec_reranker :: "string option"
  ec_candidates :: int
  ec_hybrid :: bool
  ec_fusion :: string
  ec_rerank_words :: int

definition config_name :: "eval_config \<Rightarrow> string" where
  "config_name c =
     (let capped = (if ec_rerank_words c \<noteq> 0 then '' capped at '' @ show_int (ec_rerank_words c) @ ''w'' else []);
          rerank = (case ec_reranker c of
              None \<Rightarrow> []
            | Some r \<Rightarrow> if r = [] then [] else '' + '' @ r @ '' rerank of top '' @ show_int (ec_candidates c) @ capped);
          chunking = ec_chunker c @ ''-'' @ show_int (ec_max_words c) @ ''/'' @ show_int (ec_overlap c);
          fused = (if ec_hybrid c then '' + bm25 '' @ ec_fusion c else [])
      in ec_embedder c @ '' + '' @ chunking @ fused @ rerank)"

section \<open>Scoring\<close>

text \<open>\<open>re.sub(r"[\s|]+", " ", text.lower()).strip()\<close>\<close>

definition is_gap :: "char \<Rightarrow> bool" where "is_gap c \<longleftrightarrow> is_space c \<or> c = CHR ''|''"

fun squeeze :: "bool \<Rightarrow> string \<Rightarrow> string" where
  "squeeze inside [] = []"
| "squeeze inside (c # cs) =
     (if is_gap c then (if inside then squeeze True cs else CHR '' '' # squeeze True cs) else c # squeeze False cs)"

definition normalise_text :: "string \<Rightarrow> string" where
  "normalise_text t = strip (squeeze False (lower t))"

text \<open>The rank of the first relevant passage, counted from \<open>n\<close>\<close>

fun first_rank :: "nat \<Rightarrow> bool list \<Rightarrow> nat option" where
  "first_rank n [] = None"
| "first_rank n (b # bs) = (if b then Some n else first_rank (Suc n) bs)"

record scores =
  sc_precision :: real
  sc_recall :: real
  sc_mrr :: real
  sc_hit1 :: real

definition count_true :: "bool list \<Rightarrow> nat" where "count_true bs = length (filter id bs)"

definition relevant_in :: "string list \<Rightarrow> string list \<Rightarrow> bool list" where
  "relevant_in evidence passages =
     map (\<lambda>p. list_ex (\<lambda>e. sublist (normalise_text e) (normalise_text p)) evidence) passages"

definition spans_found :: "string list \<Rightarrow> string list \<Rightarrow> bool list" where
  "spans_found evidence passages =
     map (\<lambda>e. list_ex (\<lambda>p. sublist (normalise_text e) (normalise_text p)) passages) evidence"

text \<open>No passage to look at (\<open>k = 0\<close>) or no evidence divides by zero.\<close>

definition retrieval_score :: "string list \<Rightarrow> string list \<Rightarrow> nat \<Rightarrow> scores option" where
  "retrieval_score passages evidence k =
     (let relevant = relevant_in evidence (take k passages); first = first_rank 1 relevant
      in if k = 0 \<or> evidence = [] then None
         else Some \<lparr>sc_precision = real (count_true relevant) / real k,
                    sc_recall = real (count_true (spans_found evidence (take k passages))) / real (length evidence),
                    sc_mrr = (case first of None \<Rightarrow> 0 | Some n \<Rightarrow> 1 / real n),
                    sc_hit1 = (if relevant \<noteq> [] \<and> hd relevant then 1 else 0)\<rparr>)"

section \<open>A run\<close>

record eval_row =
  er_id :: string
  er_kind :: string
  er_scores :: scores

definition EVAL_TENANT :: string where "EVAL_TENANT = ''eval''"

text \<open>The corpus goes through the ingestion of the service; the number of chunks is what its records say.\<close>

fun ingest_corpus :: "'w ingestion \<Rightarrow> (string \<times> string) list \<Rightarrow> 'w \<Rightarrow> int option \<times> 'w" where
  "ingest_corpus I [] w = (Some 0, w)"
| "ingest_corpus I ((name, data) # fs) w =
     (let (r, w1) = ingest I EVAL_TENANT \<lparr>up_filename = name, up_type = Some ''text/markdown'', up_data = data, up_title = None\<rparr> w in
      case r of
        Inl _ \<Rightarrow> (None, w1)
      | Inr d \<Rightarrow> (let (n, w2) = ingest_corpus I fs w1 in (map_option (\<lambda>n. d_chunks d + n) n, w2)))"

fun ask_questions :: "'w retriever \<Rightarrow> ('w \<Rightarrow> seconds) \<Rightarrow> nat \<Rightarrow> question list \<Rightarrow> 'w \<Rightarrow> (eval_row \<times> real) list option \<times> 'w" where
  "ask_questions R clock k [] w = (Some [], w)"
| "ask_questions R clock k (q # qs) w =
     (let (r, w1) = retrieve R EVAL_TENANT (qu_text q) (int k) True w in
      case r of
        Ready hits \<Rightarrow>
          (case retrieval_score (map (\<lambda>h. s_text (rc_chunk h)) hits) (qu_evidence q) k of
             None \<Rightarrow> (None, w1)
           | Some s \<Rightarrow>
               (let (rest, w2) = ask_questions R clock k qs w1 in
                (map_option ((#) (\<lparr>er_id = qu_id q, er_kind = qu_kind q, er_scores = s\<rparr>, (clock w1 - clock w) * 1000)) rest, w2)))
      | _ \<Rightarrow> (None, w1))"

text \<open>\<open>round(statistics.fmean(...), 3)\<close>\<close>

definition mean_of :: "(scores \<Rightarrow> real) \<Rightarrow> eval_row list \<Rightarrow> real" where
  "mean_of f rows = py_round 3 (sum_list (map (f \<circ> er_scores) rows) / real (length rows))"

definition median :: "real list \<Rightarrow> real" where
  "median xs = (let ys = sort xs; n = length ys in
     if odd n then ys ! (n div 2) else (ys ! (n div 2 - 1) + ys ! (n div 2)) / 2)"

definition misses :: "eval_row list \<Rightarrow> string list" where
  "misses rows = map er_id (filter (\<lambda>r. sc_recall (er_scores r) < 1) rows)"

record kind_row =
  kd_questions :: nat
  kd_recall :: real
  kd_mrr :: real
  kd_hit1 :: real
  kd_misses :: "string list"

definition kinds_of :: "eval_row list \<Rightarrow> string list" where
  "kinds_of rows = sorted_list_of_set (set (map er_kind rows))"

definition kind_rows :: "eval_row list \<Rightarrow> (string \<times> kind_row) list" where
  "kind_rows rows = map (\<lambda>kind. let rs = filter (\<lambda>r. er_kind r = kind) rows in
     (kind, \<lparr>kd_questions = length rs, kd_recall = mean_of sc_recall rs, kd_mrr = mean_of sc_mrr rs,
             kd_hit1 = mean_of sc_hit1 rs, kd_misses = misses rs\<rparr>)) (kinds_of rows)"

record config_result =
  cf_name :: string
  cf_chunks :: int
  cf_precision :: real
  cf_recall :: real
  cf_mrr :: real
  cf_hit1 :: real
  cf_p50 :: real
  cf_by_kind :: "(string \<times> kind_row) list"
  cf_misses :: "string list"

text \<open>\<open>run_config\<close>; without questions \<open>fmean\<close> raises.\<close>

definition run_config ::
  "'w ingestion \<Rightarrow> 'w retriever \<Rightarrow> ('w \<Rightarrow> seconds) \<Rightarrow> eval_config \<Rightarrow> (string \<times> string) list \<Rightarrow> question list \<Rightarrow> nat \<Rightarrow> 'w
     \<Rightarrow> config_result option \<times> 'w" where
  "run_config I R clock c corpus qs k w =
     (let (n, w1) = ingest_corpus I corpus w in
      case n of
        None \<Rightarrow> (None, w1)
      | Some chunks \<Rightarrow>
          (let (x, w2) = ask_questions R clock k qs w1 in
           (case x of
              None \<Rightarrow> None
            | Some ps \<Rightarrow>
                (let rows = map fst ps in
                 if rows = [] then None
                 else Some \<lparr>cf_name = config_name c, cf_chunks = chunks, cf_precision = mean_of sc_precision rows,
                            cf_recall = mean_of sc_recall rows, cf_mrr = mean_of sc_mrr rows, cf_hit1 = mean_of sc_hit1 rows,
                            cf_p50 = py_round 1 (median (map snd ps)), cf_by_kind = kind_rows rows, cf_misses = misses rows\<rparr>), w2)))"

text \<open>\<open>max(results, key=...)\<close>: the first of the greatest by recall, then MRR, then speed.\<close>

definition quality :: "config_result \<Rightarrow> real \<times> real \<times> real" where
  "quality r = (cf_recall r, cf_mrr r, - cf_p50 r)"

fun less_quality :: "real \<times> real \<times> real \<Rightarrow> real \<times> real \<times> real \<Rightarrow> bool" where
  "less_quality (a, b, c) (x, y, z) \<longleftrightarrow> a < x \<or> (a = x \<and> (b < y \<or> (b = y \<and> c < z)))"

definition best_config :: "config_result list \<Rightarrow> config_result option" where
  "best_config rs = (case rs of [] \<Rightarrow> None
     | r # rest \<Rightarrow> Some (fold (\<lambda>x best. if less_quality (quality best) (quality x) then x else best) rest r))"

section \<open>Facts\<close>

lemma first_rank_Some: "first_rank n bs = Some m \<Longrightarrow> n \<le> m \<and> m < n + length bs"
proof (induction bs arbitrary: n)
  case (Cons b bs)
  then show ?case using Cons.IH[of "Suc n"] Suc_leD[of n m] by (cases b) auto
qed simp

lemma first_rank_first: "first_rank n bs = Some n \<longleftrightarrow> bs \<noteq> [] \<and> hd bs"
  using first_rank_Some[of "Suc n" "tl bs" n] by (cases bs) auto

lemma first_rank_append:
  "first_rank n (bs @ cs) = (case first_rank n bs of None \<Rightarrow> first_rank (n + length bs) cs | Some m \<Rightarrow> Some m)"
  by (induction bs arbitrary: n) (auto split: option.split)

lemma first_rank_None: "first_rank n bs = None \<longleftrightarrow> True \<notin> set bs"
  by (induction bs arbitrary: n) auto

lemma count_true_zero: "count_true bs = 0 \<longleftrightarrow> True \<notin> set bs"
  by (induction bs) (auto simp: count_true_def)

lemma count_true_le: "count_true bs \<le> length bs"
  by (simp add: count_true_def)

lemma count_true_mono:
  "length bs = length cs \<Longrightarrow> (\<And>i. i < length bs \<Longrightarrow> bs ! i \<Longrightarrow> cs ! i) \<Longrightarrow> count_true bs \<le> count_true cs"
proof (induction bs cs rule: list_induct2)
  case (Cons b bs c cs)
  have "count_true bs \<le> count_true cs" using Cons.IH Cons.prems[of "Suc i" for i] by simp
  then show ?case using Cons.prems[of 0] by (auto simp: count_true_def)
qed (simp add: count_true_def)

lemma mrr_of_rank:
  assumes "x = (case first_rank 1 rel of None \<Rightarrow> 0 | Some n \<Rightarrow> 1 / real n)" and "length rel \<le> k"
  shows "x = 0 \<longleftrightarrow> True \<notin> set rel" and "x = 0 \<or> (1 / real k \<le> x \<and> x \<le> 1)" and "x = 1 \<longleftrightarrow> rel \<noteq> [] \<and> hd rel"
proof -
  have at: "1 \<le> n \<and> n \<le> k" if r: "first_rank 1 rel = Some n" for n
    using first_rank_Some[OF r] assms(2) by simp
  show "x = 0 \<longleftrightarrow> True \<notin> set rel"
    using at by (auto simp: assms(1) first_rank_None[of 1, symmetric] split: option.splits)
  show "x = 0 \<or> (1 / real k \<le> x \<and> x \<le> 1)"
    using at by (auto simp: assms(1) frac_le split: option.splits)
  show "x = 1 \<longleftrightarrow> rel \<noteq> [] \<and> hd rel"
    using first_rank_first[of 1 rel] by (auto simp: assms(1) split: option.splits)
qed

section \<open>Properties\<close>

text \<open>The scores of a question fit together: all lie between 0 and 1, the reciprocal rank is 0 or at least
  \<open>1 / k\<close>, a hit at rank 1 is exactly a reciprocal rank of 1, and precision, recall and reciprocal rank are
  zero for the same questions, those whose evidence is in none of the passages.\<close>

theorem retrieval_scores_fit_together:
  assumes "retrieval_score passages evidence k = Some s"
  shows "0 \<le> sc_precision s \<and> sc_precision s \<le> 1 \<and> 0 \<le> sc_recall s \<and> sc_recall s \<le> 1
     \<and> (sc_mrr s = 0 \<or> (1 / real k \<le> sc_mrr s \<and> sc_mrr s \<le> 1))
     \<and> (sc_hit1 s = 1 \<longleftrightarrow> sc_mrr s = 1) \<and> (sc_hit1 s = 0 \<longleftrightarrow> sc_mrr s \<noteq> 1)
     \<and> (sc_precision s = 0 \<longleftrightarrow> sc_recall s = 0) \<and> (sc_mrr s = 0 \<longleftrightarrow> sc_recall s = 0)
     \<and> (sc_recall s = 0 \<longleftrightarrow> (\<forall>p \<in> set (take k passages). \<forall>e \<in> set evidence. \<not> sublist (normalise_text e) (normalise_text p)))"
proof -
  define rel where "rel = relevant_in evidence (take k passages)"
  define found where "found = spans_found evidence (take k passages)"
  have k: "0 < k" "evidence \<noteq> []" and s: "sc_precision s = real (count_true rel) / real k"
      "sc_recall s = real (count_true found) / real (length evidence)"
      "sc_mrr s = (case first_rank 1 rel of None \<Rightarrow> 0 | Some n \<Rightarrow> 1 / real n)" "sc_hit1 s = (if rel \<noteq> [] \<and> hd rel then 1 else 0)"
    using assms by (auto simp: retrieval_score_def Let_def rel_def found_def split: if_splits)
  have lens: "length rel \<le> k" "length found = length evidence" by (simp_all add: rel_def relevant_in_def found_def spans_found_def)
  have any: "True \<in> set rel \<longleftrightarrow> True \<in> set found" by (force simp: rel_def found_def relevant_in_def spans_found_def list_ex_iff)
  have none: "True \<notin> set found \<longleftrightarrow> (\<forall>p \<in> set (take k passages). \<forall>e \<in> set evidence. \<not> sublist (normalise_text e) (normalise_text p))"
    by (force simp: found_def spans_found_def list_ex_iff)
  have zero: "sc_precision s = 0 \<longleftrightarrow> True \<notin> set rel" "sc_recall s = 0 \<longleftrightarrow> True \<notin> set found"
    using k by (simp_all add: s(1,2) count_true_zero)
  have le: "sc_precision s \<le> 1" "sc_recall s \<le> 1" "0 \<le> sc_precision s" "0 \<le> sc_recall s"
    using k lens count_true_le[of rel] count_true_le[of found] by (simp_all add: s(1,2))
  note mrr = mrr_of_rank[OF s(3) lens(1)]
  show ?thesis using zero le mrr any none s(4) by simp
qed

text \<open>Looking at more passages never lowers the recall or the reciprocal rank of a question.\<close>

theorem more_passages_find_no_less:
  assumes "retrieval_score passages evidence k = Some s" and "k \<le> k'"
  shows "\<exists>s'. retrieval_score passages evidence k' = Some s' \<and> sc_recall s \<le> sc_recall s' \<and> sc_mrr s \<le> sc_mrr s'
     \<and> sc_hit1 s = sc_hit1 s' \<and> real k * sc_precision s \<le> real k' * sc_precision s'"
proof -
  obtain more where more: "take k' passages = take k passages @ more"
    using take_add[of k "k' - k" passages] assms(2) by auto
  define a where "a = relevant_in evidence (take k passages)"
  define b where "b = relevant_in evidence more"
  define f where "f = count_true (spans_found evidence (take k passages))"
  define g where "g = count_true (spans_found evidence (take k' passages))"
  have k: "0 < k" "evidence \<noteq> []" using assms(1) by (auto simp: retrieval_score_def Let_def split: if_splits)
  have rel: "relevant_in evidence (take k' passages) = a @ b" by (simp add: relevant_in_def more a_def b_def)
  have found: "f \<le> g" unfolding f_def g_def by (rule count_true_mono) (auto simp: spans_found_def more)
  have count: "count_true a \<le> count_true (a @ b)" by (simp add: count_true_def)
  have top: "a @ b \<noteq> [] \<and> hd (a @ b) \<longleftrightarrow> a \<noteq> [] \<and> hd a"
  proof (cases "a = []")
    case True
    then have "passages = []" using k(1) by (simp add: a_def relevant_in_def)
    then show ?thesis using True more by (simp add: b_def relevant_in_def)
  qed simp
  have mrr: "(case first_rank 1 a of None \<Rightarrow> 0 | Some n \<Rightarrow> 1 / real n) \<le> (case first_rank 1 (a @ b) of None \<Rightarrow> 0 | Some n \<Rightarrow> 1 / real n)"
    by (auto simp: first_rank_append split: option.splits)
  have s: "s = \<lparr>sc_precision = real (count_true a) / real k, sc_recall = real f / real (length evidence),
      sc_mrr = (case first_rank 1 a of None \<Rightarrow> 0 | Some n \<Rightarrow> 1 / real n), sc_hit1 = (if a \<noteq> [] \<and> hd a then 1 else 0)\<rparr>"
    using assms(1) k by (simp add: retrieval_score_def Let_def a_def f_def)
  have s': "retrieval_score passages evidence k' = Some \<lparr>sc_precision = real (count_true (a @ b)) / real k', sc_recall = real g / real (length evidence),
      sc_mrr = (case first_rank 1 (a @ b) of None \<Rightarrow> 0 | Some n \<Rightarrow> 1 / real n), sc_hit1 = (if a @ b \<noteq> [] \<and> hd (a @ b) then 1 else 0)\<rparr>"
    using assms(2) k by (simp only: retrieval_score_def Let_def rel g_def) simp
  show ?thesis unfolding s' top using k assms(2) found count mrr by (simp add: s divide_right_mono)
qed

lemma less_quality_trans: "\<not> less_quality p q \<Longrightarrow> \<not> less_quality q r \<Longrightarrow> \<not> less_quality p r"
  by (cases p; cases q; cases r) auto

text \<open>The configuration that is reported as the best is one of those that ran, and none of them has a higher
  recall, or the same with a higher MRR, or the same of both and a faster median query.\<close>

lemma best_config_is_best:
  "best_config rs = Some r \<Longrightarrow> r \<in> set rs \<and> (\<forall>x \<in> set rs. \<not> less_quality (quality r) (quality x))"
proof -
  let ?pick = "fold (\<lambda>x best. if less_quality (quality best) (quality x) then x else best)"
  have "?pick xs b \<in> insert b (set xs) \<and> (\<forall>x \<in> insert b (set xs). \<not> less_quality (quality (?pick xs b)) (quality x))" for xs b
  proof (induction xs arbitrary: b)
    case Nil
    then show ?case by (cases "quality b") simp
  next
    case (Cons x xs)
    define b' where "b' = (if less_quality (quality b) (quality x) then x else b)"
    have step: "\<not> less_quality (quality b') (quality b) \<and> \<not> less_quality (quality b') (quality x)"
      by (cases "quality b"; cases "quality x") (auto simp: b'_def)
    have "?pick (x # xs) b = ?pick xs b'" by (simp add: b'_def)
    moreover have "b' = b \<or> b' = x" by (simp add: b'_def)
    moreover have "\<not> less_quality (quality (?pick xs b')) (quality b')" using Cons.IH[of b'] by blast
    then have "\<not> less_quality (quality (?pick xs b')) (quality b)" "\<not> less_quality (quality (?pick xs b')) (quality x)"
      using step less_quality_trans[of "quality (?pick xs b')" "quality b'"] by blast+
    ultimately show ?case using Cons.IH[of b'] by auto
  qed
  from this[of "tl rs" "hd rs"] show "best_config rs = Some r \<Longrightarrow> ?thesis" by (cases rs) (auto simp: best_config_def)
qed

section \<open>A small example\<close>

text \<open>The evidence crosses a table cell and is found at rank 2.\<close>

definition ex_passages :: "string list" where "ex_passages = [''Invoices are sent on Friday.'', ''| Limit |  10 per day |'']"
definition ex_evidence :: "string list" where "ex_evidence = [''limit 10'', ''monday'']"

lemma ex_retrieval_score:
  "retrieval_score ex_passages ex_evidence 5 = Some \<lparr>sc_precision = 1 / 5, sc_recall = 1 / 2, sc_mrr = 1 / 2, sc_hit1 = 0\<rparr>"
proof -
  have "relevant_in ex_evidence (take 5 ex_passages) = [False, True]" "spans_found ex_evidence (take 5 ex_passages) = [True, False]"
    by code_simp+
  then show ?thesis by (simp add: retrieval_score_def count_true_def ex_evidence_def)
qed

lemma retrieval_scores_fit_together_witness:
  "\<exists>s. retrieval_score ex_passages ex_evidence 5 = Some s \<and> sc_mrr s = 1 / 2 \<and> sc_hit1 s = 0 \<and> sc_precision s \<noteq> 0"
  using retrieval_scores_fit_together[OF ex_retrieval_score] ex_retrieval_score by auto

lemma more_passages_find_no_less_witness:
  "\<exists>s'. retrieval_score ex_passages ex_evidence 7 = Some s' \<and> 1 / 2 \<le> sc_recall s'"
  using more_passages_find_no_less[OF ex_retrieval_score, of 7] by auto

end
