(* ===== verification/Answer_Eval.thy ===== *)
theory Answer_Eval
  imports Retrieval_Eval Rag_Service
begin

text \<open>
  The answer evaluation (\<open>eval/answer_eval.py\<close>): how an answer is scored against a gold answer and the
  passages it was given, how the API is asked, and the summary of a run. The HTTP client is a parameter,
  and so is \<open>asyncio.sleep\<close>. The load of the host, the printing and the command line are not modelled.
  Characters are those below 256, as in the rest of the development.
\<close>

section \<open>Tokens\<close>

text \<open>\<open>\w\<close>\<close>

definition word_char :: "char \<Rightarrow> bool" where
  "word_char c \<longleftrightarrow> is_upper c \<or> is_alnum c \<or> c = CHR ''_'' \<or>
     (let n = (of_char c :: nat) in n \<in> {170, 178, 179, 181, 185, 186, 188, 189, 190} \<or> (192 \<le> n \<and> n \<noteq> 215 \<and> n \<noteq> 247))"

text \<open>\<open>_MARKER.sub(" ", text)\<close>\<close>

function drop_markers :: "string \<Rightarrow> string" where
  "drop_markers [] = []"
| "drop_markers (c # cs) =
     (let ds = takeWhile is_digit cs; rest = dropWhile is_digit cs in
      if c = CHR ''['' \<and> ds \<noteq> [] \<and> rest \<noteq> [] \<and> hd rest = CHR '']'' then CHR '' '' # drop_markers (tl rest)
      else c # drop_markers cs)"
  by pat_completeness auto
termination
proof (relation "measure length")
  fix c and cs ds rest :: string
  assume "rest = dropWhile is_digit cs"
  then have "length rest \<le> length cs" by (simp add: length_dropWhile_le)
  then show "(tl rest, c # cs) \<in> measure length" by simp
qed auto

text \<open>\<open>_LIST_ITEM\<close> at the start of a line: the last character it takes and what follows it\<close>

definition list_item :: "string \<Rightarrow> (char \<times> string) option" where
  "list_item s =
     (let a = dropWhile is_space s in
      case dropWhile is_digit a of
        [] \<Rightarrow> None
      | c # r \<Rightarrow>
          if takeWhile is_digit a \<noteq> [] \<and> c \<in> {CHR ''.'', CHR '')''} \<and> takeWhile is_space r \<noteq> []
          then Some (last (takeWhile is_space r), dropWhile is_space r) else None)"

lemma list_item_shorter: "list_item s = Some (l, r) \<Longrightarrow> length r < length s"
proof -
  assume "list_item s = Some (l, r)"
  then obtain c t where t: "dropWhile is_digit (dropWhile is_space s) = c # t" "r = dropWhile is_space t"
    by (auto simp: list_item_def Let_def split: list.splits if_splits)
  have "length r \<le> length t" by (simp add: t(2) length_dropWhile_le)
  also have "length t < length (dropWhile is_digit (dropWhile is_space s))" by (simp add: t(1))
  also have "\<dots> \<le> length s" using length_dropWhile_le order_trans by blast
  finally show ?thesis .
qed

function drop_list_items :: "char option \<Rightarrow> string \<Rightarrow> string" where
  "drop_list_items before [] = []"
| "drop_list_items before (c # cs) =
     (case (if before \<in> {None, Some (CHR 0x0A)} then list_item (c # cs) else None) of
        Some (l, rest) \<Rightarrow> CHR '' '' # drop_list_items (Some l) rest
      | None \<Rightarrow> c # drop_list_items (Some c) cs)"
  by pat_completeness auto
termination
  by (relation "measure (length \<circ> snd)") (auto split: if_splits dest!: list_item_shorter)

text \<open>\<open>_THOUSANDS.sub("", text)\<close>\<close>

definition three_digits :: "string \<Rightarrow> bool" where
  "three_digits s \<longleftrightarrow> 3 \<le> length s \<and> list_all is_digit (take 3 s) \<and> (case drop 3 s of [] \<Rightarrow> True | c # _ \<Rightarrow> \<not> word_char c)"

fun drop_thousands :: "char option \<Rightarrow> string \<Rightarrow> string" where
  "drop_thousands before [] = []"
| "drop_thousands before (c # cs) =
     (if c = CHR '','' \<and> (case before of None \<Rightarrow> False | Some d \<Rightarrow> is_digit d) \<and> three_digits cs
      then drop_thousands (Some c) cs else c # drop_thousands (Some c) cs)"

text \<open>\<open>_TOKEN.findall\<close>\<close>

definition link :: "char \<Rightarrow> bool" where "link c \<longleftrightarrow> c \<in> set ''-.:/''"

fun token_rest :: "string \<Rightarrow> string \<times> string" where
  "token_rest [] = ([], [])"
| "token_rest (c # cs) =
     (if is_alnum c \<or> (link c \<and> cs \<noteq> [] \<and> is_alnum (hd cs)) then (let (t, r) = token_rest cs in (c # t, r))
      else ([], c # cs))"

lemma token_rest_shorter: "length (snd (token_rest s)) \<le> length s"
  by (induction s rule: token_rest.induct) (auto simp: split_beta)

function find_tokens :: "string \<Rightarrow> string list" where
  "find_tokens [] = []"
| "find_tokens (c # cs) =
     (if is_alnum c then (let (t, r) = token_rest cs in (c # t) # find_tokens r) else find_tokens cs)"
  by pat_completeness auto
termination
  by (relation "measure length") (auto, metis token_rest_shorter snd_conv le_imp_less_Suc)

definition NUMBER_WORDS :: "(string \<times> string) list" where
  "NUMBER_WORDS =
     [(''one'', ''1''), (''two'', ''2''), (''three'', ''3''), (''four'', ''4''), (''five'', ''5''), (''six'', ''6''), (''seven'', ''7''),
      (''eight'', ''8''), (''nine'', ''9''), (''ten'', ''10''), (''eleven'', ''11''), (''twelve'', ''12''), (''fifteen'', ''15''),
      (''twenty'', ''20''), (''thirty'', ''30''), (''forty'', ''40''), (''fifty'', ''50''), (''sixty'', ''60''), (''ninety'', ''90''),
      (''hundred'', ''100'')]"

definition STOPWORDS :: "string list" where
  "STOPWORDS =
     [''a'', ''an'', ''and'', ''are'', ''as'', ''at'', ''be'', ''been'', ''by'', ''can'', ''do'', ''does'', ''for'', ''from'',
      ''has'', ''have'', ''if'', ''in'', ''into'', ''is'', ''it'', ''its'', ''may'', ''must'', ''of'', ''on'', ''or'', ''per'',
      ''should'', ''so'', ''than'', ''that'', ''the'', ''their'', ''them'', ''then'', ''there'', ''these'', ''they'',
      ''this'', ''to'', ''was'', ''were'', ''what'', ''when'', ''where'', ''which'', ''who'', ''whom'', ''why'', ''will'',
      ''with'', ''would'', ''you'', ''your'']"

definition answer_tokens :: "string \<Rightarrow> string list" where
  "answer_tokens t =
     (let x = drop_thousands None (drop_list_items None (drop_markers t)) in
      map (\<lambda>w. case dict_get NUMBER_WORDS w of None \<Rightarrow> w | Some d \<Rightarrow> d)
        (find_tokens (map (\<lambda>c. if c = CHR ''|'' then CHR '' '' else c) (lower x))))"

definition has_digit :: "string \<Rightarrow> bool" where "has_digit w \<longleftrightarrow> list_ex is_digit w"

definition specifics :: "string \<Rightarrow> string set" where
  "specifics t = set (concat (map (\<lambda>w. w # filter has_digit (split_on CHR ''-'' w)) (filter has_digit (answer_tokens t))))"

definition stem :: "string \<Rightarrow> string" where
  "stem w = (if length w > 3 \<and> last w = CHR ''s'' \<and> last (butlast w) \<noteq> CHR ''s'' then butlast w else w)"

definition content_words :: "string \<Rightarrow> string set" where
  "content_words t = set (map stem (filter (\<lambda>w. w \<notin> set STOPWORDS \<and> length w > 2 \<and> \<not> has_digit w) (answer_tokens t)))"

section \<open>Scoring an answer\<close>

definition is_correct :: "string \<Rightarrow> string \<Rightarrow> string \<Rightarrow> bool" where
  "is_correct said gold asked =
     (if \<not> specifics gold \<subseteq> specifics said then False
      else
        (let added = content_words gold - content_words asked; words = (if added = {} then content_words gold else added) in
         words = {} \<or> real (card (words \<inter> content_words said)) / real (card words) \<ge> 1 / 2))"

text \<open>The alternatives of \<open>_ABSTAIN\<close>, written out\<close>

definition ABSTAIN :: "string list" where
  "ABSTAIN =
     concat (map (\<lambda>i. map (\<lambda>x. i @ x @ '' know'') [''do not'', ''don't'', ''dont'']) [''i '', []])
     @ concat (map (\<lambda>x. map (\<lambda>v. x @ '' '' @ v) [''find'', ''answer'', ''determine'', ''tell'', ''say'', ''provide''])
         [''cannot'', ''can not'', ''can't'', ''couldn't'', ''could not'', ''unable to''])
     @ concat (map (\<lambda>x. concat (map (\<lambda>n. map (\<lambda>v. x @ n @ '' '' @ v)
           [''contain'', ''mention'', ''say'', ''specify'', ''provide'', ''include'', ''state'', ''cover'']) ['' not'', ''n't'']))
         [''do'', ''does'', ''did''])
     @ [''no information'', ''no mention'', ''no detail'', ''no details'']
     @ map (\<lambda>v. ''not '' @ v) [''mentioned'', ''specified'', ''stated'', ''provided'', ''covered'', ''included'', ''available'']
     @ [''not enough information'', ''insufficient information'', ''do not have enough information'', ''don't have enough information'']"

text \<open>\<open>\b phrase \b\<close> somewhere in the text after the character \<open>before\<close>; a phrase begins and ends with a letter.\<close>

fun has_phrase :: "string \<Rightarrow> bool \<Rightarrow> string \<Rightarrow> bool" where
  "has_phrase p inside [] = False"
| "has_phrase p inside (c # cs) =
     ((\<not> inside \<and> take (length p) (c # cs) = p \<and> (case drop (length p) (c # cs) of [] \<Rightarrow> True | x # _ \<Rightarrow> \<not> word_char x))
      \<or> has_phrase p (word_char c) cs)"

definition abstained :: "string \<Rightarrow> bool" where
  "abstained said = list_ex (\<lambda>p. has_phrase p False (lower said)) ABSTAIN"

definition unsupported :: "string \<Rightarrow> string \<Rightarrow> string list \<Rightarrow> string list" where
  "unsupported said asked passages =
     sorted_list_of_set (specifics said - (specifics asked \<union> \<Union> (set (map specifics passages))))"

definition holds_evidence :: "string \<Rightarrow> string list \<Rightarrow> bool" where
  "holds_evidence passage evidence = list_ex (\<lambda>e. sublist (normalise_text e) (normalise_text passage)) evidence"

record answer_result =
  re_id :: string
  re_kind :: string
  re_question :: string
  re_gold :: "string option"
  re_answer :: string
  re_error :: "string option"
  re_retrieved :: bool
  re_correct :: bool
  re_cited :: bool
  re_cited_right :: bool
  re_invalid :: "nat list"
  re_unsupported :: "string list"
  re_abstained :: bool
  re_latency :: real
  re_deployment :: "string option"
  re_calls :: "int option"
  re_retries :: nat

definition new_result :: "string \<Rightarrow> string \<Rightarrow> string \<Rightarrow> string option \<Rightarrow> answer_result" where
  "new_result i kind asked gold =
     \<lparr>re_id = i, re_kind = kind, re_question = asked, re_gold = gold, re_answer = [], re_error = None, re_retrieved = False,
      re_correct = False, re_cited = False, re_cited_right = False, re_invalid = [], re_unsupported = [], re_abstained = False,
      re_latency = 0, re_deployment = None, re_calls = None, re_retries = 0\<rparr>"

definition score_answer :: "answer_result \<Rightarrow> string list \<Rightarrow> nat set \<Rightarrow> string list \<Rightarrow> answer_result" where
  "score_answer r passages cited_ns evidence =
     (let said = re_answer r;
          r1 = r\<lparr>re_abstained := abstained said, re_unsupported := unsupported said (re_question r) passages,
                 re_invalid := sorted_list_of_set (set (filter (\<lambda>n. \<not> (1 \<le> n \<and> n \<le> length passages)) (cited_numbers said))),
                 re_cited := (cited_ns \<noteq> {})\<rparr>
      in if evidence = [] then r1
         else
           (let holders = set (map fst (filter (\<lambda>(n, p). holds_evidence p evidence) (numbered passages))) in
            r1\<lparr>re_retrieved := (holders \<noteq> {}), re_cited_right := (holders \<inter> cited_ns \<noteq> {}),
               re_correct := (case re_gold r of None \<Rightarrow> False | Some g \<Rightarrow> g \<noteq> [] \<and> is_correct said g (re_question r))\<rparr>))"

section \<open>Asking the API\<close>

text \<open>What a request gives: a status, the seconds of its \<open>retry-after\<close> header and the body, or an exception
  of the client with its text.\<close>

record answer_body =
  bd_answer :: string
  bd_deployment :: "string option"
  bd_calls :: "int option"
  bd_citations :: "(nat \<times> string \<times> bool) list"

datatype http_reply = Answered nat "real option" string "answer_body option" | Broken string

definition reply_status :: "http_reply \<Rightarrow> nat option" where
  "reply_status r = (case r of Answered s _ _ _ \<Rightarrow> Some s | Broken _ \<Rightarrow> None)"

definition retry_wait :: "real \<Rightarrow> http_reply \<Rightarrow> real" where
  "retry_wait dflt r = (case r of Answered _ (Some x) _ _ \<Rightarrow> x | _ \<Rightarrow> dflt)"

record 'w client =
  cl_send :: "'w \<Rightarrow> http_reply \<times> 'w"
  cl_sleep :: "real \<Rightarrow> 'w \<Rightarrow> 'w"
  cl_clock :: "'w \<Rightarrow> seconds"

text \<open>\<open>Gateway.call\<close>: at most \<open>n + 1\<close> requests\<close>

fun api_call :: "'w client \<Rightarrow> nat \<Rightarrow> 'w \<Rightarrow> http_reply \<times> 'w" where
  "api_call C n w =
     (let (r, w1) = cl_send C w in
      if reply_status r \<noteq> Some 429 then (r, w1)
      else
        (let w2 = cl_sleep C (retry_wait 2 r) w1 in
         case n of 0 \<Rightarrow> (r, w2) | Suc m \<Rightarrow> api_call C m w2))"

declare api_call.simps [simp del]

definition MAX_RETRIES :: nat where "MAX_RETRIES = 3"

text \<open>The loop of \<open>_ask\<close>, from the attempt \<open>MAX_RETRIES + 1 - left\<close> on; with the number of retries\<close>

fun ask_loop :: "'w client \<Rightarrow> nat \<Rightarrow> 'w \<Rightarrow> http_reply \<times> nat \<times> 'w" where
  "ask_loop C 0 w = (let (r, w1) = api_call C 9 w in (r, 0, w1))"
| "ask_loop C (Suc left) w =
     (let (r, w1) = api_call C 9 w in
      if reply_status r \<noteq> Some 503 then (r, 0, w1)
      else
        (let attempt = MAX_RETRIES - left; (x, n, w2) = ask_loop C left (cl_sleep C (max (retry_wait 5 r) (10 * real attempt)) w1)
         in (x, Suc n, w2)))"

definition ask_question :: "'w client \<Rightarrow> answer_result \<Rightarrow> string list \<Rightarrow> 'w \<Rightarrow> answer_result option \<times> 'w" where
  "ask_question C r evidence w =
     (let (x, n, w1) = ask_loop C MAX_RETRIES w; r1 = r\<lparr>re_retries := re_retries r + n\<rparr>;
          r2 = r1\<lparr>re_latency := py_round 2 (cl_clock C w1 - cl_clock C w)\<rparr>
      in (case x of
            Broken e \<Rightarrow> Some (r1\<lparr>re_error := Some e\<rparr>)
          | Answered s _ txt body \<Rightarrow>
              if s \<noteq> 200 then Some (r2\<lparr>re_error := Some (show_int (int s) @ '': '' @ take 200 txt)\<rparr>)
              else
                (case body of
                   None \<Rightarrow> None
                 | Some b \<Rightarrow>
                     Some (score_answer (r2\<lparr>re_answer := bd_answer b, re_deployment := bd_deployment b, re_calls := bd_calls b\<rparr>)
                       (map (\<lambda>(n, p, c). p) (bd_citations b)) (set (map fst (filter (\<lambda>(n, p, c). c) (bd_citations b)))) evidence)), w1))"

section \<open>The summary of a run\<close>

definition share :: "(answer_result \<Rightarrow> bool) \<Rightarrow> answer_result list \<Rightarrow> real" where
  "share f rs = (if rs = [] then 0 else py_round 3 (real (length (filter f rs)) / real (length rs)))"

definition UNANSWERABLE :: string where "UNANSWERABLE = ''unanswerable''"

text \<open>An error is a text that is not empty.\<close>

definition failed_result :: "answer_result \<Rightarrow> bool" where
  "failed_result r = (case re_error r of None \<Rightarrow> False | Some e \<Rightarrow> e \<noteq> [])"

definition answerable_of :: "answer_result list \<Rightarrow> answer_result list" where
  "answerable_of rs = filter (\<lambda>r. re_kind r \<noteq> UNANSWERABLE \<and> \<not> failed_result r) rs"

definition unanswerable_of :: "answer_result list \<Rightarrow> answer_result list" where
  "unanswerable_of rs = filter (\<lambda>r. re_kind r = UNANSWERABLE \<and> \<not> failed_result r) rs"

record kind_share =
  ks_n :: nat
  ks_correct :: real
  ks_cited :: real

record run_summary =
  sm_questions :: nat
  sm_errors :: nat
  sm_retried :: nat
  sm_retries :: nat
  sm_answerable :: nat
  sm_retrieved :: real
  sm_correct :: real
  sm_correct_when_retrieved :: real
  sm_cited :: real
  sm_cited_right :: real
  sm_invented :: real
  sm_abstained :: real
  sm_by_kind :: "(string \<times> kind_share) list"
  sm_unanswerable :: nat
  sm_rightly_abstained :: real
  sm_fabricated :: real
  sm_p50 :: "real option"
  sm_p95 :: "real option"

text \<open>\<open>latencies[min(len - 1, round(0.95 * (len - 1)))]\<close>\<close>

definition percentile_95 :: "real list \<Rightarrow> real" where
  "percentile_95 xs = sort xs ! min (length xs - 1) (nat \<lfloor>py_round 0 (95 / 100 * real (length xs - 1))\<rfloor>)"

definition summarise :: "answer_result list \<Rightarrow> run_summary" where
  "summarise rs =
     (let ok = answerable_of rs; none = unanswerable_of rs; got = filter re_retrieved ok;
          lat = map re_latency (filter (\<lambda>r. \<not> failed_result r) rs)
      in \<lparr>sm_questions = length rs, sm_errors = length (filter failed_result rs),
          sm_retried = length (filter (\<lambda>r. re_retries r \<noteq> 0) rs), sm_retries = sum_list (map re_retries rs),
          sm_answerable = length ok, sm_retrieved = share re_retrieved ok, sm_correct = share re_correct ok,
          sm_correct_when_retrieved = share re_correct got, sm_cited = share re_cited ok,
          sm_cited_right = share re_cited_right got, sm_invented = share (\<lambda>r. re_unsupported r \<noteq> []) ok,
          sm_abstained = share re_abstained ok,
          sm_by_kind = concat (map (\<lambda>kind. let g = filter (\<lambda>r. re_kind r = kind) ok in
             if g = [] then [] else [(kind, \<lparr>ks_n = length g, ks_correct = share re_correct g, ks_cited = share re_cited g\<rparr>)])
             [''semantic'', ''lexical'', ''terse'']),
          sm_unanswerable = length none, sm_rightly_abstained = share re_abstained none,
          sm_fabricated = share (\<lambda>r. re_unsupported r \<noteq> []) none,
          sm_p50 = (if lat = [] then None else Some (median lat)), sm_p95 = (if lat = [] then None else Some (percentile_95 lat))\<rparr>)"

section \<open>Facts\<close>

lemma finite_words [simp]: "finite (specifics t)" "finite (content_words t)"
  by (simp_all add: specifics_def content_words_def)

section \<open>Properties\<close>

text \<open>The negative control scores what it should: an answer that only echoes the question is correct exactly
  when the gold answer has nothing that the question does not already hold. The gold answer itself is always
  correct, and an answer that quotes a passage has nothing unsupported.\<close>

theorem an_echo_earns_nothing:
  "(is_correct asked gold asked \<longleftrightarrow> specifics gold \<subseteq> specifics asked \<and> content_words gold \<subseteq> content_words asked)
   \<and> is_correct gold gold asked \<and> (\<forall>p \<in> set passages. unsupported p asked passages = [])"
proof -
  have half: "real (card (W \<inter> W)) / real (card W) \<ge> 1 / 2" if "finite W" "W \<noteq> {}" for W :: "string set"
    using that by (simp add: card_gt_0_iff)
  have "(content_words gold - content_words asked) \<inter> content_words asked = {}" by blast
  then have "is_correct asked gold asked \<longleftrightarrow> specifics gold \<subseteq> specifics asked \<and> content_words gold \<subseteq> content_words asked"
    using half[of "content_words gold"] by (auto simp: is_correct_def Let_def Int_absorb2)
  moreover have "is_correct gold gold asked"
    using half[of "content_words gold"] half[of "content_words gold - content_words asked"]
    by (auto simp: is_correct_def Let_def Int_absorb2 Diff_Int_distrib2)
  moreover have "unsupported p asked passages = []" if "p \<in> set passages" for p
  proof -
    have "specifics p - (specifics asked \<union> \<Union> (set (map specifics passages))) = {}" using that by auto
    then show ?thesis by (simp add: unsupported_def)
  qed
  ultimately show ?thesis by blast
qed

text \<open>Nothing is counted twice or left out, whatever the API answers: every question is an error, answerable
  or unanswerable, and a question is never credited without its evidence: an answer that is right about its
  citation was retrieved and cited, and a question without evidence is neither correct nor retrieved.\<close>

lemma every_question_is_counted_once:
  "sm_errors (summarise rs) + sm_answerable (summarise rs) + sm_unanswerable (summarise rs) = length rs"
proof -
  have "length (filter failed_result rs) + length (answerable_of rs) + length (unanswerable_of rs) = length rs"
    by (induction rs) (simp_all add: answerable_of_def unanswerable_of_def)
  then show ?thesis by (simp add: summarise_def Let_def)
qed

lemma correct_specifics: "is_correct said g asked \<Longrightarrow> specifics g \<subseteq> specifics said"
  by (simp add: is_correct_def split: if_splits)

text \<open>The numbers of the passages that hold evidence\<close>

definition holders_of :: "string list \<Rightarrow> string list \<Rightarrow> nat set" where
  "holders_of passages evidence = set (map fst (filter (\<lambda>(n, p). holds_evidence p evidence) (numbered passages)))"

lemma holders_of_empty: "holders_of passages evidence = {} \<longleftrightarrow> (\<forall>p \<in> set passages. \<not> holds_evidence p evidence)"
proof -
  have m: "map snd (numbered passages) = passages" by (cases passages) (simp_all add: numbered_def del: upt_Suc)
  have "holders_of passages evidence = {} \<longleftrightarrow> (\<forall>p \<in> set (map snd (numbered passages)). \<not> holds_evidence p evidence)"
    unfolding holders_of_def by (auto simp: filter_empty_conv split_beta)
  then show ?thesis unfolding m .
qed

lemma score_answer_fields:
  "re_cited (score_answer r passages ns evidence) \<longleftrightarrow> ns \<noteq> {}"
  "re_retrieved (score_answer r passages ns evidence) \<longleftrightarrow> (if evidence = [] then re_retrieved r else holders_of passages evidence \<noteq> {})"
  "re_cited_right (score_answer r passages ns evidence) \<longleftrightarrow> (if evidence = [] then re_cited_right r else holders_of passages evidence \<inter> ns \<noteq> {})"
  "re_correct (score_answer r passages ns evidence) \<longleftrightarrow> (if evidence = [] then re_correct r
     else (case re_gold r of None \<Rightarrow> False | Some g \<Rightarrow> g \<noteq> [] \<and> is_correct (re_answer r) g (re_question r)))"
  "re_invalid (score_answer r passages ns evidence) =
     sorted_list_of_set (set (filter (\<lambda>n. \<not> (1 \<le> n \<and> n \<le> length passages)) (cited_numbers (re_answer r))))"
  unfolding holders_of_def score_answer_def Let_def by (cases "evidence = []"; simp)+

lemma score_fits_together:
  assumes "\<not> re_retrieved r" and "\<not> re_correct r" and "\<not> re_cited_right r" and "r' = score_answer r passages ns evidence"
  shows "(re_cited_right r' \<longrightarrow> re_cited r' \<and> re_retrieved r')
     \<and> (re_retrieved r' \<longleftrightarrow> (\<exists>p \<in> set passages. holds_evidence p evidence))
     \<and> (re_correct r' \<longrightarrow> evidence \<noteq> [] \<and> (\<exists>g. re_gold r = Some g \<and> specifics g \<subseteq> specifics (re_answer r)))
     \<and> (\<forall>n \<in> set (re_invalid r'). n = 0 \<or> length passages < n)"
proof -
  have none: "\<not> holds_evidence p []" for p by (simp add: holds_evidence_def)
  show ?thesis
    unfolding assms(4) score_answer_fields using assms(1-3) none holders_of_empty[of passages evidence] correct_specifics[of "re_answer r" _ "re_question r"]
    by (cases "evidence = []"; cases "re_gold r") (auto dest!: correct_specifics subsetD)
qed

lemma share_bounds: "0 \<le> share f rs \<and> share f rs \<le> 1"
proof (cases "rs = []")
  case False
  then have "real (length (filter f rs)) / real (length rs) \<le> 1" by simp
  then show ?thesis using False py_round_bounds[of "real (length (filter f rs)) / real (length rs)" 3] by (simp add: share_def)
qed (simp add: share_def)

text \<open>A question is asked at most four times, and a final refusal comes only after the client has waited for
  10, 20 and 30 seconds: longer than the cooldown of a circuit.\<close>

theorem the_client_waits_out_the_cooldown:
  assumes "\<forall>d w. cl_clock C (cl_sleep C d w) = cl_clock C w + max 0 d" and "\<forall>w. cl_clock C w \<le> cl_clock C (snd (cl_send C w))"
    and "ask_loop C MAX_RETRIES w = (r, n, w')"
  shows "n \<le> MAX_RETRIES \<and> (n < MAX_RETRIES \<longrightarrow> reply_status r \<noteq> Some 503)
     \<and> cl_clock C w + 5 * real n * (real n + 1) \<le> cl_clock C w'"
proof -
  have call: "cl_clock C w \<le> cl_clock C (snd (api_call C m w))" for m w
  proof (induction m arbitrary: w)
    case 0
    then show ?case using assms(1,2)
      by (subst api_call.simps) (auto simp: split_beta Let_def intro: order_trans)
  next
    case (Suc m)
    have "cl_clock C w \<le> cl_clock C (cl_sleep C d (snd (cl_send C w)))" for d
      using assms(1,2) by (simp add: add_increasing2)
    then show ?case using assms(2) Suc.IH order_trans
      by (subst api_call.simps) (fastforce simp: split_beta Let_def)
  qed
  have "n \<le> left \<and> (n < left \<longrightarrow> reply_status r \<noteq> Some 503)
     \<and> cl_clock C w + (\<Sum>i<n. 10 * (real (MAX_RETRIES - left) + real i + 1)) \<le> cl_clock C w'"
    if "ask_loop C left w = (r, n, w')" "left \<le> MAX_RETRIES" for left
    using that
  proof (induction left arbitrary: w n)
    case 0
    then show ?case using call[of w 9] by (auto simp: split_beta)
  next
    case (Suc left)
    obtain x w1 where x: "api_call C 9 w = (x, w1)" by fastforce
    have w1: "cl_clock C w \<le> cl_clock C w1" using call[of w 9] x by simp
    show ?case
    proof (cases "reply_status x = Some 503")
      case False
      then show ?thesis using Suc.prems(1) x w1 by simp
    next
      case True
      define d where "d = max (retry_wait 5 x) (10 * real (MAX_RETRIES - left))"
      obtain m where m: "ask_loop C left (cl_sleep C d w1) = (r, m, w')" "n = Suc m"
        using Suc.prems(1) x True by (auto simp: d_def split_beta Let_def prod_eq_iff)
      have d: "10 * real (MAX_RETRIES - left) \<le> max 0 d" by (simp add: d_def)
      have off: "real (MAX_RETRIES - left) = real (MAX_RETRIES - Suc left) + 1" using Suc.prems(2) by (simp add: of_nat_diff)
      show ?thesis
        using Suc.IH[OF m(1)] Suc.prems(2) w1 d assms(1) unfolding m(2) sum.lessThan_Suc_shift off
        by (auto simp: algebra_simps off)
    qed
  qed
  from this[OF assms(3)] have *: "n \<le> MAX_RETRIES \<and> (n < MAX_RETRIES \<longrightarrow> reply_status r \<noteq> Some 503)
     \<and> cl_clock C w + (\<Sum>i<n. 10 * (real i + 1)) \<le> cl_clock C w'" by simp
  have "(\<Sum>i<n. 10 * (real i + 1)) = 5 * real n * (real n + 1)" by (induction n) (simp_all add: algebra_simps)
  then show ?thesis using * by simp
qed

section \<open>Small examples\<close>

text \<open>The parts of \<open>15-minute\<close> give the number that the gold answer needs, but no word: the answer is not correct.\<close>

lemma hyphenated_units_lose_their_word:
  "specifics ''15 minutes'' \<subseteq> specifics ''It is a 15-minute window.'' \<and> \<not> is_correct ''It is a 15-minute window.'' ''15 minutes'' ''How long?''"
  by code_simp

definition busy_client :: "real client" where
  "busy_client = \<lparr>cl_send = (\<lambda>w. (Answered 503 (Some 5) ''busy'' None, w)), cl_sleep = (\<lambda>d w. w + max 0 d), cl_clock = (\<lambda>w. w)\<rparr>"

lemma the_client_waits_out_the_cooldown_witness:
  "\<exists>r w'. ask_loop busy_client MAX_RETRIES 0 = (r, 3, w') \<and> 60 \<le> w'"
proof -
  have call: "api_call busy_client 9 w = (Answered 503 (Some 5) ''busy'' None, w)" for w
    by (subst api_call.simps) (simp add: busy_client_def reply_status_def)
  have "ask_loop busy_client (Suc left) w = (let (x, n, w2) = ask_loop busy_client left (w + max 5 (10 * real (MAX_RETRIES - left))) in (x, Suc n, w2))"
    for left w using call by (simp add: reply_status_def retry_wait_def busy_client_def Let_def)
  then obtain r w' where a: "ask_loop busy_client MAX_RETRIES 0 = (r, 3, w')"
    using call by (auto simp: MAX_RETRIES_def numeral_3_eq_3)
  have "\<forall>d w. cl_clock busy_client (cl_sleep busy_client d w) = cl_clock busy_client w + max 0 d"
      "\<forall>w. cl_clock busy_client w \<le> cl_clock busy_client (snd (cl_send busy_client w))" by (simp_all add: busy_client_def)
  from the_client_waits_out_the_cooldown[OF this a] have "60 \<le> w'" by (simp add: busy_client_def)
  then show ?thesis using a by blast
qed

end
