(* ===== verification/Wire_Format.thy ===== *)
theory Wire_Format
  imports Chat_Service "HOL-Library.Sublist"
begin

text \<open>
  What a chat answer looks like on the wire (\<open>app/gateway/schemas.py\<close>, \<open>_build_response\<close> and \<open>_chunk\<close> in
  \<open>app/gateway/service.py\<close>) and the two clients of the repository that read a stream back: the smoke test
  (\<open>scripts/smoke_test.py\<close>) and the benchmark of the self-hosted model (\<open>loadtest/self_hosted.py\<close>).
  A JSON document is a value of \<open>json\<close>. The text pydantic prints for it, \<open>json.loads\<close> and the line reader
  of httpx are parameters. \<open>created\<close>, the clock of a document, is an argument.
\<close>

section \<open>Documents\<close>

definition or_null :: "('a \<Rightarrow> json) \<Rightarrow> 'a option \<Rightarrow> json" where
  "or_null f x = (case x of None \<Rightarrow> JNull | Some y \<Rightarrow> f y)"

fun outcome_text :: "outcome \<Rightarrow> string" where
  "outcome_text Success = ''success''"
| "outcome_text Error = ''error''"
| "outcome_text Timeout = ''timeout''"
| "outcome_text Skipped = ''skipped_circuit_open''"
| "outcome_text ClientError = ''client_error''"
| "outcome_text Interrupted = ''stream_interrupted''"

definition attempt_json :: "attempt \<Rightarrow> json" where
  "attempt_json a = JObj
     [(''deployment'', JStr (att_deployment a)), (''outcome'', JStr (outcome_text (att_outcome a))),
      (''latency_ms'', JReal (att_latency a)), (''error'', js (att_error a))]"

fun variant_text :: "variant_name \<Rightarrow> string" where
  "variant_text Stable = ''stable''"
| "variant_text Canary = ''canary''"

definition meta_fields :: "'a gateway_meta_scheme \<Rightarrow> (string \<times> json) list" where
  "meta_fields m =
     [(''deployment'', js (gm_deployment m)), (''cached'', JBool (gm_cached m)),
      (''route_variant'', js (map_option variant_text (gm_variant m))), (''cache_similarity'', or_null JReal (gm_similarity m)),
      (''cost_usd'', JReal (gm_cost m)), (''latency_ms'', JReal (gm_latency m)),
      (''attempts'', JArr (map attempt_json (gm_attempts m)))]"

text \<open>\<open>StreamMeta\<close>: the fields of \<open>GatewayMeta\<close> first, then its own.\<close>

definition footer_json :: "stream_meta \<Rightarrow> json" where
  "footer_json m = JObj (meta_fields m @
     [(''ttft_ms'', or_null JReal (sm_ttft m)), (''synthesized'', JBool (sm_synthesized m)),
      (''usage_estimated'', JBool (sm_estimated m)), (''interrupted'', js (sm_interrupted m))])"

definition usage_json :: "usage \<Rightarrow> json" where
  "usage_json u = JObj
     [(''prompt_tokens'', JNum (prompt_tokens u)), (''completion_tokens'', JNum (completion_tokens u)),
      (''total_tokens'', JNum (total_tokens u))]"

definition choice_json :: "chat_response \<Rightarrow> json" where
  "choice_json r = JObj
     [(''index'', JNum 0), (''message'', JObj [(''role'', JStr ''assistant''), (''content'', JStr (cr_content r))]),
      (''finish_reason'', JStr (cr_finish r))]"

definition response_json :: "string \<Rightarrow> int \<Rightarrow> chat_response \<Rightarrow> json" where
  "response_json i created r = JObj
     [(''id'', JStr i), (''object'', JStr ''chat.completion''), (''created'', JNum created), (''model'', JStr (cr_model r)),
      (''choices'', JArr [choice_json r]),
      (''usage'', usage_json (cr_usage r)), (''nexusgate'', JObj (meta_fields (cr_meta r)))]"

definition delta_json :: "chat_chunk \<Rightarrow> json" where
  "delta_json c = JObj [(''role'', js (if ck_role c then Some ''assistant'' else None)), (''content'', js (ck_content c))]"

definition chunk_choice_json :: "chat_chunk \<Rightarrow> json" where
  "chunk_choice_json c = JObj [(''index'', JNum 0), (''delta'', delta_json c), (''finish_reason'', js (ck_finish c))]"

definition chunk_json :: "int \<Rightarrow> chat_chunk \<Rightarrow> json" where
  "chunk_json created c = JObj
     [(''id'', JStr (ck_id c)), (''object'', JStr ''chat.completion.chunk''), (''created'', JNum created),
      (''model'', JStr (ck_model c)), (''choices'', JArr [chunk_choice_json c]),
      (''usage'', or_null usage_json (ck_usage c)), (''nexusgate'', or_null footer_json (ck_meta c))]"

text \<open>\<open>exclude_none\<close>: a field that is \<open>None\<close> is left out, at every depth.\<close>

fun drop_none :: "json \<Rightarrow> json" where
  "drop_none (JObj d) = JObj (map (\<lambda>(k, v). (k, drop_none v)) (filter (\<lambda>(k, v). v \<noteq> JNull) d))"
| "drop_none (JArr xs) = JArr (map drop_none xs)"
| "drop_none j = j"

text \<open>The chunk a stream sends, with the second it was made in.\<close>

definition sent_json :: "int \<times> chat_chunk \<Rightarrow> json" where
  "sent_json p = drop_none (chunk_json (fst p) (snd p))"

section \<open>Reading a stream\<close>

text \<open>\<open>check_streaming\<close>: the lines up to \<open>[DONE]\<close>; \<open>None\<close> when a line is not JSON.\<close>

fun read_events :: "(string \<Rightarrow> json option) \<Rightarrow> string list \<Rightarrow> (json list \<times> bool) option" where
  "read_events loads [] = Some ([], False)"
| "read_events loads (l # ls) =
     (if take 6 l \<noteq> ''data: '' then read_events loads ls
      else if drop 6 l = ''[DONE]'' then Some ([], True)
      else Option.bind (loads (drop 6 l)) (\<lambda>j. map_option (\<lambda>(cs, fin). (j # cs, fin)) (read_events loads ls)))"

text \<open>\<open>c["choices"][0]["delta"].get("content")\<close>, \<open>None\<close> when it raises; the same as a text to join, which raises
  on anything else.\<close>

definition delta_content_of :: "json \<Rightarrow> json option option" where
  "delta_content_of c =
     (case json_get c ''choices'' of
        Some (JArr (x # _)) \<Rightarrow>
          (case json_get x ''delta'' of Some (JObj d) \<Rightarrow> Some (dict_get d ''content'') | _ \<Rightarrow> None)
      | _ \<Rightarrow> None)"

definition delta_text :: "json \<Rightarrow> string option" where
  "delta_text c =
     (case delta_content_of c of Some None \<Rightarrow> Some [] | Some (Some (JStr s)) \<Rightarrow> Some s | _ \<Rightarrow> None)"

text \<open>Python's truth value of a document\<close>

fun truthy :: "json \<Rightarrow> bool" where
  "truthy JNull = False"
| "truthy (JBool b) = b"
| "truthy (JNum n) = (n \<noteq> 0)"
| "truthy (JReal x) = (x \<noteq> 0)"
| "truthy (JStr s) = (s \<noteq> [])"
| "truthy (JArr xs) = (xs \<noteq> [])"
| "truthy (JObj d) = (d \<noteq> [])"

definition get_or :: "json \<Rightarrow> string \<Rightarrow> json \<Rightarrow> json" where
  "get_or j k d = (case json_get j k of None \<Rightarrow> d | Some v \<Rightarrow> if truthy v then v else d)"

text \<open>A number of a document that must be a dictionary, 0 when the key is missing.\<close>

definition number_at :: "json \<Rightarrow> string \<Rightarrow> real option" where
  "number_at j k =
     (case j of
        JObj d \<Rightarrow> (case dict_get d k of None \<Rightarrow> Some 0 | Some (JNum n) \<Rightarrow> Some (of_int n) | Some (JReal x) \<Rightarrow> Some x | _ \<Rightarrow> None)
      | _ \<Rightarrow> None)"

datatype stream_fault = BadStatus int | BadType string | NoDone | FewChunks nat | WrongText string | NoFirstToken | NoUsage | Unreadable

definition check_streaming ::
  "(string \<Rightarrow> json option) \<Rightarrow> string \<Rightarrow> int \<times> string \<times> string list \<Rightarrow> stream_fault + real" where
  "check_streaming loads asked resp =
     (let (status, ctype, lines) = resp in
      if status \<noteq> 200 then Inl (BadStatus status)
      else if take 17 ctype \<noteq> ''text/event-stream'' then Inl (BadType ctype)
      else
        (case read_events loads lines of
           None \<Rightarrow> Inl Unreadable
         | Some (chunks, fin) \<Rightarrow>
             if \<not> fin then Inl NoDone
             else if length chunks \<le> 2 then Inl (FewChunks (length chunks))
             else
               (case all_some (map delta_text chunks) of
                  None \<Rightarrow> Inl Unreadable
                | Some ts \<Rightarrow>
                    if \<not> sublist asked (concat ts) then Inl (WrongText (concat ts))
                    else
                      (case number_at (get_or (last chunks) ''nexusgate'' (JObj [])) ''ttft_ms'' of
                         None \<Rightarrow> Inl Unreadable
                       | Some ttft \<Rightarrow>
                           if \<not> 0 < ttft then Inl NoFirstToken
                           else
                             (case number_at (case json_get (last chunks) ''usage'' of None \<Rightarrow> JObj [] | Some u \<Rightarrow> u) ''total_tokens'' of
                                None \<Rightarrow> Inl Unreadable
                              | Some n \<Rightarrow> if \<not> 0 < n then Inl NoUsage else Inr ttft)))))"

text \<open>\<open>one\<close>: every line with the clock when it arrived. The state is the time of the first text and the usage.\<close>

definition follow_line :: "(string \<Rightarrow> json option) \<Rightarrow> string \<times> seconds \<Rightarrow> seconds option \<times> json \<Rightarrow> (seconds option \<times> json) option" where
  "follow_line loads arrived acc =
     (let (l, now) = arrived; (seen, usage) = acc in
      if take 6 l \<noteq> ''data: '' \<or> l = ''data: [DONE]'' then Some acc
      else
        (case loads (drop 6 l) of
           None \<Rightarrow> None
         | Some c \<Rightarrow>
             map_option (\<lambda>t. (t, get_or c ''usage'' usage))
               (if seen \<noteq> None then Some seen
                else if json_get c ''choices'' = None then None
                else if \<not> truthy (the (json_get c ''choices'')) then Some None
                else map_option (\<lambda>x. if x \<noteq> None \<and> truthy (the x) then Some now else None) (delta_content_of c))))"

fun follow :: "(string \<Rightarrow> json option) \<Rightarrow> (string \<times> seconds) list \<Rightarrow> seconds option \<times> json \<Rightarrow> (seconds option \<times> json) option" where
  "follow loads [] acc = Some acc"
| "follow loads (l # ls) acc = Option.bind (follow_line loads l acc) (follow loads ls)"

record bench_run =
  br_ttft :: real
  br_total :: real
  br_prompt :: real
  br_completion :: real
  br_decode :: real

definition bench_one :: "(string \<Rightarrow> json option) \<Rightarrow> seconds \<Rightarrow> seconds \<Rightarrow> (string \<times> seconds) list \<Rightarrow> bench_run option" where
  "bench_one loads started finish lines =
     Option.bind (follow loads lines (None, JObj []))
       (\<lambda>(seen, usage).
          Option.bind (number_at usage ''completion_tokens'')
            (\<lambda>tokens. map_option
               (\<lambda>p. let total = finish - started;
                        ttft = (case seen of None \<Rightarrow> started | Some t \<Rightarrow> if t = 0 then started else t) - started
                    in \<lparr>br_ttft = ttft, br_total = total, br_prompt = p, br_completion = tokens,
                        br_decode = (if 1 < tokens \<and> ttft < total then (tokens - 1) / (total - ttft) else 0)\<rparr>)
               (number_at usage ''prompt_tokens'')))"

section \<open>What the libraries promise\<close>

text \<open>httpx hands out the lines of a body as \<open>str.splitlines\<close> would, so text without a line end in it comes
  back line by line. For the documents of a stream, pydantic prints an object from its brace, and
  \<open>json.loads\<close> reads back what it printed. That the printed text has no line end in it is a condition on
  the answer: a line feed is escaped, NEL is not.\<close>

definition reads_lines :: "(string \<Rightarrow> string list) \<Rightarrow> bool" where
  "reads_lines split \<longleftrightarrow>
     (\<forall>ls. (\<forall>l \<in> set ls. \<forall>c \<in> set l. \<not> is_line_end c) \<longrightarrow> split (concat (map (\<lambda>l. l @ [CHR 0x0A]) ls)) = ls)"

definition printed_well :: "(json \<Rightarrow> string) \<Rightarrow> (string \<Rightarrow> json option) \<Rightarrow> json \<Rightarrow> bool" where
  "printed_well dumps loads j \<longleftrightarrow>
     take 1 (dumps j) = ''{'' \<and> loads (dumps j) = Some j \<and> (\<forall>c \<in> set (dumps j). \<not> is_line_end c)"

lemma lines_from_line:
  "\<forall>c \<in> set l. \<not> is_line_end c \<Longrightarrow> lines_from cur (l @ CHR 0x0A # r) = (rev cur @ l) # lines_from [] r"
proof (induction l arbitrary: cur)
  case Nil
  then show ?case by (simp add: is_line_end_def)
next
  case (Cons c l)
  have "c \<noteq> CHR 0x0D" using Cons.prems by (auto simp: is_line_end_def)
  with Cons show ?case by simp
qed

lemma splitlines_reads_lines: "reads_lines splitlines"
proof -
  have "lines_from [] (concat (map (\<lambda>l. l @ [CHR 0x0A]) ls)) = ls" if "\<forall>l \<in> set ls. \<forall>c \<in> set l. \<not> is_line_end c" for ls
    using that by (induction ls) (simp_all add: lines_from_line)
  then show ?thesis by (simp add: reads_lines_def splitlines_def)
qed

section \<open>Documents and their readers\<close>

lemma drop_none_fields [simp]:
  "drop_none (js x) = js x" "js x = JNull \<longleftrightarrow> x = None" "or_null f y = JNull \<longleftrightarrow> y = None \<or> (\<exists>z. y = Some z \<and> f z = JNull)"
  "footer_json m \<noteq> JNull" "usage_json u \<noteq> JNull" "delta_json c \<noteq> JNull" "chunk_choice_json c \<noteq> JNull" "drop_none (usage_json u) = usage_json u"
  by (cases x; cases y; simp add: js_def or_null_def footer_json_def usage_json_def delta_json_def chunk_choice_json_def)+

lemma delta_content_sent [simp]: "delta_content_of (sent_json p) = Some (map_option JStr (ck_content (snd p)))"
  by (cases "ck_content (snd p)") (simp_all add: delta_content_of_def sent_json_def chunk_json_def chunk_choice_json_def delta_json_def js_def)

lemma delta_text_sent [simp]: "delta_text (sent_json p) = Some (chunk_text (snd p))"
  by (cases "ck_content (snd p)") (simp_all add: delta_text_def chunk_text_def)

lemma usage_sent [simp]: "json_get (sent_json p) ''usage'' = map_option usage_json (ck_usage (snd p))"
  by (cases "ck_usage (snd p)") (simp_all add: sent_json_def chunk_json_def or_null_def)

lemma footer_sent [simp]: "json_get (sent_json p) ''nexusgate'' = map_option (drop_none \<circ> footer_json) (ck_meta (snd p))"
  by (cases "ck_meta (snd p)") (simp_all add: sent_json_def chunk_json_def or_null_def)

lemma number_usage [simp]:
  "number_at (usage_json u) ''total_tokens'' = Some (of_int (total_tokens u))"
  "number_at (usage_json u) ''completion_tokens'' = Some (of_int (completion_tokens u))"
  "number_at (usage_json u) ''prompt_tokens'' = Some (of_int (prompt_tokens u))"
  by (simp_all add: number_at_def usage_json_def)

lemma number_ttft [simp]: "number_at (drop_none (footer_json m)) ''ttft_ms'' = Some (case sm_ttft m of None \<Rightarrow> 0 | Some x \<Rightarrow> x)"
  by (cases "sm_ttft m") (simp_all add: number_at_def footer_json_def meta_fields_def or_null_def)

lemma truthy_fields [simp]: "truthy (usage_json u)" "truthy (drop_none (footer_json m))"
  by (simp_all add: usage_json_def footer_json_def meta_fields_def)

lemma get_or_sent [simp]:
  "get_or (sent_json p) ''usage'' d = (case ck_usage (snd p) of None \<Rightarrow> d | Some u \<Rightarrow> usage_json u)"
  "get_or (sent_json p) ''nexusgate'' d = (case ck_meta (snd p) of None \<Rightarrow> d | Some m \<Rightarrow> drop_none (footer_json m))"
  by (cases "ck_usage (snd p)"; simp add: get_or_def) (cases "ck_meta (snd p)"; simp add: get_or_def)

lemma choices_sent [simp]: "\<exists>x xs. json_get (sent_json p) ''choices'' = Some (JArr (x # xs))"
  by (simp add: sent_json_def chunk_json_def chunk_choice_json_def)

text \<open>The lines of the body of a whole stream.\<close>

definition stream_lines :: "(json \<Rightarrow> string) \<Rightarrow> (int \<times> chat_chunk) list \<Rightarrow> string list" where
  "stream_lines dumps ps = concat (map (\<lambda>p. [''data: '' @ dumps (sent_json p), []]) ps) @ [''data: [DONE]'', []]"

lemma body_lines:
  assumes "reads_lines split" and "\<forall>p \<in> set ps. printed_well dumps loads (sent_json p)"
    and "stream_completions (dumps \<circ> sent_json) (ps, Finished) = Inr es"
  shows "split (concat es) = stream_lines dumps ps"
proof -
  let ?ended = "\<lambda>l. l @ [CHR 0x0A]"
  have "concat (map (sse (dumps \<circ> sent_json)) ps) = concat (map ?ended (concat (map (\<lambda>p. [''data: '' @ dumps (sent_json p), []]) ps)))"
    by (induction ps) (simp_all add: sse_def)
  then have "concat es = concat (map ?ended (stream_lines dumps ps))"
    using assms(3) by (auto simp: stream_completions_def stream_lines_def)
  moreover have "\<forall>l \<in> set (stream_lines dumps ps). \<forall>c \<in> set l. \<not> is_line_end c"
    using assms(2) by (auto simp: stream_lines_def printed_well_def is_line_end_def)
  ultimately show ?thesis using assms(1) by (simp add: reads_lines_def)
qed

lemma printed_line:
  assumes "printed_well dumps loads j"
  shows "dumps j \<noteq> ''[DONE]''" "loads (dumps j) = Some j"
  using assms by (auto simp: printed_well_def)

lemma read_stream_lines:
  assumes "\<forall>p \<in> set ps. printed_well dumps loads (sent_json p)"
  shows "read_events loads (stream_lines dumps ps) = Some (map sent_json ps, True)"
  using assms by (induction ps) (auto simp: stream_lines_def printed_line)

lemma follow_line_sent:
  assumes "printed_well dumps loads (sent_json p)"
  shows "follow_line loads (''data: '' @ dumps (sent_json p), now) (seen, usage) =
    Some (if seen = None \<and> chunk_text (snd p) \<noteq> [] then Some now else seen,
          case ck_usage (snd p) of None \<Rightarrow> usage | Some u \<Rightarrow> usage_json u)"
proof -
  obtain x xs where "json_get (sent_json p) ''choices'' = Some (JArr (x # xs))" using choices_sent by blast
  with assms show ?thesis
    by (cases "ck_content (snd p)") (auto simp: follow_line_def printed_line chunk_text_def)
qed

lemma follow_sent:
  assumes "\<forall>p \<in> set ps. printed_well dumps loads (sent_json p)" and "map fst arrivals = stream_lines dumps ps"
  shows "\<exists>t. follow loads arrivals (seen, usage) =
      Some (t, fold (\<lambda>p u. case ck_usage (snd p) of None \<Rightarrow> u | Some x \<Rightarrow> usage_json x) ps usage)
    \<and> (\<forall>t0. seen = Some t0 \<longrightarrow> t = Some t0)
    \<and> (seen = None \<and> ps \<noteq> [] \<and> chunk_text (snd (hd ps)) \<noteq> [] \<longrightarrow> t = Some (snd (hd arrivals)))"
  using assms
proof (induction ps arbitrary: arrivals seen usage)
  case Nil
  then obtain a b where "arrivals = [(''data: [DONE]'', a), ([], b)]" by (auto simp: stream_lines_def)
  then show ?case by (simp add: follow_line_def)
next
  case (Cons p ps)
  from Cons.prems(2) obtain a b rest where arr: "arrivals = (''data: '' @ dumps (sent_json p), a) # ([], b) # rest"
      and rest: "map fst rest = stream_lines dumps ps"
    by (auto simp: stream_lines_def)
  have p: "printed_well dumps loads (sent_json p)" using Cons.prems(1) by simp
  let ?seen = "if seen = None \<and> chunk_text (snd p) \<noteq> [] then Some a else seen"
  let ?usage = "case ck_usage (snd p) of None \<Rightarrow> usage | Some u \<Rightarrow> usage_json u"
  from Cons.IH[OF _ rest, of ?seen ?usage] Cons.prems(1)
  obtain t where t: "follow loads rest (?seen, ?usage) =
      Some (t, fold (\<lambda>p u. case ck_usage (snd p) of None \<Rightarrow> u | Some x \<Rightarrow> usage_json x) ps ?usage)"
    "\<forall>t0. ?seen = Some t0 \<longrightarrow> t = Some t0" by auto
  have "follow loads arrivals (seen, usage) = follow loads rest (?seen, ?usage)"
    unfolding arr follow.simps follow_line_sent[OF p] by (simp add: follow_line_def)
  with t arr show ?case by auto
qed

lemma bench_reads_the_last_usage:
  assumes "\<forall>p \<in> set ps. printed_well dumps loads (sent_json p)" and "map fst arrivals = stream_lines dumps ps"
    and "ps \<noteq> []" and "ck_usage (snd (last ps)) = Some u"
  shows "\<exists>run. bench_one loads started finish arrivals = Some run \<and> br_completion run = of_int (completion_tokens u)
    \<and> br_prompt run = of_int (prompt_tokens u)
    \<and> (chunk_text (snd (hd ps)) \<noteq> [] \<and> snd (hd arrivals) \<noteq> 0 \<longrightarrow> br_ttft run = snd (hd arrivals) - started)"
proof -
  obtain qs q where ps: "ps = qs @ [q]" using assms(3) by (cases ps rule: rev_cases) auto
  from follow_sent[OF assms(1,2), of None "JObj []"] assms(3,4)
  obtain t where "follow loads arrivals (None, JObj []) = Some (t, usage_json u)"
      "chunk_text (snd (hd ps)) \<noteq> [] \<longrightarrow> t = Some (snd (hd arrivals))" by (auto simp: ps)
  then show ?thesis by (auto simp: bench_one_def Let_def)
qed

lemma finished_stream_ends_with_usage:
  assumes "chat_stream C p req hang s = (cs, Finished, s')"
  obtains u where "cs \<noteq> []" "ck_usage (last cs) = Some u"
    "gw_counters (gw s') = gw_counters (gw s) \<or> (\<exists>d c. gw_counters (gw s') = gw_counters (gw s) @ [\<lparr>m_deployment = d, m_usage = u, m_cost = c\<rparr>])"
  using assms
proof (cases rule: finished_stream)
  case (replay f v start s2)
  moreover have "cs \<noteq> []"
    using replay(1) by (auto simp: stream_hit_def replay_chunks_def Let_def split_beta split: if_splits option.splits)
  ultimately show ?thesis using stream_hit_finished[OF replay(1)] by (intro that) auto
next
  case (stream os v start s2)
  moreover have "cs \<noteq> []"
    using stream(2) by (auto simp: stream_opened_def Let_def split_beta split: if_splits option.splits stream_end.splits)
  ultimately show ?thesis using stream_opened_finished[OF stream] by (blast intro: that)
qed

section \<open>What a client learns\<close>

text \<open>C40: A client reads back the stream it was sent: the documents in order up to \<open>[DONE]\<close>, whose texts put
  together are the answer. The benchmark takes its tokens from the last chunk, which are the tokens the
  gateway counted when it counted any, and its time to first token is the arrival of the first line when
  the first chunk has text.\<close>

theorem a_client_reads_what_was_counted:
  assumes "chat_stream C p req hang s = (map snd ps, Finished, s')"
    and "stream_completions (dumps \<circ> sent_json) (ps, Finished) = Inr es"
    and "reads_lines split" and "\<forall>q \<in> set ps. printed_well dumps loads (sent_json q)"
    and "map fst arrivals = split (concat es)"
  shows "read_events loads (split (concat es)) = Some (map sent_json ps, True)
    \<and> (\<exists>texts. all_some (map (delta_text \<circ> sent_json) ps) = Some texts \<and> concat texts = streamed_text (map snd ps))
    \<and> (\<exists>run u. bench_one loads started finish arrivals = Some run
         \<and> ck_usage (last (map snd ps)) = Some u \<and> br_completion run = of_int (completion_tokens u)
         \<and> br_prompt run = of_int (prompt_tokens u)
         \<and> (chunk_text (hd (map snd ps)) \<noteq> [] \<and> snd (hd arrivals) \<noteq> 0 \<longrightarrow> br_ttft run = snd (hd arrivals) - started)
         \<and> (gw_counters (gw s') = gw_counters (gw s)
            \<or> (\<exists>d c. gw_counters (gw s') = gw_counters (gw s) @ [\<lparr>m_deployment = d, m_usage = u, m_cost = c\<rparr>])))"
proof -
  note lines = body_lines[OF assms(3,4,2)]
  obtain u where u: "map snd ps \<noteq> []" "ck_usage (last (map snd ps)) = Some u"
      "gw_counters (gw s') = gw_counters (gw s)
        \<or> (\<exists>d c. gw_counters (gw s') = gw_counters (gw s) @ [\<lparr>m_deployment = d, m_usage = u, m_cost = c\<rparr>])"
    using finished_stream_ends_with_usage[OF assms(1)] by blast
  have "all_some (map (delta_text \<circ> sent_json) ps) = Some (map (chunk_text \<circ> snd) ps)"
    by (simp add: all_some_def image_iff)
  moreover have "concat (map (chunk_text \<circ> snd) ps) = streamed_text (map snd ps)"
    by (simp add: streamed_text_def)
  ultimately show ?thesis
    using read_stream_lines[OF assms(4)] lines u
      bench_reads_the_last_usage[OF assms(4), of arrivals u started finish] assms(5)
    by (auto simp: last_map hd_map)
qed

text \<open>The smoke test passes a stream exactly when it brought more than two chunks, its text holds what was
  asked for, and its last chunk carries a time to first token and a number of tokens above 0; what it
  reports is that time.\<close>

theorem the_smoke_test_judges_the_stream:
  assumes "stream_completions (dumps \<circ> sent_json) (ps, Finished) = Inr es"
    and "reads_lines split" and "\<forall>q \<in> set ps. printed_well dumps loads (sent_json q)"
    and "take 17 ctype = ''text/event-stream''"
  shows "check_streaming loads asked (200, ctype, split (concat es)) = Inr ttft \<longleftrightarrow>
      2 < length ps \<and> sublist asked (streamed_text (map snd ps)) \<and> 0 < ttft
      \<and> (\<exists>m. ck_meta (snd (last ps)) = Some m \<and> sm_ttft m = Some ttft)
      \<and> (\<exists>u. ck_usage (snd (last ps)) = Some u \<and> 0 < total_tokens u)"
proof -
  have texts: "all_some (map delta_text (map sent_json ps)) = Some (map (chunk_text \<circ> snd) ps)"
    by (simp add: all_some_def image_iff)
  have joined: "concat (map (chunk_text \<circ> snd) ps) = streamed_text (map snd ps)" by (simp add: streamed_text_def)
  have read: "read_events loads (split (concat es)) = Some (map sent_json ps, True)"
    using body_lines[OF assms(2,3,1)] read_stream_lines[OF assms(3)] by simp
  have none: "number_at (JObj []) k = Some 0" for k by (simp add: number_at_def)
  show ?thesis
  proof (cases "2 < length ps")
    case False
    then show ?thesis using read assms(4) by (simp add: check_streaming_def)
  next
    case True
    then have "last (map sent_json ps) = sent_json (last ps)" by (intro last_map) auto
    with True read assms(4) texts show ?thesis
      by (cases "ck_meta (snd (last ps))"; cases "ck_usage (snd (last ps))")
        (auto simp: check_streaming_def joined none split: if_splits option.splits)
  qed
qed

section \<open>Examples\<close>

text \<open>A printer for the documents of one stream: a brace, then as many letters as the place of the document.\<close>

definition ex_dumps :: "json list \<Rightarrow> json \<Rightarrow> string" where
  "ex_dumps docs j = CHR ''{'' # replicate (length (takeWhile (\<lambda>d. d \<noteq> j) docs)) (CHR ''x'')"

definition ex_loads :: "json list \<Rightarrow> string \<Rightarrow> json option" where
  "ex_loads docs s = (if length s \<le> length docs then Some (docs ! (length s - 1)) else None)"

lemma ex_printed_well: "j \<in> set docs \<Longrightarrow> printed_well (ex_dumps docs) (ex_loads docs) j"
proof -
  assume j: "j \<in> set docs"
  then have n: "length (takeWhile (\<lambda>d. d \<noteq> j) docs) < length docs"
    by (induction docs) auto
  then have "docs ! length (takeWhile (\<lambda>d. d \<noteq> j) docs) = j" using nth_length_takeWhile[OF n] by simp
  with n show ?thesis by (auto simp: printed_well_def ex_dumps_def ex_loads_def is_line_end_def)
qed

lemma a_client_reads_what_was_counted_witness:
  "\<exists>cs s' es docs. chat_stream caching_service ex_principal ex_request None warm_state = (cs, Finished, s')
     \<and> stream_completions (ex_dumps docs \<circ> sent_json) (map (Pair 0) cs, Finished) = Inr es
     \<and> read_events (ex_loads docs) (splitlines (concat es)) = Some (docs, True) \<and> streamed_text cs = ''hi''"
proof -
  obtain cs s' where cs: "chat_stream caching_service ex_principal ex_request None warm_state = (cs, Finished, s')" "streamed_text cs = ''hi''"
    using a_cached_answer_streams_the_same_witness by blast
  define ps where "ps = map (Pair (0::int)) cs"
  define docs where "docs = map sent_json ps"
  obtain es where es: "stream_completions (ex_dumps docs \<circ> sent_json) (ps, Finished) = Inr es"
    by (simp add: stream_completions_def)
  have ok: "\<forall>q \<in> set ps. printed_well (ex_dumps docs) (ex_loads docs) (sent_json q)"
    by (auto simp: docs_def intro!: ex_printed_well)
  have "chat_stream caching_service ex_principal ex_request None warm_state = (map snd ps, Finished, s')"
    using cs(1) by (simp add: ps_def comp_def)
  note read = a_client_reads_what_was_counted[OF this es splitlines_reads_lines ok]
  have "map fst (map (\<lambda>l. (l, 1)) (splitlines (concat es))) = splitlines (concat es)" by (simp add: comp_def)
  then have "read_events (ex_loads docs) (splitlines (concat es)) = Some (map sent_json ps, True)" using read by blast
  with cs es show ?thesis unfolding ps_def docs_def by blast
qed

definition ex_meta :: stream_meta where
  "ex_meta = \<lparr>gm_deployment = Some ''m'', gm_cached = False, gm_variant = None, gm_similarity = None, gm_cost = 0, gm_latency = 9,
     gm_attempts = [], sm_ttft = Some 5, sm_synthesized = False, sm_estimated = False, sm_interrupted = None\<rparr>"

definition ex_sent :: "(int \<times> chat_chunk) list" where
  "ex_sent = [(1, text_chunk ''i'' ''m'' True ''ab''), (1, text_chunk ''i'' ''m'' False ''c''),
     (2, last_chunk ''i'' ''m'' ''stop'' \<lparr>prompt_tokens = 1, completion_tokens = 2\<rparr> ex_meta)]"

lemma the_smoke_test_judges_the_stream_witness:
  "\<exists>es docs. stream_completions (ex_dumps docs \<circ> sent_json) (ex_sent, Finished) = Inr es
     \<and> check_streaming (ex_loads docs) ''bc'' (200, ''text/event-stream; charset=utf-8'', splitlines (concat es)) = Inr 5"
proof -
  define docs where "docs = map sent_json ex_sent"
  obtain es where es: "stream_completions (ex_dumps docs \<circ> sent_json) (ex_sent, Finished) = Inr es"
    by (simp add: stream_completions_def)
  have ok: "\<forall>q \<in> set ex_sent. printed_well (ex_dumps docs) (ex_loads docs) (sent_json q)"
    by (auto simp: docs_def intro!: ex_printed_well)
  have t: "streamed_text (map snd ex_sent) = ''a'' @ ''bc'' @ []" by (simp add: ex_sent_def streamed_text_def)
  then have "sublist ''bc'' (streamed_text (map snd ex_sent))" unfolding sublist_def by blast
  then have "check_streaming (ex_loads docs) ''bc'' (200, ''text/event-stream; charset=utf-8'', splitlines (concat es)) = Inr 5"
    by (subst the_smoke_test_judges_the_stream[OF es splitlines_reads_lines ok])
      (simp_all add: ex_sent_def last_chunk_def ex_meta_def total_tokens_def)
  with es show ?thesis by blast
qed

end
