(* ===== verification/Load_Drivers.thy ===== *)
theory Load_Drivers
  imports Wire_Format Retrieval_Eval
begin

text \<open>
  What the drivers of the load tests decide from what they see: the streamed request of the Locust user
  (\<open>loadtest/locustfile.py\<close>), the watch and the uploads of the autoscaling test (\<open>loadtest/autoscale.py\<close>), and
  the wait for a quiet host of the self-hosted benchmark (\<open>loadtest/self_hosted.py\<close>). The bytes of a body, the
  samples of the cluster and the clocks are arguments.
\<close>

section \<open>A streamed request\<close>

text \<open>\<open>chunk[-16:]\<close>, and the state of the loop over the body: the carry, what was seen, the bytes received.\<close>

definition tail_of :: "nat \<Rightarrow> 'a list \<Rightarrow> 'a list" where "tail_of n xs = drop (length xs - n) xs"

record body_scan =
  bs_carry :: string
  bs_event :: bool
  bs_done :: bool
  bs_received :: nat

definition scan_chunk :: "string \<Rightarrow> body_scan \<Rightarrow> body_scan" where
  "scan_chunk c b =
     (if c = [] then b
      else
        (let window = bs_carry b @ c in
         \<lparr>bs_carry = tail_of 16 c, bs_event = (bs_event b \<or> sublist ''data:'' window),
          bs_done = (bs_done b \<or> sublist ''[DONE]'' window), bs_received = bs_received b + length c\<rparr>))"

definition scan_body :: "string list \<Rightarrow> body_scan" where
  "scan_body cs = fold scan_chunk cs \<lparr>bs_carry = [], bs_event = False, bs_done = False, bs_received = 0\<rparr>"

datatype stream_report = HttpFailure int | NoEvents | NoTerminator | Complete nat

definition chat_stream_task :: "int \<Rightarrow> string list \<Rightarrow> stream_report" where
  "chat_stream_task code cs =
     (if code \<noteq> 200 then HttpFailure code
      else
        (let b = scan_body cs in
         if \<not> bs_event b then NoEvents else if \<not> bs_done b then NoTerminator else Complete (bs_received b)))"

lemma sublist_append_tail:
  assumes "suffix t b" and "length m \<le> Suc (length t)"
  shows "sublist m (b @ c) \<longleftrightarrow> sublist m b \<or> sublist m (t @ c)"
proof
  assume "sublist m (b @ c)"
  then consider "sublist m b" | "sublist m c" | m1 m2 where "m = m1 @ m2" "suffix m1 b" "prefix m2 c"
    by (auto simp: sublist_append)
  then show "sublist m b \<or> sublist m (t @ c)"
  proof cases
    case 3
    show ?thesis
    proof (cases "m2 = []")
      case True
      with 3 show ?thesis by (simp add: suffix_imp_sublist)
    next
      case False
      then have "length m1 \<le> length t" using assms(2) 3(1) by (cases m2) auto
      then have "suffix m1 t" using suffix_length_suffix[OF 3(2) assms(1)] by simp
      with 3 show ?thesis by (auto simp: sublist_append)
    qed
  qed (auto simp: sublist_append)
next
  assume either: "sublist m b \<or> sublist m (t @ c)"
  obtain z where "b = z @ t" using assms(1) by (auto simp: suffix_def)
  then have "sublist b (b @ c)" "sublist (t @ c) (b @ c)" by auto
  with either show "sublist m (b @ c)" using sublist_order.order_trans by blast
qed

text \<open>Markers of at most six bytes are found across a border when no piece before the last has fewer than five.\<close>

lemma scan_body_snoc: "scan_body (cs @ [c]) = scan_chunk c (scan_body cs)"
  by (simp add: scan_body_def)

lemma suffix_tail_of: "suffix (tail_of n xs) xs"
  by (simp add: tail_of_def suffix_drop)

lemma scan_body_carry:
  "\<forall>c \<in> set cs. 5 \<le> length c \<Longrightarrow>
     suffix (bs_carry (scan_body cs)) (concat cs) \<and> (cs = [] \<or> 5 \<le> length (bs_carry (scan_body cs)))"
proof (induction cs rule: rev_induct)
  case (snoc c cs)
  have "bs_carry (scan_body (cs @ [c])) = tail_of 16 c"
    using snoc.prems by (auto simp: scan_body_snoc scan_chunk_def Let_def)
  moreover have "length (tail_of 16 c) = min 16 (length c)" by (simp add: tail_of_def min_def)
  ultimately show ?case using snoc.prems suffix_tail_of[of 16 c] by (simp add: suffix_appendI)
qed (simp add: scan_body_def)

lemma scan_chunk_sees:
  assumes "suffix (bs_carry b) body" and "body = [] \<or> 5 \<le> length (bs_carry b)"
    and "bs_event b = sublist ''data:'' body" and "bs_done b = sublist ''[DONE]'' body" and "bs_received b = length body"
  shows "bs_event (scan_chunk c b) = sublist ''data:'' (body @ c)" "bs_done (scan_chunk c b) = sublist ''[DONE]'' (body @ c)"
    "bs_received (scan_chunk c b) = length (body @ c)"
proof -
  have "sublist m (body @ c) \<longleftrightarrow> sublist m body \<or> sublist m (bs_carry b @ c)" if "m \<noteq> []" "length m \<le> 6" for m
  proof (cases "body = []")
    case True
    with assms(1) show ?thesis using that by auto
  next
    case False
    with assms(1,2) show ?thesis using that by (intro sublist_append_tail) auto
  qed
  from this[of "''data:''"] this[of "''[DONE]''"] assms(3,4,5)
  show "bs_event (scan_chunk c b) = sublist ''data:'' (body @ c)" "bs_done (scan_chunk c b) = sublist ''[DONE]'' (body @ c)"
    "bs_received (scan_chunk c b) = length (body @ c)"
    by (auto simp: scan_chunk_def Let_def)
qed

lemma scan_body_sees_all:
  assumes "\<forall>c \<in> set cs. 5 \<le> length c"
  shows "bs_event (scan_body cs) = sublist ''data:'' (concat cs) \<and> bs_done (scan_body cs) = sublist ''[DONE]'' (concat cs)
    \<and> bs_received (scan_body cs) = length (concat cs)"
  using assms
proof (induction cs rule: rev_induct)
  case Nil
  show ?case by (simp add: scan_body_def)
next
  case (snoc c cs)
  have "suffix (bs_carry (scan_body cs)) (concat cs)" "concat cs = [] \<or> 5 \<le> length (bs_carry (scan_body cs))"
    using scan_body_carry[of cs] snoc.prems by auto
  from scan_chunk_sees[OF this] snoc show ?case by (simp add: scan_body_snoc)
qed

lemma scan_body_sees:
  assumes "\<forall>c \<in> set (butlast cs). 5 \<le> length c"
  shows "bs_event (scan_body cs) = sublist ''data:'' (concat cs) \<and> bs_done (scan_body cs) = sublist ''[DONE]'' (concat cs)
    \<and> bs_received (scan_body cs) = length (concat cs)"
proof (cases cs rule: rev_cases)
  case Nil
  then show ?thesis by (simp add: scan_body_def)
next
  case (snoc ds c)
  have "suffix (bs_carry (scan_body ds)) (concat ds)" "concat ds = [] \<or> 5 \<le> length (bs_carry (scan_body ds))"
    using scan_body_carry[of ds] assms snoc by auto
  from scan_chunk_sees[OF this] scan_body_sees_all[of ds] assms snoc show ?thesis by (simp add: scan_body_snoc)
qed

text \<open>However the bytes of a finished stream are cut into pieces, of five or more before the last, the load test
  counts the whole stream; a stream that was cut off it only takes for whole when the text holds the marker.\<close>

theorem a_finished_stream_is_counted_whole:
  assumes "stream_completions dump (ps, fin) = Inr es" and "concat es = concat cs" and "\<forall>c \<in> set (butlast cs). 5 \<le> length c"
    and "ps \<noteq> []"
  shows "chat_stream_task 200 cs =
    (if fin = Finished \<or> sublist ''[DONE]'' (concat es) then Complete (length (concat es)) else NoTerminator)"
proof -
  have "\<exists>r. concat es = [] @ ''data:'' @ r"
    using assms(1,4) by (cases ps; cases fin) (auto simp: stream_completions_def sse_def)
  then have "sublist ''data:'' (concat es)" unfolding sublist_def by blast
  moreover have "\<exists>a. concat es = a @ ''[DONE]'' @ [CHR 0x0A, CHR 0x0A]" if "fin = Finished"
    using assms(1) that
    by (intro exI[of _ "concat (map (sse dump) ps) @ ''data: ''"]) (auto simp: stream_completions_def)
  then have "fin = Finished \<Longrightarrow> sublist ''[DONE]'' (concat es)" unfolding sublist_def by blast
  ultimately show ?thesis
    using scan_body_sees[OF assms(3)] assms(2) by (auto simp: chat_stream_task_def Let_def)
qed

text \<open>The carry is the tail of one piece only, so shorter pieces hide the marker.\<close>

lemma short_pieces_hide_the_marker:
  "chat_stream_task 200 [''data: x'', ''data: [D'', ''O'', ''NE]''] = NoTerminator"
  by (simp add: chat_stream_task_def scan_body_def scan_chunk_def tail_of_def sublist_code)

section \<open>The autoscaling test\<close>

record cluster_sample =
  cl_t :: real
  cl_queue :: real
  cl_per_pod :: "real option"
  cl_cpu :: "real option"
  cl_workers :: int
  cl_ready :: int

record watch_state =
  ws_peak_queue :: real
  ws_peak_workers :: int
  ws_scaled_at :: "real option"
  ws_queue_at :: "real option"
  ws_drained_at :: "real option"

definition new_watch :: "int \<Rightarrow> watch_state" where
  "new_watch start = \<lparr>ws_peak_queue = 0, ws_peak_workers = start, ws_scaled_at = None, ws_queue_at = None, ws_drained_at = None\<rparr>"

definition see_sample :: "cluster_sample \<Rightarrow> watch_state \<Rightarrow> watch_state" where
  "see_sample r w =
     (let w1 = w\<lparr>ws_peak_queue := max (ws_peak_queue w) (cl_queue r)\<rparr> in
      if ws_peak_workers w1 < cl_workers r then
        (let w2 = w1\<lparr>ws_peak_workers := cl_workers r\<rparr> in
         if ws_scaled_at w2 = None then w2\<lparr>ws_scaled_at := Some (cl_t r), ws_queue_at := Some (cl_queue r)\<rparr> else w2)
      else w1)"

text \<open>The loop: the clock before each turn and the sample the turn takes. \<open>None\<close>: it asks for more samples.\<close>

fun watch :: "seconds \<Rightarrow> (seconds \<times> cluster_sample) list \<Rightarrow> watch_state \<Rightarrow> watch_state option" where
  "watch deadline [] w = None"
| "watch deadline ((now, r) # rs) w =
     (if \<not> now < deadline then Some w
      else
        (let w1 = see_sample r w in
         if cl_queue r = 0 \<and> ws_drained_at w1 = None \<and> 0 < ws_peak_queue w1 then Some (w1\<lparr>ws_drained_at := Some (cl_t r)\<rparr>)
         else watch deadline rs w1))"

text \<open>What the samples of a watch amount to.\<close>

definition watched :: "int \<Rightarrow> cluster_sample list \<Rightarrow> watch_state" where
  "watched start rows =
     (let scaled = find (\<lambda>r. start < cl_workers r) rows in
      \<lparr>ws_peak_queue = fold max (map cl_queue rows) 0, ws_peak_workers = fold max (map cl_workers rows) start,
       ws_scaled_at = map_option cl_t scaled, ws_queue_at = map_option cl_queue scaled, ws_drained_at = None\<rparr>)"

lemma fold_max_start: "find (\<lambda>r. s < f r) rows = None \<Longrightarrow> fold max (map f rows) s = (s :: int)"
  by (induction rows) (auto split: if_splits)

lemma see_sample_watched: "see_sample r (watched start rows) = watched start (rows @ [r])"
proof (cases "find (\<lambda>r. start < cl_workers r) rows")
  case None
  with fold_max_start[OF None] show ?thesis by (auto simp: see_sample_def watched_def find_snoc Let_def max_def)
next
  case (Some x)
  then show ?thesis by (auto simp: see_sample_def watched_def find_snoc Let_def max_def)
qed

lemma watch_from:
  "watch deadline rs (watched start rows) = Some w \<Longrightarrow>
     (\<exists>k. let seen = rows @ map snd (take k rs) in
        w = watched start seen \<or>
        (k > 0 \<and> k \<le> length rs \<and> cl_queue (last seen) = 0 \<and> 0 < ws_peak_queue (watched start seen)
           \<and> w = (watched start seen)\<lparr>ws_drained_at := Some (cl_t (last seen))\<rparr>))"
proof (induction rs arbitrary: rows)
  case Nil
  then show ?case by simp
next
  case (Cons x rs)
  obtain now r where x: "x = (now, r)" by (cases x)
  have fresh: "ws_drained_at (watched start rs) = None" for rs by (simp add: watched_def Let_def)
  consider "\<not> now < deadline" | "now < deadline" "cl_queue r = 0" "0 < ws_peak_queue (watched start (rows @ [r]))"
    | "watch deadline rs (watched start (rows @ [r])) = Some w"
    using Cons.prems by (auto simp: x see_sample_watched fresh Let_def split: if_splits)
  then show ?case
  proof cases
    case 1
    with Cons.prems show ?thesis by (intro exI[of _ 0]) (simp add: x)
  next
    case 2
    with Cons.prems have "w = (watched start (rows @ [r]))\<lparr>ws_drained_at := Some (cl_t r)\<rparr>"
      by (simp add: x see_sample_watched fresh Let_def)
    with 2 show ?thesis by (intro exI[of _ 1]) (simp add: x)
  next
    case 3
    from Cons.IH[OF this] obtain k where "let seen = (rows @ [r]) @ map snd (take k rs) in
        w = watched start seen \<or>
        (k > 0 \<and> k \<le> length rs \<and> cl_queue (last seen) = 0 \<and> 0 < ws_peak_queue (watched start seen)
           \<and> w = (watched start seen)\<lparr>ws_drained_at := Some (cl_t (last seen))\<rparr>)" ..
    then show ?thesis by (intro exI[of _ "Suc k"]) (auto simp: x Let_def)
  qed
qed

text \<open>A watch reports the samples it took: the deepest queue, the most workers, the first sample with more
  workers than there were at the start, and a drained queue only at a last sample that found it empty after
  one that did not.\<close>

theorem the_watch_reports_its_samples:
  assumes "watch deadline rs (new_watch start) = Some w"
  shows "\<exists>k. let rows = map snd (take k rs); scaled = find (\<lambda>r. start < cl_workers r) rows in
    ws_peak_queue w = fold max (map cl_queue rows) 0 \<and> ws_peak_workers w = fold max (map cl_workers rows) start
    \<and> ws_scaled_at w = map_option cl_t scaled \<and> ws_queue_at w = map_option cl_queue scaled
    \<and> (ws_drained_at w = None \<or> rows \<noteq> [] \<and> ws_drained_at w = Some (cl_t (last rows)) \<and> cl_queue (last rows) = 0
         \<and> 0 < fold max (map cl_queue rows) 0)"
proof -
  have "new_watch start = watched start []" by (simp add: new_watch_def watched_def)
  with assms watch_from[of deadline rs start "[]" w] show ?thesis
    by (fastforce simp: watched_def Let_def)
qed

text \<open>\<open>upload_burst\<close>: the documents and how many were accepted; \<open>post\<close> is the status of an upload. An empty corpus
  raises.\<close>

fun join_with :: "string \<Rightarrow> string list \<Rightarrow> string" where
  "join_with sep [] = []"
| "join_with sep [x] = x"
| "join_with sep (x # y # ys) = x @ sep @ join_with sep (y # ys)"

definition burst_data :: "nat \<Rightarrow> string \<Rightarrow> nat \<Rightarrow> string" where
  "burst_data copies body n =
     join_with [CHR 0x0A, CHR 0x0A] (replicate copies body) @ [CHR 0x0A, CHR 0x0A] @ ''Burst upload '' @ decimal n @ ''.'' @ [CHR 0x0A]"

definition burst_document :: "(string \<times> string) list \<Rightarrow> nat \<Rightarrow> nat \<Rightarrow> string \<times> string" where
  "burst_document corpus copies n =
     (let (name, body) = corpus ! (n mod length corpus) in (''burst-'' @ decimal n @ ''-'' @ name, burst_data copies body n))"

definition upload_burst :: "(string \<times> string) list \<Rightarrow> (string \<times> string \<Rightarrow> int) \<Rightarrow> nat \<Rightarrow> nat \<Rightarrow> nat option" where
  "upload_burst corpus post documents copies =
     (if corpus = [] \<and> 0 < documents then None
      else Some (length (filter (\<lambda>n. post (burst_document corpus copies n) = 202) [0..<documents])))"

lemma burst_data_inj: "burst_data a x n = burst_data b y m \<Longrightarrow> n = m"
proof -
  assume eq: "burst_data a x n = burst_data b y m"
  have digits: "takeWhile is_digit (drop 2 (rev (burst_data k z i))) = rev (decimal i)" for k z i
  proof -
    have "takeWhile is_digit (rev (decimal i) @ CHR '' '' # r) = rev (decimal i)" for r
      using decimal_digits[of _ i] by (subst takeWhile_append2) (auto simp: is_digit_def)
    then show ?thesis by (simp add: burst_data_def)
  qed
  from digits[of a x n] digits[of b y m] eq show ?thesis by simp
qed

text \<open>No two uploads of a burst have the same bytes, so no two are the same document.\<close>

theorem a_burst_uploads_distinct_documents:
  "distinct (map (\<lambda>n. snd (burst_document corpus copies n)) [0..<documents])"
  by (auto simp: distinct_map inj_on_def burst_document_def split_beta dest: burst_data_inj)

section \<open>A quiet host\<close>

text \<open>\<open>_cpu_times\<close> on Linux: the idle and the total ticks of the first line of \<open>/proc/stat\<close>; it raises on a short line.\<close>

definition cpu_times :: "int list \<Rightarrow> (int \<times> int) option" where
  "cpu_times ticks = (if length ticks < 5 then None else Some (ticks ! 3 + ticks ! 4, sum_list ticks))"

text \<open>\<open>_run\<close>: one reading a second, each against the one before.\<close>

fun host_samples :: "int \<times> int \<Rightarrow> (seconds \<times> int \<times> int) list \<Rightarrow> (seconds \<times> real) list" where
  "host_samples before [] = []"
| "host_samples before ((now, x) # xs) =
     (let idle = fst x - fst before; total = snd x - snd before; rest = host_samples x xs in
      if 0 < total then (now, 100 * (1 - of_int idle / of_int total)) # rest else rest)"

definition host_mean :: "(seconds \<times> real) list \<Rightarrow> seconds \<Rightarrow> seconds \<Rightarrow> real option" where
  "host_mean samples start finish =
     (let window = map snd (filter (\<lambda>(t, b). start \<le> t \<and> t \<le> finish) samples) in
      if window = [] then None else Some (py_round 1 (sum_list window / real (length window))))"

text \<open>\<open>settle\<close>: a reading of the namespace and of the host every turn, with the clock after it. \<open>None\<close>: it asks for more.\<close>

definition calm :: "int \<Rightarrow> real \<Rightarrow> int \<Rightarrow> real option \<Rightarrow> bool" where
  "calm quiet_m quiet_host used busy \<longleftrightarrow> used < quiet_m \<and> (case busy of None \<Rightarrow> True | Some b \<Rightarrow> b < quiet_host)"

fun settle :: "int \<Rightarrow> real \<Rightarrow> seconds \<Rightarrow> (int \<times> real option \<times> seconds) list \<Rightarrow> nat \<Rightarrow> (int \<times> real option) option" where
  "settle quiet_m quiet_host deadline [] quiet = None"
| "settle quiet_m quiet_host deadline ((used, busy, now) # rs) quiet =
     (let q = (if calm quiet_m quiet_host used busy then quiet + 1 else 0) in
      if q = 2 \<or> deadline < now then Some (used, busy) else settle quiet_m quiet_host deadline rs q)"

lemma settle_late: "\<exists>r \<in> set rs. deadline < snd (snd r) \<Longrightarrow> settle quiet_m quiet_host deadline rs q \<noteq> None"
proof (induction rs arbitrary: q)
  case (Cons r rs)
  then show ?case by (cases r) (auto simp: Let_def)
qed simp

text \<open>The wait ends: every turn sleeps fifteen seconds, so a reading past the timeout comes after at most
  one turn for every fifteen seconds of it.\<close>

lemma settle_ends:
  assumes "\<And>i. i < length rs \<Longrightarrow> start + 15 * real (Suc i) \<le> snd (snd (rs ! i))" and "timeout < 15 * real (length rs)"
    and "0 \<le> timeout"
  shows "\<exists>used busy. settle quiet_m quiet_host (start + timeout) rs 0 = Some (used, busy)"
proof -
  let ?i = "length rs - 1"
  have n: "0 < length rs" using assms(2,3) by (cases rs) auto
  then have "start + timeout < snd (snd (rs ! ?i))" using assms(1)[of ?i] assms(2) by simp
  then have "settle quiet_m quiet_host (start + timeout) rs 0 \<noteq> None"
    using n by (intro settle_late) (auto intro!: bexI[of _ "rs ! ?i"])
  then show ?thesis by (cases "settle quiet_m quiet_host (start + timeout) rs 0") auto
qed

lemma settle_calm:
  "settle quiet_m quiet_host deadline rs q = Some (used, busy) \<Longrightarrow> q < 2 \<Longrightarrow>
     (\<exists>k < length rs. rs ! k = (used, busy, snd (snd (rs ! k)))
        \<and> (deadline < snd (snd (rs ! k))
           \<or> calm quiet_m quiet_host used busy
             \<and> (if k = 0 then q = 1 else calm quiet_m quiet_host (fst (rs ! (k - 1))) (fst (snd (rs ! (k - 1)))))))"
proof (induction rs arbitrary: q)
  case Nil
  then show ?case by simp
next
  case (Cons r rs)
  obtain u b now where r: "r = (u, b, now)" by (cases r)
  let ?q = "if calm quiet_m quiet_host u b then q + 1 else 0"
  show ?case
  proof (cases "?q = 2 \<or> deadline < now")
    case True
    with Cons.prems have "used = u" "busy = b" by (auto simp: r Let_def split: if_splits)
    with True Cons.prems(2) show ?thesis by (intro exI[of _ 0]) (auto simp: r split: if_splits)
  next
    case False
    with Cons.prems have "settle quiet_m quiet_host deadline rs ?q = Some (used, busy)" "?q < 2" by (auto simp: r Let_def split: if_splits)
    from Cons.IH[OF this] obtain k where k: "k < length rs" "rs ! k = (used, busy, snd (snd (rs ! k)))"
        "deadline < snd (snd (rs ! k)) \<or> calm quiet_m quiet_host used busy
             \<and> (if k = 0 then ?q = 1 else calm quiet_m quiet_host (fst (rs ! (k - 1))) (fst (snd (rs ! (k - 1)))))"
      by blast
    show ?thesis
    proof (cases "k = 0")
      case True
      with k show ?thesis by (intro exI[of _ 1]) (auto simp: r split: if_splits)
    next
      case False
      with k show ?thesis by (intro exI[of _ "Suc k"]) auto
    qed
  qed
qed

end
