(* ===== verification/Eval_Run.thy ===== *)
theory Eval_Run
  imports Answer_Eval Load_Drivers
begin

text \<open>
  How the answer evaluation (\<open>eval/answer_eval.py\<close>) and the load test (\<open>loadtest/run_load.py\<close>) set up a
  tenant on a running gateway, use it, and take it down. The gateway is a function \<open>srv\<close> from the requests
  made so far to the reply of the next one, the requests are the state; a reply stands for the last one
  \<open>call\<close> got, with the rate limit waited out. \<open>Waiting\<close> is a poll that has not run_end within its fuel.
\<close>

section \<open>Requests\<close>

datatype eval_request = NewKey | Upload string string | JobOf string | Ask | Warm string | Level int | Costs | DropDocument string | DropKey string

datatype eval_reply = Raises | KeyMade string | JobQueued string | JobIs string string | Replied

type_synonym server = "eval_request list \<Rightarrow> eval_request \<Rightarrow> eval_reply"

datatype 'a run_end = Fine 'a | Aborted | Waiting

section \<open>The answer evaluation\<close>

fun upload_all :: "server \<Rightarrow> (string \<times> string) list \<Rightarrow> eval_request list \<Rightarrow> string list run_end \<times> eval_request list" where
  "upload_all srv [] h = (Fine [], h)"
| "upload_all srv ((name, data) # cs) h =
     (let r = Upload name data; h1 = h @ [r] in
      case srv h r of
        JobQueued j \<Rightarrow>
          (case upload_all srv cs h1 of (Fine jobs, h2) \<Rightarrow> (Fine (j # jobs), h2) | (Aborted, h2) \<Rightarrow> (Aborted, h2) | (Waiting, h2) \<Rightarrow> (Waiting, h2))
      | _ \<Rightarrow> (Aborted, h1))"

fun poll_job :: "server \<Rightarrow> nat \<Rightarrow> string \<Rightarrow> eval_request list \<Rightarrow> string run_end \<times> eval_request list" where
  "poll_job srv 0 j h = (Waiting, h)"
| "poll_job srv (Suc n) j h =
     (let h1 = h @ [JobOf j] in
      case srv h (JobOf j) of
        JobIs s d \<Rightarrow>
          if s = ''done'' then (Fine d, h1) else if s = ''failed'' then (Aborted, h1) else poll_job srv n j h1
      | _ \<Rightarrow> (Aborted, h1))"

fun poll_all :: "server \<Rightarrow> nat \<Rightarrow> string list \<Rightarrow> eval_request list \<Rightarrow> string list run_end \<times> eval_request list" where
  "poll_all srv n [] h = (Fine [], h)"
| "poll_all srv n (j # jobs) h =
     (case poll_job srv n j h of
        (Fine d, h1) \<Rightarrow>
          (case poll_all srv n jobs h1 of (Fine ds, h2) \<Rightarrow> (Fine (d # ds), h2) | (Aborted, h2) \<Rightarrow> (Aborted, h2) | (Waiting, h2) \<Rightarrow> (Waiting, h2))
      | (Aborted, h1) \<Rightarrow> (Aborted, h1)
      | (Waiting, h1) \<Rightarrow> (Waiting, h1))"

text \<open>\<open>Gateway.setup\<close>: the id of the key and the documents.\<close>

definition eval_setup :: "server \<Rightarrow> (string \<times> string) list \<Rightarrow> nat \<Rightarrow> eval_request list \<Rightarrow> (string \<times> string list) run_end \<times> eval_request list" where
  "eval_setup srv corpus n h =
     (let h1 = h @ [NewKey] in
      case srv h NewKey of
        KeyMade k \<Rightarrow>
          (case upload_all srv corpus h1 of
             (Fine jobs, h2) \<Rightarrow>
               (case poll_all srv n jobs h2 of
                  (Fine ds, h3) \<Rightarrow> (Fine (k, ds), h3) | (Aborted, h3) \<Rightarrow> (Aborted, h3) | (Waiting, h3) \<Rightarrow> (Waiting, h3))
           | (Aborted, h2) \<Rightarrow> (Aborted, h2)
           | (Waiting, h2) \<Rightarrow> (Waiting, h2))
      | _ \<Rightarrow> (Aborted, h1))"

text \<open>\<open>teardown\<close>: only a request that raises ends it early, the status of a reply is not looked at.\<close>

fun teardown :: "server \<Rightarrow> string \<Rightarrow> string list \<Rightarrow> eval_request list \<Rightarrow> unit run_end \<times> eval_request list" where
  "teardown srv k [] h = (if srv h (DropKey k) = Raises then Aborted else Fine (), h @ [DropKey k])"
| "teardown srv k (d # ds) h =
     (if srv h (DropDocument d) = Raises then (Aborted, h @ [DropDocument d]) else teardown srv k ds (h @ [DropDocument d]))"

text \<open>\<open>run\<close>: the questions, as one step, between a set-up that is not guarded and a \<open>finally\<close>.\<close>

definition eval_run :: "server \<Rightarrow> (string \<times> string) list \<Rightarrow> nat \<Rightarrow> unit run_end \<times> eval_request list" where
  "eval_run srv corpus n =
     (case eval_setup srv corpus n [] of
        (Fine (k, ds), h) \<Rightarrow>
          (let asked = srv h Ask; (r, h1) = teardown srv k ds (h @ [Ask]) in
           (if asked = Raises then Aborted else r, h1))
      | (Aborted, h) \<Rightarrow> (Aborted, h)
      | (Waiting, h) \<Rightarrow> (Waiting, h))"

text \<open>\<open>wait_for_quiet_host\<close>: the clock at the head of a turn and the load of the window it waits. \<open>None\<close>: it asks for more.\<close>

fun wait_for_quiet_host :: "real \<Rightarrow> seconds \<Rightarrow> (seconds \<times> real option) list \<Rightarrow> nat \<Rightarrow> nat option" where
  "wait_for_quiet_host quiet deadline [] k = (if k < 2 then None else Some k)"
| "wait_for_quiet_host quiet deadline ((now, busy) # ws) k =
     (if \<not> (k < 2 \<and> now < deadline) then Some k
      else wait_for_quiet_host quiet deadline ws (if (case busy of None \<Rightarrow> True | Some b \<Rightarrow> b < quiet) then k + 1 else 0))"

text \<open>\<open>resummarise\<close>: the results whose question still exists, the ids of the others, and the summary.\<close>

definition resummarise :: "string set \<Rightarrow> answer_result list \<Rightarrow> answer_result list \<times> string list \<times> run_summary" where
  "resummarise live rs =
     (let kept = filter (\<lambda>r. re_id r \<in> live) rs
      in (kept, sort (map re_id (filter (\<lambda>r. re_id r \<notin> live) rs)), summarise kept))"

section \<open>The load test\<close>

text \<open>One round over the pending jobs, whose order is the set's; only \<open>done\<close> takes a job out.\<close>

fun poll_round :: "server \<Rightarrow> string list \<Rightarrow> eval_request list \<Rightarrow> string list run_end \<times> eval_request list" where
  "poll_round srv [] h = (Fine [], h)"
| "poll_round srv (j # jobs) h =
     (let h1 = h @ [JobOf j] in
      case srv h (JobOf j) of
        JobIs s d \<Rightarrow>
          (case poll_round srv jobs h1 of
             (Fine ps, h2) \<Rightarrow> (Fine (if s = ''done'' then ps else j # ps), h2)
           | (Aborted, h2) \<Rightarrow> (Aborted, h2) | (Waiting, h2) \<Rightarrow> (Waiting, h2))
      | _ \<Rightarrow> (Aborted, h1))"

text \<open>The rounds that fit before the deadline.\<close>

fun poll_rounds :: "server \<Rightarrow> nat \<Rightarrow> string list \<Rightarrow> eval_request list \<Rightarrow> string list run_end \<times> eval_request list" where
  "poll_rounds srv 0 jobs h = (Fine jobs, h)"
| "poll_rounds srv (Suc n) jobs h =
     (if jobs = [] then (Fine [], h)
      else (case poll_round srv jobs h of (Fine ps, h1) \<Rightarrow> poll_rounds srv n ps h1 | (Aborted, h1) \<Rightarrow> (Aborted, h1) | (Waiting, h1) \<Rightarrow> (Waiting, h1)))"

text \<open>Requests one after the other, of which one that raises ends the rest.\<close>

fun send_in_turn :: "server \<Rightarrow> eval_request list \<Rightarrow> eval_request list \<Rightarrow> bool \<times> eval_request list" where
  "send_in_turn srv [] h = (True, h)"
| "send_in_turn srv (r # rs) h = (if srv h r = Raises then (False, h @ [r]) else send_in_turn srv rs (h @ [r]))"

definition load_setup :: "server \<Rightarrow> (string \<times> string) list \<Rightarrow> nat \<Rightarrow> string list \<Rightarrow> string run_end \<times> eval_request list" where
  "load_setup srv corpus rounds popular =
     (case srv [] NewKey of
        KeyMade k \<Rightarrow>
          (case upload_all srv corpus [NewKey] of
             (Fine jobs, h2) \<Rightarrow>
               (case poll_rounds srv rounds (remdups jobs) h2 of
                  (Fine ps, h3) \<Rightarrow>
                    if ps \<noteq> [] then (Aborted, h3)
                    else (let (fine, h4) = send_in_turn srv (map Warm popular) h3 in (if fine then Fine k else Aborted, h4))
                | (_, h3) \<Rightarrow> (Aborted, h3))
           | (_, h2) \<Rightarrow> (Aborted, h2))
      | _ \<Rightarrow> (Aborted, [NewKey]))"

text \<open>\<open>main\<close>, from the set-up to the end of its \<open>finally\<close>; a warm-up, when there is one, is the first of the levels.\<close>

definition load_main :: "server \<Rightarrow> (string \<times> string) list \<Rightarrow> nat \<Rightarrow> string list \<Rightarrow> int list \<Rightarrow> bool \<times> eval_request list" where
  "load_main srv corpus rounds popular levels =
     (case load_setup srv corpus rounds popular of
        (Fine k, h) \<Rightarrow>
          (let (fine, h1) = send_in_turn srv (map Level levels @ [Costs]) h in
           (fine \<and> srv h1 (DropKey k) \<noteq> Raises, h1 @ [DropKey k]))
      | (_, h) \<Rightarrow> (False, h))"

section \<open>Facts\<close>

lemma upload_all_fine:
  "upload_all srv cs h = (Fine jobs, h') \<Longrightarrow> length jobs = length cs \<and> h' = h @ map (\<lambda>(n, d). Upload n d) cs"
proof (induction cs arbitrary: h jobs)
  case (Cons c cs)
  obtain n d where c: "c = (n, d)" by (cases c)
  from Cons.prems obtain j jobs' where "jobs = j # jobs'" "upload_all srv cs (h @ [Upload n d]) = (Fine jobs', h')"
    by (auto simp: c Let_def split: eval_reply.splits prod.splits run_end.splits)
  with Cons.IH show ?case by (fastforce simp: c)
qed simp

lemma poll_all_fine: "poll_all srv n jobs h = (Fine ds, h') \<Longrightarrow> length ds = length jobs"
proof (induction jobs arbitrary: h ds)
  case (Cons j jobs)
  then obtain d ds' h1 where "ds = d # ds'" "poll_all srv n jobs h1 = (Fine ds', h')"
    by (auto split: prod.splits run_end.splits)
  with Cons.IH show ?case by fastforce
qed simp

lemma teardown_requests:
  "(\<forall>d \<in> set ds. \<forall>x. srv x (DropDocument d) \<noteq> Raises) \<Longrightarrow> snd (teardown srv k ds h) = h @ map DropDocument ds @ [DropKey k]"
  by (induction ds arbitrary: h) auto

lemma send_in_turn_requests: "\<exists>n. snd (send_in_turn srv rs h) = h @ take n rs"
proof (induction rs arbitrary: h)
  case (Cons r rs)
  from Cons[of "h @ [r]"] obtain n where "snd (send_in_turn srv rs (h @ [r])) = h @ take (Suc n) (r # rs)" by auto
  moreover have "h @ [r] = h @ take (Suc 0) (r # rs)" by simp
  ultimately show ?case by (metis send_in_turn.simps(2) snd_conv)
qed simp

text \<open>What a set-up asks for.\<close>

fun sets_up :: "eval_request \<Rightarrow> bool" where
  "sets_up NewKey = True"
| "sets_up (Upload n d) = True"
| "sets_up (JobOf j) = True"
| "sets_up r = False"

lemma upload_all_requests: "r \<in> set (snd (upload_all srv cs h)) \<Longrightarrow> r \<in> set h \<or> sets_up r"
proof (induction cs arbitrary: h)
  case (Cons c cs)
  obtain n d where c: "c = (n, d)" by (cases c)
  have "snd (upload_all srv (c # cs) h) \<in> {h @ [Upload n d], snd (upload_all srv cs (h @ [Upload n d]))}"
    by (auto simp: c Let_def split: eval_reply.splits run_end.splits prod.splits)
  with Cons show ?case by fastforce
qed simp

lemma poll_job_requests: "r \<in> set (snd (poll_job srv n j h)) \<Longrightarrow> r \<in> set h \<or> sets_up r"
proof (induction n arbitrary: h)
  case (Suc n)
  have "snd (poll_job srv (Suc n) j h) \<in> {h @ [JobOf j], snd (poll_job srv n j (h @ [JobOf j]))}"
    by (auto simp: Let_def split: eval_reply.splits)
  with Suc show ?case by fastforce
qed simp

lemma poll_all_requests: "r \<in> set (snd (poll_all srv n jobs h)) \<Longrightarrow> r \<in> set h \<or> sets_up r"
proof (induction jobs arbitrary: h)
  case (Cons j jobs)
  have "snd (poll_all srv n (j # jobs) h) \<in> {snd (poll_job srv n j h), snd (poll_all srv n jobs (snd (poll_job srv n j h)))}"
    by (auto split: run_end.splits prod.splits)
  with Cons poll_job_requests show ?case by fastforce
qed simp

lemma eval_setup_requests: "r \<in> set (snd (eval_setup srv corpus n h)) \<Longrightarrow> r \<in> set h \<or> sets_up r"
proof -
  let ?h = "snd (upload_all srv corpus (h @ [NewKey]))"
  assume r: "r \<in> set (snd (eval_setup srv corpus n h))"
  have "snd (eval_setup srv corpus n h) \<in> {h @ [NewKey], ?h} \<union> range (\<lambda>jobs. snd (poll_all srv n jobs ?h))"
  proof (cases "upload_all srv corpus (h @ [NewKey])")
    case (Pair x y)
    show ?thesis
    proof (cases x)
      case (Fine jobs)
      then have "snd (eval_setup srv corpus n h) \<in> {h @ [NewKey], snd (poll_all srv n jobs ?h)}"
        by (auto simp: eval_setup_def Let_def Pair split: eval_reply.splits run_end.splits prod.splits)
      then show ?thesis by blast
    qed (auto simp: eval_setup_def Let_def Pair split: eval_reply.splits)
  qed
  then consider "snd (eval_setup srv corpus n h) = h @ [NewKey]" | "snd (eval_setup srv corpus n h) = ?h"
    | jobs where "snd (eval_setup srv corpus n h) = snd (poll_all srv n jobs ?h)" by blast
  moreover have "r \<in> set ?h \<Longrightarrow> r \<in> set h \<or> sets_up r"
    using upload_all_requests[of r srv corpus "h @ [NewKey]"] by auto
  ultimately show ?thesis using r poll_all_requests[of r srv n _ ?h] by cases auto
qed

text \<open>An evaluation whose set-up succeeds ends with every document it uploaded and its key deleted, also when a
  question raises, as long as no deletion does; it has as many documents as the corpus. A set-up that does not
  succeed deletes nothing.\<close>

theorem an_evaluation_cleans_up_what_it_set_up:
  assumes "\<forall>d x. srv x (DropDocument d) \<noteq> Raises"
  shows "case eval_setup srv corpus n [] of
      (Fine (k, ds), h) \<Rightarrow> length ds = length corpus \<and> snd (eval_run srv corpus n) = h @ [Ask] @ map DropDocument ds @ [DropKey k]
    | (_, h) \<Rightarrow> snd (eval_run srv corpus n) = h \<and> (\<forall>r \<in> set h. \<forall>i. r \<noteq> DropDocument i \<and> r \<noteq> DropKey i)"
proof -
  obtain e h where e: "eval_setup srv corpus n [] = (e, h)" by (cases "eval_setup srv corpus n []")
  have quiet: "\<forall>r \<in> set h. \<forall>i. r \<noteq> DropDocument i \<and> r \<noteq> DropKey i"
  proof
    fix r
    assume "r \<in> set h"
    then have "sets_up r" using eval_setup_requests[of r srv corpus n "[]"] e by simp
    then show "\<forall>i. r \<noteq> DropDocument i \<and> r \<noteq> DropKey i" by auto
  qed
  show ?thesis
  proof (cases e)
    case (Fine x)
    obtain k ds where x: "x = (k, ds)" by (cases x)
    obtain jobs h2 where "upload_all srv corpus [NewKey] = (Fine jobs, h2)" "poll_all srv n jobs h2 = (Fine ds, h)"
      using e Fine x by (auto simp: eval_setup_def Let_def split: eval_reply.splits prod.splits run_end.splits)
    then have "length ds = length corpus" using upload_all_fine poll_all_fine by fastforce
    then show ?thesis using assms e Fine x teardown_requests[of ds srv k "h @ [Ask]"]
      by (auto simp: eval_run_def Let_def split_beta)
  qed (use e quiet in \<open>auto simp: eval_run_def\<close>)
qed

text \<open>The load test deletes its key whatever its levels do, and never a document; a set-up that does not succeed
  leaves the key and what was uploaded.\<close>

theorem a_load_test_drops_its_key:
  "case load_setup srv corpus rounds popular of
     (Fine k, h) \<Rightarrow> \<exists>m. snd (load_main srv corpus rounds popular levels) = h @ take m (map Level levels @ [Costs]) @ [DropKey k]
   | (_, h) \<Rightarrow> load_main srv corpus rounds popular levels = (False, h)"
proof -
  obtain e h where e: "load_setup srv corpus rounds popular = (e, h)" by (cases "load_setup srv corpus rounds popular")
  show ?thesis
  proof (cases e)
    case (Fine k)
    obtain m where "snd (send_in_turn srv (map Level levels @ [Costs]) h) = h @ take m (map Level levels @ [Costs])"
      using send_in_turn_requests[of srv "map Level levels @ [Costs]" h] by blast
    then show ?thesis using e Fine by (auto simp: load_main_def split_beta Let_def simp del: take_append)
  qed (use e in \<open>auto simp: load_main_def\<close>)
qed

text \<open>An ingestion that fails is one such set-up: the key without limits stays.\<close>

definition failing_server :: server where
  "failing_server h r =
     (case r of NewKey \<Rightarrow> KeyMade ''k'' | Upload n d \<Rightarrow> JobQueued n | JobOf j \<Rightarrow> JobIs ''failed'' [] | _ \<Rightarrow> Replied)"

lemma a_failed_ingestion_leaves_the_key:
  "eval_run failing_server [(''a.md'', ''text'')] 5 = (Aborted, [NewKey, Upload ''a.md'' ''text'', JobOf ''a.md''])"
  "load_main failing_server [(''a.md'', ''text'')] 2 [] [25] = (False, [NewKey, Upload ''a.md'' ''text'', JobOf ''a.md'', JobOf ''a.md''])"
  by (simp_all add: eval_run_def eval_setup_def load_main_def load_setup_def failing_server_def numeral_eq_Suc)

text \<open>Summarising a saved run again drops nothing but the results of the questions that are gone, and names them.\<close>

lemma a_resummary_accounts_for_every_result:
  assumes "resummarise live rs = (stay, gone, s)"
  shows "mset (map re_id rs) = mset (map re_id stay) + mset gone \<and> sorted gone \<and> set gone \<inter> live = {} \<and> re_id ` set stay \<subseteq> live
     \<and> sm_questions s = length stay"
proof -
  have "mset (map re_id rs) = mset (map re_id (filter (\<lambda>r. re_id r \<in> live) rs)) + mset (map re_id (filter (\<lambda>r. re_id r \<notin> live) rs))"
    by (induction rs) auto
  with assms show ?thesis by (auto simp: resummarise_def Let_def summarise_def)
qed

end
