(* ===== verification/Load_Reports.thy ===== *)
theory Load_Reports
  imports Retrieval_Eval
begin

text \<open>
  What the load tests make of their measurements: the summary of a level and the ceiling of a run
  (\<open>loadtest/run_load.py\<close>), the judgements of a report (\<open>loadtest/report.py\<close>), the drift and the verdict of a
  soak (\<open>loadtest/soak.py\<close>), and the phases of a chaos run (\<open>loadtest/chaos.py\<close>). The rows Locust measured,
  the samples Prometheus gave and the answers of the gateway are arguments. A figure stays a number here where
  a report prints it.
\<close>

section \<open>Helpers\<close>

text \<open>\<open>max(xs, key=f)\<close>: the first of the largest; it raises on an empty list.\<close>

fun max_by :: "('a \<Rightarrow> real) \<Rightarrow> 'a list \<Rightarrow> 'a option" where
  "max_by f [] = None"
| "max_by f (x # xs) = Some (fold (\<lambda>y best. if f best < f y then y else best) xs x)"

definition fmean :: "real list \<Rightarrow> real" where "fmean xs = sum_list xs / real (length xs)"

definition starts :: "string \<Rightarrow> string \<Rightarrow> bool" where "starts p s \<longleftrightarrow> take (length p) s = p"

section \<open>A level of load\<close>

record locust_row =
  lr_requests :: int
  lr_rps :: real
  lr_p50 :: real
  lr_p95 :: real
  lr_p99 :: real
  lr_failures :: int

record kind_stats =
  ks_requests :: int
  ks_rps :: real
  ks_p50 :: real
  ks_p95 :: real
  ks_p99 :: real
  ks_fail_pct :: real

definition summarise_row :: "locust_row \<Rightarrow> kind_stats" where
  "summarise_row r =
     \<lparr>ks_requests = lr_requests r, ks_rps = py_round 1 (lr_rps r), ks_p50 = lr_p50 r, ks_p95 = lr_p95 r, ks_p99 = lr_p99 r,
      ks_fail_pct = (if lr_requests r \<noteq> 0 then py_round 2 (100 * of_int (lr_failures r) / of_int (lr_requests r)) else 0)\<rparr>"

record load_level =
  lv_users :: int
  lv_pods :: "int option"
  lv_all :: kind_stats
  lv_kinds :: "(string \<times> kind_stats) list"

text \<open>The rows of Locust's table by their names; without the aggregated row the code raises.\<close>

definition level_of :: "int \<Rightarrow> int option \<Rightarrow> (string \<times> locust_row) list \<Rightarrow> load_level option" where
  "level_of users pods table =
     (let rows = fold (\<lambda>(n, r). dict_set n r) table [] in
      case dict_get rows ''Aggregated'' of
        None \<Rightarrow> None
      | Some a \<Rightarrow> Some \<lparr>lv_users = users, lv_pods = pods, lv_all = summarise_row a,
                        lv_kinds = map (\<lambda>(n, r). (n, summarise_row r)) (filter (\<lambda>(n, r). n \<noteq> ''Aggregated'') rows)\<rparr>)"

definition lv_rps :: "load_level \<Rightarrow> real" where "lv_rps l = ks_rps (lv_all l)"

definition run_ceiling :: "real \<Rightarrow> load_level list \<Rightarrow> load_level option" where
  "run_ceiling slo ls = max_by lv_rps (filter (\<lambda>l. ks_p95 (lv_all l) \<le> slo \<and> ks_fail_pct (lv_all l) < 1) ls)"

record run_usage =
  us_requests :: int
  us_hits :: int
  us_hit_rate :: real
  us_cost :: real
  us_saved :: real
  us_cost_1k :: real
  us_saved_1k :: real

definition usage_of :: "int \<Rightarrow> int \<Rightarrow> real \<Rightarrow> real \<Rightarrow> run_usage" where
  "usage_of requests hits cost saved =
     (let n = (if requests = 0 then 1 else of_int requests :: real) in
      \<lparr>us_requests = requests, us_hits = hits, us_hit_rate = py_round 3 (of_int hits / n), us_cost = cost, us_saved = saved,
       us_cost_1k = py_round 6 (1000 * cost / n), us_saved_1k = py_round 6 (1000 * saved / n)\<rparr>)"

section \<open>The report\<close>

definition CLASS_SLOS :: "(string \<times> real) list" where "CLASS_SLOS = [(''chat'', 500), (''rag'', 1000)]"
definition NOT_A_LATENCY :: "string list" where "NOT_A_LATENCY = [''chat: stream complete'']"

definition class_kinds :: "string \<Rightarrow> load_level \<Rightarrow> (string \<times> kind_stats) list" where
  "class_kinds cls l = filter (\<lambda>(n, k). starts cls n \<and> n \<notin> set NOT_A_LATENCY) (lv_kinds l)"

definition meets_slo :: "real \<Rightarrow> string \<Rightarrow> load_level \<Rightarrow> bool" where
  "meets_slo slo cls l \<longleftrightarrow> list_all (\<lambda>(n, k). ks_p95 k \<le> slo \<and> ks_fail_pct k < 1) (class_kinds cls l)"

text \<open>\<open>CLASS_SLOS[cls]\<close> raises for another class, the outer \<open>None\<close>; the inner one is printed as \<open>none\<close>.\<close>

definition class_ceiling :: "load_level list \<Rightarrow> string \<Rightarrow> load_level option option" where
  "class_ceiling ls cls = map_option (\<lambda>slo. max_by lv_rps (filter (meets_slo slo cls) ls)) (map_of CLASS_SLOS cls)"

definition by_users :: "load_level list \<Rightarrow> (int \<times> load_level) list" where
  "by_users ls = fold (\<lambda>l. dict_set (lv_users l) l) ls []"

definition level_groups :: "load_level list \<Rightarrow> (int \<times> load_level list) list" where
  "level_groups ls = fold (\<lambda>l d. dict_set (lv_users l) ((case dict_get d (lv_users l) of None \<Rightarrow> [] | Some g \<Rightarrow> g) @ [l]) d) ls []"

record repeated =
  rr_users :: int
  rr_runs :: nat
  rr_median :: real
  rr_low :: real
  rr_high :: real
  rr_spread :: real
  rr_p95 :: real
  rr_p95_low :: real
  rr_p95_high :: real
  rr_errors :: real

definition repeated_row :: "int \<times> load_level list \<Rightarrow> repeated" where
  "repeated_row g =
     (let rps = sort (map lv_rps (snd g)); p95 = sort (map (\<lambda>l. ks_p95 (lv_all l)) (snd g)); m = median rps in
      \<lparr>rr_users = fst g, rr_runs = length (snd g), rr_median = m, rr_low = hd rps, rr_high = last rps,
       rr_spread = (if m \<noteq> 0 then (last rps - hd rps) / m else 0), rr_p95 = median p95, rr_p95_low = hd p95, rr_p95_high = last p95,
       rr_errors = Max (set (map (\<lambda>l. ks_fail_pct (lv_all l)) (snd g)))\<rparr>)"

definition repetitions :: "load_level list \<Rightarrow> repeated list" where
  "repetitions ls =
     (let gs = level_groups ls in
      if list_all (\<lambda>g. length (snd g) < 2) gs then [] else map repeated_row (sort_key fst gs))"

definition detail_level :: "int option \<Rightarrow> load_level list \<Rightarrow> load_level option" where
  "detail_level users ls =
     (case (case users of None \<Rightarrow> None | Some u \<Rightarrow> if u = 0 then None else dict_get (by_users ls) u) of
        Some l \<Rightarrow> Some l
      | None \<Rightarrow> (let clean = filter (\<lambda>l. ks_fail_pct (lv_all l) < 1) ls in max_by lv_rps (if clean = [] then ls else clean)))"

definition TTFT :: string where "TTFT = ''chat: stream first token''"

definition streaming_ceiling :: "load_level list \<Rightarrow> load_level option" where
  "streaming_ceiling ls =
     max_by lv_rps (filter (\<lambda>l. case dict_get (lv_kinds l) TTFT of None \<Rightarrow> False | Some k \<Rightarrow> ks_p95 k \<le> 500) ls)"

section \<open>The soak\<close>

text \<open>A sample has the values of each series, one for each pod where it is per pod; none when it could not be read.\<close>

type_synonym soak_sample = "(string \<times> real list) list"

definition values_of :: "soak_sample \<Rightarrow> string \<Rightarrow> real list" where
  "values_of s name = (case dict_get s name of None \<Rightarrow> [] | Some vs \<Rightarrow> vs)"

record drift_stats =
  df_first :: real
  df_last :: real
  df_change :: "real option"
  df_peak :: real

definition drift_series :: "soak_sample list \<Rightarrow> string \<Rightarrow> bool \<Rightarrow> real list" where
  "drift_series ss name per_pod =
     map (\<lambda>s. (if per_pod then fmean else sum_list) (values_of s name)) (filter (\<lambda>s. values_of s name \<noteq> []) ss)"

definition drift :: "soak_sample list \<Rightarrow> string \<Rightarrow> bool \<Rightarrow> drift_stats option" where
  "drift ss name per_pod =
     (let xs = drift_series ss name per_pod in
      if length xs < 4 then None
      else (let q = max (length xs div 4) 1; first = fmean (take q xs); final = fmean (drop (length xs - q) xs) in
        Some \<lparr>df_first = py_round 3 first, df_last = py_round 3 final,
              df_change = (if first \<noteq> 0 then Some (py_round 1 (100 * (final - first) / first)) else None), df_peak = py_round 3 (Max (set xs))\<rparr>))"

definition grew :: "drift_stats option \<Rightarrow> real \<Rightarrow> bool" where
  "grew d limit_pct = (case Option.bind d df_change of None \<Rightarrow> False | Some c \<Rightarrow> c > limit_pct)"

definition final_total :: "soak_sample list \<Rightarrow> string \<Rightarrow> real" where
  "final_total ss name = sum_list (values_of (last ss) name)"

datatype soak_problem = Memory_Grew | Server_Errors real | Slowed_Down | Descriptors_Grew

text \<open>The verdict needs a sample; without one the code raises.\<close>

definition soak_problems :: "soak_sample list \<Rightarrow> real \<Rightarrow> real \<Rightarrow> soak_problem list option" where
  "soak_problems ss rss_limit latency_limit =
     (if ss = [] then None
      else Some ((if grew (drift ss ''api_rss_bytes'' True) rss_limit then [Memory_Grew] else [])
        @ (if final_total ss ''errors_total'' \<noteq> 0 then [Server_Errors (final_total ss ''errors_total'')] else [])
        @ (if grew (drift ss ''latency_p95'' False) latency_limit then [Slowed_Down] else [])
        @ (if grew (drift ss ''api_open_fds'' True) 25 then [Descriptors_Grew] else [])))"

section \<open>The chaos run\<close>

record chaos_record =
  cr_at :: real
  cr_status :: int
  cr_latency :: real
  cr_deployment :: "string option"
  cr_cost :: real
  cr_primary_failed :: bool

text \<open>What came back for a request: nothing, or a status with the gateway's account of a 200\<close>

record chaos_meta =
  cm_deployment :: "string option"
  cm_cost :: real
  cm_attempts :: "(string \<times> string) list"  \<comment> \<open>deployment, outcome\<close>

datatype chaos_answer = No_Answer | Answered int chaos_meta

definition chaos_record_of :: "string \<Rightarrow> real \<Rightarrow> real \<Rightarrow> chaos_answer \<Rightarrow> chaos_record" where
  "chaos_record_of primary sent latency ans =
     (case ans of
        No_Answer \<Rightarrow> \<lparr>cr_at = sent, cr_status = 0, cr_latency = 0, cr_deployment = None, cr_cost = 0, cr_primary_failed = False\<rparr>
      | Answered code meta \<Rightarrow>
          (let m = (if code = 200 then meta else \<lparr>cm_deployment = None, cm_cost = 0, cm_attempts = []\<rparr>) in
           \<lparr>cr_at = sent, cr_status = code, cr_latency = latency, cr_deployment = cm_deployment m, cr_cost = cm_cost m,
            cr_primary_failed = (\<exists>(d, outc) \<in> set (cm_attempts m). d = primary \<and> outc \<in> {''error'', ''timeout''})\<rparr>))"

text \<open>The driver: before each request the clock is read; the fault is put in and taken out once each.\<close>

datatype chaos_event = Inject | Clear | Submit

fun chaos_events :: "real \<Rightarrow> real \<Rightarrow> bool \<Rightarrow> bool \<Rightarrow> real list \<Rightarrow> chaos_event list" where
  "chaos_events fault_at clear_at injected cleared [] = []"
| "chaos_events fault_at clear_at injected cleared (now # ts) =
     (let inj = (\<not> injected \<and> now \<ge> fault_at); clr = (\<not> cleared \<and> now \<ge> clear_at) in
      (if inj then [Inject] else []) @ (if clr then [Clear] else []) @ [Submit]
        @ chaos_events fault_at clear_at (injected \<or> inj) (cleared \<or> clr) ts)"

definition percentile_of :: "real list \<Rightarrow> real \<Rightarrow> real" where
  "percentile_of xs q = (if xs = [] then 0 else sort xs ! min (length xs - 1) (nat \<lfloor>py_round 0 (q * real (length xs - 1))\<rfloor>))"

definition phase_of :: "real \<Rightarrow> real \<Rightarrow> real \<Rightarrow> string" where
  "phase_of fault_at clear_at t = (if t < fault_at then ''healthy'' else if t < clear_at then ''fault'' else ''recovery'')"

record phase_stats =
  ph_requests :: nat
  ph_success_pct :: real
  ph_primary_pct :: real
  ph_p50 :: real
  ph_p95 :: real
  ph_cost_1k :: real

definition phase_rows :: "real \<Rightarrow> real \<Rightarrow> string \<Rightarrow> chaos_record list \<Rightarrow> chaos_record list" where
  "phase_rows fault_at clear_at name rs = filter (\<lambda>r. phase_of fault_at clear_at (cr_at r) = name) rs"

definition phase_stats_of :: "string \<Rightarrow> chaos_record list \<Rightarrow> phase_stats" where
  "phase_stats_of primary rows =
     (let ok = filter (\<lambda>r. cr_status r = 200) rows; n = max 1 (length ok) in
      \<lparr>ph_requests = length rows, ph_success_pct = (if rows \<noteq> [] then py_round 2 (100 * real (length ok) / real (length rows)) else 0),
       ph_primary_pct = py_round 1 (100 * real (length (filter (\<lambda>r. cr_deployment r = Some primary) ok)) / real n),
       ph_p50 = py_round 1 (percentile_of (map cr_latency ok) (1 / 2)), ph_p95 = py_round 1 (percentile_of (map cr_latency ok) (95 / 100)),
       ph_cost_1k = py_round 6 (1000 * sum_list (map cr_cost ok) / real n)\<rparr>)"

record chaos_result =
  ch_phases :: "(string \<times> phase_stats) list"
  ch_visible :: nat
  ch_absorbed :: nat
  ch_before_open :: nat
  ch_until_open :: "real option"
  ch_probes :: nat
  ch_times :: "real list"
  ch_until_back :: "real option"

definition chaos_result_of :: "string \<Rightarrow> real \<Rightarrow> real \<Rightarrow> real \<Rightarrow> chaos_record list \<Rightarrow> chaos_result" where
  "chaos_result_of primary cooldown fault_at clear_at rs =
     (let times = sort (map (\<lambda>r. py_round 2 (cr_at r - fault_at)) (filter (\<lambda>r. cr_primary_failed r \<and> cr_status r = 200) rs));
          initial = filter (\<lambda>t. t < cooldown) times;
          back = map cr_at (filter (\<lambda>r. phase_of fault_at clear_at (cr_at r) = ''recovery'' \<and> cr_deployment r = Some primary) rs) in
      \<lparr>ch_phases = map (\<lambda>n. (n, phase_stats_of primary (phase_rows fault_at clear_at n rs))) [''healthy'', ''fault'', ''recovery''],
       ch_visible = length (filter (\<lambda>r. cr_status r \<noteq> 200) rs), ch_absorbed = length times, ch_before_open = length initial,
       ch_until_open = (if initial \<noteq> [] then Some (Max (set initial)) else None),
       ch_probes = length (filter (\<lambda>t. t \<ge> cooldown) times), ch_times = times,
       ch_until_back = (if back \<noteq> [] then Some (py_round 2 (Min (set back) - clear_at)) else None)\<rparr>)"

section \<open>Facts\<close>

lemma fold_max_by:
  "let m = fold (\<lambda>y best. if f best < f y then y else best) xs x in m \<in> insert x (set xs) \<and> f x \<le> f m \<and> (\<forall>y \<in> set xs. f y \<le> (f m :: real))"
proof (induction xs arbitrary: x)
  case (Cons y xs)
  show ?case
  proof (cases "f x < f y")
    case True
    then show ?thesis using Cons.IH[of y] by (auto simp: Let_def)
  next
    case False
    then show ?thesis using Cons.IH[of x] by (auto simp: Let_def)
  qed
qed simp

lemma max_by_Some: "max_by f xs = Some m \<Longrightarrow> m \<in> set xs \<and> (\<forall>y \<in> set xs. f y \<le> f m)"
  using fold_max_by[of f "tl xs" "hd xs"] by (cases xs) (auto simp: Let_def)

lemma max_by_None [simp]: "max_by f xs = None \<longleftrightarrow> xs = []"
  by (cases xs) simp_all

lemma py_round_near: "\<bar>py_round n x - x\<bar> \<le> 1 / 2 / 10 ^ n"
proof -
  define y where "y = x * 10 ^ n"
  define m where "m = (if y - of_int \<lfloor>y\<rfloor> < 1 / 2 then \<lfloor>y\<rfloor> else if y - of_int \<lfloor>y\<rfloor> > 1 / 2 then \<lfloor>y\<rfloor> + 1 else if even \<lfloor>y\<rfloor> then \<lfloor>y\<rfloor> else \<lfloor>y\<rfloor> + 1)"
  have "0 \<le> y - of_int \<lfloor>y\<rfloor>" "y - of_int \<lfloor>y\<rfloor> < 1" by linarith+
  then have "\<bar>of_int m - y\<bar> \<le> 1 / 2" by (auto simp: m_def)
  moreover have "py_round n x - x = (of_int m - y) / 10 ^ n"
    by (simp add: py_round_def m_def y_def Let_def diff_divide_distrib)
  moreover have "\<bar>(of_int m - y) / 10 ^ n\<bar> = \<bar>of_int m - y\<bar> / 10 ^ n" by simp
  ultimately show ?thesis using divide_right_mono[of "\<bar>of_int m - y\<bar>" "1 / 2" "10 ^ n"] by simp
qed

lemma py_round_ge: "x \<le> py_round n x + 1 / 2 / 10 ^ n"
  using py_round_near[of n x] by linarith

lemma phase_rows_add_up:
  "length (phase_rows a b ''healthy'' rs) + length (phase_rows a b ''fault'' rs) + length (phase_rows a b ''recovery'' rs) = length rs"
  by (induction rs) (auto simp: phase_rows_def phase_of_def)

lemma phases_add_up: "sum_list (map (ph_requests \<circ> snd) (ch_phases (chaos_result_of p c a b rs))) = length rs"
  using phase_rows_add_up[of a b rs] by (simp add: chaos_result_of_def Let_def phase_stats_of_def)

text \<open>The fault goes in at most once, and is taken out at most once and never before it went in.\<close>

lemma chaos_events_once:
  "length (filter (\<lambda>e. e = Inject) (chaos_events a b i c ts)) \<le> (if i then 0 else 1)
   \<and> length (filter (\<lambda>e. e = Clear) (chaos_events a b i c ts)) \<le> (if c then 0 else 1)"
proof (induction ts arbitrary: i c)
  case (Cons t ts)
  show ?case using Cons.IH[of "i \<or> a \<le> t" "c \<or> b \<le> t"] by (auto simp: Let_def split: if_splits)
qed simp

lemma no_fault_before_it_goes_in:
  "a \<le> b \<Longrightarrow> Inject \<notin> set (chaos_events a b False c ts) \<Longrightarrow> \<not> c \<Longrightarrow> Clear \<notin> set (chaos_events a b False c ts)"
  by (induction ts) (auto simp: Let_def split: if_splits)

text \<open>A class none of whose requests was measured has a ceiling: the busiest level.\<close>

lemma an_unmeasured_class_has_a_ceiling:
  assumes "(cls, slo) \<in> set CLASS_SLOS" and "\<forall>l \<in> set ls. class_kinds cls l = []"
  shows "class_ceiling ls cls = Some (max_by lv_rps ls)"
proof -
  have "map_of CLASS_SLOS cls \<noteq> None" using assms(1) by (auto simp: CLASS_SLOS_def)
  then show ?thesis using assms(2) by (auto simp: class_ceiling_def meets_slo_def cong: filter_cong)
qed

text \<open>A soak whose last sample could not be read passes whatever errors there were.\<close>

lemma errors_vanish_with_the_last_sample:
  assumes "values_of (last ss) ''errors_total'' = []" and "length ss < 4" and "ss \<noteq> []"
  shows "soak_problems ss rss lat = Some []"
proof -
  have "drift ss n b = None" for n b
  proof -
    have "length (filter (\<lambda>s. values_of s n \<noteq> []) ss) < 4" using assms(2) le_less_trans[OF length_filter_le] by blast
    then show ?thesis by (simp add: drift_def drift_series_def Let_def)
  qed
  then show ?thesis using assms by (simp add: soak_problems_def grew_def final_total_def)
qed

section \<open>Properties\<close>

text \<open>The ceiling of a run is a level that met the objective, and no level that met it served more; it is missing
  exactly when no level met the objective. The same holds of the ceiling of a class of requests.\<close>

theorem a_ceiling_is_the_best_level_that_passed:
  assumes "map_of CLASS_SLOS cls = Some slo'"
  shows "(case run_ceiling slo ls of
      None \<Rightarrow> \<forall>l \<in> set ls. slo < ks_p95 (lv_all l) \<or> 1 \<le> ks_fail_pct (lv_all l)
    | Some b \<Rightarrow> b \<in> set ls \<and> ks_p95 (lv_all b) \<le> slo \<and> ks_fail_pct (lv_all b) < 1
        \<and> (\<forall>l \<in> set ls. ks_p95 (lv_all l) \<le> slo \<and> ks_fail_pct (lv_all l) < 1 \<longrightarrow> lv_rps l \<le> lv_rps b))
    \<and> (case class_ceiling ls cls of
      None \<Rightarrow> False
    | Some None \<Rightarrow> \<forall>l \<in> set ls. \<not> meets_slo slo' cls l
    | Some (Some b) \<Rightarrow> b \<in> set ls \<and> meets_slo slo' cls b \<and> (\<forall>l \<in> set ls. meets_slo slo' cls l \<longrightarrow> lv_rps l \<le> lv_rps b))"
  using assms
  by (auto simp: run_ceiling_def class_ceiling_def filter_empty_conv not_le not_less dest!: max_by_Some split: option.splits)

definition quick_level :: "int \<Rightarrow> real \<Rightarrow> real \<Rightarrow> load_level" where
  "quick_level users rps p95 =
     (let k = \<lparr>ks_requests = 10, ks_rps = rps, ks_p50 = 1, ks_p95 = p95, ks_p99 = 1, ks_fail_pct = 0\<rparr>
      in \<lparr>lv_users = users, lv_pods = None, lv_all = k, lv_kinds = [(''chat: cache hit'', k)]\<rparr>)"

lemma a_ceiling_is_the_best_level_that_passed_witness:
  "\<exists>b. run_ceiling 500 [quick_level 5 10 100, quick_level 9 30 900, quick_level 7 20 400] = Some b \<and> 20 \<le> lv_rps b"
  using a_ceiling_is_the_best_level_that_passed[where cls = "''chat''" and slo' = 500 and slo = 500 and
      ls = "[quick_level 5 10 100, quick_level 9 30 900, quick_level 7 20 400]"]
  by (auto simp: CLASS_SLOS_def quick_level_def lv_rps_def Let_def split: option.splits)

text \<open>A soak that passes has no slope: with four readings and a first quarter that is not zero, memory and
  latency ended at most the limit above where they began, up to the rounding of a tenth of a percent.\<close>

theorem a_soak_that_passes_has_no_slope:
  assumes "soak_problems ss rss_limit latency_limit = Some []" and "4 \<le> length xs" and "0 < fmean (take (length xs div 4) xs)"
    and "xs = drift_series ss ''api_rss_bytes'' True \<and> c = rss_limit \<or> xs = drift_series ss ''latency_p95'' False \<and> c = latency_limit"
  shows "fmean (drop (length xs - length xs div 4) xs) \<le> fmean (take (length xs div 4) xs) * (1 + (c + 1 / 20) / 100)"
proof -
  define a where "a = fmean (take (length xs div 4) xs)"
  define b where "b = fmean (drop (length xs - length xs div 4) xs)"
  have q: "max (length xs div 4) 1 = length xs div 4" using assms(2) by simp
  have ng: "\<not> grew (drift ss ''api_rss_bytes'' True) rss_limit" "\<not> grew (drift ss ''latency_p95'' False) latency_limit"
    using assms(1) by (auto simp: soak_problems_def split: if_splits)
  define z where "z = 100 * (b - a) / a"
  have "py_round 1 z \<le> c"
    using ng assms(2-4) q by (auto simp: grew_def drift_def Let_def a_def b_def z_def)
  then have "z \<le> c + 1 / 20" using py_round_ge[of z 1] by simp
  then have "100 * (b - a) / a \<le> c + 1 / 20" by (simp only: z_def)
  then have "100 * (b - a) \<le> (c + 1 / 20) * a" using assms(3) by (simp add: a_def pos_divide_le_eq)
  then show ?thesis by (simp add: a_def [symmetric] b_def [symmetric] field_simps)
qed

lemma a_soak_that_passes_has_no_slope_witness:
  "fmean [7 / 2] \<le> fmean [7 / 2 :: real] * (1 + (15 + 1 / 20) / 100)"
proof -
  let ?ss = "replicate 4 [(''api_rss_bytes'', [3, 4 :: real])]"
  have x: "drift_series ?ss ''api_rss_bytes'' True = [7 / 2, 7 / 2, 7 / 2, 7 / 2]"
    by (simp add: drift_series_def values_of_def fmean_def numeral_eq_Suc)
  have "drift ?ss ''latency_p95'' b = None" "drift ?ss ''api_open_fds'' b = None" for b
    by (simp_all add: drift_def drift_series_def values_of_def numeral_eq_Suc)
  moreover have "\<not> grew (drift ?ss ''api_rss_bytes'' True) 15"
    by (simp add: grew_def drift_def x fmean_def Let_def py_round_def)
  ultimately have p: "soak_problems ?ss 15 25 = Some []"
    by (simp add: soak_problems_def grew_def final_total_def values_of_def numeral_eq_Suc)
  show ?thesis
    using a_soak_that_passes_has_no_slope[OF p, where xs = "[7 / 2, 7 / 2, 7 / 2, 7 / 2]" and c = 15] x by (simp add: fmean_def)
qed

end
