(* ===== verification/Spec2Isabelle.thy ===== *)
theory Spec2Isabelle
  imports Alerts App_Start Corpus Eval_Run Load_Reports
begin

text \<open>
  A verification development of the gateway: a chat-completion proxy over several model providers with
  fallback, circuit breakers, canary releases of the route table, a semantic cache, rate limits and
  metering; and on top of it document ingestion, retrieval, grounded answers and a research agent.

  \<^bold>\<open>How the parts interact.\<close> A request passes the guards of \<open>app/api/deps.py\<close> (key or token, then the token
  bucket), reaches an endpoint, and from there the chat service, the retriever, the ingestion jobs or the
  agent. The chat service asks the semantic cache, then the router, then records usage and the verdict of
  the canary. The router walks the deployments of a route, guarded by circuit breakers whose state
  replicas share through Redis. Uploads are checked at the door, queued, chunked, embedded and stored for
  their tenant in Qdrant; answers and the agent retrieve passages and ask the chat service.

  \<^bold>\<open>Which theory models what\<close>, in the order of the imports:

  \<^item> \<open>Prelude\<close> (dictionaries in insertion order, Python's \<open>round\<close>), \<open>Text\<close> (\<open>str\<close>), \<open>Redis\<close> (the commands the program
    sends, with their documented effect \<open>doc\<close>; pipelines; JSON).
  \<^item> \<open>Circuit_Breaker\<close>, \<open>Breaker_Cluster\<close>: \<open>app/gateway/circuit_breaker.py\<close>, \<open>breaker_cluster.py\<close>.
  \<^item> \<open>Route_Table\<close>: \<open>gateway/schemas.py\<close>, \<open>routing_config.py\<close>, \<open>pricing.py\<close>. \<open>Providers\<close>: \<open>gateway/providers.py\<close>, \<open>faults.py\<close>.
  \<^item> \<open>Router\<close>, \<open>Router_Stream\<close>: whole answers and streams of \<open>gateway/router.py\<close>. \<open>Rollout\<close>: \<open>gateway/rollout.py\<close>.
  \<^item> \<open>Semantic_Cache\<close>: \<open>app/cache/semantic_cache.py\<close>. \<open>Metering\<close>: \<open>core/metering.py\<close>, \<open>api/account.py\<close>. \<open>Rate_Limit\<close>:
    \<open>core/rate_limit.py\<close>. \<open>Security\<close>: \<open>core/security.py\<close>, \<open>api/deps.py\<close>. \<open>Inference_Gate\<close>: \<open>core/concurrency.py\<close>.
  \<^item> \<open>Chat_Service\<close>: \<open>gateway/service.py\<close>, \<open>api/chat.py\<close>. \<open>Wire_Format\<close>: the JSON of \<open>gateway/schemas.py\<close>, and the clients that
    read a stream back (\<open>scripts/smoke_test.py\<close>, \<open>loadtest/self_hosted.py\<close>).
  \<^item> \<open>Chunking\<close>, \<open>Parsing\<close>, \<open>Documents\<close>, \<open>Lexical\<close>, \<open>Vector_Store\<close>, \<open>Retrieval\<close>, \<open>Ingestion\<close>, \<open>Rag_Service\<close>: the files of
    \<open>app/rag\<close>. \<open>Embeddings\<close>: \<open>core/embeddings.py\<close>. \<open>Ingest_Jobs\<close>: \<open>app/workers\<close>.
  \<^item> \<open>Agent_Graph\<close>: \<open>app/agents/graph.py\<close>. \<open>Agents\<close>: the nodes, prompts, state and service of \<open>app/agents\<close>.
    \<open>Research_Runs\<close>: what holds of a run.
  \<^item> \<open>Http_Api\<close>: \<open>app/main.py\<close> (the error envelope), \<open>api/rag.py\<close>, \<open>api/agents.py\<close>, \<open>api/health.py\<close>. \<open>Alerts\<close>: \<open>api/alerts.py\<close>.
    \<open>Admin_Api\<close>: \<open>api/admin.py\<close>. \<open>Wiring\<close>: \<open>core/config.py\<close>, \<open>core/container.py\<close>.
  \<^item> \<open>Observability\<close>: \<open>observability/tracing.py\<close>, \<open>middleware.py\<close>, \<open>core/logging.py\<close>. \<open>Celery_Worker\<close>: \<open>workers/celery_app.py\<close> and
    the Celery queue. \<open>Demo\<close>: \<open>app/demo.py\<close>. \<open>App_Start\<close>: the lifespan of \<open>main.py\<close>, the tracer and queue of
    \<open>core/container.py\<close>, and the small endpoints.
  \<^item> \<open>Retrieval_Eval\<close>, \<open>Answer_Eval\<close>, \<open>Corpus\<close>: \<open>eval/retrieval_eval.py\<close>, \<open>answer_eval.py\<close>, \<open>generate_corpus.py\<close>.
    \<open>Load_Reports\<close>: the judgements of \<open>loadtest/run_load.py\<close>, \<open>report.py\<close>, \<open>soak.py\<close> and \<open>chaos.py\<close>. \<open>Load_Drivers\<close>: what
    \<open>locustfile.py\<close>, \<open>autoscale.py\<close> and \<open>self_hosted.py\<close> make of what they see. \<open>Eval_Run\<close>: the life of an evaluation and of
    a load test on a gateway.

  \<^bold>\<open>How state and operations correspond.\<close> An object's mutable fields are a record (\<open>breaker\<close>, \<open>cluster\<close>, \<open>manager\<close>,
  \<open>gateway\<close>, \<open>chat_state\<close>, \<open>research_state\<close>, ...), and a method is a function that takes the record and the outside
  world \<open>'w\<close> and returns its result with both. The world is whatever Redis, Qdrant, the models and the
  clock live in; a client is a function on it. An exception is a value: \<open>Inl\<close> of an error type where the
  program catches or translates it, \<open>None\<close> where it only passes through. An \<open>await\<close> is a call; where
  the interleaving of tasks is the point (the inference gate, replicas, several hits on a bucket) there is
  a step relation or an explicit history. An asynchronous generator is the list of what it yields
  together with how it ends; a client that hangs up is a number of chunks after which it does.

  \<^bold>\<open>What the lemmas show.\<close> Each theory ends with its properties; the lemmas before them are the effects and
  frames of the operations. The contracts are locales, interpreted on the program's own operations:
  \<open>circuit\<close> (breakers as a three-state specification), \<open>deployment_trial\<close> (what the two walks of the router rely on),
  \<open>vector_index\<close> (the cache's index), \<open>chunker\<close> (numbered and paged chunks), \<open>guarded_graph\<close> and \<open>settling_graph\<close>
  (invariants and termination of an agent graph). The properties are these: answers fall back in order
  and are billed once, whole or streamed; breakers get one verdict per call; a cache, a search, an
  answer and an agent never cross tenants; limits and gates hold over any history; a bad canary
  withdraws itself and a promoted one serves everyone; jobs reach a verdict, on Celery also when workers
  are killed; a client reads back the stream it was sent; tracing never changes a request; a started demo is loaded and kept to its tenant; uploads are stored
  whole and chunked without loss; registries refine maps; a run of the agent settles within its budget;
  the doors of the API agree with what is behind them.

  \<^bold>\<open>Hypotheses on what is not source.\<close> \<open>redis_ok\<close> and \<open>redis_down\<close> (replies and effects of the commands),
  \<open>qdrant_ok\<close> and \<open>qdrant_reads\<close> (filters, upserts, searches), \<open>jwt_ok\<close> (decoding what was encoded), injective or
  fixed-length digests where a property needs them, \<open>reads_lines\<close> and \<open>printed_well\<close> (the line reader of httpx, the JSON
  text of the chunks at hand). Each has a concrete instance in the witnesses.

  \<^bold>\<open>Bounds and fuel.\<close> Loops over lists are structural. The graph engine runs under the budget of the program
  itself; \<open>4 + 2 * revisions\<close> steps are enough, at most 10, and the default is 12. The inline job queue
  retries at most \<open>max_attempts\<close> times, a provider call \<open>max_retries + 1\<close> times, the client of the answer
  evaluation four times. The event list of a stream is finite: a provider that never ends and never
  times out is not considered. One loop of the program may not end, the draw of service names in
  \<open>Corpus\<close>: it is a \<open>partial_function (option)\<close>, and its theorem says when it returns. A Celery message is settled
  within \<open>max_attempts + 1\<close> deliveries, killed ones included. The polls of \<open>Eval_Run\<close> have fuel, and \<open>Waiting\<close> is its
  end; the waits of \<open>Load_Drivers\<close> run over the readings taken, and \<open>settle_ends\<close> says how many are enough.

  \<^bold>\<open>Conventions.\<close> \<open>float\<close> is \<open>real\<close>, so rounding errors are not seen, only the program's own \<open>round\<close>. Characters are those
  below 256. Python's unbounded integers are \<open>int\<close>; lengths and counters that never go below 0 are \<open>nat\<close>;
  CRC-32 and the term ids of \<open>Lexical\<close> are 32-bit words.

  \<^bold>\<open>Not modelled.\<close> The declarations of the Prometheus metrics (the token and cost counters are part of the router's
  state, the job gauges of \<open>App_Start\<close>); the set-up of log handlers and of worker processes; FastAPI's own routing;
  YAML, pydantic's field checks and JSON text (libraries); pypdf, SHA-256, BLAKE2b, PyJWT, ONNX models,
  LiteLLM, Langfuse, Redis, Qdrant and Celery (parameters, or a step relation of documented behaviour); the
  creation of the RediSearch index; the text of the demo's page; what the load tests and the operator scripts do through
  kubectl, Prometheus and a container engine, and the layout of their reports.
\<close>

end
